(* ===== verification/Prelude.thy ===== *)
theory Prelude
  imports Main "HOL-Library.Word"
begin

text \<open>
  What the components share: the machine types of the Rust sources, a panic as a value of a
  sum type with its sequencing operator, little-endian byte encodings of fixed-width
  integers, and the two slice operations (read a sub-slice, overwrite a sub-slice) that the
  drivers, the file system and the page tables all use, with their read-over-write laws.
\<close>

section \<open>Machine types\<close>

type_synonym u8 = "8 word"
type_synonym u16 = "16 word"
type_synonym u32 = "32 word"
type_synonym u64 = "64 word"
type_synonym usize = "64 word"

named_theorems res_simps \<open>equations of the result type\<close>
named_theorems slice_simps \<open>lengths and read-over-write laws of slices\<close>

section \<open>Panics as values\<close>

text \<open>
  A Rust function that may panic returns \<open>fault + 'a\<close>: \<open>Inl\<close> is the panic that stops the
  kernel, \<open>Inr\<close> the ordinary result. \<open>OutOfFuel\<close> is no panic of the source: it is the
  result of a loop whose iterations were bounded by too small a number.
\<close>

datatype fault =
    UnwrapNone
  | AssertFailed
  | IndexOutOfBounds
  | DivideByZero
  | ExplicitPanic string
  | OutOfFuel

type_synonym 'a res = "fault + 'a"

definition bindR :: "'a res \<Rightarrow> ('a \<Rightarrow> 'b res) \<Rightarrow> 'b res" where
  "bindR r f = (case r of Inl e \<Rightarrow> Inl e | Inr x \<Rightarrow> f x)"

definition assertR :: "bool \<Rightarrow> unit res" where
  "assertR b = (if b then Inr () else Inl AssertFailed)"

definition unwrapR :: "'a option \<Rightarrow> 'a res" where
  "unwrapR v = (case v of None \<Rightarrow> Inl UnwrapNone | Some x \<Rightarrow> Inr x)"

definition indexR :: "'a list \<Rightarrow> nat \<Rightarrow> 'a res" where
  "indexR xs i = (if i < length xs then Inr (xs ! i) else Inl IndexOutOfBounds)"

lemma bindR_simps [simp, res_simps]:
  "bindR (Inr x) f = f x"
  "bindR (Inl e) f = Inl e"
  by (simp_all add: bindR_def)

lemma bindR_eq_Inr [res_simps]:
  "bindR r f = Inr y \<longleftrightarrow> (\<exists>x. r = Inr x \<and> f x = Inr y)"
  by (cases r) simp_all

lemma bindR_InrE [elim]:
  assumes "bindR r f = Inr y"
  obtains x where "r = Inr x" and "f x = Inr y"
  using assms by (cases r) simp_all

lemma bindR_assoc: "bindR (bindR r f) g = bindR r (\<lambda>x. bindR (f x) g)"
  by (cases r) simp_all

lemma bindR_cong [fundef_cong]:
  "r = r' \<Longrightarrow> (\<And>x. r' = Inr x \<Longrightarrow> f x = f' x) \<Longrightarrow> bindR r f = bindR r' f'"
  by (cases r') simp_all

lemma assertR_eq_Inr [simp]: "assertR b = Inr u \<longleftrightarrow> b"
  by (simp add: assertR_def)

lemma assertR_True [simp]: "assertR True = Inr ()"
  by (simp add: assertR_def)

lemma unwrapR_simps [simp]:
  "unwrapR (Some x) = Inr x"
  "unwrapR None = Inl UnwrapNone"
  by (simp_all add: unwrapR_def)

lemma unwrapR_eq_Inr [simp]: "unwrapR v = Inr x \<longleftrightarrow> v = Some x"
  by (cases v) simp_all

lemma indexR_eq_Inr [simp]: "indexR xs i = Inr x \<longleftrightarrow> i < length xs \<and> x = xs ! i"
  by (auto simp add: indexR_def)

section \<open>Searching a list from the front\<close>

text \<open>
  \<open>iter().enumerate().find(p)\<close> of the sources: the first position whose element satisfies
  the predicate.
\<close>

fun find_index :: "('a \<Rightarrow> bool) \<Rightarrow> 'a list \<Rightarrow> nat option" where
  "find_index p [] = None"
| "find_index p (x # xs) = (if p x then Some 0 else map_option Suc (find_index p xs))"

lemma find_index_None_iff [simp]: "find_index p xs = None \<longleftrightarrow> (\<forall>x \<in> set xs. \<not> p x)"
  by (induction xs) auto

lemma find_index_SomeD:
  "find_index p xs = Some i \<Longrightarrow> i < length xs \<and> p (xs ! i) \<and> (\<forall>j < i. \<not> p (xs ! j))"
proof (induction xs arbitrary: i)
  case Nil
  then show ?case by simp
next
  case (Cons x xs)
  show ?case
  proof (cases "p x")
    case True
    with Cons.prems show ?thesis by simp
  next
    case False
    with Cons.prems obtain k where k: "find_index p xs = Some k" "i = Suc k" by auto
    from Cons.IH [OF k(1)] have *: "k < length xs" "p (xs ! k)" "\<forall>j < k. \<not> p (xs ! j)"
      by simp_all
    have "\<not> p ((x # xs) ! j)" if "j < i" for j
      using that False * k(2) by (cases j) simp_all
    with * k(2) show ?thesis by simp
  qed
qed

lemma find_index_ex: "\<exists>x \<in> set xs. p x \<Longrightarrow> \<exists>i. find_index p xs = Some i"
  by (cases "find_index p xs") auto

section \<open>Slices\<close>

definition slice :: "nat \<Rightarrow> nat \<Rightarrow> 'a list \<Rightarrow> 'a list" where
  "slice off n xs = take n (drop off xs)"

definition overwrite :: "nat \<Rightarrow> 'a list \<Rightarrow> 'a list \<Rightarrow> 'a list" where
  "overwrite off src dst = take off dst @ src @ drop (off + length src) dst"

definition sliceR :: "'a list \<Rightarrow> nat \<Rightarrow> nat \<Rightarrow> 'a list res" where
  "sliceR xs a b = (if a \<le> b \<and> b \<le> length xs then Inr (slice a (b - a) xs) else Inl IndexOutOfBounds)"

lemma length_slice [simp, slice_simps]: "length (slice off n xs) = min n (length xs - off)"
  by (simp add: slice_def)

lemma length_overwrite [simp, slice_simps]:
  "off + length src \<le> length dst \<Longrightarrow> length (overwrite off src dst) = length dst"
  by (simp add: overwrite_def)

lemma nth_overwrite:
  "off + length src \<le> length dst \<Longrightarrow> i < length dst \<Longrightarrow>
   overwrite off src dst ! i =
     (if off \<le> i \<and> i < off + length src then src ! (i - off) else dst ! i)"
  by (auto simp: overwrite_def nth_append min_def not_le not_less)

lemma nth_slice: "i < n \<Longrightarrow> off + n \<le> length xs \<Longrightarrow> slice off n xs ! i = xs ! (off + i)"
  by (simp add: slice_def)

lemma slice_overwrite_same [slice_simps]:
  "off + length src \<le> length dst \<Longrightarrow> n = length src \<Longrightarrow>
   slice off n (overwrite off src dst) = src"
  by (simp add: slice_def overwrite_def)

lemma slice_overwrite_disjoint [slice_simps]:
  assumes "off + length src \<le> length dst" and "off' + n \<le> length dst"
    and "off' + n \<le> off \<or> off + length src \<le> off'"
  shows "slice off' n (overwrite off src dst) = slice off' n dst"
proof (rule nth_equalityI)
  show "length (slice off' n (overwrite off src dst)) = length (slice off' n dst)"
    using assms by simp
next
  fix i
  assume "i < length (slice off' n (overwrite off src dst))"
  with assms have i: "i < n" by simp
  with assms show "slice off' n (overwrite off src dst) ! i = slice off' n dst ! i"
    by (auto simp: nth_slice nth_overwrite)
qed

lemma overwrite_slice_id: "off + n \<le> length xs \<Longrightarrow> overwrite off (slice off n xs) xs = xs"
  by (rule nth_equalityI) (auto simp: nth_overwrite nth_slice)

lemma overwrite_all: "length src = length dst \<Longrightarrow> overwrite 0 src dst = src"
  by (simp add: overwrite_def)

lemma slice_all: "length xs = n \<Longrightarrow> slice 0 n xs = xs"
  by (simp add: slice_def)

section \<open>Little-endian integers\<close>

lemma unat_bounds:
  "unat (a :: u8) < 256" "unat (b :: u16) < 65536" "unat (c :: u32) < 4294967296"
  "unat (d :: u64) < 18446744073709551616"
  using unsigned_less [of a, where ?'a = nat] unsigned_less [of b, where ?'a = nat]
    unsigned_less [of c, where ?'a = nat] unsigned_less [of d, where ?'a = nat]
  by simp_all

lemma unat_inc:
  assumes "(x :: 'a::len word) < y"
  shows "unat (x + 1) = Suc (unat x)"
proof -
  have "unat x < unat y" using assms by (simp only: word_less_nat_alt)
  then have "Suc (unat x) \<le> unat y" by simp
  also have "\<dots> < 2 ^ LENGTH('a)" by (rule unsigned_less)
  finally have "unat x + unat (1 :: 'a word) < 2 ^ LENGTH('a)" by simp
  then have "unat (x + 1) = unat x + unat (1 :: 'a word)" by (simp only: unat_add_lem)
  then show ?thesis by simp
qed

lemma word_less_inc:
  assumes "(x :: 'a::len word) < y"
  shows "z < x + 1 \<longleftrightarrow> z \<le> x"
  by (simp only: word_less_nat_alt word_le_nat_alt unat_inc [OF assms] less_Suc_eq_le)

fun le_bytes :: "nat \<Rightarrow> nat \<Rightarrow> u8 list" where
  "le_bytes 0 k = []"
| "le_bytes (Suc n) k = word_of_nat k # le_bytes n (k div 256)"

fun of_le :: "u8 list \<Rightarrow> nat" where
  "of_le [] = 0"
| "of_le (b # bs) = unat b + 256 * of_le bs"

lemma length_le_bytes [simp]: "length (le_bytes n k) = n"
  by (induction n arbitrary: k) simp_all

lemma of_le_le_bytes: "of_le (le_bytes n k) = k mod 256 ^ n"
proof (induction n arbitrary: k)
  case 0
  then show ?case by simp
next
  case (Suc n)
  have "of_le (le_bytes (Suc n) k) = k mod 256 + 256 * (k div 256 mod 256 ^ n)"
    by (simp add: Suc unat_of_nat take_bit_eq_mod)
  also have "\<dots> = k mod (256 * 256 ^ n)"
    by (simp add: mod_mult2_eq)
  finally show ?case by simp
qed

lemma of_le_less: "of_le bs < 256 ^ length bs"
proof (induction bs)
  case Nil
  then show ?case by simp
next
  case (Cons b bs)
  have "unat b < 256" by (rule unat_bounds)
  with Cons show ?case by simp
qed

lemma le_bytes_of_le: "le_bytes (length bs) (of_le bs) = bs"
proof (induction bs)
  case Nil
  then show ?case by simp
next
  case (Cons b bs)
  have b: "unat b < 256" by (rule unat_bounds)
  have z: "(256 :: u8) = 0" by simp
  have "(unat b + 256 * of_le bs) div 256 = of_le bs"
    using b by simp
  moreover have "(word_of_nat (unat b + 256 * of_le bs) :: u8) = b"
    by (simp only: of_nat_add of_nat_mult of_nat_numeral z of_nat_unat ucast_id mult_zero_left
        add_0_right)
  ultimately show ?case using Cons by simp
qed

lemma of_le_inj: "length xs = length ys \<Longrightarrow> of_le xs = of_le ys \<longleftrightarrow> xs = ys"
  by (metis le_bytes_of_le)

text \<open>The three integer widths of the on-disk and in-memory structures.\<close>

definition le16 :: "u16 \<Rightarrow> u8 list" where "le16 w = le_bytes 2 (unat w)"
definition le32 :: "u32 \<Rightarrow> u8 list" where "le32 w = le_bytes 4 (unat w)"
definition le64 :: "u64 \<Rightarrow> u8 list" where "le64 w = le_bytes 8 (unat w)"
definition de16 :: "u8 list \<Rightarrow> u16" where "de16 bs = word_of_nat (of_le bs)"
definition de32 :: "u8 list \<Rightarrow> u32" where "de32 bs = word_of_nat (of_le bs)"
definition de64 :: "u8 list \<Rightarrow> u64" where "de64 bs = word_of_nat (of_le bs)"

lemma length_le_words [simp]:
  "length (le16 w) = 2" "length (le32 v) = 4" "length (le64 u) = 8"
  by (simp_all add: le16_def le32_def le64_def)

lemma de_le_words [simp]:
  "de16 (le16 w) = w" "de32 (le32 v) = v" "de64 (le64 u) = u"
  using unat_bounds(2) [of w] unat_bounds(3) [of v] unat_bounds(4) [of u]
  by (simp_all add: le16_def le32_def le64_def de16_def de32_def de64_def of_le_le_bytes)

lemma le_de_words:
  "length bs = 2 \<Longrightarrow> le16 (de16 bs) = bs"
  "length cs = 4 \<Longrightarrow> le32 (de32 cs) = cs"
  "length ds = 8 \<Longrightarrow> le64 (de64 ds) = ds"
  using of_le_less [of bs] of_le_less [of cs] of_le_less [of ds]
    le_bytes_of_le [of bs] le_bytes_of_le [of cs] le_bytes_of_le [of ds]
  by (simp_all add: le16_def le32_def le64_def de16_def de32_def de64_def unat_of_nat
        take_bit_eq_mod)

end
