(* ===== verification/Fifo.thy ===== *)
theory Fifo
  imports Prelude
begin

text \<open>
  The contract of a bounded first-in first-out buffer, as the pipe (os/src/fs/pipe.rs) relies on
  it: \<open>push\<close> appends while there is room, \<open>pop\<close> takes from the front while there is something.
  The lemmas on sequences of operations are proved once from the contract.
\<close>

datatype 'a fifo_event = Push 'a | Pop 'a

text \<open>Runs of pushes within the capacity and pops of non-empty buffers, with their events.\<close>

inductive fifo_run ::
  "('s \<Rightarrow> 'a \<Rightarrow> 's) \<Rightarrow> ('s \<Rightarrow> 'a \<times> 's) \<Rightarrow> ('s \<Rightarrow> 'a list) \<Rightarrow> nat \<Rightarrow> 's \<Rightarrow> 'a fifo_event list \<Rightarrow> 's \<Rightarrow> bool"
  for push :: "'s \<Rightarrow> 'a \<Rightarrow> 's" and pop :: "'s \<Rightarrow> 'a \<times> 's" and items :: "'s \<Rightarrow> 'a list" and cap :: nat
    and s0 :: 's
where
  run_start: "fifo_run push pop items cap s0 [] s0"
| run_push: "fifo_run push pop items cap s0 es s \<Longrightarrow> length (items s) < cap \<Longrightarrow>
     fifo_run push pop items cap s0 (es @ [Push x]) (push s x)"
| run_pop: "fifo_run push pop items cap s0 es s \<Longrightarrow> items s \<noteq> [] \<Longrightarrow> pop s = (x, s') \<Longrightarrow>
     fifo_run push pop items cap s0 (es @ [Pop x]) s'"

fun pushed :: "'a fifo_event list \<Rightarrow> 'a list" where
  "pushed [] = []"
| "pushed (Push x # es) = x # pushed es"
| "pushed (Pop x # es) = pushed es"

fun popped :: "'a fifo_event list \<Rightarrow> 'a list" where
  "popped [] = []"
| "popped (Push x # es) = popped es"
| "popped (Pop x # es) = x # popped es"

lemma pushed_append [simp]: "pushed (es @ fs) = pushed es @ pushed fs"
  by (induction es rule: pushed.induct) auto

lemma popped_append [simp]: "popped (es @ fs) = popped es @ popped fs"
  by (induction es rule: popped.induct) auto

fun pop_n :: "('s \<Rightarrow> 'a \<times> 's) \<Rightarrow> nat \<Rightarrow> 's \<Rightarrow> 'a list \<times> 's" where
  "pop_n pop 0 s = ([], s)"
| "pop_n pop (Suc n) s = (case pop s of (x, s') \<Rightarrow> case pop_n pop n s' of (xs, s'') \<Rightarrow> (x # xs, s''))"

locale fifo =
  fixes push :: "'s \<Rightarrow> 'a \<Rightarrow> 's"
    and pop :: "'s \<Rightarrow> 'a \<times> 's"
    and items :: "'s \<Rightarrow> 'a list"
    and finv :: "'s \<Rightarrow> bool"
    and cap :: nat
  assumes push_inv: "finv s \<Longrightarrow> length (items s) < cap \<Longrightarrow> finv (push s x)"
    and push_items: "finv s \<Longrightarrow> length (items s) < cap \<Longrightarrow> items (push s x) = items s @ [x]"
    and pop_inv: "finv s \<Longrightarrow> items s \<noteq> [] \<Longrightarrow> finv (snd (pop s))"
    and pop_items: "finv s \<Longrightarrow> items s \<noteq> [] \<Longrightarrow> items s = fst (pop s) # items (snd (pop s))"
    and bounded: "finv s \<Longrightarrow> length (items s) \<le> cap"
begin

lemma push_all:
  "finv s \<Longrightarrow> length (items s) + length xs \<le> cap \<Longrightarrow>
   finv (foldl push s xs) \<and> items (foldl push s xs) = items s @ xs"
proof (induction xs arbitrary: s)
  case (Cons x xs)
  then have "length (items s) < cap" by simp
  with Cons push_inv [of s x] push_items [of s x] show ?case by simp
qed simp

lemma pop_all:
  "finv s \<Longrightarrow> n \<le> length (items s) \<Longrightarrow>
   finv (snd (pop_n pop n s)) \<and> fst (pop_n pop n s) = take n (items s) \<and>
   items (snd (pop_n pop n s)) = drop n (items s)"
proof (induction n arbitrary: s)
  case (Suc n)
  then have ne: "items s \<noteq> []" by auto
  obtain x s' where p: "pop s = (x, s')" by fastforce
  with pop_inv [OF Suc.prems(1) ne] pop_items [OF Suc.prems(1) ne]
  have "finv s'" "items s = x # items s'" by auto
  with Suc.IH [of s'] Suc.prems(2) p show ?case by (auto split: prod.splits)
qed simp

lemma run_fifo:
  assumes "fifo_run push pop items cap s0 es s" and "finv s0" and "items s0 = []"
  shows "finv s \<and> pushed es = popped es @ items s \<and> length (items s) \<le> cap"
  using assms(1)
proof (induction rule: fifo_run.induct)
  case run_start
  then show ?case using assms(2,3) bounded by simp
next
  case (run_push es s x)
  then show ?case using push_inv [of s x] push_items [of s x] bounded by simp
next
  case (run_pop es s x s')
  then show ?case using pop_inv [of s] pop_items [of s] bounded [of s'] by simp
qed

end

end
