(* ===== verification/Address.thy ===== *)
theory Address
  imports Prelude
begin

text \<open>
  Physical and virtual addresses and page numbers (os/src/mm/address.rs) with the layout
  constants of os/src/config.rs. Every newtype over \<open>usize\<close> is a datatype over a 64-bit
  word, so that masks, shifts and the wrap-around of \<open>self.0 - 1 + PAGE_SIZE\<close> are those of
  the release build.
\<close>

unbundle bit_operations_syntax

section \<open>Constants of the kernel\<close>

definition PAGE_SIZE_BITS :: nat where "PAGE_SIZE_BITS = 12"
definition PAGE_SIZE :: usize where "PAGE_SIZE = 4096"
definition USER_STACK_SIZE :: usize where "USER_STACK_SIZE = 4096 * 3"
definition KERNEL_STACK_SIZE :: usize where "KERNEL_STACK_SIZE = 4096 * 2"
definition TRAMPOLINE :: usize where "TRAMPOLINE = (- 1) - PAGE_SIZE + 1"
definition TRAP_CONTEXT_BASE :: usize where "TRAP_CONTEXT_BASE = TRAMPOLINE - PAGE_SIZE"
definition MEMORY_END :: usize where "MEMORY_END = 2281701376"
definition MMIO :: "(usize \<times> usize) list" where "MMIO = [(268439552, 4096)]"

definition PA_WIDTH_SV39 :: nat where "PA_WIDTH_SV39 = 56"
definition VA_WIDTH_SV39 :: nat where "VA_WIDTH_SV39 = 39"
definition PPN_WIDTH_SV39 :: nat where "PPN_WIDTH_SV39 = PA_WIDTH_SV39 - PAGE_SIZE_BITS"
definition VPN_WIDTH_SV39 :: nat where "VPN_WIDTH_SV39 = VA_WIDTH_SV39 - PAGE_SIZE_BITS"

lemmas config_defs =
  PAGE_SIZE_BITS_def PAGE_SIZE_def USER_STACK_SIZE_def KERNEL_STACK_SIZE_def TRAMPOLINE_def
  TRAP_CONTEXT_BASE_def MEMORY_END_def MMIO_def PA_WIDTH_SV39_def VA_WIDTH_SV39_def
  PPN_WIDTH_SV39_def VPN_WIDTH_SV39_def

section \<open>The four newtypes\<close>

datatype PhysAddr = PhysAddr (pa0: usize)
datatype VirtAddr = VirtAddr (va0: usize)
datatype PhysPageNum = PhysPageNum (ppn0: usize)
datatype VirtPageNum = VirtPageNum (vpn0: usize)

lemma ppn_eq_iff: "p = q \<longleftrightarrow> ppn0 p = ppn0 q"
  by (cases p; cases q) simp

lemma ppn_set_eqI:
  assumes "\<And>w. PhysPageNum w \<in> A \<longleftrightarrow> PhysPageNum w \<in> B"
  shows "A = B"
proof (rule set_eqI)
  fix p
  show "p \<in> A \<longleftrightarrow> p \<in> B" using assms by (cases p) simp
qed

lemma vpn_eq_iff: "v = w \<longleftrightarrow> vpn0 v = vpn0 w"
  by (cases v; cases w) simp

text \<open>\<open>#[derive(Ord)]\<close> on a newtype compares the wrapped values.\<close>

instantiation VirtPageNum :: linorder
begin

definition less_eq_VirtPageNum :: "VirtPageNum \<Rightarrow> VirtPageNum \<Rightarrow> bool" where
  "less_eq_VirtPageNum a b \<longleftrightarrow> vpn0 a \<le> vpn0 b"

definition less_VirtPageNum :: "VirtPageNum \<Rightarrow> VirtPageNum \<Rightarrow> bool" where
  "less_VirtPageNum a b \<longleftrightarrow> vpn0 a < vpn0 b"

instance
  by standard
    (auto simp: less_eq_VirtPageNum_def less_VirtPageNum_def VirtPageNum.expand)

end

instantiation VirtAddr :: linorder
begin

definition less_eq_VirtAddr :: "VirtAddr \<Rightarrow> VirtAddr \<Rightarrow> bool" where
  "less_eq_VirtAddr a b \<longleftrightarrow> va0 a \<le> va0 b"

definition less_VirtAddr :: "VirtAddr \<Rightarrow> VirtAddr \<Rightarrow> bool" where
  "less_VirtAddr a b \<longleftrightarrow> va0 a < va0 b"

instance
  by standard (auto simp: less_eq_VirtAddr_def less_VirtAddr_def VirtAddr.expand)

end

section \<open>Conversions\<close>

definition PhysAddr_from :: "usize \<Rightarrow> PhysAddr" where
  "PhysAddr_from v = PhysAddr (v AND (push_bit PA_WIDTH_SV39 1 - 1))"

definition PhysPageNum_from :: "usize \<Rightarrow> PhysPageNum" where
  "PhysPageNum_from v = PhysPageNum (v AND (push_bit PPN_WIDTH_SV39 1 - 1))"

definition VirtAddr_from :: "usize \<Rightarrow> VirtAddr" where
  "VirtAddr_from v = VirtAddr (v AND (push_bit VA_WIDTH_SV39 1 - 1))"

definition VirtPageNum_from :: "usize \<Rightarrow> VirtPageNum" where
  "VirtPageNum_from v = VirtPageNum (v AND (push_bit VPN_WIDTH_SV39 1 - 1))"

definition usize_of_va :: "VirtAddr \<Rightarrow> usize" where
  "usize_of_va v =
     (if push_bit (VA_WIDTH_SV39 - 1) 1 \<le> va0 v
      then va0 v OR NOT (push_bit VA_WIDTH_SV39 1 - 1)
      else va0 v)"

definition va_floor :: "VirtAddr \<Rightarrow> VirtPageNum" where
  "va_floor v = VirtPageNum (va0 v div PAGE_SIZE)"

definition va_ceil :: "VirtAddr \<Rightarrow> VirtPageNum" where
  "va_ceil v = VirtPageNum ((va0 v - 1 + PAGE_SIZE) div PAGE_SIZE)"

definition va_page_offset :: "VirtAddr \<Rightarrow> usize" where
  "va_page_offset v = va0 v AND (PAGE_SIZE - 1)"

definition va_aligned :: "VirtAddr \<Rightarrow> bool" where
  "va_aligned v \<longleftrightarrow> va_page_offset v = 0"

definition vpn_of_va :: "VirtAddr \<Rightarrow> VirtPageNum res" where
  "vpn_of_va v = bindR (assertR (va_page_offset v = 0)) (\<lambda>_. Inr (va_floor v))"

definition va_of_vpn :: "VirtPageNum \<Rightarrow> VirtAddr" where
  "va_of_vpn v = VirtAddr (push_bit PAGE_SIZE_BITS (vpn0 v))"

definition pa_floor :: "PhysAddr \<Rightarrow> PhysPageNum" where
  "pa_floor p = PhysPageNum (pa0 p div PAGE_SIZE)"

definition pa_ceil :: "PhysAddr \<Rightarrow> PhysPageNum" where
  "pa_ceil p = PhysPageNum ((pa0 p - 1 + PAGE_SIZE) div PAGE_SIZE)"

definition pa_page_offset :: "PhysAddr \<Rightarrow> usize" where
  "pa_page_offset p = pa0 p AND (PAGE_SIZE - 1)"

definition pa_aligned :: "PhysAddr \<Rightarrow> bool" where
  "pa_aligned p \<longleftrightarrow> pa_page_offset p = 0"

definition ppn_of_pa :: "PhysAddr \<Rightarrow> PhysPageNum res" where
  "ppn_of_pa p = bindR (assertR (pa_page_offset p = 0)) (\<lambda>_. Inr (pa_floor p))"

definition pa_of_ppn :: "PhysPageNum \<Rightarrow> PhysAddr" where
  "pa_of_ppn p = PhysAddr (push_bit PAGE_SIZE_BITS (ppn0 p))"

section \<open>Page-table indexes and ranges of page numbers\<close>

text \<open>
  The loop of \<open>indexes\<close> runs \<open>i = 2, 1, 0\<close>: it stores the low nine bits at \<open>i\<close> and shifts
  the page number right by nine.
\<close>

fun indexes_loop :: "nat list \<Rightarrow> usize \<Rightarrow> usize list \<Rightarrow> usize list" where
  "indexes_loop [] vpn idx = idx"
| "indexes_loop (i # is) vpn idx = indexes_loop is (drop_bit 9 vpn) (idx[i := vpn AND 511])"

definition indexes :: "VirtPageNum \<Rightarrow> usize list" where
  "indexes v = indexes_loop (rev [0..<3]) (vpn0 v) [0, 0, 0]"

definition vpn_step :: "VirtPageNum \<Rightarrow> VirtPageNum" where
  "vpn_step v = VirtPageNum (vpn0 v + 1)"

record VPNRange =
  range_l :: VirtPageNum
  range_r :: VirtPageNum

definition VPNRange_new :: "VirtPageNum \<Rightarrow> VirtPageNum \<Rightarrow> VPNRange res" where
  "VPNRange_new start stop =
     bindR (assertR (start \<le> stop)) (\<lambda>_. Inr \<lparr>range_l = start, range_r = stop\<rparr>)"

text \<open>
  The iterator compares with \<open>==\<close> and steps by one; from a start that is not above the end it
  stops because the distance to the end shrinks.
\<close>

function range_iter :: "VirtPageNum \<Rightarrow> VirtPageNum \<Rightarrow> VirtPageNum list" where
  "range_iter current stop =
     (if current = stop then [] else current # range_iter (vpn_step current) stop)"
  by pat_completeness auto
termination
proof (relation "measure (\<lambda>(c, e). unat (vpn0 e - vpn0 c))")
  show "wf (measure (\<lambda>(c, e). unat (vpn0 e - vpn0 c)))" by simp
next
  fix c e :: VirtPageNum
  assume "c \<noteq> e"
  then have "vpn0 e - vpn0 c \<noteq> 0"
    by (metis VirtPageNum.expand eq_iff_diff_eq_0)
  then have "unat (vpn0 e - vpn0 c - 1) < unat (vpn0 e - vpn0 c)"
    by (metis diff_less less_one unat_gt_0 unat_minus_one)
  then show "((vpn_step c, e), c, e) \<in> measure (\<lambda>(c, e). unat (vpn0 e - vpn0 c))"
    by (simp add: vpn_step_def diff_diff_add)
qed

declare range_iter.simps [simp del]

definition vpns_of :: "VPNRange \<Rightarrow> VirtPageNum list" where
  "vpns_of r = range_iter (range_l r) (range_r r)"

section \<open>Facts on masks, division and indexes\<close>

lemma push_bit_minus_mask [simp]: "push_bit n 1 - 1 = (mask n :: usize)"
  by (simp add: mask_eq_exp_minus_1 push_bit_eq_mult)

lemma unat_and_mask: "unat ((w :: usize) AND mask n) = unat w mod 2 ^ n"
  by (metis take_bit_eq_mask take_bit_eq_mod unsigned_take_bit_eq)

lemma page_mask [simp]: "PAGE_SIZE - 1 = mask 12"
  by (simp add: PAGE_SIZE_def mask_eq_exp_minus_1)

lemma unat_PAGE_SIZE [simp]: "unat PAGE_SIZE = 4096"
  by (simp add: PAGE_SIZE_def)

lemma unat_va_floor: "unat (vpn0 (va_floor v)) = unat (va0 v) div 4096"
  by (simp add: va_floor_def unat_div)

lemma unat_va_page_offset: "unat (va_page_offset v) = unat (va0 v) mod 4096"
  by (simp add: va_page_offset_def unat_and_mask)

lemma unat_ceil_div:
  fixes a :: usize
  assumes "unat a + 4095 < 2 ^ 64"
  shows "unat ((a - 1 + PAGE_SIZE) div PAGE_SIZE) = (unat a + 4095) div 4096"
proof -
  have "a - 1 + PAGE_SIZE = a + 4095" by (simp add: PAGE_SIZE_def)
  moreover have "unat (a + 4095) = unat a + 4095"
    using assms by (subst unat_add_lem [THEN iffD1]) simp_all
  ultimately show ?thesis by (simp only: unat_div unat_PAGE_SIZE)
qed

lemma unat_va_ceil:
  "unat (va0 v) + 4095 < 2 ^ 64 \<Longrightarrow> unat (vpn0 (va_ceil v)) = (unat (va0 v) + 4095) div 4096"
  by (simp add: va_ceil_def unat_ceil_div)

lemma unat_VirtAddr_from: "unat (va0 (VirtAddr_from v)) = unat v mod 2 ^ 39"
  by (simp only: VirtAddr_from_def VA_WIDTH_SV39_def push_bit_minus_mask VirtAddr.sel unat_and_mask)

lemma unat_PhysAddr_from: "unat (pa0 (PhysAddr_from v)) = unat v mod 2 ^ 56"
  by (simp only: PhysAddr_from_def PA_WIDTH_SV39_def push_bit_minus_mask PhysAddr.sel unat_and_mask)

lemma unat_PhysPageNum_from: "unat (ppn0 (PhysPageNum_from v)) = unat v mod 2 ^ 44"
proof -
  have "PPN_WIDTH_SV39 = 44" by (simp add: config_defs)
  then show ?thesis
    by (simp only: PhysPageNum_from_def push_bit_minus_mask PhysPageNum.sel unat_and_mask)
qed

lemma unat_pa_of_ppn:
  assumes "unat (ppn0 p) < 2 ^ 52"
  shows "unat (pa0 (pa_of_ppn p)) = unat (ppn0 p) * 4096"
proof -
  have "unat (ppn0 p) * 4096 < 2 ^ 64" using assms by simp
  then show ?thesis
    by (simp add: pa_of_ppn_def PAGE_SIZE_BITS_def push_bit_eq_mult unat_mult_lem [THEN iffD1])
qed

lemma unat_va_of_vpn:
  assumes "unat (vpn0 p) < 2 ^ 52"
  shows "unat (va0 (va_of_vpn p)) = unat (vpn0 p) * 4096"
proof -
  have "unat (vpn0 p) * 4096 < 2 ^ 64" using assms by simp
  then show ?thesis
    by (simp add: va_of_vpn_def PAGE_SIZE_BITS_def push_bit_eq_mult unat_mult_lem [THEN iffD1])
qed

lemma indexes_eq:
  "indexes v = [drop_bit 18 (vpn0 v) AND 511, drop_bit 9 (vpn0 v) AND 511, vpn0 v AND 511]"
  by (simp add: indexes_def numeral_3_eq_3 upt_rec)

lemma mask_9: "(511 :: usize) = mask 9"
  by (simp add: mask_eq_exp_minus_1)

lemma unat_drop_bit: "unat (drop_bit n (w :: usize)) = unat w div 2 ^ n"
  by (metis unat_drop_bit_eq drop_bit_eq_div)

lemma unat_indexes:
  "map unat (indexes v) =
     [unat (vpn0 v) div 2 ^ 18 mod 512, unat (vpn0 v) div 512 mod 512, unat (vpn0 v) mod 512]"
  unfolding indexes_eq mask_9 list.map unat_and_mask unat_drop_bit by simp

lemma indexes_less: "i \<in> set (indexes v) \<Longrightarrow> unat i < 512"
  by (auto simp: indexes_eq mask_9 unat_and_mask)

lemma three_digits:
  fixes n :: nat
  shows "n mod 2 ^ 27 = n div 2 ^ 18 mod 512 * 2 ^ 18 + n div 512 mod 512 * 512 + n mod 512"
proof -
  have "n mod (512 * (512 * 512)) = 512 * (n div 512 mod (512 * 512)) + n mod 512"
    by (rule mod_mult2_eq)
  moreover have "n div 512 mod (512 * 512) = 512 * (n div 512 div 512 mod 512) + n div 512 mod 512"
    by (rule mod_mult2_eq)
  moreover have "n div 512 div 512 = n div 2 ^ 18"
    by (simp add: div_mult2_eq [symmetric])
  ultimately show ?thesis by simp
qed

lemma indexes_inj:
  assumes "indexes v = indexes w" and "unat (vpn0 v) < 2 ^ 27" and "unat (vpn0 w) < 2 ^ 27"
  shows "v = w"
proof -
  from assms(1) have "map unat (indexes v) = map unat (indexes w)" by simp
  then have "unat (vpn0 v) mod 2 ^ 27 = unat (vpn0 w) mod 2 ^ 27"
    by (simp only: unat_indexes three_digits list.inject)
  with assms(2,3) show ?thesis
    by (simp add: VirtPageNum.expand word_unat_eq_iff)
qed

lemma range_iter_upt:
  assumes "a \<le> b" and "b < 2 ^ 64"
  shows "range_iter (VirtPageNum (word_of_nat a)) (VirtPageNum (word_of_nat b)) =
      map (\<lambda>n. VirtPageNum (word_of_nat n)) [a..<b]"
  using assms(1)
proof (induction "b - a" arbitrary: a)
  case 0
  then show ?case by (simp add: range_iter.simps)
next
  case (Suc k)
  then have ab: "a < b" by simp
  with assms(2) have "(word_of_nat a :: usize) \<noteq> word_of_nat b"
    by (simp add: word_unat_eq_iff unat_of_nat take_bit_eq_mod)
  then have "range_iter (VirtPageNum (word_of_nat a)) (VirtPageNum (word_of_nat b)) =
      VirtPageNum (word_of_nat a) # range_iter (VirtPageNum (word_of_nat (Suc a))) (VirtPageNum (word_of_nat b))"
    by (subst range_iter.simps) (simp add: vpn_step_def add.commute)
  also have "\<dots> = VirtPageNum (word_of_nat a) # map (\<lambda>n. VirtPageNum (word_of_nat n)) [Suc a..<b]"
    using Suc.hyps(1) [of "Suc a"] Suc.hyps(2) ab by simp
  finally show ?case using ab by (simp add: upt_conv_Cons)
qed

lemma range_iter_words:
  assumes "l \<le> r"
  shows "range_iter l r =
    map (\<lambda>n. VirtPageNum (word_of_nat n)) [unat (vpn0 l)..<unat (vpn0 r)]"
  using range_iter_upt [of "unat (vpn0 l)" "unat (vpn0 r)"] assms
    unsigned_less [of "vpn0 r", where ?'a = nat]
  by (simp add: less_eq_VirtPageNum_def word_le_nat_alt)

lemma distinct_range_iter: "l \<le> r \<Longrightarrow> distinct (range_iter l r)"
  using unsigned_less [of "vpn0 r", where ?'a = nat]
  by (auto simp: range_iter_words distinct_map inj_on_def word_unat_eq_iff unat_of_nat
      take_bit_eq_mod)

lemma set_range_iter: "l \<le> r \<Longrightarrow> set (range_iter l r) = {v. l \<le> v \<and> v < r}"
proof -
  assume lr: "l \<le> r"
  have "v \<in> set (range_iter l r) \<longleftrightarrow> l \<le> v \<and> v < r" for v
  proof
    assume "v \<in> set (range_iter l r)"
    then obtain n where n: "unat (vpn0 l) \<le> n" "n < unat (vpn0 r)" "v = VirtPageNum (word_of_nat n)"
      using lr by (auto simp: range_iter_words)
    moreover have "unat (word_of_nat n :: usize) = n"
      using n(2) unsigned_less [of "vpn0 r", where ?'a = nat]
      by (simp add: unat_of_nat take_bit_eq_mod)
    ultimately show "l \<le> v \<and> v < r"
      by (simp add: less_eq_VirtPageNum_def less_VirtPageNum_def word_le_nat_alt word_less_nat_alt)
  next
    assume "l \<le> v \<and> v < r"
    then have "unat (vpn0 v) \<in> set [unat (vpn0 l)..<unat (vpn0 r)]"
      by (simp add: less_eq_VirtPageNum_def less_VirtPageNum_def word_le_nat_alt word_less_nat_alt)
    moreover have "v = VirtPageNum (word_of_nat (unat (vpn0 v)))" by simp
    ultimately show "v \<in> set (range_iter l r)"
      unfolding range_iter_words [OF lr] set_map by (rule rev_image_eqI)
  qed
  then show ?thesis by blast
qed

end
