(* ===== verification/Id_Pool.thy ===== *)
theory Id_Pool
  imports Prelude
begin

text \<open>
  The contract that the frame allocator (os/src/mm/frame_allocator.rs) and the PID and kernel
  stack allocators (os/src/task/id.rs) share: identifiers are handed out, given back and
  handed out again. The client's view is a history of allocations and releases with the set
  of identifiers it holds; the lemmas below are proved once for every provider.
\<close>

section \<open>Histories of a client\<close>

inductive pool_reach ::
  "('s \<Rightarrow> ('i \<times> 's) option) \<Rightarrow> ('s \<Rightarrow> 'i \<Rightarrow> 's res) \<Rightarrow> 's \<Rightarrow> 's \<Rightarrow> 'i set \<Rightarrow> bool"
  for alloc :: "'s \<Rightarrow> ('i \<times> 's) option" and dealloc :: "'s \<Rightarrow> 'i \<Rightarrow> 's res" and s0 :: 's
where
  reach_start: "pool_reach alloc dealloc s0 s0 {}"
| reach_alloc: "pool_reach alloc dealloc s0 s H \<Longrightarrow> alloc s = Some (i, s') \<Longrightarrow>
     pool_reach alloc dealloc s0 s' (insert i H)"
| reach_dealloc: "pool_reach alloc dealloc s0 s H \<Longrightarrow> i \<in> H \<Longrightarrow> dealloc s i = Inr s' \<Longrightarrow>
     pool_reach alloc dealloc s0 s' (H - {i})"

fun alloc_n :: "('s \<Rightarrow> ('i \<times> 's) option) \<Rightarrow> nat \<Rightarrow> 's \<Rightarrow> ('i list \<times> 's) option" where
  "alloc_n alloc 0 s = Some ([], s)"
| "alloc_n alloc (Suc n) s =
     (case alloc s of None \<Rightarrow> None
      | Some (i, s') \<Rightarrow>
          (case alloc_n alloc n s' of None \<Rightarrow> None | Some (is, s'') \<Rightarrow> Some (i # is, s'')))"

section \<open>The contract\<close>

locale id_pool =
  fixes alloc :: "'s \<Rightarrow> ('i \<times> 's) option"
    and dealloc :: "'s \<Rightarrow> 'i \<Rightarrow> 's res"
    and pinv :: "'s \<Rightarrow> bool"
    and live :: "'s \<Rightarrow> 'i set"
  assumes alloc_inv: "pinv s \<Longrightarrow> alloc s = Some (i, s') \<Longrightarrow> pinv s'"
    and alloc_fresh: "pinv s \<Longrightarrow> alloc s = Some (i, s') \<Longrightarrow> i \<notin> live s"
    and alloc_live: "pinv s \<Longrightarrow> alloc s = Some (i, s') \<Longrightarrow> live s' = insert i (live s)"
    and dealloc_ok: "pinv s \<Longrightarrow> i \<in> live s \<Longrightarrow> \<exists>s'. dealloc s i = Inr s'"
    and dealloc_inv: "pinv s \<Longrightarrow> dealloc s i = Inr s' \<Longrightarrow> pinv s'"
    and dealloc_live: "pinv s \<Longrightarrow> dealloc s i = Inr s' \<Longrightarrow> i \<in> live s \<and> live s' = live s - {i}"
begin

lemma reach_inv:
  assumes "pool_reach alloc dealloc s0 s H" and "pinv s0"
  shows "pinv s \<and> live s = live s0 \<union> H \<and> H \<inter> live s0 = {}"
  using assms(1)
proof (induction rule: pool_reach.induct)
  case reach_start
  from assms(2) show ?case by simp
next
  case (reach_alloc s H i s')
  from reach_alloc.IH have s: "pinv s" by simp
  note facts = alloc_inv [OF s reach_alloc.hyps(2)] alloc_fresh [OF s reach_alloc.hyps(2)]
    alloc_live [OF s reach_alloc.hyps(2)]
  from facts reach_alloc.IH show ?case by auto
next
  case (reach_dealloc s H i s')
  from reach_dealloc.IH have s: "pinv s" by simp
  note facts = dealloc_inv [OF s reach_dealloc.hyps(3)] dealloc_live [OF s reach_dealloc.hyps(3)]
  from facts reach_dealloc.hyps(2) reach_dealloc.IH show ?case by auto
qed

lemma never_handed_out_twice:
  assumes "pool_reach alloc dealloc s0 s H" and "pinv s0" and "alloc s = Some (i, s')"
  shows "i \<notin> H \<and> i \<notin> live s0"
  using reach_inv [OF assms(1,2)] alloc_fresh [OF _ assms(3)] by auto

lemma held_can_be_released:
  assumes "pool_reach alloc dealloc s0 s H" and "pinv s0" and "i \<in> H"
  shows "\<exists>s'. dealloc s i = Inr s' \<and> pool_reach alloc dealloc s0 s' (H - {i})"
proof -
  from reach_inv [OF assms(1,2)] assms(3) have "pinv s" and "i \<in> live s" by auto
  then obtain s' where s': "dealloc s i = Inr s'" using dealloc_ok by fastforce
  from pool_reach.reach_dealloc [OF assms(1,3) s'] s' show ?thesis by blast
qed

lemma release_of_dead_panics:
  assumes "pinv s" and "i \<notin> live s"
  shows "\<exists>e. dealloc s i = Inl e"
proof (cases "dealloc s i")
  case (Inl e)
  then show ?thesis by simp
next
  case (Inr s')
  with dealloc_live [OF assms(1)] assms(2) show ?thesis by simp
qed

lemma alloc_n_distinct:
  "pinv s \<Longrightarrow> alloc_n alloc n s = Some (is, s') \<Longrightarrow>
   distinct is \<and> length is = n \<and> set is \<inter> live s = {} \<and> live s' = live s \<union> set is \<and> pinv s'"
proof (induction n arbitrary: s "is" s')
  case 0
  then show ?case by simp
next
  case (Suc n)
  from Suc.prems(2) obtain i s1 js where step: "alloc s = Some (i, s1)"
    and rest: "alloc_n alloc n s1 = Some (js, s')" and eq: "is = i # js"
    by (auto split: option.splits prod.splits)
  note facts = alloc_inv [OF Suc.prems(1) step] alloc_live [OF Suc.prems(1) step]
    alloc_fresh [OF Suc.prems(1) step]
  from facts Suc.IH [OF facts(1) rest] eq show ?case by auto
qed

end

end
