(* ===== verification/Frame_Allocator.thy ===== *)
theory Frame_Allocator
  imports Address Id_Pool
begin

text \<open>
  The physical frame allocator (os/src/mm/frame_allocator.rs) and the physical memory it
  clears. Physical memory is a function from byte addresses to bytes; a \<open>FrameTracker\<close> is
  represented by the frame number it owns, and its \<open>Drop\<close> is an explicit call of
  \<open>frame_dealloc\<close> where the source drops it. A \<open>Vec\<close> grows at its end, so \<open>push\<close> appends and
  \<open>pop\<close> takes the last element.
\<close>

section \<open>Physical memory\<close>

type_synonym pmem = "nat \<Rightarrow> u8"

definition page_base :: "PhysPageNum \<Rightarrow> nat" where
  "page_base p = unat (pa0 (pa_of_ppn p))"

text \<open>\<open>get_bytes_array\<close> is the 4096 bytes of a frame; writing through it updates memory.\<close>

definition get_bytes_array :: "pmem \<Rightarrow> PhysPageNum \<Rightarrow> u8 list" where
  "get_bytes_array m p = map m [page_base p..<page_base p + 4096]"

definition write_bytes :: "pmem \<Rightarrow> nat \<Rightarrow> u8 list \<Rightarrow> pmem" where
  "write_bytes m a bs = (\<lambda>x. if a \<le> x \<and> x < a + length bs then bs ! (x - a) else m x)"

definition read_bytes :: "pmem \<Rightarrow> nat \<Rightarrow> nat \<Rightarrow> u8 list" where
  "read_bytes m a n = map m [a..<a + n]"

section \<open>The allocator\<close>

record StackFrameAllocator =
  current :: usize
  end_ppn :: usize
  recycled :: "usize list"

definition StackFrameAllocator_new :: StackFrameAllocator where
  "StackFrameAllocator_new = \<lparr>current = 0, end_ppn = 0, recycled = []\<rparr>"

definition StackFrameAllocator_init ::
  "StackFrameAllocator \<Rightarrow> PhysPageNum \<Rightarrow> PhysPageNum \<Rightarrow> StackFrameAllocator" where
  "StackFrameAllocator_init a l r = a\<lparr>current := ppn0 l, end_ppn := ppn0 r\<rparr>"

definition StackFrameAllocator_alloc ::
  "StackFrameAllocator \<Rightarrow> (PhysPageNum \<times> StackFrameAllocator) option" where
  "StackFrameAllocator_alloc a =
     (if recycled a \<noteq> [] then
        Some (PhysPageNum_from (last (recycled a)), a\<lparr>recycled := butlast (recycled a)\<rparr>)
      else if current a = end_ppn a then None
      else Some (PhysPageNum_from (current a + 1 - 1), a\<lparr>current := current a + 1\<rparr>))"

definition StackFrameAllocator_dealloc ::
  "StackFrameAllocator \<Rightarrow> PhysPageNum \<Rightarrow> StackFrameAllocator res" where
  "StackFrameAllocator_dealloc a p =
     (if current a \<le> ppn0 p \<or> ppn0 p \<in> set (recycled a)
      then Inl (ExplicitPanic ''Frame ppn has not been allocated'')
      else Inr (a\<lparr>recycled := recycled a @ [ppn0 p]\<rparr>))"

section \<open>The global allocator and frame trackers\<close>

record mm =
  mem :: pmem
  falloc :: StackFrameAllocator

definition init_frame_allocator :: "usize \<Rightarrow> mm \<Rightarrow> mm" where
  "init_frame_allocator ekernel s =
     s\<lparr>falloc := StackFrameAllocator_init (falloc s)
                  (pa_ceil (PhysAddr_from ekernel)) (pa_floor (PhysAddr_from MEMORY_END))\<rparr>"

definition FrameTracker_new :: "pmem \<Rightarrow> PhysPageNum \<Rightarrow> pmem" where
  "FrameTracker_new m p = write_bytes m (page_base p) (replicate 4096 0)"

definition frame_alloc :: "mm \<Rightarrow> (PhysPageNum \<times> mm) option" where
  "frame_alloc s =
     (case StackFrameAllocator_alloc (falloc s) of
        None \<Rightarrow> None
      | Some (p, a) \<Rightarrow> Some (p, s\<lparr>falloc := a, mem := FrameTracker_new (mem s) p\<rparr>))"

definition frame_dealloc :: "mm \<Rightarrow> PhysPageNum \<Rightarrow> mm res" where
  "frame_dealloc s p =
     bindR (StackFrameAllocator_dealloc (falloc s) p) (\<lambda>a. Inr (s\<lparr>falloc := a\<rparr>))"

section \<open>Invariant and the pool contract\<close>

definition falloc_inv :: "StackFrameAllocator \<Rightarrow> bool" where
  "falloc_inv a \<longleftrightarrow> current a \<le> end_ppn a \<and> unat (end_ppn a) \<le> 2 ^ 44 \<and>
     distinct (recycled a) \<and> (\<forall>p \<in> set (recycled a). p < current a)"

definition falloc_live :: "StackFrameAllocator \<Rightarrow> PhysPageNum set" where
  "falloc_live a = {p. ppn0 p < current a \<and> ppn0 p \<notin> set (recycled a)}"

lemma PhysPageNum_from_id: "unat v < 2 ^ 44 \<Longrightarrow> PhysPageNum_from v = PhysPageNum v"
  by (metis PhysPageNum.collapse PhysPageNum.sel mod_less unat_PhysPageNum_from word_unat_eq_iff)

lemma falloc_inv_recycled_small:
  "falloc_inv a \<Longrightarrow> p \<in> set (recycled a) \<Longrightarrow> unat p < 2 ^ 44"
  unfolding falloc_inv_def word_le_nat_alt word_less_nat_alt by fastforce

lemma falloc_inv_current_small:
  "falloc_inv a \<Longrightarrow> current a \<noteq> end_ppn a \<Longrightarrow> unat (current a) < 2 ^ 44"
  unfolding falloc_inv_def word_le_nat_alt
  by (metis le_neq_implies_less less_le_trans word_unat_eq_iff)

lemma alloc_cases:
  assumes "falloc_inv a" and "StackFrameAllocator_alloc a = Some (p, a')"
  obtains (recycled) q where "recycled a \<noteq> []" "q = last (recycled a)" "p = PhysPageNum q"
      "a' = a\<lparr>recycled := butlast (recycled a)\<rparr>"
    | (fresh) "recycled a = []" "current a < end_ppn a" "p = PhysPageNum (current a)"
      "a' = a\<lparr>current := current a + 1\<rparr>"
proof (cases "recycled a = []")
  case True
  with assms(2) have ne: "current a \<noteq> end_ppn a"
    and p: "p = PhysPageNum_from (current a)" and a': "a' = a\<lparr>current := current a + 1\<rparr>"
    by (auto simp: StackFrameAllocator_alloc_def split: if_splits)
  from ne assms(1) have "current a < end_ppn a"
    by (simp add: falloc_inv_def order.strict_iff_order)
  moreover have "p = PhysPageNum (current a)"
    using p PhysPageNum_from_id falloc_inv_current_small [OF assms(1) ne] by simp
  ultimately show thesis using fresh True a' by blast
next
  case False
  moreover from False have "unat (last (recycled a)) < 2 ^ 44"
    using falloc_inv_recycled_small [OF assms(1)] by simp
  ultimately show thesis
    using assms(2) recycled PhysPageNum_from_id by (simp add: StackFrameAllocator_alloc_def)
qed

lemma in_butlast_distinct:
  "xs \<noteq> [] \<Longrightarrow> distinct xs \<Longrightarrow> x \<in> set (butlast xs) \<longleftrightarrow> x \<in> set xs \<and> x \<noteq> last xs"
  by (induction xs rule: rev_induct) auto

lemma falloc_alloc_inv:
  assumes "falloc_inv a" and "StackFrameAllocator_alloc a = Some (p, a')"
  shows "falloc_inv a'"
  using assms
proof (cases rule: alloc_cases)
  case (recycled q)
  with assms(1) show ?thesis
    by (auto simp: falloc_inv_def distinct_butlast dest: in_set_butlastD)
next
  case fresh
  with assms(1) show ?thesis
    by (auto simp: falloc_inv_def inc_le word_less_inc)
qed

lemma falloc_alloc_fresh:
  assumes "falloc_inv a" and "StackFrameAllocator_alloc a = Some (p, a')"
  shows "p \<notin> falloc_live a"
  using assms by (cases rule: alloc_cases) (auto simp: falloc_live_def)

lemma falloc_alloc_live:
  assumes "falloc_inv a" and "StackFrameAllocator_alloc a = Some (p, a')"
  shows "falloc_live a' = insert p (falloc_live a)"
  using assms
proof (cases rule: alloc_cases)
  case (recycled q)
  with assms(1) have "x \<in> set (butlast (recycled a)) \<longleftrightarrow> x \<in> set (recycled a) \<and> x \<noteq> q" for x
    by (simp add: falloc_inv_def in_butlast_distinct)
  moreover have "q < current a" using recycled assms(1) by (simp add: falloc_inv_def)
  ultimately show ?thesis
    unfolding falloc_live_def recycled(3,4) by (intro ppn_set_eqI) auto
next
  case fresh
  then have "x < current a + 1 \<longleftrightarrow> x < current a \<or> x = current a" for x
    by (auto simp: word_less_inc)
  with fresh show ?thesis
    unfolding falloc_live_def by (intro ppn_set_eqI) auto
qed

lemma dealloc_iff:
  "StackFrameAllocator_dealloc a p = Inr a' \<longleftrightarrow>
     p \<in> falloc_live a \<and> a' = a\<lparr>recycled := recycled a @ [ppn0 p]\<rparr>"
  by (auto simp: StackFrameAllocator_dealloc_def falloc_live_def not_le)

lemma falloc_live_recycle:
  "falloc_live (a\<lparr>recycled := recycled a @ [ppn0 p]\<rparr>) = falloc_live a - {p}"
  by (rule ppn_set_eqI) (cases p, auto simp: falloc_live_def)

lemma falloc_dealloc_inv:
  "falloc_inv a \<Longrightarrow> StackFrameAllocator_dealloc a p = Inr a' \<Longrightarrow> falloc_inv a'"
  by (auto simp: dealloc_iff falloc_inv_def falloc_live_def)

lemma falloc_dealloc_live:
  "StackFrameAllocator_dealloc a p = Inr a' \<Longrightarrow>
   p \<in> falloc_live a \<and> falloc_live a' = falloc_live a - {p}"
  by (simp add: dealloc_iff falloc_live_recycle)

interpretation frames: id_pool StackFrameAllocator_alloc StackFrameAllocator_dealloc
  falloc_inv falloc_live
proof (unfold_locales, goal_cases)
  case 1
  then show ?case by (rule falloc_alloc_inv)
next
  case 2
  then show ?case by (rule falloc_alloc_fresh)
next
  case 3
  then show ?case by (rule falloc_alloc_live)
next
  case 4
  then show ?case by (simp add: dealloc_iff)
next
  case 5
  then show ?case by (rule falloc_dealloc_inv)
next
  case 6
  then show ?case by (blast dest: falloc_dealloc_live)
qed

section \<open>Bytes of frames\<close>

definition page_addrs :: "PhysPageNum \<Rightarrow> nat set" where
  "page_addrs p = {page_base p..<page_base p + 4096}"

definition small_ppn :: "PhysPageNum \<Rightarrow> bool" where
  "small_ppn p \<longleftrightarrow> unat (ppn0 p) < 2 ^ 44"

lemma page_base_eq: "small_ppn p \<Longrightarrow> page_base p = unat (ppn0 p) * 4096"
  by (simp add: page_base_def small_ppn_def unat_pa_of_ppn)

lemma small_PhysPageNum_from [simp]: "small_ppn (PhysPageNum_from v)"
  by (simp add: small_ppn_def unat_PhysPageNum_from)

lemma page_addrs_disjoint:
  assumes "small_ppn p" and "small_ppn q" and "p \<noteq> q"
  shows "page_addrs p \<inter> page_addrs q = {}"
proof -
  from assms(3) have "unat (ppn0 p) \<noteq> unat (ppn0 q)"
    by (simp add: ppn_eq_iff word_unat_eq_iff)
  then consider "unat (ppn0 p) + 1 \<le> unat (ppn0 q)" | "unat (ppn0 q) + 1 \<le> unat (ppn0 p)"
    by linarith
  then have "page_base p + 4096 \<le> page_base q \<or> page_base q + 4096 \<le> page_base p"
    by cases (simp_all add: page_base_eq assms)
  then show ?thesis by (auto simp: page_addrs_def)
qed

lemma write_bytes_other: "x < a \<or> a + length bs \<le> x \<Longrightarrow> write_bytes m a bs x = m x"
  by (auto simp: write_bytes_def)

lemma read_write_bytes_same [simp]: "n = length bs \<Longrightarrow> read_bytes (write_bytes m a bs) a n = bs"
  by (auto simp: read_bytes_def write_bytes_def intro!: nth_equalityI)

lemma read_bytes_cong:
  "(\<And>x. a \<le> x \<Longrightarrow> x < a + n \<Longrightarrow> m x = m' x) \<Longrightarrow> read_bytes m a n = read_bytes m' a n"
  by (simp add: read_bytes_def)

lemma read_write_bytes_other:
  "a + n \<le> b \<or> b + length bs \<le> a \<Longrightarrow> read_bytes (write_bytes m b bs) a n = read_bytes m a n"
  by (rule read_bytes_cong) (auto simp: write_bytes_def)

lemma length_read_bytes [simp]: "length (read_bytes m a n) = n"
  by (simp add: read_bytes_def)

lemma get_bytes_array_eq: "get_bytes_array m p = read_bytes m (page_base p) 4096"
  by (simp add: get_bytes_array_def read_bytes_def)

lemma length_get_bytes_array [simp]: "length (get_bytes_array m p) = 4096"
  by (simp add: get_bytes_array_eq)

lemma get_bytes_array_cong:
  "(\<And>x. x \<in> page_addrs p \<Longrightarrow> m x = m' x) \<Longrightarrow> get_bytes_array m p = get_bytes_array m' p"
  by (simp add: get_bytes_array_def page_addrs_def)

lemma FrameTracker_new_zero: "x \<in> page_addrs p \<Longrightarrow> FrameTracker_new m p x = 0"
  by (auto simp: FrameTracker_new_def write_bytes_def page_addrs_def)

lemma FrameTracker_new_other: "x \<notin> page_addrs p \<Longrightarrow> FrameTracker_new m p x = m x"
  by (auto simp: FrameTracker_new_def write_bytes_def page_addrs_def)

section \<open>Frame allocation on the machine state\<close>

lemma falloc_alloc_small:
  "StackFrameAllocator_alloc a = Some (p, a') \<Longrightarrow> small_ppn p"
  by (auto simp: StackFrameAllocator_alloc_def split: if_splits)

lemma falloc_live_small: "falloc_inv a \<Longrightarrow> p \<in> falloc_live a \<Longrightarrow> small_ppn p"
  unfolding falloc_inv_def falloc_live_def small_ppn_def word_le_nat_alt word_less_nat_alt by simp

lemma frame_alloc_SomeD:
  assumes "frame_alloc s = Some (p, s')" and "falloc_inv (falloc s)"
  shows "small_ppn p" and "p \<notin> falloc_live (falloc s)" and "falloc_inv (falloc s')"
    and "falloc_live (falloc s') = insert p (falloc_live (falloc s))"
    and "mem s' = FrameTracker_new (mem s) p"
proof -
  from assms(1) obtain a where a: "StackFrameAllocator_alloc (falloc s) = Some (p, a)"
    and s': "s' = s\<lparr>falloc := a, mem := FrameTracker_new (mem s) p\<rparr>"
    by (auto simp: frame_alloc_def split: option.splits)
  show "small_ppn p" using a by (rule falloc_alloc_small)
  show "p \<notin> falloc_live (falloc s)" using frames.alloc_fresh [OF assms(2) a] .
  show "falloc_inv (falloc s')" using frames.alloc_inv [OF assms(2) a] s' by simp
  show "falloc_live (falloc s') = insert p (falloc_live (falloc s))"
    using frames.alloc_live [OF assms(2) a] s' by simp
  show "mem s' = FrameTracker_new (mem s) p" using s' by simp
qed

text \<open>The number of frames the allocator can still hand out.\<close>

definition falloc_free :: "StackFrameAllocator \<Rightarrow> nat" where
  "falloc_free a = length (recycled a) + (unat (end_ppn a) - unat (current a))"

lemma falloc_free_alloc:
  assumes "falloc_inv a" and "StackFrameAllocator_alloc a = Some (p, a')"
  shows "falloc_free a = Suc (falloc_free a')"
  using assms
proof (cases rule: alloc_cases)
  case (recycled q)
  then show ?thesis by (simp add: falloc_free_def)
next
  case fresh
  have "unat (current a) < unat (end_ppn a)" using fresh(2) by (simp only: word_less_nat_alt)
  with fresh(1,4) show ?thesis by (simp add: falloc_free_def unat_inc [OF fresh(2)])
qed

lemma falloc_alloc_None_iff:
  assumes "falloc_inv a"
  shows "StackFrameAllocator_alloc a = None \<longleftrightarrow> falloc_free a = 0"
proof -
  have "current a = end_ppn a \<longleftrightarrow> unat (end_ppn a) - unat (current a) = 0"
    using assms unfolding falloc_inv_def word_le_nat_alt word_unat_eq_iff by auto
  then show ?thesis by (auto simp: StackFrameAllocator_alloc_def falloc_free_def)
qed

lemma frame_alloc_free:
  assumes "falloc_inv (falloc s)" and "0 < falloc_free (falloc s)"
  obtains p s' where "frame_alloc s = Some (p, s')"
    "falloc_free (falloc s) = Suc (falloc_free (falloc s'))"
proof -
  obtain p a where a: "StackFrameAllocator_alloc (falloc s) = Some (p, a)"
    using falloc_alloc_None_iff [OF assms(1)] assms(2) by fastforce
  with falloc_free_alloc [OF assms(1) a] that show ?thesis by (simp add: frame_alloc_def)
qed

lemma frame_dealloc_InrD:
  assumes "frame_dealloc s p = Inr s'" and "falloc_inv (falloc s)"
  shows "mem s' = mem s" and "falloc_inv (falloc s')" and "p \<in> falloc_live (falloc s)"
    and "falloc_live (falloc s') = falloc_live (falloc s) - {p}"
proof -
  from assms(1) obtain a where a: "StackFrameAllocator_dealloc (falloc s) p = Inr a"
    and s': "s' = s\<lparr>falloc := a\<rparr>"
    by (auto simp: frame_dealloc_def)
  show "mem s' = mem s" using s' by simp
  show "falloc_inv (falloc s')" using frames.dealloc_inv [OF assms(2) a] s' by simp
  show "p \<in> falloc_live (falloc s)" using frames.dealloc_live [OF assms(2) a] by simp
  show "falloc_live (falloc s') = falloc_live (falloc s) - {p}"
    using frames.dealloc_live [OF assms(2) a] s' by simp
qed

section \<open>Properties\<close>

text \<open>
  (C13) Over any history of allocations and releases that starts from a well-formed allocator,
  the frame the stack allocator hands out next is neither one the client still holds nor one
  that was in use at the start.
\<close>

theorem frame_never_handed_out_twice:
  assumes "pool_reach StackFrameAllocator_alloc StackFrameAllocator_dealloc a0 a H"
    and "falloc_inv a0"
    and "StackFrameAllocator_alloc a = Some (p, a')"
  shows "p \<notin> H \<and> p \<notin> falloc_live a0"
  using assms by (rule frames.never_handed_out_twice)

definition example_falloc :: StackFrameAllocator where
  "example_falloc =
     StackFrameAllocator_init StackFrameAllocator_new (PhysPageNum 5) (PhysPageNum 9)"

lemma example_reach:
  "pool_reach StackFrameAllocator_alloc StackFrameAllocator_dealloc example_falloc
     \<lparr>current = 7, end_ppn = 9, recycled = [5]\<rparr> {PhysPageNum 6}"
proof -
  note defs = example_falloc_def StackFrameAllocator_init_def StackFrameAllocator_new_def
    StackFrameAllocator_alloc_def StackFrameAllocator_dealloc_def PhysPageNum_from_id
  let ?r = "pool_reach StackFrameAllocator_alloc StackFrameAllocator_dealloc example_falloc"
  have "?r \<lparr>current = 6, end_ppn = 9, recycled = []\<rparr> (insert (PhysPageNum 5) {})"
    by (rule reach_alloc [OF reach_start]) (simp add: defs)
  then have "?r \<lparr>current = 7, end_ppn = 9, recycled = []\<rparr> (insert (PhysPageNum 6) {PhysPageNum 5})"
    by (rule reach_alloc) (simp add: defs)
  then have "?r \<lparr>current = 7, end_ppn = 9, recycled = [5]\<rparr>
      (insert (PhysPageNum 6) {PhysPageNum 5} - {PhysPageNum 5})"
    by (rule reach_dealloc) (simp_all add: defs)
  moreover have "insert (PhysPageNum 6) {PhysPageNum 5} - {PhysPageNum 5} = {PhysPageNum 6}"
    by auto
  ultimately show ?thesis by simp
qed

theorem frame_never_handed_out_twice_witness:
  "PhysPageNum 5 \<notin> {PhysPageNum 6} \<and> PhysPageNum 5 \<notin> falloc_live example_falloc"
proof (rule frame_never_handed_out_twice [OF example_reach])
  show "falloc_inv example_falloc"
    by (simp add: falloc_inv_def example_falloc_def StackFrameAllocator_init_def
        StackFrameAllocator_new_def)
  show "StackFrameAllocator_alloc \<lparr>current = 7, end_ppn = 9, recycled = [5]\<rparr> =
      Some (PhysPageNum 5, \<lparr>current = 7, end_ppn = 9, recycled = []\<rparr>)"
    by (simp add: StackFrameAllocator_alloc_def PhysPageNum_from_id)
qed

end
