(* ===== verification/Page_Table.thy ===== *)
theory Page_Table
  imports Frame_Allocator
begin

text \<open>
  The SV39 page table (os/src/mm/page_table.rs): entries, the three-level walk over physical
  memory, and \<open>map\<close>, \<open>unmap\<close>, \<open>translate\<close>. A reference \<open>&mut PageTableEntry\<close> is the pair
  of the table's frame and the index in its array of 512 entries. The tables are read and
  written in the byte memory of \<open>Frame_Allocator\<close>, so that two tables in one frame would
  really interfere: the invariant \<open>pt_ok\<close> excludes it, and the operations refine a map from
  virtual page numbers to entries.
\<close>

unbundle bit_operations_syntax

section \<open>Entries\<close>

definition PTE_V :: u8 where "PTE_V = 1"
definition PTE_R :: u8 where "PTE_R = 2"
definition PTE_W :: u8 where "PTE_W = 4"
definition PTE_X :: u8 where "PTE_X = 8"
definition PTE_U :: u8 where "PTE_U = 16"
definition PTE_G :: u8 where "PTE_G = 32"
definition PTE_A :: u8 where "PTE_A = 64"
definition PTE_D :: u8 where "PTE_D = 128"

definition PTEFlags_all :: u8 where
  "PTEFlags_all = PTE_V OR PTE_R OR PTE_W OR PTE_X OR PTE_U OR PTE_G OR PTE_A OR PTE_D"

definition PTEFlags_from_bits :: "u8 \<Rightarrow> u8 option" where
  "PTEFlags_from_bits b = (if b AND NOT PTEFlags_all = 0 then Some b else None)"

datatype PageTableEntry = PageTableEntry (pte_bits: usize)

definition PTE_new :: "PhysPageNum \<Rightarrow> u8 \<Rightarrow> PageTableEntry" where
  "PTE_new ppn flags = PageTableEntry (push_bit 10 (ppn0 ppn) OR ucast flags)"

definition PTE_empty :: PageTableEntry where
  "PTE_empty = PageTableEntry 0"

definition pte_ppn :: "PageTableEntry \<Rightarrow> PhysPageNum" where
  "pte_ppn e = PhysPageNum_from (drop_bit 10 (pte_bits e) AND (push_bit 44 1 - 1))"

text \<open>
  \<open>flags\<close> unwraps \<open>from_bits\<close> of the low byte; since all eight bits are named flags, the
  unwrap cannot fail (lemma \<open>flags_total\<close>).
\<close>

definition pte_flags :: "PageTableEntry \<Rightarrow> u8" where
  "pte_flags e = ucast (pte_bits e)"

definition pte_is_valid :: "PageTableEntry \<Rightarrow> bool" where
  "pte_is_valid e \<longleftrightarrow> pte_flags e AND PTE_V \<noteq> 0"

definition pte_readable :: "PageTableEntry \<Rightarrow> bool" where
  "pte_readable e \<longleftrightarrow> pte_flags e AND PTE_R \<noteq> 0"

definition pte_writable :: "PageTableEntry \<Rightarrow> bool" where
  "pte_writable e \<longleftrightarrow> pte_flags e AND PTE_W \<noteq> 0"

definition pte_executable :: "PageTableEntry \<Rightarrow> bool" where
  "pte_executable e \<longleftrightarrow> pte_flags e AND PTE_X \<noteq> 0"

section \<open>Tables in memory\<close>

type_synonym pte_ref = "PhysPageNum \<times> usize"

definition pte_at :: "pmem \<Rightarrow> PhysPageNum \<Rightarrow> usize \<Rightarrow> PageTableEntry" where
  "pte_at m p i = PageTableEntry (de64 (read_bytes m (page_base p + 8 * unat i) 8))"

definition pte_write :: "pmem \<Rightarrow> PhysPageNum \<Rightarrow> usize \<Rightarrow> PageTableEntry \<Rightarrow> pmem" where
  "pte_write m p i e = write_bytes m (page_base p + 8 * unat i) (le64 (pte_bits e))"

record PageTable =
  root_ppn :: PhysPageNum
  pt_frames :: "PhysPageNum list"

definition PageTable_new :: "mm \<Rightarrow> (PageTable \<times> mm) res" where
  "PageTable_new s =
     bindR (unwrapR (frame_alloc s)) (\<lambda>(f, s'). Inr (\<lparr>root_ppn = f, pt_frames = [f]\<rparr>, s'))"

definition PageTable_from_token :: "usize \<Rightarrow> PageTable" where
  "PageTable_from_token satp =
     \<lparr>root_ppn = PhysPageNum_from (satp AND (push_bit 44 1 - 1)), pt_frames = []\<rparr>"

fun find_pte_create_loop ::
  "mm \<Rightarrow> PhysPageNum list \<Rightarrow> PhysPageNum \<Rightarrow> nat \<Rightarrow> usize list \<Rightarrow>
   (pte_ref option \<times> PhysPageNum list \<times> mm) res" where
  "find_pte_create_loop s fr ppn i [] = Inr (None, fr, s)"
| "find_pte_create_loop s fr ppn i (idx # idxs) =
     (if i = 2 then Inr (Some (ppn, idx), fr, s)
      else if \<not> pte_is_valid (pte_at (mem s) ppn idx) then
        bindR (unwrapR (frame_alloc s)) (\<lambda>(f, s1).
          let s2 = s1\<lparr>mem := pte_write (mem s1) ppn idx (PTE_new f PTE_V)\<rparr>
          in find_pte_create_loop s2 (fr @ [f]) (pte_ppn (pte_at (mem s2) ppn idx)) (i + 1) idxs)
      else find_pte_create_loop s fr (pte_ppn (pte_at (mem s) ppn idx)) (i + 1) idxs)"

definition find_pte_create ::
  "mm \<Rightarrow> PageTable \<Rightarrow> VirtPageNum \<Rightarrow> (pte_ref option \<times> PageTable \<times> mm) res" where
  "find_pte_create s pt vpn =
     bindR (find_pte_create_loop s (pt_frames pt) (root_ppn pt) 0 (indexes vpn))
       (\<lambda>(r, fr, s'). Inr (r, pt\<lparr>pt_frames := fr\<rparr>, s'))"

fun find_pte_loop :: "pmem \<Rightarrow> PhysPageNum \<Rightarrow> nat \<Rightarrow> usize list \<Rightarrow> pte_ref option" where
  "find_pte_loop m ppn i [] = None"
| "find_pte_loop m ppn i (idx # idxs) =
     (if i = 2 then Some (ppn, idx)
      else if \<not> pte_is_valid (pte_at m ppn idx) then None
      else find_pte_loop m (pte_ppn (pte_at m ppn idx)) (i + 1) idxs)"

definition find_pte :: "pmem \<Rightarrow> PageTable \<Rightarrow> VirtPageNum \<Rightarrow> pte_ref option" where
  "find_pte m pt vpn = find_pte_loop m (root_ppn pt) 0 (indexes vpn)"

definition PageTable_map ::
  "mm \<Rightarrow> PageTable \<Rightarrow> VirtPageNum \<Rightarrow> PhysPageNum \<Rightarrow> u8 \<Rightarrow> (PageTable \<times> mm) res" where
  "PageTable_map s pt vpn ppn flags =
     bindR (find_pte_create s pt vpn) (\<lambda>(r, pt', s').
     bindR (unwrapR r) (\<lambda>(p, i).
     bindR (assertR (\<not> pte_is_valid (pte_at (mem s') p i))) (\<lambda>_.
     Inr (pt', s'\<lparr>mem := pte_write (mem s') p i (PTE_new ppn (flags OR PTE_V))\<rparr>))))"

definition PageTable_unmap :: "mm \<Rightarrow> PageTable \<Rightarrow> VirtPageNum \<Rightarrow> mm res" where
  "PageTable_unmap s pt vpn =
     bindR (unwrapR (find_pte (mem s) pt vpn)) (\<lambda>(p, i).
     bindR (assertR (pte_is_valid (pte_at (mem s) p i))) (\<lambda>_.
     Inr (s\<lparr>mem := pte_write (mem s) p i PTE_empty\<rparr>)))"

definition PageTable_translate :: "pmem \<Rightarrow> PageTable \<Rightarrow> VirtPageNum \<Rightarrow> PageTableEntry option" where
  "PageTable_translate m pt vpn = map_option (\<lambda>(p, i). pte_at m p i) (find_pte m pt vpn)"

definition PageTable_translate_va :: "pmem \<Rightarrow> PageTable \<Rightarrow> VirtAddr \<Rightarrow> PhysAddr option" where
  "PageTable_translate_va m pt va =
     map_option (\<lambda>(p, i).
       PhysAddr_from (pa0 (pa_of_ppn (pte_ppn (pte_at m p i))) + va_page_offset va))
       (find_pte m pt (va_floor va))"

definition PageTable_token :: "PageTable \<Rightarrow> usize" where
  "PageTable_token pt = push_bit 60 8 OR ppn0 (root_ppn pt)"

section \<open>Facts on entries\<close>

lemma PTEFlags_from_bits_total [simp]: "PTEFlags_from_bits b = Some b"
proof -
  have "NOT PTEFlags_all = 0"
    by (simp add: PTEFlags_all_def PTE_V_def PTE_R_def PTE_W_def PTE_X_def PTE_U_def PTE_G_def
        PTE_A_def PTE_D_def)
  then show ?thesis by (simp add: PTEFlags_from_bits_def)
qed

lemma flags_total: "PTEFlags_from_bits (ucast (pte_bits e)) = Some (pte_flags e)"
  by (simp add: pte_flags_def)

lemma pte_flags_new [simp]: "pte_flags (PTE_new p fl) = fl"
  unfolding pte_flags_def PTE_new_def PageTableEntry.sel
  by (rule bit_word_eqI) (auto simp: bit_simps)

lemma pte_ppn_new [simp]:
  assumes "small_ppn p"
  shows "pte_ppn (PTE_new p fl) = p"
proof -
  have "drop_bit 10 (push_bit 10 (ppn0 p) OR ucast fl) AND mask 44 = ppn0 p AND mask 44"
    by (rule bit_word_eqI) (auto simp: bit_simps dest: bit_imp_le_length)
  also have "\<dots> = ppn0 p"
    using assms by (simp add: word_unat_eq_iff unat_and_mask small_ppn_def)
  finally show ?thesis
    using assms unfolding pte_ppn_def PTE_new_def push_bit_minus_mask PageTableEntry.sel
    by (simp add: PhysPageNum_from_id small_ppn_def)
qed

lemma small_pte_ppn [simp]: "small_ppn (pte_ppn e)"
  by (simp add: pte_ppn_def)

lemma pte_valid_new [simp]: "pte_is_valid (PTE_new p (fl OR PTE_V))"
proof -
  have "bit ((fl OR PTE_V) AND PTE_V) 0" by (simp add: bit_simps PTE_V_def)
  then show ?thesis unfolding pte_is_valid_def pte_flags_new by (metis bit_0_eq bot_apply bot_bool_def)
qed

lemma pte_valid_new_V [simp]: "pte_is_valid (PTE_new p PTE_V)"
  by (simp add: pte_is_valid_def PTE_V_def)

lemma pte_invalid_empty [simp]: "\<not> pte_is_valid PTE_empty"
  by (simp add: pte_is_valid_def PTE_empty_def pte_flags_def)

section \<open>Reading entries over writes\<close>

lemma pte_cell_in_page:
  assumes "small_ppn p" and "unat i < 512"
  shows "{page_base p + 8 * unat i..<page_base p + 8 * unat i + 8} \<subseteq> page_addrs p"
  using assms by (auto simp: page_addrs_def)

lemma pte_at_write_same [simp]: "pte_at (pte_write m p i e) p i = e"
  by (simp add: pte_at_def pte_write_def length_le_words)

lemma pte_at_write_other:
  assumes "small_ppn p" and "small_ppn q" and "unat i < 512" and "unat j < 512"
    and "p \<noteq> q \<or> i \<noteq> j"
  shows "pte_at (pte_write m p i e) q j = pte_at m q j"
proof -
  have "page_base q + 8 * unat j + 8 \<le> page_base p + 8 * unat i \<or>
        page_base p + 8 * unat i + 8 \<le> page_base q + 8 * unat j"
  proof (cases "p = q")
    case True
    with assms(5) have "unat i \<noteq> unat j" by (simp add: word_unat_eq_iff)
    then show ?thesis unfolding True by linarith
  next
    case False
    then have "unat (ppn0 p) \<noteq> unat (ppn0 q)"
      by (metis PhysPageNum.expand word_unat_eq_iff)
    with assms show ?thesis by (auto simp: page_base_eq)
  qed
  then show ?thesis
    by (simp add: pte_at_def pte_write_def read_write_bytes_other length_le_words)
qed

lemma pte_write_outside:
  assumes "small_ppn p" and "unat i < 512" and "x \<notin> page_addrs p"
  shows "pte_write m p i e x = m x"
  using assms by (auto simp: pte_write_def write_bytes_def length_le_words page_addrs_def)

lemma pte_at_cong:
  assumes "small_ppn p" and "unat i < 512" and "\<And>x. x \<in> page_addrs p \<Longrightarrow> m x = m' x"
  shows "pte_at m p i = pte_at m' p i"
  unfolding pte_at_def using pte_cell_in_page [OF assms(1,2)] assms(3)
  by (subst read_bytes_cong [of _ _ m m']) (auto simp: page_addrs_def)

lemma de64_zeros: "de64 (replicate 8 0) = 0"
  by (simp add: de64_def eval_nat_numeral)

lemma pte_at_new_frame:
  assumes "small_ppn p" and "unat i < 512"
  shows "pte_at (FrameTracker_new m p) p i = PTE_empty"
proof -
  have "read_bytes (FrameTracker_new m p) (page_base p + 8 * unat i) 8 = replicate 8 0"
    using pte_cell_in_page [OF assms]
    by (intro nth_equalityI) (auto simp: read_bytes_def subset_iff intro!: FrameTracker_new_zero)
  then show ?thesis by (simp add: pte_at_def PTE_empty_def de64_zeros)
qed

lemma pte_at_new_frame_other:
  assumes "small_ppn p" and "small_ppn q" and "p \<noteq> q" and "unat i < 512"
  shows "pte_at (FrameTracker_new m p) q i = pte_at m q i"
  using page_addrs_disjoint [OF assms(1-3)] assms
  by (intro pte_at_cong FrameTracker_new_other) auto

section \<open>The tree of tables\<close>

text \<open>
  \<open>walk m r path\<close> is the table reached from the table \<open>r\<close> by following the entries \<open>path\<close>.
  A table directory is well formed when its tables are small page numbers of the frames it
  owns and no two paths lead to one frame.
\<close>

fun walk :: "pmem \<Rightarrow> PhysPageNum \<Rightarrow> usize list \<Rightarrow> PhysPageNum option" where
  "walk m p [] = Some p"
| "walk m p (i # is) =
     (if pte_is_valid (pte_at m p i) then walk m (pte_ppn (pte_at m p i)) is else None)"

definition idx_path :: "usize list \<Rightarrow> bool" where
  "idx_path q \<longleftrightarrow> length q \<le> 2 \<and> (\<forall>i \<in> set q. unat i < 512)"

definition pt_ok :: "pmem \<Rightarrow> PhysPageNum \<Rightarrow> PhysPageNum set \<Rightarrow> bool" where
  "pt_ok m r F \<longleftrightarrow> Ball F small_ppn \<and>
     (\<forall>q f. idx_path q \<longrightarrow> walk m r q = Some f \<longrightarrow> f \<in> F) \<and>
     (\<forall>q q' f. idx_path q \<longrightarrow> idx_path q' \<longrightarrow> walk m r q = Some f \<longrightarrow> walk m r q' = Some f \<longrightarrow> q = q')"

lemma walk_append:
  "walk m p (q @ [i]) =
     (case walk m p q of None \<Rightarrow> None
      | Some f \<Rightarrow> if pte_is_valid (pte_at m f i) then Some (pte_ppn (pte_at m f i)) else None)"
  by (induction q arbitrary: p) auto

lemma idx_path_append: "idx_path (q @ [i]) \<longleftrightarrow> length q \<le> 1 \<and> idx_path q \<and> unat i < 512"
  by (auto simp: idx_path_def)

lemma idx_path_Nil [simp]: "idx_path []"
  by (simp add: idx_path_def)

lemma pt_ok_node:
  assumes "pt_ok m r F" and "idx_path q" and "walk m r q = Some f"
  shows "f \<in> F" and "small_ppn f"
  using assms by (auto simp: pt_ok_def)

lemma pt_ok_inj:
  assumes "pt_ok m r F" and "idx_path q" and "walk m r q = Some f"
    and "idx_path q'" and "walk m r q' = Some f"
  shows "q = q'"
  using assms unfolding pt_ok_def by blast

lemma pt_okI:
  assumes "\<And>f. f \<in> F \<Longrightarrow> small_ppn f"
    and "\<And>q f. idx_path q \<Longrightarrow> walk m r q = Some f \<Longrightarrow> f \<in> F"
    and "\<And>q q' f. idx_path q \<Longrightarrow> idx_path q' \<Longrightarrow> walk m r q = Some f \<Longrightarrow> walk m r q' = Some f \<Longrightarrow> q = q'"
  shows "pt_ok m r F"
  using assms unfolding pt_ok_def by blast

lemma walk_cong:
  assumes "pt_ok m r F" and "\<And>f i. f \<in> F \<Longrightarrow> unat i < 512 \<Longrightarrow> pte_at m' f i = pte_at m f i"
    and "idx_path q"
  shows "walk m' r q = walk m r q"
  using assms(3)
proof (induction q rule: rev_induct)
  case (snoc i q)
  then have "walk m' r q = walk m r q" by (simp add: idx_path_append)
  with snoc.prems assms(2) pt_ok_node(1) [OF assms(1)] show ?case
    by (auto simp: walk_append idx_path_append split: option.splits)
qed simp

text \<open>An entry of the last level does not change the tree.\<close>

lemma walk_leaf_write:
  assumes ok: "pt_ok m r F" and p: "idx_path p" "length p = 2" "walk m r p = Some f"
    and i: "unat i < 512" and q: "idx_path q"
  shows "walk (pte_write m f i e) r q = walk m r q"
  using q
proof (induction q rule: rev_induct)
  case (snoc j q)
  then have q: "idx_path q" "length q \<le> 1" "unat j < 512"
    and IH: "walk (pte_write m f i e) r q = walk m r q" by (simp_all add: idx_path_append)
  have "pte_at (pte_write m f i e) g j = pte_at m g j" if g: "walk m r q = Some g" for g
  proof -
    from pt_ok_inj [OF ok p(1,3) q(1)] g p(2) q(2) have "f \<noteq> g" by auto
    with pt_ok_node(2) [OF ok p(1,3)] pt_ok_node(2) [OF ok q(1) g] i q(3) show ?thesis
      by (intro pte_at_write_other) auto
  qed
  then show ?case by (simp add: walk_append IH split: option.splits)
qed simp

text \<open>A new table under an invalid entry adds exactly one path.\<close>

lemma walk_table_write:
  assumes ok: "pt_ok m r F" and p: "idx_path (p @ [i])" "walk m r p = Some f"
    and inv: "\<not> pte_is_valid (pte_at m f i)" and g: "small_ppn g" "g \<notin> F" and q: "idx_path q"
  defines "m' \<equiv> pte_write (FrameTracker_new m g) f i (PTE_new g PTE_V)"
  shows "walk m' r q = (if q = p @ [i] then Some g else walk m r q)"
  using q
proof (induction q rule: rev_induct)
  case (snoc j q)
  have p': "idx_path p" "unat i < 512" using p(1) by (simp_all add: idx_path_append)
  have q: "idx_path q" "unat j < 512" using snoc.prems by (simp_all add: idx_path_append)
  have f: "f \<in> F" "small_ppn f" using pt_ok_node [OF ok p'(1) p(2)] by auto
  have "walk m r (p @ [i]) = None" using p(2) inv by (simp add: walk_append)
  moreover have "pte_at m' g j = PTE_empty"
    using f g p'(2) q(2) unfolding m'_def
    by (subst pte_at_write_other) (auto simp: pte_at_new_frame)
  moreover have "pte_at m' h j = (if q @ [j] = p @ [i] then PTE_new g PTE_V else pte_at m h j)"
    if h: "walk m r q = Some h" for h
  proof -
    have hF: "h \<in> F" "small_ppn h" using pt_ok_node [OF ok q(1) h] by auto
    have "q @ [j] = p @ [i] \<longleftrightarrow> f = h \<and> i = j"
      using pt_ok_inj [OF ok p'(1) p(2) q(1)] h p(2) by auto
    moreover have "pte_at (FrameTracker_new m g) h j = pte_at m h j"
      using hF g q(2) by (intro pte_at_new_frame_other) auto
    ultimately show ?thesis
      using hF f g p'(2) q(2) unfolding m'_def by (auto simp: pte_at_write_other)
  qed
  ultimately show ?case
    using snoc p(2) q g(1) by (auto simp: walk_append split: option.splits)
qed simp

section \<open>Growing the tree\<close>

definition leaf :: "pmem \<Rightarrow> PhysPageNum \<Rightarrow> usize list \<Rightarrow> usize \<Rightarrow> PageTableEntry option" where
  "leaf m r q j =
     (case walk m r q of None \<Rightarrow> None
      | Some f \<Rightarrow> if pte_is_valid (pte_at m f j) then Some (pte_at m f j) else None)"

definition pt_state :: "mm \<Rightarrow> PhysPageNum \<Rightarrow> PhysPageNum set \<Rightarrow> bool" where
  "pt_state s r F \<longleftrightarrow>
     falloc_inv (falloc s) \<and> pt_ok (mem s) r F \<and> F \<subseteq> falloc_live (falloc s)"

text \<open>
  \<open>pt_grow\<close>: the directory gained tables in frames that were free, no leaf entry changed and
  memory outside the directory is untouched.
\<close>

definition pt_grow :: "PhysPageNum \<Rightarrow> mm \<Rightarrow> PhysPageNum set \<Rightarrow> mm \<Rightarrow> PhysPageNum set \<Rightarrow> bool" where
  "pt_grow r s F s' F' \<longleftrightarrow> pt_state s' r F' \<and>
     falloc_live (falloc s') = falloc_live (falloc s) \<union> F' \<and> F' \<inter> falloc_live (falloc s) = F \<and>
     (\<forall>x. x \<notin> \<Union> (page_addrs ` F') \<longrightarrow> mem s' x = mem s x) \<and>
     (\<forall>q j. idx_path q \<longrightarrow> length q = 2 \<longrightarrow> unat j < 512 \<longrightarrow> leaf (mem s') r q j = leaf (mem s) r q j)"

lemma pt_grow_refl: "pt_state s r F \<Longrightarrow> pt_grow r s F s F"
  by (auto simp: pt_grow_def pt_state_def)

lemma pt_grow_trans: "pt_grow r s F s1 F1 \<Longrightarrow> pt_grow r s1 F1 s2 F2 \<Longrightarrow> pt_grow r s F s2 F2"
  unfolding pt_grow_def
proof (elim conjE, intro conjI allI impI, goal_cases)
  case (2)
  then show ?case by auto
next
  case (3)
  then show ?case by auto
next
  case (4 x)
  then have "x \<notin> \<Union> (page_addrs ` F1)" by auto
  with 4 show ?case by simp
qed simp_all

lemma pt_ok_table_write:
  assumes ok: "pt_ok m r F" and p: "idx_path (p @ [i])" "walk m r p = Some f"
    and inv: "\<not> pte_is_valid (pte_at m f i)" and g: "small_ppn g" "g \<notin> F"
  shows "pt_ok (pte_write (FrameTracker_new m g) f i (PTE_new g PTE_V)) r (insert g F)"
proof (rule pt_okI)
  note w = walk_table_write [OF ok p inv g]
  fix h assume "h \<in> insert g F"
  with ok g show "small_ppn h" by (auto simp: pt_ok_def)
next
  note w = walk_table_write [OF ok p inv g]
  fix q h
  assume "idx_path q" "walk (pte_write (FrameTracker_new m g) f i (PTE_new g PTE_V)) r q = Some h"
  with w pt_ok_node(1) [OF ok] show "h \<in> insert g F" by (auto split: if_splits)
next
  note w = walk_table_write [OF ok p inv g]
  let ?m = "pte_write (FrameTracker_new m g) f i (PTE_new g PTE_V)"
  fix q q' h
  assume "idx_path q" "idx_path q'" "walk ?m r q = Some h" "walk ?m r q' = Some h"
  with w pt_ok_node(1) [OF ok] pt_ok_inj [OF ok] g(2) show "q = q'" by (auto split: if_splits)
qed

lemma leaf_table_write:
  assumes ok: "pt_ok m r F" and p: "idx_path (p @ [i])" "walk m r p = Some f"
    and inv: "\<not> pte_is_valid (pte_at m f i)" and g: "small_ppn g" "g \<notin> F"
    and q: "idx_path q" "length q = 2" "unat j < 512"
  shows "leaf (pte_write (FrameTracker_new m g) f i (PTE_new g PTE_V)) r q j = leaf m r q j"
proof -
  let ?m = "pte_write (FrameTracker_new m g) f i (PTE_new g PTE_V)"
  have p': "idx_path p" "unat i < 512" "length p \<le> 1" using p(1) by (simp_all add: idx_path_append)
  have f: "f \<in> F" "small_ppn f" using pt_ok_node [OF ok p'(1) p(2)] by auto
  have new: "walk m r (p @ [i]) = None" using p(2) inv by (simp add: walk_append)
  have fresh: "pte_at ?m g j = PTE_empty"
    using f g p'(2) q(3) by (subst pte_at_write_other) (auto simp: pte_at_new_frame)
  have old: "pte_at ?m h j = pte_at m h j" if h: "walk m r q = Some h" for h
  proof -
    have hF: "h \<in> F" "small_ppn h" using pt_ok_node [OF ok q(1) h] by auto
    have "f \<noteq> h" using pt_ok_inj [OF ok p'(1) p(2) q(1)] h q(2) p'(3) by auto
    moreover have "pte_at (FrameTracker_new m g) h j = pte_at m h j"
      using hF g q(3) by (intro pte_at_new_frame_other) auto
    ultimately show ?thesis using hF f p'(2) q(3) by (simp add: pte_at_write_other)
  qed
  show ?thesis
    using new fresh old by (auto simp: leaf_def walk_table_write [OF ok p inv g q(1)] split: option.splits)
qed

lemma grow_step:
  assumes s: "pt_state s r F" and p: "idx_path (p @ [i])" "walk (mem s) r p = Some f"
    and inv: "\<not> pte_is_valid (pte_at (mem s) f i)" and al: "frame_alloc s = Some (g, s1)"
  defines "s2 \<equiv> s1\<lparr>mem := pte_write (mem s1) f i (PTE_new g PTE_V)\<rparr>"
  shows "pt_grow r s F s2 (insert g F)" and "walk (mem s2) r (p @ [i]) = Some g"
    and "pte_ppn (pte_at (mem s2) f i) = g"
proof -
  have ok: "pt_ok (mem s) r F" and fi: "falloc_inv (falloc s)" and sub: "F \<subseteq> falloc_live (falloc s)"
    using s by (auto simp: pt_state_def)
  note a = frame_alloc_SomeD [OF al fi]
  have g: "small_ppn g" "g \<notin> F" using a sub by auto
  have m2: "mem s2 = pte_write (FrameTracker_new (mem s) g) f i (PTE_new g PTE_V)"
    and a2: "falloc s2 = falloc s1" by (simp_all add: s2_def a)
  have p': "idx_path p" "unat i < 512" using p(1) by (simp_all add: idx_path_append)
  have f: "f \<in> F" "small_ppn f" using pt_ok_node [OF ok p'(1) p(2)] by auto
  show "pte_ppn (pte_at (mem s2) f i) = g" using g by (simp add: s2_def)
  show "walk (mem s2) r (p @ [i]) = Some g"
    using walk_table_write [OF ok p inv g p(1)] by (simp add: m2)
  have "mem s2 x = mem s x" if "x \<notin> \<Union> (page_addrs ` insert g F)" for x
    using that f p'(2) by (simp add: m2 pte_write_outside FrameTracker_new_other)
  then show "pt_grow r s F s2 (insert g F)"
    using pt_ok_table_write [OF ok p inv g] leaf_table_write [OF ok p inv g] a sub
    unfolding pt_grow_def pt_state_def a2 m2 by auto
qed

lemma find_pte_create_loop_grow:
  assumes "find_pte_create_loop s fr f i idxs = Inr (res, fr', s')"
    and "idxs \<noteq> []" and "i + length idxs = 3" and "length p = i"
    and "pt_state s r (set fr)" and "distinct fr"
    and "walk (mem s) r p = Some f" and "idx_path (p @ butlast idxs)"
  shows "\<exists>f'. res = Some (f', last idxs) \<and> walk (mem s') r (p @ butlast idxs) = Some f' \<and>
    pt_grow r s (set fr) s' (set fr') \<and> distinct fr'"
  using assms
proof (induction s fr f i idxs arbitrary: p rule: find_pte_create_loop.induct)
  case (2 s fr f i idx idxs)
  show ?case
  proof (cases "i = 2")
    case True
    with 2 show ?thesis by (auto intro: pt_grow_refl)
  next
    case False
    with 2 have ne: "idxs \<noteq> []" by auto
    have "length p \<le> 1" using 2 False ne by (cases idxs) auto
    then have pth: "idx_path (p @ [idx])" using "2.prems"(8) ne by (simp add: idx_path_def)
    have tl: "idx_path ((p @ [idx]) @ butlast idxs)" using "2.prems"(8) ne by simp
    show ?thesis
    proof (cases "pte_is_valid (pte_at (mem s) f idx)")
      case True
      have "walk (mem s) r (p @ [idx]) = Some (pte_ppn (pte_at (mem s) f idx))"
        using "2.prems"(7) True by (simp add: walk_append)
      with "2.IH"(2) [OF False, of "p @ [idx]"] 2 False True ne tl show ?thesis by auto
    next
      case inv: False
      from "2.prems"(1) False inv obtain g s1 where al: "frame_alloc s = Some (g, s1)"
        by (auto split: option.splits simp: unwrapR_def)
      let ?s2 = "s1\<lparr>mem := pte_write (mem s1) f idx (PTE_new g PTE_V)\<rparr>"
      note st = grow_step [OF "2.prems"(5) pth "2.prems"(7) inv al]
      have g: "g \<notin> set fr"
        using frame_alloc_SomeD(2) [OF al] "2.prems"(5) by (auto simp: pt_state_def)
      have run: "find_pte_create_loop ?s2 (fr @ [g]) g (i + 1) idxs = Inr (res, fr', s')"
        using "2.prems"(1) False inv al st(3) by (simp add: Let_def)
      have "\<exists>f'. res = Some (f', last idxs) \<and> walk (mem s') r ((p @ [idx]) @ butlast idxs) = Some f' \<and>
          pt_grow r ?s2 (set (fr @ [g])) s' (set fr') \<and> distinct fr'"
        using "2.IH"(1) [OF False inv _ refl refl, of g s1 "p @ [idx]"] al run st ne "2.prems" tl g
        by (auto simp: pt_grow_def)
      with ne st(1) show ?thesis by (auto intro: pt_grow_trans)
    qed
  qed
qed simp

section \<open>Refinement\<close>

text \<open>
  The contract of a page table: a map from the 27-bit virtual page numbers to valid entries.
  \<open>pt_wf\<close> is its representation invariant: the frames it owns are live, distinct, and hold
  the tree of tables.
\<close>

definition pt_abs :: "pmem \<Rightarrow> PageTable \<Rightarrow> VirtPageNum \<Rightarrow> PageTableEntry option" where
  "pt_abs m pt vpn =
     (if unat (vpn0 vpn) < 2 ^ 27 then
        (case PageTable_translate m pt vpn of
           None \<Rightarrow> None | Some e \<Rightarrow> if pte_is_valid e then Some e else None)
      else None)"

definition pt_wf :: "mm \<Rightarrow> PageTable \<Rightarrow> bool" where
  "pt_wf s pt \<longleftrightarrow> pt_state s (root_ppn pt) (set (pt_frames pt)) \<and> distinct (pt_frames pt)"

definition pt_pages :: "PageTable \<Rightarrow> nat set" where
  "pt_pages pt = \<Union> (page_addrs ` set (pt_frames pt))"

lemma find_pte_walk:
  "indexes vpn = [a, b, c] \<Longrightarrow>
   find_pte m pt vpn = map_option (\<lambda>f. (f, c)) (walk m (root_ppn pt) [a, b])"
  by (simp add: find_pte_def)

lemma pt_abs_leaf:
  assumes "unat (vpn0 vpn) < 2 ^ 27" and "indexes vpn = [a, b, c]"
  shows "pt_abs m pt vpn = leaf m (root_ppn pt) [a, b] c"
  using assms(1)
  by (simp add: pt_abs_def PageTable_translate_def find_pte_walk [OF assms(2)] leaf_def)

lemma indexesE:
  obtains a b c where "indexes vpn = [a, b, c]" "idx_path [a, b]" "unat a < 512" "unat b < 512" "unat c < 512"
proof -
  obtain a b c where i: "indexes vpn = [a, b, c]" by (simp add: indexes_eq)
  then have "\<forall>x \<in> set [a, b, c]. unat x < 512" using indexes_less [of _ vpn] by auto
  with i that show ?thesis by (auto simp: idx_path_def)
qed

text \<open>Writing the leaf entry of one page number changes the abstraction there only.\<close>

lemma pt_ok_leaf_write:
  assumes "pt_ok m r F" and "idx_path p" and "length p = 2" and "walk m r p = Some f" and "unat i < 512"
  shows "pt_ok (pte_write m f i e) r F"
  using assms(1) walk_leaf_write [OF assms] unfolding pt_ok_def by (metis (no_types, lifting))

lemma leaf_leaf_write:
  assumes ok: "pt_ok m r F" and p: "idx_path p" "length p = 2" "walk m r p = Some f"
    and i: "unat i < 512" and q: "idx_path q" "length q = 2" and j: "unat j < 512"
  shows "leaf (pte_write m f i e) r q j =
    (if q = p \<and> j = i then if pte_is_valid e then Some e else None else leaf m r q j)"
proof (cases "walk m r q")
  case None
  then show ?thesis using walk_leaf_write [OF ok p i q(1)] p by (auto simp: leaf_def)
next
  case (Some g)
  have "g = f \<longleftrightarrow> q = p" using pt_ok_inj [OF ok q(1) Some p(1)] p Some by auto
  then have "pte_at (pte_write m f i e) g j = (if q = p \<and> j = i then e else pte_at m g j)"
    using pt_ok_node(2) [OF ok q(1) Some] pt_ok_node(2) [OF ok p(1,3)] i j
    by (auto simp: pte_at_write_other)
  with Some show ?thesis using walk_leaf_write [OF ok p i q(1)] by (auto simp: leaf_def)
qed

lemma pt_abs_leaf_write:
  assumes ok: "pt_ok m (root_ppn pt) F" and v: "unat (vpn0 vpn) < 2 ^ 27"
    and ix: "indexes vpn = [a, b, c]" and w: "walk m (root_ppn pt) [a, b] = Some f"
  shows "pt_abs (pte_write m f c e) pt =
    (pt_abs m pt)(vpn := if pte_is_valid e then Some e else None)"
proof (rule ext)
  fix u
  obtain a' b' c' where u: "indexes u = [a', b', c']" "idx_path [a', b']" "unat c' < 512"
    using indexesE by metis
  have p: "idx_path [a, b]" "unat c < 512" using ix indexesE [of vpn] by auto
  have "u = vpn \<longleftrightarrow> [a', b', c'] = [a, b, c]" if "unat (vpn0 u) < 2 ^ 27"
    using indexes_inj [OF _ that v] u(1) ix by auto
  then show "pt_abs (pte_write m f c e) pt u = ((pt_abs m pt)(vpn := if pte_is_valid e then Some e else None)) u"
    using leaf_leaf_write [OF ok p(1) _ w p(2) u(2) _ u(3), of e] pt_abs_leaf [OF _ u(1)] v
    by (cases "unat (vpn0 u) < 2 ^ 27") (auto simp: pt_abs_def [of _ _ u])
qed

text \<open>Two free frames are enough for \<open>find_pte_create\<close>.\<close>

lemma find_pte_create_loop_total:
  assumes "falloc_inv (falloc s)" and "2 - i \<le> falloc_free (falloc s)" and "i \<le> 2"
  shows "\<exists>res fr' s'. find_pte_create_loop s fr f i idxs = Inr (res, fr', s') \<and>
    falloc_free (falloc s) \<le> falloc_free (falloc s') + (2 - i)"
  using assms
proof (induction s fr f i idxs rule: find_pte_create_loop.induct)
  case (2 s fr f i idx idxs)
  show ?case
  proof (cases "i = 2 \<or> pte_is_valid (pte_at (mem s) f idx)")
    case True
    with 2 show ?thesis by fastforce
  next
    case False
    with 2 have "0 < falloc_free (falloc s)" by auto
    then obtain g s1 where al: "frame_alloc s = Some (g, s1)"
      and n: "falloc_free (falloc s) = Suc (falloc_free (falloc s1))"
      using frame_alloc_free [OF "2.prems"(1)] by metis
    have "falloc_inv (falloc s1)" using frame_alloc_SomeD(3) [OF al "2.prems"(1)] .
    moreover have "2 - (i + 1) \<le> falloc_free (falloc s1)" using "2.prems"(2) n by simp
    ultimately
    obtain res fr' s' where "find_pte_create_loop s fr f i (idx # idxs) = Inr (res, fr', s')"
      "falloc_free (falloc s1) \<le> falloc_free (falloc s') + (2 - (i + 1))"
      using "2.IH"(1) [OF _ _ _ refl refl, of g s1] "2.prems"(3) False al by (auto simp: Let_def)
    with n "2.prems"(3) False show ?thesis by (intro exI [of _ res] exI [of _ fr'] exI [of _ s']) auto
  qed
qed simp

lemma find_pte_create_spec:
  assumes "pt_wf s pt" and "2 \<le> falloc_free (falloc s)" and "indexes vpn = [a, b, c]"
    and "idx_path [a, b]"
  obtains f pt' s' where "find_pte_create s pt vpn = Inr (Some (f, c), pt', s')"
    "root_ppn pt' = root_ppn pt" "pt_wf s' pt'" "walk (mem s') (root_ppn pt) [a, b] = Some f"
    "pt_grow (root_ppn pt) s (set (pt_frames pt)) s' (set (pt_frames pt'))"
    "falloc_free (falloc s) \<le> falloc_free (falloc s') + 2"
proof -
  have st: "pt_state s (root_ppn pt) (set (pt_frames pt))" and d: "distinct (pt_frames pt)"
    using assms(1) by (auto simp: pt_wf_def)
  then have "falloc_inv (falloc s)" by (simp add: pt_state_def)
  then obtain res fr s' where
    run: "find_pte_create_loop s (pt_frames pt) (root_ppn pt) 0 [a, b, c] = Inr (res, fr, s')"
    and n: "falloc_free (falloc s) \<le> falloc_free (falloc s') + 2"
    using find_pte_create_loop_total [of s 0 "pt_frames pt" "root_ppn pt" "[a, b, c]"] assms(2)
    by (auto simp del: find_pte_create_loop.simps)
  obtain f where f: "res = Some (f, c)" "walk (mem s') (root_ppn pt) [a, b] = Some f"
      "pt_grow (root_ppn pt) s (set (pt_frames pt)) s' (set fr)" "distinct fr"
    using find_pte_create_loop_grow [OF run, of "[]"] st d assms(4) by auto
  have "find_pte_create s pt vpn = Inr (Some (f, c), pt\<lparr>pt_frames := fr\<rparr>, s')"
    using run f(1) by (simp add: find_pte_create_def assms(3) del: find_pte_create_loop.simps)
  with f n that [of f "pt\<lparr>pt_frames := fr\<rparr>" s'] show ?thesis
    by (auto simp: pt_wf_def pt_grow_def)
qed

lemma pt_abs_grow:
  assumes "pt_grow (root_ppn pt) s F s' F'" and "root_ppn pt' = root_ppn pt"
  shows "pt_abs (mem s') pt' = pt_abs (mem s) pt"
proof (rule ext)
  fix u
  obtain a b c where u: "indexes u = [a, b, c]" "idx_path [a, b]" "unat c < 512"
    using indexesE by metis
  with assms show "pt_abs (mem s') pt' u = pt_abs (mem s) pt u"
    using pt_abs_leaf [OF _ u(1)]
    by (cases "unat (vpn0 u) < 2 ^ 27") (auto simp: pt_grow_def pt_abs_def [of _ _ u])
qed

lemma PageTable_map_spec:
  assumes "pt_wf s pt" and "2 \<le> falloc_free (falloc s)" and "unat (vpn0 vpn) < 2 ^ 27"
  shows "case pt_abs (mem s) pt vpn of
      Some e \<Rightarrow> PageTable_map s pt vpn ppn flags = Inl AssertFailed
    | None \<Rightarrow> \<exists>pt' s'. PageTable_map s pt vpn ppn flags = Inr (pt', s') \<and> pt_wf s' pt' \<and>
        pt_abs (mem s') pt' = (pt_abs (mem s) pt)(vpn \<mapsto> PTE_new ppn (flags OR PTE_V)) \<and>
        root_ppn pt' = root_ppn pt \<and>
        falloc_live (falloc s') = falloc_live (falloc s) \<union> set (pt_frames pt') \<and>
        set (pt_frames pt') \<inter> falloc_live (falloc s) = set (pt_frames pt) \<and>
        falloc_free (falloc s) \<le> falloc_free (falloc s') + 2 \<and>
        (\<forall>x. x \<notin> pt_pages pt' \<longrightarrow> mem s' x = mem s x)"
proof -
  obtain a b c where ix: "indexes vpn = [a, b, c]" "idx_path [a, b]" "unat c < 512"
    using indexesE by metis
  obtain f pt' s' where c: "find_pte_create s pt vpn = Inr (Some (f, c), pt', s')"
    and r: "root_ppn pt' = root_ppn pt" and wf: "pt_wf s' pt'"
    and w: "walk (mem s') (root_ppn pt) [a, b] = Some f"
    and g: "pt_grow (root_ppn pt) s (set (pt_frames pt)) s' (set (pt_frames pt'))"
    and n: "falloc_free (falloc s) \<le> falloc_free (falloc s') + 2"
    using find_pte_create_spec [OF assms(1,2) ix(1,2)] by metis
  have ok: "pt_ok (mem s') (root_ppn pt') (set (pt_frames pt'))"
    using wf by (simp add: pt_wf_def pt_state_def)
  note w' = w [folded r]
  have f: "f \<in> set (pt_frames pt')" "small_ppn f" using pt_ok_node [OF ok ix(2) w'] by auto
  have ab: "pt_abs (mem s) pt vpn =
      (if pte_is_valid (pte_at (mem s') f c) then Some (pte_at (mem s') f c) else None)"
    using pt_abs_leaf [OF assms(3) ix(1), of "mem s'" pt'] pt_abs_grow [OF g r] w'
    by (simp add: leaf_def)
  let ?m = "pte_write (mem s') f c (PTE_new ppn (flags OR PTE_V))"
  have "pt_abs ?m pt' = (pt_abs (mem s) pt)(vpn \<mapsto> PTE_new ppn (flags OR PTE_V))"
    using pt_abs_leaf_write [OF ok assms(3) ix(1) w'] pt_abs_grow [OF g r] by simp
  moreover have "pt_wf (s'\<lparr>mem := ?m\<rparr>) pt'"
    using wf pt_ok_leaf_write [OF ok ix(2) _ w' ix(3)] by (simp add: pt_wf_def pt_state_def)
  moreover have "\<forall>x. x \<notin> pt_pages pt' \<longrightarrow> ?m x = mem s x"
    using g f ix(3) by (auto simp: pt_grow_def pt_pages_def pte_write_outside)
  ultimately show ?thesis
    using ab c r g n by (auto simp: PageTable_map_def pt_grow_def assertR_def split: option.splits)
qed

text \<open>
  (C7) Mapping a page: with two free frames for intermediate tables, \<open>map\<close> of an unmapped page
  number returns and adds exactly that entry to the map the page table denotes; it keeps the
  representation invariant, takes its new tables from free frames, and changes no byte outside
  the frames of the table. On a page that is mapped already it stops at the assertion.
\<close>

theorem page_table_map_refines:
  assumes "pt_wf s pt" and "2 \<le> falloc_free (falloc s)" and "unat (vpn0 vpn) < 2 ^ 27"
  shows "case pt_abs (mem s) pt vpn of
      Some e \<Rightarrow> PageTable_map s pt vpn ppn flags = Inl AssertFailed
    | None \<Rightarrow> \<exists>pt' s'. PageTable_map s pt vpn ppn flags = Inr (pt', s') \<and> pt_wf s' pt' \<and>
        pt_abs (mem s') pt' = (pt_abs (mem s) pt)(vpn \<mapsto> PTE_new ppn (flags OR PTE_V)) \<and>
        root_ppn pt' = root_ppn pt \<and>
        falloc_live (falloc s') = falloc_live (falloc s) \<union> set (pt_frames pt') \<and>
        set (pt_frames pt') \<inter> falloc_live (falloc s) = set (pt_frames pt) \<and>
        falloc_free (falloc s) \<le> falloc_free (falloc s') + 2 \<and>
        (\<forall>x. x \<notin> pt_pages pt' \<longrightarrow> mem s' x = mem s x)"
  using assms by (rule PageTable_map_spec)

text \<open>A new page table is empty.\<close>

lemma PageTable_new_wf:
  assumes "falloc_inv (falloc s)" and "frame_alloc s = Some (f, s')"
  shows "PageTable_new s = Inr (\<lparr>root_ppn = f, pt_frames = [f]\<rparr>, s')"
    and "pt_wf s' \<lparr>root_ppn = f, pt_frames = [f]\<rparr>"
    and "pt_abs (mem s') \<lparr>root_ppn = f, pt_frames = [f]\<rparr> = Map.empty"
proof -
  note a = frame_alloc_SomeD [OF assms(2,1)]
  show "PageTable_new s = Inr (\<lparr>root_ppn = f, pt_frames = [f]\<rparr>, s')"
    using assms(2) by (simp add: PageTable_new_def)
  have root: "walk (mem s') f q = Some g \<longleftrightarrow> q = [] \<and> g = f" if "idx_path q" for q g
    using that a(1,5) by (cases q) (auto simp: idx_path_def pte_at_new_frame)
  have "pt_ok (mem s') f {f}"
    using root a(1) by (intro pt_okI) auto
  with a show "pt_wf s' \<lparr>root_ppn = f, pt_frames = [f]\<rparr>"
    by (simp add: pt_wf_def pt_state_def)
  show "pt_abs (mem s') \<lparr>root_ppn = f, pt_frames = [f]\<rparr> = Map.empty"
  proof (rule ext)
    fix u
    obtain a b c where u: "indexes u = [a, b, c]" "idx_path [a, b]" by (metis indexesE)
    have "walk (mem s') f [a, b] = None"
      using root [OF u(2)] by (metis list.distinct(1) not_Some_eq)
    then show "pt_abs (mem s') \<lparr>root_ppn = f, pt_frames = [f]\<rparr> u = None"
      using pt_abs_leaf [OF _ u(1), of "mem s'" "\<lparr>root_ppn = f, pt_frames = [f]\<rparr>"]
      by (cases "unat (vpn0 u) < 2 ^ 27") (simp_all add: leaf_def pt_abs_def)
  qed
qed

lemma PageTable_unmap_spec:
  assumes "pt_wf s pt" and "unat (vpn0 vpn) < 2 ^ 27"
  shows "case pt_abs (mem s) pt vpn of
      None \<Rightarrow> \<exists>e. PageTable_unmap s pt vpn = Inl e
    | Some e \<Rightarrow> \<exists>s'. PageTable_unmap s pt vpn = Inr s' \<and> pt_wf s' pt \<and>
        pt_abs (mem s') pt = (pt_abs (mem s) pt)(vpn := None) \<and> falloc s' = falloc s \<and>
        (\<forall>x. x \<notin> pt_pages pt \<longrightarrow> mem s' x = mem s x)"
proof -
  obtain a b c where ix: "indexes vpn = [a, b, c]" "idx_path [a, b]" "unat c < 512"
    using indexesE by metis
  have ok: "pt_ok (mem s) (root_ppn pt) (set (pt_frames pt))"
    using assms(1) by (simp add: pt_wf_def pt_state_def)
  note ab = pt_abs_leaf [OF assms(2) ix(1), of "mem s" pt, unfolded leaf_def]
  show ?thesis
  proof (cases "walk (mem s) (root_ppn pt) [a, b]")
    case None
    then show ?thesis
      unfolding ab by (simp add: PageTable_unmap_def find_pte_walk [OF ix(1)] del: walk.simps)
  next
    case (Some f)
    have f: "f \<in> set (pt_frames pt)" "small_ppn f" using pt_ok_node [OF ok ix(2) Some] by auto
    have "\<forall>x. x \<notin> pt_pages pt \<longrightarrow> pte_write (mem s) f c PTE_empty x = mem s x"
      using f ix(3) by (auto simp: pt_pages_def pte_write_outside)
    moreover have "pt_wf (s\<lparr>mem := pte_write (mem s) f c PTE_empty\<rparr>) pt"
      using assms(1) pt_ok_leaf_write [OF ok ix(2) _ Some ix(3)] by (simp add: pt_wf_def pt_state_def)
    moreover have "pt_abs (pte_write (mem s) f c PTE_empty) pt = (pt_abs (mem s) pt)(vpn := None)"
      using pt_abs_leaf_write [OF ok assms(2) ix(1) Some] by simp
    ultimately show ?thesis
      unfolding ab using Some
      by (simp add: PageTable_unmap_def find_pte_walk [OF ix(1)] assertR_def del: walk.simps)
  qed
qed

text \<open>
  (C20) Removing a page: \<open>unmap\<close> of a mapped page number returns, removes exactly that entry from
  the map the page table denotes, and keeps the invariant, the allocator and every byte outside
  the frames of the table. On a page that is not mapped it panics.
\<close>

theorem page_table_unmap_refines:
  assumes "pt_wf s pt" and "unat (vpn0 vpn) < 2 ^ 27"
  shows "case pt_abs (mem s) pt vpn of
      None \<Rightarrow> \<exists>e. PageTable_unmap s pt vpn = Inl e
    | Some e \<Rightarrow> \<exists>s'. PageTable_unmap s pt vpn = Inr s' \<and> pt_wf s' pt \<and>
        pt_abs (mem s') pt = (pt_abs (mem s) pt)(vpn := None) \<and> falloc s' = falloc s \<and>
        (\<forall>x. x \<notin> pt_pages pt \<longrightarrow> mem s' x = mem s x)"
  using assms by (rule PageTable_unmap_spec)

section \<open>Translation\<close>

lemma pt_abs_SomeD:
  assumes "pt_abs m pt vpn = Some e"
  shows "PageTable_translate m pt vpn = Some e" and "pte_is_valid e"
    and "unat (vpn0 vpn) < 2 ^ 27"
  using assms by (auto simp: pt_abs_def split: if_splits option.splits)

lemma translate_va_phys:
  assumes "PageTable_translate m pt (va_floor va) = Some e"
  obtains pa where "PageTable_translate_va m pt va = Some pa"
    "unat (pa0 pa) = page_base (pte_ppn e) + unat (va0 va) mod 4096"
proof -
  have tr: "PageTable_translate_va m pt va =
      Some (PhysAddr_from (pa0 (pa_of_ppn (pte_ppn e)) + va_page_offset va))"
    using assms by (auto simp: PageTable_translate_va_def PageTable_translate_def)
  have b: "page_base (pte_ppn e) < 2 ^ 44 * 4096"
    using small_pte_ppn [of e] by (simp add: page_base_eq small_ppn_def)
  have o: "unat (va_page_offset va) = unat (va0 va) mod 4096" by (simp add: unat_va_page_offset)
  have "4096 dvd page_base (pte_ppn e)" by (simp add: page_base_eq)
  then have lt: "page_base (pte_ppn e) + unat (va0 va) mod 4096 < 2 ^ 56"
    using b by (auto elim!: dvdE)
  then have "unat (pa0 (pa_of_ppn (pte_ppn e)) + va_page_offset va) =
      page_base (pte_ppn e) + unat (va0 va) mod 4096"
    by (subst unat_add_lem [THEN iffD1]) (simp_all add: o page_base_def [symmetric])
  with lt show ?thesis by (intro that [OF tr]) (simp add: unat_PhysAddr_from)
qed

text \<open>
  Translating an address: for a page the table maps, \<open>translate_va\<close> gives the physical
  address with the entry's page number and the same offset, with no wrap-around in the sum.
\<close>

lemma translate_va_mapped:
  assumes "pt_abs m pt (va_floor va) = Some e"
  shows "\<exists>pa. PageTable_translate_va m pt va = Some pa \<and>
    unat (pa0 pa) = page_base (pte_ppn e) + unat (va0 va) mod 4096 \<and>
    unat (pa0 pa) \<in> page_addrs (pte_ppn e)"
proof -
  obtain pa where "PageTable_translate_va m pt va = Some pa"
    "unat (pa0 pa) = page_base (pte_ppn e) + unat (va0 va) mod 4096"
    by (rule translate_va_phys [OF pt_abs_SomeD(1) [OF assms]])
  then show ?thesis by (simp add: page_addrs_def)
qed

lemma token_root:
  assumes "pt_wf s pt"
  shows "root_ppn (PageTable_from_token (PageTable_token pt)) = root_ppn pt"
proof -
  have "small_ppn (root_ppn pt)"
    using assms pt_ok_node(2) [of "mem s" "root_ppn pt" _ "[]"] by (auto simp: pt_wf_def pt_state_def)
  then have "ppn0 (root_ppn pt) AND mask 44 = ppn0 (root_ppn pt)"
    by (simp add: word_unat_eq_iff unat_and_mask small_ppn_def)
  moreover have "(push_bit 60 8 OR ppn0 (root_ppn pt)) AND mask 44 = ppn0 (root_ppn pt) AND mask 44"
    by (simp add: bit.conj_disj_distrib2 mask_eq_exp_minus_1)
  ultimately show ?thesis
    using \<open>small_ppn (root_ppn pt)\<close>
    unfolding PageTable_from_token_def PageTable_token_def push_bit_minus_mask
    by (simp add: PhysPageNum_from_id small_ppn_def)
qed

lemma translate_root: "root_ppn pt = root_ppn pt' \<Longrightarrow> PageTable_translate m pt v = PageTable_translate m pt' v"
  by (simp add: PageTable_translate_def find_pte_def)

text \<open>
  The token of a page table (the value of \<open>satp\<close>) names it: the table that
  \<open>from_token\<close> builds has the same root and denotes the same map.
\<close>

lemma token_round_trip:
  assumes "pt_wf s pt"
  shows "root_ppn (PageTable_from_token (PageTable_token pt)) = root_ppn pt \<and>
    pt_abs m (PageTable_from_token (PageTable_token pt)) = pt_abs m pt"
  using token_root [OF assms] translate_root [OF token_root [OF assms]] by (auto simp: pt_abs_def)

section \<open>A concrete table\<close>

definition example_mm :: mm where
  "example_mm = \<lparr>mem = (\<lambda>_. 0), falloc = example_falloc\<rparr>"

definition example_mm1 :: mm where
  "example_mm1 = snd (the (frame_alloc example_mm))"

definition example_pt :: PageTable where
  "example_pt = \<lparr>root_ppn = PhysPageNum 5, pt_frames = [PhysPageNum 5]\<rparr>"

lemma example_mm_alloc: "frame_alloc example_mm = Some (PhysPageNum 5, example_mm1)"
  and example_mm1_falloc: "falloc example_mm1 = \<lparr>current = 6, end_ppn = 9, recycled = []\<rparr>"
  by (simp_all add: example_mm1_def example_mm_def frame_alloc_def StackFrameAllocator_alloc_def
      example_falloc_def StackFrameAllocator_init_def StackFrameAllocator_new_def PhysPageNum_from_id)

lemma example_falloc_inv: "falloc_inv (falloc example_mm)"
  by (simp add: falloc_inv_def example_mm_def example_falloc_def StackFrameAllocator_init_def
      StackFrameAllocator_new_def)

lemma example_pt_wf: "pt_wf example_mm1 example_pt"
  and example_pt_abs: "pt_abs (mem example_mm1) example_pt = Map.empty"
  using PageTable_new_wf [OF example_falloc_inv example_mm_alloc] by (simp_all add: example_pt_def)

lemma example_free: "2 \<le> falloc_free (falloc example_mm1)"
  by (simp add: example_mm1_falloc falloc_free_def)

theorem page_table_map_refines_witness:
  "\<exists>pt' s'. PageTable_map example_mm1 example_pt (VirtPageNum 3) (PhysPageNum 100) PTE_R = Inr (pt', s') \<and>
     pt_abs (mem s') pt' = [VirtPageNum 3 \<mapsto> PTE_new (PhysPageNum 100) (PTE_R OR PTE_V)]"
  using page_table_map_refines [OF example_pt_wf example_free, of "VirtPageNum 3" "PhysPageNum 100" PTE_R]
  by (auto simp: example_pt_abs)

definition example_mapped :: "(PageTable \<times> mm) res" where
  "example_mapped = PageTable_map example_mm1 example_pt (VirtPageNum 3) (PhysPageNum 100) PTE_R"

lemma example_mapped_wf:
  obtains pt s where "example_mapped = Inr (pt, s)" "pt_wf s pt"
    "pt_abs (mem s) pt = [VirtPageNum 3 \<mapsto> PTE_new (PhysPageNum 100) (PTE_R OR PTE_V)]"
  using PageTable_map_spec [OF example_pt_wf example_free, of "VirtPageNum 3" "PhysPageNum 100" PTE_R]
  by (auto simp: example_pt_abs example_mapped_def)

theorem page_table_unmap_refines_witness:
  "\<exists>pt s s'. example_mapped = Inr (pt, s) \<and> PageTable_unmap s pt (VirtPageNum 3) = Inr s' \<and>
     pt_abs (mem s') pt = Map.empty"
proof -
  obtain pt s where s: "example_mapped = Inr (pt, s)" "pt_wf s pt"
    "pt_abs (mem s) pt = [VirtPageNum 3 \<mapsto> PTE_new (PhysPageNum 100) (PTE_R OR PTE_V)]"
    by (rule example_mapped_wf)
  with page_table_unmap_refines [OF s(2), of "VirtPageNum 3"] show ?thesis by auto
qed

end
