(* ===== verification/Memory_Set.thy ===== *)
theory Memory_Set
  imports Page_Table
begin

text \<open>
  Address spaces (os/src/mm/memory_set.rs): map areas, the memory set, the copy made by
  \<open>fork\<close>. A \<open>FrameTracker\<close> is the page number of the frame it owns; dropping one is
  \<open>frame_dealloc\<close>, in the order in which Rust drops the fields and elements. The ordered map
  of an area's frames (\<open>BTreeMap\<close>) is a list of pairs sorted by key.
\<close>

unbundle bit_operations_syntax

section \<open>Ordered maps\<close>

fun btree_insert :: "'k::linorder \<Rightarrow> 'v \<Rightarrow> ('k \<times> 'v) list \<Rightarrow> ('k \<times> 'v) list \<times> 'v option" where
  "btree_insert k v [] = ([(k, v)], None)"
| "btree_insert k v ((k', v') # xs) =
     (if k < k' then ((k, v) # (k', v') # xs, None)
      else if k = k' then ((k, v) # xs, Some v')
      else (case btree_insert k v xs of (ys, old) \<Rightarrow> ((k', v') # ys, old)))"

fun btree_remove :: "'k::linorder \<Rightarrow> ('k \<times> 'v) list \<Rightarrow> ('k \<times> 'v) list \<times> 'v option" where
  "btree_remove k [] = ([], None)"
| "btree_remove k ((k', v') # xs) =
     (if k = k' then (xs, Some v')
      else (case btree_remove k xs of (ys, old) \<Rightarrow> ((k', v') # ys, old)))"

section \<open>Areas\<close>

datatype MapType = Identical | Framed

definition MapPermission_R :: u8 where "MapPermission_R = 2"
definition MapPermission_W :: u8 where "MapPermission_W = 4"
definition MapPermission_X :: u8 where "MapPermission_X = 8"
definition MapPermission_U :: u8 where "MapPermission_U = 16"

record MapArea =
  vpn_range :: VPNRange
  data_frames :: "(VirtPageNum \<times> PhysPageNum) list"
  map_type :: MapType
  map_perm :: u8

fun drop_frames :: "mm \<Rightarrow> PhysPageNum list \<Rightarrow> mm res" where
  "drop_frames s [] = Inr s"
| "drop_frames s (f # fs) = bindR (frame_dealloc s f) (\<lambda>s'. drop_frames s' fs)"

definition drop_option :: "mm \<Rightarrow> PhysPageNum option \<Rightarrow> mm res" where
  "drop_option s old = (case old of None \<Rightarrow> Inr s | Some f \<Rightarrow> frame_dealloc s f)"

definition MapArea_new :: "VirtAddr \<Rightarrow> VirtAddr \<Rightarrow> MapType \<Rightarrow> u8 \<Rightarrow> MapArea res" where
  "MapArea_new start_va end_va ty perm =
     bindR (VPNRange_new (va_floor start_va) (va_ceil end_va)) (\<lambda>r.
     Inr \<lparr>vpn_range = r, data_frames = [], map_type = ty, map_perm = perm\<rparr>)"

definition MapArea_from_another :: "MapArea \<Rightarrow> MapArea res" where
  "MapArea_from_another another =
     bindR (VPNRange_new (range_l (vpn_range another)) (range_r (vpn_range another))) (\<lambda>r.
     Inr \<lparr>vpn_range = r, data_frames = [], map_type = map_type another,
          map_perm = map_perm another\<rparr>)"

definition map_one ::
  "MapArea \<Rightarrow> VirtPageNum \<Rightarrow> PageTable \<times> mm \<Rightarrow> (MapArea \<times> PageTable \<times> mm) res" where
  "map_one a vpn = (\<lambda>(pt, s).
     bindR
       (case map_type a of
          Identical \<Rightarrow> Inr (PhysPageNum (vpn0 vpn), a, s)
        | Framed \<Rightarrow>
            bindR (unwrapR (frame_alloc s)) (\<lambda>(f, s1).
            case btree_insert vpn f (data_frames a) of (df, old) \<Rightarrow>
              bindR (drop_option s1 old) (\<lambda>s2. Inr (f, a\<lparr>data_frames := df\<rparr>, s2))))
       (\<lambda>(ppn, a', s').
     bindR (unwrapR (PTEFlags_from_bits (map_perm a'))) (\<lambda>flags.
     bindR (PageTable_map s' pt vpn ppn flags) (\<lambda>(pt', s''). Inr (a', pt', s'')))))"

definition unmap_one ::
  "MapArea \<Rightarrow> VirtPageNum \<Rightarrow> PageTable \<times> mm \<Rightarrow> (MapArea \<times> PageTable \<times> mm) res" where
  "unmap_one a vpn = (\<lambda>(pt, s).
     bindR
       (if map_type a = Framed then
          (case btree_remove vpn (data_frames a) of (df, old) \<Rightarrow>
             bindR (drop_option s old) (\<lambda>s'. Inr (a\<lparr>data_frames := df\<rparr>, s')))
        else Inr (a, s))
       (\<lambda>(a', s').
     bindR (PageTable_unmap s' pt vpn) (\<lambda>s''. Inr (a', pt, s''))))"

fun map_list ::
  "MapArea \<Rightarrow> VirtPageNum list \<Rightarrow> PageTable \<times> mm \<Rightarrow> (MapArea \<times> PageTable \<times> mm) res" where
  "map_list a [] w = Inr (a, w)"
| "map_list a (v # vs) w = bindR (map_one a v w) (\<lambda>(a', w'). map_list a' vs w')"

fun unmap_list ::
  "MapArea \<Rightarrow> VirtPageNum list \<Rightarrow> PageTable \<times> mm \<Rightarrow> (MapArea \<times> PageTable \<times> mm) res" where
  "unmap_list a [] w = Inr (a, w)"
| "unmap_list a (v # vs) w = bindR (unmap_one a v w) (\<lambda>(a', w'). unmap_list a' vs w')"

definition MapArea_map :: "MapArea \<Rightarrow> PageTable \<times> mm \<Rightarrow> (MapArea \<times> PageTable \<times> mm) res" where
  "MapArea_map a w = map_list a (vpns_of (vpn_range a)) w"

definition MapArea_unmap :: "MapArea \<Rightarrow> PageTable \<times> mm \<Rightarrow> (MapArea \<times> PageTable \<times> mm) res" where
  "MapArea_unmap a w = unmap_list a (vpns_of (vpn_range a)) w"

definition MapArea_shrink_to ::
  "MapArea \<Rightarrow> VirtPageNum \<Rightarrow> PageTable \<times> mm \<Rightarrow> (MapArea \<times> PageTable \<times> mm) res" where
  "MapArea_shrink_to a new_end w =
     bindR (VPNRange_new new_end (range_r (vpn_range a))) (\<lambda>r.
     bindR (unmap_list a (vpns_of r) w) (\<lambda>(a', w').
     bindR (VPNRange_new (range_l (vpn_range a')) new_end) (\<lambda>r'.
     Inr (a'\<lparr>vpn_range := r'\<rparr>, w'))))"

definition MapArea_append_to ::
  "MapArea \<Rightarrow> VirtPageNum \<Rightarrow> PageTable \<times> mm \<Rightarrow> (MapArea \<times> PageTable \<times> mm) res" where
  "MapArea_append_to a new_end w =
     bindR (VPNRange_new (range_r (vpn_range a)) new_end) (\<lambda>r.
     bindR (map_list a (vpns_of r) w) (\<lambda>(a', w').
     bindR (VPNRange_new (range_l (vpn_range a')) new_end) (\<lambda>r'.
     Inr (a'\<lparr>vpn_range := r'\<rparr>, w'))))"

text \<open>The loop of \<open>copy_data\<close> runs once for empty data: it still translates the first page.\<close>

function copy_data_loop :: "pmem \<Rightarrow> PageTable \<Rightarrow> u8 list \<Rightarrow> nat \<Rightarrow> VirtPageNum \<Rightarrow> pmem res" where
  "copy_data_loop m pt data start vpn =
     bindR (unwrapR (PageTable_translate m pt vpn)) (\<lambda>e.
       let src = slice start (min (length data) (start + 4096) - start) data;
           m' = write_bytes m (page_base (pte_ppn e)) src
       in if length data \<le> start + 4096 then Inr m'
          else copy_data_loop m' pt data (start + 4096) (vpn_step vpn))"
  by pat_completeness auto
termination by (relation "measure (\<lambda>(m, pt, data, start, vpn). length data - start)") auto

declare copy_data_loop.simps [simp del]

definition MapArea_copy_data :: "MapArea \<Rightarrow> PageTable \<Rightarrow> u8 list \<Rightarrow> mm \<Rightarrow> mm res" where
  "MapArea_copy_data a pt data s =
     bindR (assertR (map_type a = Framed)) (\<lambda>_.
     bindR (copy_data_loop (mem s) pt data 0 (range_l (vpn_range a))) (\<lambda>m. Inr (s\<lparr>mem := m\<rparr>)))"

section \<open>Memory sets\<close>

record MemorySet =
  page_table :: PageTable
  areas :: "MapArea list"

definition MemorySet_new_bare :: "mm \<Rightarrow> (MemorySet \<times> mm) res" where
  "MemorySet_new_bare s =
     bindR (PageTable_new s) (\<lambda>(pt, s'). Inr (\<lparr>page_table = pt, areas = []\<rparr>, s'))"

definition MemorySet_token :: "MemorySet \<Rightarrow> usize" where
  "MemorySet_token ms = PageTable_token (page_table ms)"

definition MemorySet_push ::
  "MemorySet \<Rightarrow> MapArea \<Rightarrow> u8 list option \<Rightarrow> mm \<Rightarrow> (MemorySet \<times> mm) res" where
  "MemorySet_push ms a data s =
     bindR (MapArea_map a (page_table ms, s)) (\<lambda>(a', pt, s1).
     bindR (case data of None \<Rightarrow> Inr s1 | Some d \<Rightarrow> MapArea_copy_data a' pt d s1) (\<lambda>s2.
     Inr (ms\<lparr>page_table := pt, areas := areas ms @ [a']\<rparr>, s2)))"

definition insert_framed_area ::
  "MemorySet \<Rightarrow> VirtAddr \<Rightarrow> VirtAddr \<Rightarrow> u8 \<Rightarrow> mm \<Rightarrow> (MemorySet \<times> mm) res" where
  "insert_framed_area ms start_va end_va permission s =
     bindR (MapArea_new start_va end_va Framed permission) (\<lambda>a. MemorySet_push ms a None s)"

text \<open>
  Removing an area unmaps its pages and drops the area, with whatever frames are left in it.
\<close>

definition remove_area_with_start_vpn ::
  "MemorySet \<Rightarrow> VirtPageNum \<Rightarrow> mm \<Rightarrow> (MemorySet \<times> mm) res" where
  "remove_area_with_start_vpn ms start_vpn s =
     (case find_index (\<lambda>a. range_l (vpn_range a) = start_vpn) (areas ms) of
        None \<Rightarrow> Inr (ms, s)
      | Some i \<Rightarrow>
          bindR (MapArea_unmap (areas ms ! i) (page_table ms, s)) (\<lambda>(a, pt, s1).
          bindR (drop_frames s1 (map snd (data_frames a))) (\<lambda>s2.
          Inr (ms\<lparr>page_table := pt, areas := take i (areas ms) @ drop (Suc i) (areas ms)\<rparr>, s2))))"

definition map_trampoline :: "usize \<Rightarrow> MemorySet \<Rightarrow> mm \<Rightarrow> (MemorySet \<times> mm) res" where
  "map_trampoline strampoline ms s =
     bindR (vpn_of_va (VirtAddr_from TRAMPOLINE)) (\<lambda>vpn.
     bindR (ppn_of_pa (PhysAddr_from strampoline)) (\<lambda>ppn.
     bindR (PageTable_map s (page_table ms) vpn ppn (PTE_R OR PTE_X)) (\<lambda>(pt, s').
     Inr (ms\<lparr>page_table := pt\<rparr>, s'))))"

text \<open>The addresses the linker script gives to the kernel's sections.\<close>

record linker_symbols =
  stext :: usize
  etext :: usize
  srodata :: usize
  erodata :: usize
  sdata :: usize
  edata :: usize
  sbss_with_stack :: usize
  ebss :: usize
  ekernel :: usize
  strampoline :: usize

fun push_identical ::
  "MemorySet \<Rightarrow> (usize \<times> usize \<times> u8) list \<Rightarrow> mm \<Rightarrow> (MemorySet \<times> mm) res" where
  "push_identical ms [] s = Inr (ms, s)"
| "push_identical ms ((l, r, perm) # segs) s =
     bindR (MapArea_new (VirtAddr_from l) (VirtAddr_from r) Identical perm) (\<lambda>a.
     bindR (MemorySet_push ms a None s) (\<lambda>(ms', s'). push_identical ms' segs s'))"

definition kernel_segments :: "linker_symbols \<Rightarrow> (usize \<times> usize \<times> u8) list" where
  "kernel_segments L =
     [(stext L, etext L, MapPermission_R OR MapPermission_X),
      (srodata L, erodata L, MapPermission_R),
      (sdata L, edata L, MapPermission_R OR MapPermission_W),
      (sbss_with_stack L, ebss L, MapPermission_R OR MapPermission_W),
      (ekernel L, MEMORY_END, MapPermission_R OR MapPermission_W)] @
     map (\<lambda>(base, size). (base, base + size, MapPermission_R OR MapPermission_W)) MMIO"

definition MemorySet_new_kernel :: "linker_symbols \<Rightarrow> mm \<Rightarrow> (MemorySet \<times> mm) res" where
  "MemorySet_new_kernel L s =
     bindR (MemorySet_new_bare s) (\<lambda>(ms, s1).
     bindR (map_trampoline (strampoline L) ms s1) (\<lambda>(ms', s2).
     push_identical ms' (kernel_segments L) s2))"

definition MemorySet_translate :: "pmem \<Rightarrow> MemorySet \<Rightarrow> VirtPageNum \<Rightarrow> PageTableEntry option" where
  "MemorySet_translate m ms vpn = PageTable_translate m (page_table ms) vpn"

definition copy_page :: "pmem \<Rightarrow> PhysPageNum \<Rightarrow> PhysPageNum \<Rightarrow> pmem" where
  "copy_page m dst src = write_bytes m (page_base dst) (get_bytes_array m src)"

fun copy_pages :: "MemorySet \<Rightarrow> MemorySet \<Rightarrow> VirtPageNum list \<Rightarrow> pmem \<Rightarrow> pmem res" where
  "copy_pages user_space ms [] m = Inr m"
| "copy_pages user_space ms (v # vs) m =
     bindR (unwrapR (MemorySet_translate m user_space v)) (\<lambda>src.
     bindR (unwrapR (MemorySet_translate m ms v)) (\<lambda>dst.
     copy_pages user_space ms vs (copy_page m (pte_ppn dst) (pte_ppn src))))"

fun copy_areas :: "MemorySet \<Rightarrow> MapArea list \<Rightarrow> MemorySet \<Rightarrow> mm \<Rightarrow> (MemorySet \<times> mm) res" where
  "copy_areas user_space [] ms s = Inr (ms, s)"
| "copy_areas user_space (a # as) ms s =
     bindR (MapArea_from_another a) (\<lambda>a'.
     bindR (MemorySet_push ms a' None s) (\<lambda>(ms', s').
     bindR (copy_pages user_space ms' (vpns_of (vpn_range a)) (mem s')) (\<lambda>m.
     copy_areas user_space as ms' (s'\<lparr>mem := m\<rparr>))))"

definition MemorySet_from_existed_user ::
  "linker_symbols \<Rightarrow> MemorySet \<Rightarrow> mm \<Rightarrow> (MemorySet \<times> mm) res" where
  "MemorySet_from_existed_user L user_space s =
     bindR (MemorySet_new_bare s) (\<lambda>(ms, s1).
     bindR (map_trampoline (strampoline L) ms s1) (\<lambda>(ms', s2).
     copy_areas user_space (areas user_space) ms' s2))"

text \<open>\<open>recycle_data_pages\<close> clears the areas, which drops their frames; the page table stays.\<close>

definition area_frames :: "MapArea list \<Rightarrow> PhysPageNum list" where
  "area_frames as = concat (map (\<lambda>a. map snd (data_frames a)) as)"

definition recycle_data_pages :: "MemorySet \<Rightarrow> mm \<Rightarrow> (MemorySet \<times> mm) res" where
  "recycle_data_pages ms s =
     bindR (drop_frames s (area_frames (areas ms))) (\<lambda>s'. Inr (ms\<lparr>areas := []\<rparr>, s'))"

text \<open>Dropping a memory set drops the page table's frames and then the areas.\<close>

definition MemorySet_drop :: "MemorySet \<Rightarrow> mm \<Rightarrow> mm res" where
  "MemorySet_drop ms s =
     bindR (drop_frames s (pt_frames (page_table ms))) (\<lambda>s'.
     drop_frames s' (area_frames (areas ms)))"

definition MemorySet_shrink_to ::
  "MemorySet \<Rightarrow> VirtAddr \<Rightarrow> VirtAddr \<Rightarrow> mm \<Rightarrow> (bool \<times> MemorySet \<times> mm) res" where
  "MemorySet_shrink_to ms start new_end s =
     (case find_index (\<lambda>a. range_l (vpn_range a) = va_floor start) (areas ms) of
        None \<Rightarrow> Inr (False, ms, s)
      | Some i \<Rightarrow>
          bindR (MapArea_shrink_to (areas ms ! i) (va_ceil new_end) (page_table ms, s))
            (\<lambda>(a, pt, s'). Inr (True, ms\<lparr>page_table := pt, areas := (areas ms)[i := a]\<rparr>, s')))"

definition MemorySet_append_to ::
  "MemorySet \<Rightarrow> VirtAddr \<Rightarrow> VirtAddr \<Rightarrow> mm \<Rightarrow> (bool \<times> MemorySet \<times> mm) res" where
  "MemorySet_append_to ms start new_end s =
     (case find_index (\<lambda>a. range_l (vpn_range a) = va_floor start) (areas ms) of
        None \<Rightarrow> Inr (False, ms, s)
      | Some i \<Rightarrow>
          bindR (MapArea_append_to (areas ms ! i) (va_ceil new_end) (page_table ms, s))
            (\<lambda>(a, pt, s'). Inr (True, ms\<lparr>page_table := pt, areas := (areas ms)[i := a]\<rparr>, s')))"

definition MemorySet_map ::
  "MemorySet \<Rightarrow> VirtPageNum \<Rightarrow> PhysPageNum \<Rightarrow> u8 \<Rightarrow> mm \<Rightarrow> (MemorySet \<times> mm) res" where
  "MemorySet_map ms vpn ppn flags s =
     bindR (PageTable_map s (page_table ms) vpn ppn flags) (\<lambda>(pt, s'). Inr (ms\<lparr>page_table := pt\<rparr>, s'))"

definition MemorySet_unmap :: "MemorySet \<Rightarrow> VirtPageNum \<Rightarrow> mm \<Rightarrow> (MemorySet \<times> mm) res" where
  "MemorySet_unmap ms vpn s = bindR (PageTable_unmap s (page_table ms) vpn) (\<lambda>s'. Inr (ms, s'))"

section \<open>Growing an address space\<close>

text \<open>
  \<open>vm_ext w w' N\<close>: from the page table and memory \<open>w\<close> to \<open>w'\<close> only frames that were free were
  taken, the set \<open>N\<close> as data frames and the others as tables, and memory outside these frames
  and the page table is untouched.
\<close>

definition vm_ext :: "PageTable \<times> mm \<Rightarrow> PageTable \<times> mm \<Rightarrow> PhysPageNum set \<Rightarrow> bool" where
  "vm_ext w w' N \<longleftrightarrow> (case (w, w') of ((pt, s), (pt', s')) \<Rightarrow>
     pt_wf s' pt' \<and> root_ppn pt' = root_ppn pt \<and>
     falloc_live (falloc s') = falloc_live (falloc s) \<union> set (pt_frames pt') \<union> N \<and>
     set (pt_frames pt') \<inter> falloc_live (falloc s) = set (pt_frames pt) \<and>
     N \<inter> falloc_live (falloc s) = {} \<and> N \<inter> set (pt_frames pt') = {} \<and>
     (\<forall>x. x \<notin> pt_pages pt' \<union> \<Union> (page_addrs ` N) \<longrightarrow> mem s' x = mem s x))"

lemma pt_wfD:
  assumes "pt_wf s pt"
  shows "falloc_inv (falloc s)" and "set (pt_frames pt) \<subseteq> falloc_live (falloc s)"
    and "distinct (pt_frames pt)"
  using assms by (auto simp: pt_wf_def pt_state_def)

lemma vm_ext_refl: "pt_wf s pt \<Longrightarrow> vm_ext (pt, s) (pt, s) {}"
  by (auto simp: vm_ext_def dest: pt_wfD)

lemma vm_ext_trans:
  assumes "vm_ext w w1 N1" and "vm_ext w1 w2 N2"
  shows "vm_ext w w2 (N1 \<union> N2)"
proof -
  obtain pt s where w: "w = (pt, s)" by fastforce
  obtain pt1 s1 where w1: "w1 = (pt1, s1)" by fastforce
  obtain pt2 s2 where w2: "w2 = (pt2, s2)" by fastforce
  let ?L = "falloc_live (falloc s)" and ?F = "set (pt_frames pt)" and ?F1 = "set (pt_frames pt1)"
    and ?F2 = "set (pt_frames pt2)"
  have L1: "falloc_live (falloc s1) = ?L \<union> ?F1 \<union> N1" "?F1 \<inter> ?L = ?F" "N1 \<inter> ?L = {}" "N1 \<inter> ?F1 = {}"
    and m1: "\<And>x. x \<notin> pt_pages pt1 \<union> \<Union> (page_addrs ` N1) \<Longrightarrow> mem s1 x = mem s x"
    using assms(1) by (auto simp: vm_ext_def w w1)
  have L2: "falloc_live (falloc s2) = (?L \<union> ?F1 \<union> N1) \<union> ?F2 \<union> N2" "?F2 \<inter> (?L \<union> ?F1 \<union> N1) = ?F1"
      "N2 \<inter> (?L \<union> ?F1 \<union> N1) = {}" "N2 \<inter> ?F2 = {}"
    and m2: "\<And>x. x \<notin> pt_pages pt2 \<union> \<Union> (page_addrs ` N2) \<Longrightarrow> mem s2 x = mem s1 x"
    using assms(2) L1(1) by (auto simp: vm_ext_def w1 w2)
  have F: "?F1 \<subseteq> ?F2" using L2(2) by blast
  then have "mem s2 x = mem s x" if "x \<notin> pt_pages pt2 \<union> \<Union> (page_addrs ` (N1 \<union> N2))" for x
    using that m1 [of x] m2 [of x] by (auto simp: pt_pages_def)
  moreover have "falloc_live (falloc s2) = ?L \<union> ?F2 \<union> (N1 \<union> N2)" using L2(1) F by blast
  moreover have "?F2 \<inter> ?L = ?F" using L2(2) L1(2) by blast
  moreover have "(N1 \<union> N2) \<inter> ?L = {}" using L1(3) L2(3) by blast
  moreover have "(N1 \<union> N2) \<inter> ?F2 = {}" using L1(4) L2(2,4) by blast
  ultimately show ?thesis
    using assms by (auto simp: vm_ext_def w w1 w2)
qed

text \<open>The pages that were live and are not tables keep their bytes.\<close>

lemma vm_ext_page:
  assumes e: "vm_ext (pt, s) (pt', s') N" and d: "d \<in> falloc_live (falloc s)" "d \<notin> set (pt_frames pt)"
  shows "get_bytes_array (mem s') d = get_bytes_array (mem s) d"
proof (rule get_bytes_array_cong)
  fix x assume x: "x \<in> page_addrs d"
  have wf: "pt_wf s' pt'" using e by (simp add: vm_ext_def)
  note inv = pt_wfD(1) [OF wf]
  have live: "set (pt_frames pt') \<union> N \<subseteq> falloc_live (falloc s')" "d \<in> falloc_live (falloc s')"
    "d \<notin> set (pt_frames pt') \<union> N"
    using e d by (auto simp: vm_ext_def)
  have "x \<notin> page_addrs f" if "f \<in> set (pt_frames pt') \<union> N" for f
    using page_addrs_disjoint [of d f] falloc_live_small [OF inv] live that x by blast
  then show "mem s' x = mem s x" using e by (auto simp: vm_ext_def pt_pages_def)
qed

lemma pt_mem_cong:
  assumes wf: "pt_wf s pt" and m: "\<And>x. x \<in> pt_pages pt \<Longrightarrow> m' x = mem s x"
  shows "pt_wf (s\<lparr>mem := m'\<rparr>) pt" and "pt_abs m' pt = pt_abs (mem s) pt"
proof -
  have ok: "pt_ok (mem s) (root_ppn pt) (set (pt_frames pt))"
    using wf by (simp add: pt_wf_def pt_state_def)
  have pte: "pte_at m' f i = pte_at (mem s) f i" if "f \<in> set (pt_frames pt)" "unat i < 512" for f i
    using ok that m by (intro pte_at_cong) (auto simp: pt_ok_def pt_pages_def)
  have w: "walk m' (root_ppn pt) q = walk (mem s) (root_ppn pt) q" if "idx_path q" for q
    using pte by (intro walk_cong [OF ok _ that]) auto
  have "pt_ok m' (root_ppn pt) (set (pt_frames pt))"
    using ok w unfolding pt_ok_def by (metis (no_types, lifting))
  then show "pt_wf (s\<lparr>mem := m'\<rparr>) pt" using wf by (simp add: pt_wf_def pt_state_def)
  show "pt_abs m' pt = pt_abs (mem s) pt"
  proof (rule ext)
    fix u
    obtain a b c where u: "indexes u = [a, b, c]" "idx_path [a, b]" "unat c < 512"
      using indexesE by metis
    have "leaf m' (root_ppn pt) [a, b] c = leaf (mem s) (root_ppn pt) [a, b] c"
      unfolding leaf_def w [OF u(2)]
      using pt_ok_node(1) [OF ok u(2)] pte u(3) by (auto split: option.splits simp del: walk.simps)
    then show "pt_abs m' pt u = pt_abs (mem s) pt u"
      using pt_abs_leaf [OF _ u(1)] by (cases "unat (vpn0 u) < 2 ^ 27") (auto simp: pt_abs_def [of _ _ u])
  qed
qed

lemma frame_alloc_ext:
  assumes wf: "pt_wf s pt" and al: "frame_alloc s = Some (f, s1)"
  shows "vm_ext (pt, s) (pt, s1) {f}" and "pt_abs (mem s1) pt = pt_abs (mem s) pt"
    and "get_bytes_array (mem s1) f = replicate 4096 0"
proof -
  note a = frame_alloc_SomeD [OF al pt_wfD(1) [OF wf]]
  have f: "f \<notin> set (pt_frames pt)" using a(2) pt_wfD(2) [OF wf] by auto
  have same: "mem s1 x = mem s x" if "x \<in> pt_pages pt" for x
  proof -
    from that obtain g where g: "g \<in> set (pt_frames pt)" "x \<in> page_addrs g" by (auto simp: pt_pages_def)
    then have "small_ppn g" using falloc_live_small [OF pt_wfD(1) [OF wf]] pt_wfD(2) [OF wf] by auto
    then have "x \<notin> page_addrs f" using page_addrs_disjoint [of g f] a(1) f g by auto
    then show ?thesis by (simp add: a(5) FrameTracker_new_other)
  qed
  note c = pt_mem_cong [OF wf same]
  show "pt_abs (mem s1) pt = pt_abs (mem s) pt" by (rule c)
  have "pt_wf s1 pt" using c(1) a pt_wfD(2) [OF wf] by (auto simp: pt_wf_def pt_state_def)
  then show "vm_ext (pt, s) (pt, s1) {f}"
    using a f pt_wfD(2) [OF wf] by (auto simp: vm_ext_def FrameTracker_new_other)
  show "get_bytes_array (mem s1) f = replicate 4096 0"
    by (intro nth_equalityI) (auto simp: get_bytes_array_def a(5) page_addrs_def intro!: FrameTracker_new_zero)
qed

lemma PageTable_map_ext:
  assumes "pt_wf s pt" and "2 \<le> falloc_free (falloc s)" and "unat (vpn0 v) < 2 ^ 27"
    and "pt_abs (mem s) pt v = None"
  obtains pt' s' where "PageTable_map s pt v ppn flags = Inr (pt', s')" "vm_ext (pt, s) (pt', s') {}"
    "pt_abs (mem s') pt' = (pt_abs (mem s) pt)(v \<mapsto> PTE_new ppn (flags OR PTE_V))"
    "falloc_free (falloc s) \<le> falloc_free (falloc s') + 2"
  using PageTable_map_spec [OF assms(1-3), of ppn flags] assms(4) by (auto simp: vm_ext_def)

lemma btree_insert_last:
  "\<forall>k' \<in> fst ` set xs. k' < k \<Longrightarrow> btree_insert k v xs = (xs @ [(k, v)], None)"
  by (induction xs) auto

lemma map_one_framed:
  assumes wf: "pt_wf s pt" and ty: "map_type a = Framed" and n: "3 \<le> falloc_free (falloc s)"
    and v: "unat (vpn0 v) < 2 ^ 27" and new: "pt_abs (mem s) pt v = None"
    and last: "\<forall>k \<in> fst ` set (data_frames a). k < v"
  obtains f pt' s' where
    "map_one a v (pt, s) = Inr (a\<lparr>data_frames := data_frames a @ [(v, f)]\<rparr>, pt', s')"
    "vm_ext (pt, s) (pt', s') {f}" "small_ppn f"
    "pt_abs (mem s') pt' = (pt_abs (mem s) pt)(v \<mapsto> PTE_new f (map_perm a OR PTE_V))"
    "get_bytes_array (mem s') f = replicate 4096 0"
    "falloc_free (falloc s) \<le> falloc_free (falloc s') + 3"
proof -
  obtain f s1 where al: "frame_alloc s = Some (f, s1)"
    and n1: "falloc_free (falloc s) = Suc (falloc_free (falloc s1))"
    using frame_alloc_free [OF pt_wfD(1) [OF wf]] n by (metis less_le_trans zero_less_numeral)
  note e1 = frame_alloc_ext [OF wf al]
  note a1 = frame_alloc_SomeD [OF al pt_wfD(1) [OF wf]]
  have "pt_wf s1 pt" using e1(1) by (simp add: vm_ext_def)
  moreover have "2 \<le> falloc_free (falloc s1)" using n n1 by simp
  moreover have "pt_abs (mem s1) pt v = None" using new e1(2) by simp
  ultimately obtain pt' s' where m: "PageTable_map s1 pt v f (map_perm a) = Inr (pt', s')"
    and e2: "vm_ext (pt, s1) (pt', s') {}"
    and ab: "pt_abs (mem s') pt' = (pt_abs (mem s1) pt)(v \<mapsto> PTE_new f (map_perm a OR PTE_V))"
    and n2: "falloc_free (falloc s1) \<le> falloc_free (falloc s') + 2"
    using PageTable_map_ext v by metis
  have "get_bytes_array (mem s') f = get_bytes_array (mem s1) f"
    using a1(2,4) pt_wfD(2) [OF wf] by (intro vm_ext_page [OF e2]) auto
  moreover have "map_one a v (pt, s) = Inr (a\<lparr>data_frames := data_frames a @ [(v, f)]\<rparr>, pt', s')"
    using ty al m by (simp add: map_one_def btree_insert_last [OF last] drop_option_def)
  ultimately show ?thesis
    using that [of f pt' s'] vm_ext_trans [OF e1(1) e2] ab e1(2,3) a1(1) n1 n2 by simp
qed

definition area_pte :: "MapArea \<Rightarrow> PhysPageNum \<Rightarrow> PageTableEntry" where
  "area_pte a f = PTE_new f (map_perm a OR PTE_V)"

lemma map_add_Cons:
  "v \<notin> set vs \<Longrightarrow> m(v \<mapsto> x) ++ map_of (zip vs xs) = m ++ map_of (zip (v # vs) (x # xs))"
  by (auto simp: fun_eq_iff map_add_def split: option.splits dest: map_of_SomeD set_zip_leftD)

lemma map_of_zip_map2:
  assumes "distinct ks" and "(k, x) \<in> set (zip ks xs)" and "length xs = length ks"
  shows "map_of (zip ks (map g xs)) k = Some (g x)"
  using assms by (simp add: zip_map2 map_of_map)

lemma map_list_framed:
  assumes "pt_wf s pt" and "map_type a = Framed" and "3 * length vs \<le> falloc_free (falloc s)"
    and "\<forall>v \<in> set vs. unat (vpn0 v) < 2 ^ 27 \<and> pt_abs (mem s) pt v = None"
    and "sorted_wrt (<) (map fst (data_frames a) @ vs)"
  shows "\<exists>fs pt' s'. length fs = length vs \<and>
    map_list a vs (pt, s) = Inr (a\<lparr>data_frames := data_frames a @ zip vs fs\<rparr>, pt', s') \<and>
    vm_ext (pt, s) (pt', s') (set fs) \<and> distinct fs \<and>
    pt_abs (mem s') pt' = pt_abs (mem s) pt ++ map_of (zip vs (map (area_pte a) fs)) \<and>
    (\<forall>f \<in> set fs. get_bytes_array (mem s') f = replicate 4096 0) \<and>
    falloc_free (falloc s) \<le> falloc_free (falloc s') + 3 * length vs"
  using assms
proof (induction vs arbitrary: a pt s)
  case Nil
  then show ?case by (auto intro: vm_ext_refl)
next
  case (Cons v vs)
  have last: "\<forall>k \<in> fst ` set (data_frames a). k < v" and v: "v \<notin> set vs"
    using Cons.prems(5) by (auto simp: sorted_wrt_append)
  from Cons.prems obtain f pt1 s1 where
    m1: "map_one a v (pt, s) = Inr (a\<lparr>data_frames := data_frames a @ [(v, f)]\<rparr>, pt1, s1)"
    and e1: "vm_ext (pt, s) (pt1, s1) {f}" and f: "small_ppn f"
    and ab1: "pt_abs (mem s1) pt1 = (pt_abs (mem s) pt)(v \<mapsto> area_pte a f)"
    and z1: "get_bytes_array (mem s1) f = replicate 4096 0"
    and n1: "falloc_free (falloc s) \<le> falloc_free (falloc s1) + 3"
    using map_one_framed [OF _ _ _ _ _ last, of s pt] by (auto simp: area_pte_def)
  let ?a = "a\<lparr>data_frames := data_frames a @ [(v, f)]\<rparr>"
  have wf1: "pt_wf s1 pt1" and fl: "f \<in> falloc_live (falloc s1)" "f \<notin> set (pt_frames pt1)"
    using e1 by (auto simp: vm_ext_def)
  have prems: "map_type ?a = Framed" "3 * length vs \<le> falloc_free (falloc s1)"
    "\<forall>v \<in> set vs. unat (vpn0 v) < 2 ^ 27 \<and> pt_abs (mem s1) pt1 v = None"
    "sorted_wrt (<) (map fst (data_frames ?a) @ vs)"
    using Cons.prems n1 ab1 v by auto
  obtain fs pt' s' where len: "length fs = length vs"
    and m2: "map_list ?a vs (pt1, s1) = Inr (?a\<lparr>data_frames := data_frames ?a @ zip vs fs\<rparr>, pt', s')"
    and e2: "vm_ext (pt1, s1) (pt', s') (set fs)" and d2: "distinct fs"
    and ab2: "pt_abs (mem s') pt' = pt_abs (mem s1) pt1 ++ map_of (zip vs (map (area_pte ?a) fs))"
    and z2: "\<forall>f \<in> set fs. get_bytes_array (mem s') f = replicate 4096 0"
    and n2: "falloc_free (falloc s1) \<le> falloc_free (falloc s') + 3 * length vs"
    using Cons.IH [OF wf1 prems] by blast
  have pte: "area_pte ?a = area_pte a" by (rule ext) (simp add: area_pte_def)
  have "f \<notin> set fs" using e2 fl by (auto simp: vm_ext_def)
  moreover have "get_bytes_array (mem s') f = replicate 4096 0"
    using vm_ext_page [OF e2 fl] z1 by simp
  moreover have "vm_ext (pt, s) (pt', s') (set (f # fs))"
    using vm_ext_trans [OF e1 e2] by simp
  moreover have "pt_abs (mem s') pt' = pt_abs (mem s) pt ++ map_of (zip (v # vs) (map (area_pte a) (f # fs)))"
    using ab1 ab2 map_add_Cons [OF v, of "pt_abs (mem s) pt" "area_pte a f"] by (simp add: pte)
  ultimately show ?case
    using m1 m2 len d2 z2 n1 n2
    by (intro exI [of _ "f # fs"] exI [of _ pt'] exI [of _ s'] conjI) (assumption | simp)+
qed

section \<open>Well-formed address spaces\<close>

text \<open>
  The contract of an address space: a map from page numbers to bytes and permissions,
  \<open>vm_view\<close>. The invariant \<open>ms_wf\<close> says that each framed area maps exactly its range, each
  page to the frame the area owns for it, and that all frames are live and owned once.
\<close>

definition vm_view :: "pmem \<Rightarrow> PageTable \<Rightarrow> VirtPageNum \<Rightarrow> (u8 list \<times> u8) option" where
  "vm_view m pt v = map_option (\<lambda>e. (get_bytes_array m (pte_ppn e), pte_flags e)) (pt_abs m pt v)"

definition range_ok :: "VPNRange \<Rightarrow> bool" where
  "range_ok r \<longleftrightarrow> range_l r \<le> range_r r \<and> unat (vpn0 (range_r r)) \<le> 2 ^ 27"

definition area_ok :: "pmem \<Rightarrow> PageTable \<Rightarrow> MapArea \<Rightarrow> bool" where
  "area_ok m pt a \<longleftrightarrow> range_ok (vpn_range a) \<and>
     (case map_type a of
        Identical \<Rightarrow> data_frames a = [] \<and>
          (\<forall>v \<in> set (vpns_of (vpn_range a)). pt_abs m pt v = Some (area_pte a (PhysPageNum (vpn0 v))))
      | Framed \<Rightarrow> map fst (data_frames a) = vpns_of (vpn_range a) \<and>
          (\<forall>(v, f) \<in> set (data_frames a). pt_abs m pt v = Some (area_pte a f)))"

definition ms_wf :: "mm \<Rightarrow> MemorySet \<Rightarrow> bool" where
  "ms_wf s ms \<longleftrightarrow> pt_wf s (page_table ms) \<and> distinct (area_frames (areas ms)) \<and>
     set (area_frames (areas ms)) \<subseteq> falloc_live (falloc s) \<and>
     set (area_frames (areas ms)) \<inter> set (pt_frames (page_table ms)) = {} \<and>
     (\<forall>a \<in> set (areas ms). area_ok (mem s) (page_table ms) a)"

definition ms_frames :: "MemorySet \<Rightarrow> PhysPageNum set" where
  "ms_frames ms = set (pt_frames (page_table ms)) \<union> set (area_frames (areas ms))"

lemma area_pte_simps [simp]:
  "small_ppn f \<Longrightarrow> pte_ppn (area_pte a f) = f" "pte_flags (area_pte a f) = map_perm a OR PTE_V"
  by (simp_all add: area_pte_def)

lemma vpns_of_less:
  assumes "range_ok r" and "v \<in> set (vpns_of r)"
  shows "unat (vpn0 v) < 2 ^ 27"
  using assms set_range_iter [of "range_l r" "range_r r"]
  by (auto simp: range_ok_def vpns_of_def less_VirtPageNum_def word_less_nat_alt)

lemma sorted_range_iter:
  assumes "l \<le> r"
  shows "sorted_wrt (<) (range_iter l r)"
  unfolding range_iter_words [OF assms] sorted_wrt_map
proof (rule sorted_wrt_mono_rel [OF _ sorted_wrt_upt])
  fix i j
  assume "j \<in> set [unat (vpn0 l)..<unat (vpn0 r)]" "i < j"
  moreover have "unat (vpn0 r) < 2 ^ 64"
    using unsigned_less [of "vpn0 r", where ?'a = nat] by simp
  ultimately have "i < 2 ^ 64" "j < 2 ^ 64" by auto
  then show "VirtPageNum (word_of_nat i) < VirtPageNum (word_of_nat j)"
    using \<open>i < j\<close> by (simp add: less_VirtPageNum_def word_less_nat_alt unat_of_nat take_bit_eq_mod)
qed

lemma sorted_vpns_of: "range_ok r \<Longrightarrow> sorted_wrt (<) (vpns_of r)"
  by (simp add: range_ok_def vpns_of_def sorted_range_iter)

lemma ms_wfD:
  assumes "ms_wf s ms"
  shows "pt_wf s (page_table ms)" and "ms_frames ms \<subseteq> falloc_live (falloc s)"
    and "falloc_inv (falloc s)"
  using assms pt_wfD by (auto simp: ms_wf_def ms_frames_def)

lemma area_frames_append [simp]: "area_frames (xs @ ys) = area_frames xs @ area_frames ys"
  by (simp add: area_frames_def)

lemma area_frames_Nil [simp]: "area_frames [] = []"
  by (simp add: area_frames_def)

lemma area_frames_Cons: "area_frames (a # as) = map snd (data_frames a) @ area_frames as"
  by (simp add: area_frames_def)

lemma area_ok_mono:
  assumes "area_ok m pt a" and "\<And>v e. v \<in> set (vpns_of (vpn_range a)) \<Longrightarrow> pt_abs m pt v = Some e \<Longrightarrow> pt_abs m' pt' v = Some e"
  shows "area_ok m' pt' a"
proof (cases "map_type a")
  case Framed
  have "v \<in> set (vpns_of (vpn_range a))" if "(v, f) \<in> set (data_frames a)" for v f
  proof -
    have "set (map fst (data_frames a)) = set (vpns_of (vpn_range a))"
      using assms(1) Framed by (simp add: area_ok_def)
    with that show ?thesis by force
  qed
  with assms Framed show ?thesis by (auto simp: area_ok_def)
qed (use assms in \<open>auto simp: area_ok_def\<close>)

lemma area_ok_framed_page:
  assumes "area_ok m pt a" and "map_type a = Framed" and "v \<in> set (vpns_of (vpn_range a))"
  obtains f where "(v, f) \<in> set (data_frames a)" "pt_abs m pt v = Some (area_pte a f)"
proof -
  from assms have "v \<in> fst ` set (data_frames a)" by (simp add: area_ok_def flip: set_map)
  then obtain f where "(v, f) \<in> set (data_frames a)" by auto
  with assms that show ?thesis by (auto simp: area_ok_def)
qed

lemma area_frames_mem: "a \<in> set as \<Longrightarrow> (v, f) \<in> set (data_frames a) \<Longrightarrow> f \<in> set (area_frames as)"
  by (force simp: area_frames_def)

lemma ms_wf_data_page:
  assumes "ms_wf s ms" and "a \<in> set (areas ms)" and "map_type a = Framed"
    and "v \<in> set (vpns_of (vpn_range a))"
  obtains f where "(v, f) \<in> set (data_frames a)" "pt_abs (mem s) (page_table ms) v = Some (area_pte a f)"
    "f \<in> falloc_live (falloc s)" "f \<notin> set (pt_frames (page_table ms))" "small_ppn f"
    "f \<in> set (area_frames (areas ms))"
proof -
  have "area_ok (mem s) (page_table ms) a" using assms(1,2) by (simp add: ms_wf_def)
  then obtain f where f: "(v, f) \<in> set (data_frames a)"
    "pt_abs (mem s) (page_table ms) v = Some (area_pte a f)"
    using area_ok_framed_page assms(3,4) by metis
  have "f \<in> set (area_frames (areas ms))" using area_frames_mem [OF assms(2) f(1)] .
  with f assms(1) that falloc_live_small [OF ms_wfD(3) [OF assms(1)]] show ?thesis
    by (auto simp: ms_wf_def)
qed

text \<open>An address space is not disturbed when another one grows.\<close>

lemma ms_wf_other:
  assumes u: "ms_wf s u" and e: "vm_ext (pt, s) (pt', s') N"
    and disj: "ms_frames u \<inter> set (pt_frames pt) = {}"
  shows "ms_wf s' u" and "pt_abs (mem s') (page_table u) = pt_abs (mem s) (page_table u)"
    and "\<And>f. f \<in> ms_frames u \<Longrightarrow> get_bytes_array (mem s') f = get_bytes_array (mem s) f"
proof -
  have live: "ms_frames u \<subseteq> falloc_live (falloc s)" by (rule ms_wfD(2) [OF u])
  show page: "get_bytes_array (mem s') f = get_bytes_array (mem s) f" if "f \<in> ms_frames u" for f
    using live disj that by (intro vm_ext_page [OF e]) auto
  have same: "mem s' x = mem s x" if "x \<in> pt_pages (page_table u)" for x
  proof -
    from that obtain f where f: "f \<in> ms_frames u" "x \<in> page_addrs f"
      by (auto simp: pt_pages_def ms_frames_def)
    then have "get_bytes_array (mem s') f ! (x - page_base f) = get_bytes_array (mem s) f ! (x - page_base f)"
      using page by simp
    with f(2) show ?thesis by (auto simp: get_bytes_array_def page_addrs_def)
  qed
  note c = pt_mem_cong [OF ms_wfD(1) [OF u] same]
  show ab: "pt_abs (mem s') (page_table u) = pt_abs (mem s) (page_table u)" by (rule c)
  have "falloc_inv (falloc s')" "falloc_live (falloc s) \<subseteq> falloc_live (falloc s')"
    using e by (auto simp: vm_ext_def dest: pt_wfD)
  then have "pt_wf s' (page_table u)" using c(1) by (auto simp: pt_wf_def pt_state_def)
  with u e show "ms_wf s' u"
    by (auto simp: ms_wf_def vm_ext_def ab intro: area_ok_mono)
qed

lemma MemorySet_push_framed:
  assumes ms: "ms_wf s ms" and a: "map_type a = Framed" "data_frames a = []" "range_ok (vpn_range a)"
    and new: "\<forall>v \<in> set (vpns_of (vpn_range a)). pt_abs (mem s) (page_table ms) v = None"
    and n: "3 * length (vpns_of (vpn_range a)) \<le> falloc_free (falloc s)"
  obtains fs ms' s' where "MemorySet_push ms a None s = Inr (ms', s')"
    "length fs = length (vpns_of (vpn_range a))"
    "areas ms' = areas ms @ [a\<lparr>data_frames := zip (vpns_of (vpn_range a)) fs\<rparr>]"
    "vm_ext (page_table ms, s) (page_table ms', s') (set fs)" "ms_wf s' ms'"
    "pt_abs (mem s') (page_table ms') = pt_abs (mem s) (page_table ms) ++
       map_of (zip (vpns_of (vpn_range a)) (map (area_pte a) fs))"
    "\<forall>f \<in> set fs. get_bytes_array (mem s') f = replicate 4096 0"
    "falloc_free (falloc s) \<le> falloc_free (falloc s') + 3 * length (vpns_of (vpn_range a))"
proof -
  let ?vs = "vpns_of (vpn_range a)" and ?pt = "page_table ms"
  have "\<forall>v \<in> set ?vs. unat (vpn0 v) < 2 ^ 27 \<and> pt_abs (mem s) ?pt v = None"
    using new vpns_of_less [OF a(3)] by blast
  then obtain fs pt' s' where len: "length fs = length ?vs"
    and run: "map_list a ?vs (?pt, s) = Inr (a\<lparr>data_frames := zip ?vs fs\<rparr>, pt', s')"
    and e: "vm_ext (?pt, s) (pt', s') (set fs)" and d: "distinct fs"
    and ab: "pt_abs (mem s') pt' = pt_abs (mem s) ?pt ++ map_of (zip ?vs (map (area_pte a) fs))"
    and z: "\<forall>f \<in> set fs. get_bytes_array (mem s') f = replicate 4096 0"
    and n': "falloc_free (falloc s) \<le> falloc_free (falloc s') + 3 * length ?vs"
    using map_list_framed [OF ms_wfD(1) [OF ms] a(1) n] a(2) sorted_vpns_of [OF a(3)] by auto
  let ?a = "a\<lparr>data_frames := zip ?vs fs\<rparr>"
  let ?ms = "ms\<lparr>page_table := pt', areas := areas ms @ [?a]\<rparr>"
  have fr: "area_frames (areas ?ms) = area_frames (areas ms) @ fs"
    using len by (simp add: area_frames_Cons)
  have old: "area_ok (mem s') pt' b" if "b \<in> set (areas ms)" for b
  proof (rule area_ok_mono)
    show "area_ok (mem s) ?pt b" using ms that by (simp add: ms_wf_def)
    fix v x assume "pt_abs (mem s) ?pt v = Some x"
    moreover from this have "v \<notin> set ?vs" using new by auto
    ultimately show "pt_abs (mem s') pt' v = Some x"
      by (auto simp: ab map_add_def split: option.splits dest: map_of_SomeD set_zip_leftD)
  qed
  have "distinct ?vs" using sorted_vpns_of [OF a(3)] by (simp add: strict_sorted_iff)
  then have "pt_abs (mem s') pt' v = Some (area_pte a f)" if "(v, f) \<in> set (zip ?vs fs)" for v f
    using that len by (simp add: ab map_add_Some_iff map_of_zip_map2)
  then have "area_ok (mem s') pt' ?a" using a len by (auto simp: area_ok_def area_pte_def)
  then have "ms_wf s' ?ms"
    using ms e d old fr unfolding ms_wf_def vm_ext_def by auto
  then show ?thesis
    using that [of ?ms s' fs] run len e ab z n' by (simp add: MemorySet_push_def MapArea_map_def)
qed

end
