(* ===== verification/Address_Space.thy ===== *)
theory Address_Space
  imports Memory_Set
begin

text \<open>
  Contracts of the address-space operations of os/src/mm/memory_set.rs: the copy that \<open>fork\<close>
  makes shows the same memory in frames of its own, and dropping an address space gives back
  exactly its frames.
\<close>

unbundle bit_operations_syntax

section \<open>Copying an address space\<close>

lemma copy_page_outside: "x \<notin> page_addrs dst \<Longrightarrow> copy_page m dst src x = m x"
  by (auto simp: copy_page_def write_bytes_def page_addrs_def)

lemma copy_page_same: "get_bytes_array (copy_page m dst src) dst = get_bytes_array m src"
  by (simp add: copy_page_def get_bytes_array_eq)

lemma copy_page_other:
  "small_ppn dst \<Longrightarrow> small_ppn f \<Longrightarrow> f \<noteq> dst \<Longrightarrow>
   get_bytes_array (copy_page m dst src) f = get_bytes_array m f"
  using page_addrs_disjoint [of f dst] by (intro get_bytes_array_cong copy_page_outside) auto

lemma pt_wf_outside:
  assumes "pt_wf (s\<lparr>mem := m\<rparr>) pt" and "small_ppn d" and "d \<notin> set (pt_frames pt)"
    and "\<And>x. x \<notin> page_addrs d \<Longrightarrow> m' x = m x"
  shows "pt_wf (s\<lparr>mem := m'\<rparr>) pt" and "pt_abs m' pt = pt_abs m pt"
proof -
  have "m' x = mem (s\<lparr>mem := m\<rparr>) x" if "x \<in> pt_pages pt" for x
  proof -
    from that obtain g where g: "g \<in> set (pt_frames pt)" "x \<in> page_addrs g" by (auto simp: pt_pages_def)
    then have "small_ppn g" using falloc_live_small [OF pt_wfD(1)] pt_wfD(2) assms(1) by blast
    then have "x \<notin> page_addrs d" using page_addrs_disjoint [of g d] assms(2,3) g by auto
    then show ?thesis using assms(4) by simp
  qed
  from pt_mem_cong [OF assms(1) this] show "pt_wf (s\<lparr>mem := m'\<rparr>) pt" "pt_abs m' pt = pt_abs m pt"
    by simp_all
qed

text \<open>
  The copy loop, for a source and a destination that map the pages \<open>vs\<close> to the frames \<open>S\<close> and
  \<open>D\<close>, the latter apart from the tables of both and from all sources.
\<close>

lemma copy_pages_spec:
  assumes "pt_wf (s\<lparr>mem := m\<rparr>) (page_table u)" and "pt_wf (s\<lparr>mem := m\<rparr>) (page_table ms)"
    and "\<forall>v \<in> set vs. \<exists>e. pt_abs m (page_table u) v = Some e \<and> pte_ppn e = S v"
    and "\<forall>v \<in> set vs. \<exists>e. pt_abs m (page_table ms) v = Some e \<and> pte_ppn e = D v"
    and "\<forall>v \<in> set vs. D v \<notin> set (pt_frames (page_table u)) \<union> set (pt_frames (page_table ms)) \<union> S ` set vs"
    and "inj_on D (set vs)" and "distinct vs"
  shows "\<exists>m'. copy_pages u ms vs m = Inr m' \<and>
    (\<forall>v \<in> set vs. get_bytes_array m' (D v) = get_bytes_array m (S v)) \<and>
    (\<forall>x. x \<notin> \<Union> (page_addrs ` D ` set vs) \<longrightarrow> m' x = m x)"
  using assms
proof (induction vs arbitrary: m)
  case (Cons v vs)
  from Cons.prems(3,4) obtain e e' where e: "pt_abs m (page_table u) v = Some e" "pte_ppn e = S v"
    and e': "pt_abs m (page_table ms) v = Some e'" "pte_ppn e' = D v" by auto
  let ?m = "copy_page m (D v) (S v)"
  have D: "small_ppn (D w)" and S: "small_ppn (S w)" if "w \<in> set (v # vs)" for w
    using Cons.prems(3,4) that by (metis small_pte_ppn)+
  have fr: "D v \<notin> set (pt_frames (page_table u))" "D v \<notin> set (pt_frames (page_table ms))"
    using Cons.prems(5) by auto
  have Dv: "small_ppn (D v)" using D by simp
  note out = copy_page_outside [of _ "D v" m "S v"]
  have u: "pt_wf (s\<lparr>mem := ?m\<rparr>) (page_table u)" "pt_abs ?m (page_table u) = pt_abs m (page_table u)"
    by (rule pt_wf_outside [OF Cons.prems(1) Dv fr(1)]; simp add: out)+
  have ms: "pt_wf (s\<lparr>mem := ?m\<rparr>) (page_table ms)" "pt_abs ?m (page_table ms) = pt_abs m (page_table ms)"
    by (rule pt_wf_outside [OF Cons.prems(2) Dv fr(2)]; simp add: out)+
  obtain m' where run: "copy_pages u ms vs ?m = Inr m'"
    and c: "\<forall>v \<in> set vs. get_bytes_array m' (D v) = get_bytes_array ?m (S v)"
    and o: "\<forall>x. x \<notin> \<Union> (page_addrs ` D ` set vs) \<longrightarrow> m' x = ?m x"
    using Cons.IH [OF u(1) ms(1)] Cons.prems u(2) ms(2) by auto
  have "D v \<notin> S ` set vs" using Cons.prems(5) by simp
  then have "S w \<noteq> D v" if "w \<in> set vs" for w using that by (metis imageI)
  then have "get_bytes_array ?m (S w) = get_bytes_array m (S w)" if "w \<in> set vs" for w
    using that D S by (intro copy_page_other) auto
  moreover have "get_bytes_array m' (D v) = get_bytes_array ?m (D v)"
  proof (rule get_bytes_array_cong)
    fix x assume x: "x \<in> page_addrs (D v)"
    have "D v \<noteq> D w" if "w \<in> set vs" for w
      using Cons.prems(6,7) that by (auto simp: inj_on_def)
    then have "x \<notin> page_addrs (D w)" if "w \<in> set vs" for w
      using page_addrs_disjoint [OF D D, of v w] x that by auto
    then show "m' x = ?m x" using o by auto
  qed
  ultimately show ?case
    using run c o e e' pt_abs_SomeD(1) [OF e(1)] pt_abs_SomeD(1) [OF e'(1)]
    by (auto simp: MemorySet_translate_def copy_page_same copy_page_outside)
qed simp

lemma ms_wf_mem:
  assumes ms: "ms_wf s ms" and m: "\<And>x. x \<in> pt_pages (page_table ms) \<Longrightarrow> m' x = mem s x"
  shows "ms_wf (s\<lparr>mem := m'\<rparr>) ms" and "pt_abs m' (page_table ms) = pt_abs (mem s) (page_table ms)"
proof -
  note c = pt_mem_cong [OF ms_wfD(1) [OF ms] m]
  show ab: "pt_abs m' (page_table ms) = pt_abs (mem s) (page_table ms)" by (rule c)
  show "ms_wf (s\<lparr>mem := m'\<rparr>) ms"
    using ms c(1) by (auto simp: ms_wf_def ab intro: area_ok_mono)
qed

lemma view_ext:
  assumes ms: "ms_wf s ms" and e: "vm_ext (page_table ms, s) (pt', s') N"
    and a: "a \<in> set (areas ms)" "map_type a = Framed" "v \<in> set (vpns_of (vpn_range a))"
    and ab: "pt_abs (mem s') pt' v = pt_abs (mem s) (page_table ms) v"
  shows "vm_view (mem s') pt' v = vm_view (mem s) (page_table ms) v"
  using ms_wf_data_page [OF ms a] vm_ext_page [OF e] unfolding vm_view_def ab by force

lemma view_other:
  assumes u: "ms_wf s u" and e: "vm_ext (pt, s) (pt', s') N"
    and disj: "ms_frames u \<inter> set (pt_frames pt) = {}"
    and a: "a \<in> set (areas u)" "map_type a = Framed" "v \<in> set (vpns_of (vpn_range a))"
  shows "vm_view (mem s') (page_table u) v = vm_view (mem s) (page_table u) v"
  using ms_wf_data_page [OF u a] ms_wf_other(2,3) [OF u e disj]
  unfolding vm_view_def by (force simp: ms_frames_def)

lemma frames_outside:
  assumes "falloc_inv a" and "F \<subseteq> falloc_live a" and "G \<subseteq> falloc_live a" and "F \<inter> G = {}"
    and "x \<in> \<Union> (page_addrs ` F)"
  shows "x \<notin> \<Union> (page_addrs ` G)"
  using assms page_addrs_disjoint falloc_live_small [OF assms(1)] by blast

lemma zip_distinct_snd:
  assumes "distinct ys" and "(a, y) \<in> set (zip xs ys)" and "(b, y) \<in> set (zip xs ys)"
  shows "a = b"
  using assms by (auto simp: set_zip nth_eq_iff_index_eq)

lemma copy_area_step:
  assumes u: "ms_wf s u" and a: "a \<in> set (areas u)" "map_type a = Framed"
    and ms: "ms_wf s ms" and disj: "ms_frames u \<inter> ms_frames ms = {}"
    and new: "\<forall>v \<in> set (vpns_of (vpn_range a)). pt_abs (mem s) (page_table ms) v = None"
    and n: "3 * length (vpns_of (vpn_range a)) \<le> falloc_free (falloc s)"
  obtains fs ms1 s1 m' where "MapArea_from_another a = Inr (a\<lparr>data_frames := []\<rparr>)"
    "MemorySet_push ms (a\<lparr>data_frames := []\<rparr>) None s = Inr (ms1, s1)"
    "copy_pages u ms1 (vpns_of (vpn_range a)) (mem s1) = Inr m'"
    "vm_ext (page_table ms, s) (page_table ms1, s1\<lparr>mem := m'\<rparr>) (set fs)" "ms_wf (s1\<lparr>mem := m'\<rparr>) ms1"
    "length fs = length (vpns_of (vpn_range a))"
    "areas ms1 = areas ms @ [a\<lparr>data_frames := zip (vpns_of (vpn_range a)) fs\<rparr>]"
    "pt_abs m' (page_table ms1) = pt_abs (mem s) (page_table ms) ++
       map_of (zip (vpns_of (vpn_range a)) (map (area_pte a) fs))"
    "\<forall>v \<in> set (vpns_of (vpn_range a)). vm_view m' (page_table ms1) v = vm_view (mem s) (page_table u) v"
    "falloc_free (falloc s) \<le> falloc_free (falloc s1) + 3 * length (vpns_of (vpn_range a))"
proof -
  let ?vs = "vpns_of (vpn_range a)" and ?a = "a\<lparr>data_frames := []\<rparr>"
  have rng: "range_ok (vpn_range a)" using u a(1) by (auto simp: ms_wf_def area_ok_def)
  have another: "MapArea_from_another a = Inr ?a"
    using rng by (simp add: MapArea_from_another_def VPNRange_new_def range_ok_def)
  have pte: "area_pte ?a = area_pte a" by (rule ext) (simp add: area_pte_def)
  obtain fs ms1 s1 where push: "MemorySet_push ms ?a None s = Inr (ms1, s1)"
    and len: "length fs = length ?vs"
    and ar: "areas ms1 = areas ms @ [a\<lparr>data_frames := zip ?vs fs\<rparr>]"
    and e: "vm_ext (page_table ms, s) (page_table ms1, s1) (set fs)" and ms1: "ms_wf s1 ms1"
    and ab: "pt_abs (mem s1) (page_table ms1) = pt_abs (mem s) (page_table ms) ++
       map_of (zip ?vs (map (area_pte a) fs))"
    and n1: "falloc_free (falloc s) \<le> falloc_free (falloc s1) + 3 * length ?vs"
    by (rule MemorySet_push_framed [OF ms, of ?a]) (use a rng new n pte in auto)
  have disj': "ms_frames u \<inter> set (pt_frames (page_table ms)) = {}" using disj by (auto simp: ms_frames_def)
  note ou = ms_wf_other [OF u e disj']
  have dfs: "distinct fs" using ms1 len by (simp add: ms_wf_def ar area_frames_Cons)
  have dvs: "distinct ?vs" using sorted_vpns_of [OF rng] by (simp add: strict_sorted_iff)
  have "\<forall>v \<in> set ?vs. \<exists>f. pt_abs (mem s1) (page_table u) v = Some (area_pte a f) \<and>
      f \<in> ms_frames u \<and> small_ppn f"
    using ms_wf_data_page [OF ou(1) a] by (metis UnCI ms_frames_def)
  then obtain S where S: "\<And>v. v \<in> set ?vs \<Longrightarrow> pt_abs (mem s1) (page_table u) v = Some (area_pte a (S v))"
      "\<And>v. v \<in> set ?vs \<Longrightarrow> S v \<in> ms_frames u" "\<And>v. v \<in> set ?vs \<Longrightarrow> small_ppn (S v)"
    by metis
  have "\<forall>v \<in> set ?vs. \<exists>f. pt_abs (mem s1) (page_table ms1) v = Some (area_pte a f) \<and>
      (v, f) \<in> set (zip ?vs fs) \<and> small_ppn f"
    using ms_wf_data_page [OF ms1, of "a\<lparr>data_frames := zip ?vs fs\<rparr>"] a(2)
    by (simp add: ar area_pte_def) metis
  then obtain D where D: "\<And>v. v \<in> set ?vs \<Longrightarrow> pt_abs (mem s1) (page_table ms1) v = Some (area_pte a (D v))"
      "\<And>v. v \<in> set ?vs \<Longrightarrow> (v, D v) \<in> set (zip ?vs fs)" "\<And>v. v \<in> set ?vs \<Longrightarrow> small_ppn (D v)"
    by metis
  have Dfs: "D v \<in> set fs" if "v \<in> set ?vs" for v using D(2) [OF that] by (rule set_zip_rightD)
  have inj: "inj_on D (set ?vs)"
  proof (rule inj_onI)
    fix v w assume vw: "v \<in> set ?vs" "w \<in> set ?vs" "D v = D w"
    show "v = w" using zip_distinct_snd [OF dfs D(2) [OF vw(1)]] D(2) [OF vw(2)] vw(3) by simp
  qed
  have fresh: "set fs \<inter> falloc_live (falloc s) = {}" "set fs \<inter> set (pt_frames (page_table ms1)) = {}"
    and wf1: "pt_wf s1 (page_table ms1)" and live1: "set fs \<subseteq> falloc_live (falloc s1)"
    using e by (auto simp: vm_ext_def)
  have ufr: "ms_frames u \<inter> set fs = {}" using fresh(1) ms_wfD(2) [OF u] by auto
  have apart: "\<forall>v \<in> set ?vs. D v \<notin> set (pt_frames (page_table u)) \<union>
      set (pt_frames (page_table ms1)) \<union> S ` set ?vs"
  proof
    fix v assume "v \<in> set ?vs"
    note Dv = Dfs [OF this]
    have "D v \<notin> ms_frames u" using Dv ufr by blast
    moreover have "S ` set ?vs \<subseteq> ms_frames u" using S(2) by blast
    ultimately show "D v \<notin> set (pt_frames (page_table u)) \<union> set (pt_frames (page_table ms1)) \<union> S ` set ?vs"
      using Dv fresh(2) by (auto simp: ms_frames_def)
  qed
  obtain m' where run: "copy_pages u ms1 ?vs (mem s1) = Inr m'"
    and c: "\<forall>v \<in> set ?vs. get_bytes_array m' (D v) = get_bytes_array (mem s1) (S v)"
    and o: "\<forall>x. x \<notin> \<Union> (page_addrs ` D ` set ?vs) \<longrightarrow> m' x = mem s1 x"
    using copy_pages_spec [of "mem s1" s1 u ms1 ?vs S D] ms_wfD(1) [OF ou(1)] wf1 S(1,3) D(1,3) apart inj dvs
    by auto
  have out: "m' x = mem s1 x" if "x \<notin> \<Union> (page_addrs ` set fs)" for x
    using that o Dfs by blast
  have "m' x = mem s1 x" if "x \<in> pt_pages (page_table ms1)" for x
    using that out frames_outside [OF pt_wfD(1,2) [OF wf1] live1] fresh(2)
    by (auto simp: pt_pages_def Int_commute)
  note w = ms_wf_mem [OF ms1 this]
  have "vm_ext (page_table ms, s) (page_table ms1, s1\<lparr>mem := m'\<rparr>) (set fs)"
    using e out ms_wfD(1) [OF w(1)] by (auto simp: vm_ext_def)
  moreover have "\<forall>v \<in> set ?vs. vm_view m' (page_table ms1) v = vm_view (mem s) (page_table u) v"
  proof
    fix v assume v: "v \<in> set ?vs"
    have "vm_view m' (page_table ms1) v = Some (get_bytes_array m' (D v), map_perm a OR PTE_V)"
      using D(1,3) [OF v] by (simp add: vm_view_def w(2))
    also have "\<dots> = vm_view (mem s) (page_table u) v"
      using c v S [OF v] ou(3) by (simp add: vm_view_def flip: ou(2))
    finally show "vm_view m' (page_table ms1) v = vm_view (mem s) (page_table u) v" .
  qed
  ultimately show ?thesis
    using another push run w len ar ab n1 by (intro that) simp_all
qed

definition area_shape :: "MapArea \<Rightarrow> VPNRange \<times> MapType \<times> u8" where
  "area_shape a = (vpn_range a, map_type a, map_perm a)"

definition area_pages :: "MapArea list \<Rightarrow> VirtPageNum set" where
  "area_pages as = (\<Union>a \<in> set as. set (vpns_of (vpn_range a)))"

definition area_count :: "MapArea list \<Rightarrow> nat" where
  "area_count as = sum_list (map (\<lambda>a. length (vpns_of (vpn_range a))) as)"

lemma area_pages_append [simp]: "area_pages (as @ bs) = area_pages as \<union> area_pages bs"
  by (auto simp: area_pages_def)

lemma area_pages_Nil [simp]: "area_pages [] = {}"
  by (simp add: area_pages_def)

lemma area_pages_Cons: "area_pages (a # as) = set (vpns_of (vpn_range a)) \<union> area_pages as"
  by (simp add: area_pages_def)

definition areas_disjoint :: "MapArea list \<Rightarrow> bool" where
  "areas_disjoint as \<longleftrightarrow>
     sorted_wrt (\<lambda>a b. set (vpns_of (vpn_range a)) \<inter> set (vpns_of (vpn_range b)) = {}) as"

lemma view_ext_pages:
  assumes ms: "ms_wf s ms" and e: "vm_ext (page_table ms, s) (pt', s') N"
    and fr: "\<forall>a \<in> set (areas ms). map_type a = Framed" and v: "v \<in> area_pages (areas ms)"
    and ab: "pt_abs (mem s') pt' v = pt_abs (mem s) (page_table ms) v"
  shows "vm_view (mem s') pt' v = vm_view (mem s) (page_table ms) v"
proof -
  from v obtain a where a: "a \<in> set (areas ms)" "v \<in> set (vpns_of (vpn_range a))"
    unfolding area_pages_def by blast
  then show ?thesis using fr by (intro view_ext [OF ms e a(1) _ a(2) ab]) blast
qed

text \<open>The copy of a list of areas.\<close>

lemma copy_areas_spec:
  assumes "ms_wf s u" and "set as \<subseteq> set (areas u)" and "\<forall>a \<in> set as. map_type a = Framed"
    and "ms_wf s ms" and "\<forall>a \<in> set (areas ms). map_type a = Framed"
    and "ms_frames u \<inter> ms_frames ms = {}"
    and "\<forall>v \<in> area_pages as. pt_abs (mem s) (page_table ms) v = None"
    and "areas_disjoint as" and "3 * area_count as \<le> falloc_free (falloc s)"
  shows "\<exists>ms' s' N. copy_areas u as ms s = Inr (ms', s') \<and> ms_wf s' ms' \<and>
    vm_ext (page_table ms, s) (page_table ms', s') N \<and> ms_frames ms' = ms_frames ms \<union> set (pt_frames (page_table ms')) \<union> N \<and>
    map area_shape (areas ms') = map area_shape (areas ms) @ map area_shape as \<and>
    (\<forall>v \<in> area_pages as. vm_view (mem s') (page_table ms') v = vm_view (mem s) (page_table u) v) \<and>
    (\<forall>v. v \<notin> area_pages as \<longrightarrow> pt_abs (mem s') (page_table ms') v = pt_abs (mem s) (page_table ms) v) \<and>
    falloc_free (falloc s) \<le> falloc_free (falloc s') + 3 * area_count as"
  using assms
proof (induction as arbitrary: ms s)
  case Nil
  then show ?case
    by (intro exI [of _ ms] exI [of _ s] exI [of _ "{}"]) (auto intro: vm_ext_refl dest: ms_wfD simp: ms_frames_def)
next
  case (Cons a as)
  let ?vs = "vpns_of (vpn_range a)"
  obtain fs ms1 s1 m' where another: "MapArea_from_another a = Inr (a\<lparr>data_frames := []\<rparr>)"
    and push: "MemorySet_push ms (a\<lparr>data_frames := []\<rparr>) None s = Inr (ms1, s1)"
    and run: "copy_pages u ms1 ?vs (mem s1) = Inr m'"
    and e: "vm_ext (page_table ms, s) (page_table ms1, s1\<lparr>mem := m'\<rparr>) (set fs)"
    and ms1: "ms_wf (s1\<lparr>mem := m'\<rparr>) ms1" and len: "length fs = length ?vs"
    and ar: "areas ms1 = areas ms @ [a\<lparr>data_frames := zip ?vs fs\<rparr>]"
    and ab: "pt_abs m' (page_table ms1) = pt_abs (mem s) (page_table ms) ++
       map_of (zip ?vs (map (area_pte a) fs))"
    and view: "\<forall>v \<in> set ?vs. vm_view m' (page_table ms1) v = vm_view (mem s) (page_table u) v"
    and n1: "falloc_free (falloc s) \<le> falloc_free (falloc s1) + 3 * length ?vs"
    by (rule copy_area_step [of s u a ms]) (use Cons.prems in \<open>auto simp: area_pages_Cons area_count_def\<close>)
  let ?s = "s1\<lparr>mem := m'\<rparr>"
  have ufr: "ms_frames u \<inter> set (pt_frames (page_table ms)) = {}"
    using Cons.prems(6) by (auto simp: ms_frames_def)
  note ou = ms_wf_other [OF Cons.prems(1) e ufr]
  have fr1: "ms_frames ms1 = ms_frames ms \<union> set (pt_frames (page_table ms1)) \<union> set fs"
    using len e by (auto simp: ms_frames_def ar area_frames_Cons vm_ext_def)
  have abm: "pt_abs m' (page_table ms1) v = pt_abs (mem s) (page_table ms) v" if "v \<notin> set ?vs" for v
    using that by (auto simp: ab map_add_def split: option.splits dest: map_of_SomeD set_zip_leftD)
  have dj: "area_pages as \<inter> set ?vs = {}" using Cons.prems(8)
    by (auto simp: areas_disjoint_def area_pages_def)
  have uv: "vm_view m' (page_table u) v = vm_view (mem s) (page_table u) v" if "v \<in> area_pages as" for v
    using view_other [OF Cons.prems(1) e ufr] that Cons.prems(2,3) by (auto simp: area_pages_def)
  have dm: "ms_frames u \<inter> ms_frames ms1 = {}"
    using Cons.prems(6) ms_wfD(2) [OF Cons.prems(1)] e
    unfolding fr1 vm_ext_def ms_frames_def [of ms] by auto
  have none: "\<forall>v \<in> area_pages as. pt_abs (mem ?s) (page_table ms1) v = None"
  proof
    fix v assume v: "v \<in> area_pages as"
    then have "v \<notin> set ?vs" using dj by auto
    with v show "pt_abs (mem ?s) (page_table ms1) v = None"
      using abm Cons.prems(7) by (simp add: area_pages_Cons)
  qed
  have rest: "set as \<subseteq> set (areas u)" "\<forall>a \<in> set as. map_type a = Framed"
    "\<forall>a \<in> set (areas ms1). map_type a = Framed" "areas_disjoint as"
    "3 * area_count as \<le> falloc_free (falloc ?s)"
    using Cons.prems n1 by (auto simp: ar area_count_def areas_disjoint_def)
  obtain ms' s' N where run': "copy_areas u as ms1 ?s = Inr (ms', s')" and ms': "ms_wf s' ms'"
    and e': "vm_ext (page_table ms1, ?s) (page_table ms', s') N"
    and fr': "ms_frames ms' = ms_frames ms1 \<union> set (pt_frames (page_table ms')) \<union> N"
    and sh: "map area_shape (areas ms') = map area_shape (areas ms1) @ map area_shape as"
    and vw: "\<forall>v \<in> area_pages as. vm_view (mem s') (page_table ms') v = vm_view m' (page_table u) v"
    and ab': "\<forall>v. v \<notin> area_pages as \<longrightarrow> pt_abs (mem s') (page_table ms') v = pt_abs m' (page_table ms1) v"
    and n2: "falloc_free (falloc s1) \<le> falloc_free (falloc s') + 3 * area_count as"
    using Cons.IH [OF ou(1) rest(1,2) ms1 rest(3) dm none rest(4,5)] by auto
  have "vm_view (mem s') (page_table ms') v = vm_view (mem s) (page_table u) v" if "v \<in> set ?vs" for v
  proof -
    have "v \<notin> area_pages as" using dj that by auto
    then have "vm_view (mem s') (page_table ms') v = vm_view (mem ?s) (page_table ms1) v"
      using ab' Cons.prems(3,5) that by (intro view_ext_pages [OF ms1 e']) (auto simp: ar area_pages_Cons)
    then show ?thesis using view that by simp
  qed
  then have views: "\<forall>v \<in> area_pages (a # as). vm_view (mem s') (page_table ms') v = vm_view (mem s) (page_table u) v"
    unfolding area_pages_Cons using vw uv by (metis UnE)
  have ext: "vm_ext (page_table ms, s) (page_table ms', s') (set fs \<union> N)"
    by (rule vm_ext_trans [OF e e'])
  have "set (pt_frames (page_table ms1)) \<subseteq> set (pt_frames (page_table ms'))"
    using e' by (auto simp: vm_ext_def)
  then have frs: "ms_frames ms' = ms_frames ms \<union> set (pt_frames (page_table ms')) \<union> (set fs \<union> N)"
    using fr' fr1 by blast
  have go: "copy_areas u (a # as) ms s = Inr (ms', s')"
    using another push run run' by simp
  have shs: "map area_shape (areas ms') = map area_shape (areas ms) @ map area_shape (a # as)"
    using sh by (simp add: ar area_shape_def)
  have abs: "\<forall>v. v \<notin> area_pages (a # as) \<longrightarrow>
      pt_abs (mem s') (page_table ms') v = pt_abs (mem s) (page_table ms) v"
    using ab' abm by (simp add: area_pages_Cons)
  have free: "falloc_free (falloc s) \<le> falloc_free (falloc s') + 3 * area_count (a # as)"
    using n1 n2 by (simp add: area_count_def)
  show ?case using go ms' ext frs shs views abs free by (intro exI conjI)
qed

text \<open>Framed areas of a well-formed address space do not overlap: a page has one frame.\<close>

lemma areas_disjoint_framed:
  assumes "\<forall>a \<in> set as. area_ok m pt a \<and> map_type a = Framed"
    and "distinct (area_frames as)" and "\<forall>f \<in> set (area_frames as). small_ppn f"
  shows "areas_disjoint as"
  using assms
proof (induction as)
  case (Cons a as)
  have "set (vpns_of (vpn_range a)) \<inter> set (vpns_of (vpn_range b)) = {}" if b: "b \<in> set as" for b
  proof (rule ccontr)
    assume "set (vpns_of (vpn_range a)) \<inter> set (vpns_of (vpn_range b)) \<noteq> {}"
    then obtain v where v: "v \<in> set (vpns_of (vpn_range a))" "v \<in> set (vpns_of (vpn_range b))" by auto
    obtain f where f: "(v, f) \<in> set (data_frames a)" "pt_abs m pt v = Some (area_pte a f)"
      using area_ok_framed_page [OF _ _ v(1)] Cons.prems(1) by auto
    obtain g where g: "(v, g) \<in> set (data_frames b)" "pt_abs m pt v = Some (area_pte b g)"
      by (rule area_ok_framed_page [OF _ _ v(2)]) (use Cons.prems(1) b in auto)
    have in_a: "f \<in> set (map snd (data_frames a))" using f(1) by force
    have in_b: "g \<in> set (area_frames as)" using area_frames_mem [OF b g(1)] .
    have "small_ppn f" "small_ppn g" using Cons.prems(3) in_a in_b by (auto simp: area_frames_Cons)
    with f(2) g(2) have "f = g" by (metis area_pte_simps(1) option.inject)
    with in_a in_b Cons.prems(2) show False by (auto simp: area_frames_Cons)
  qed
  with Cons show ?case by (auto simp: areas_disjoint_def area_frames_Cons)
qed (simp add: areas_disjoint_def)

lemma ms_wf_areas_disjoint:
  assumes "ms_wf s ms" and "\<forall>a \<in> set (areas ms). map_type a = Framed"
  shows "areas_disjoint (areas ms)"
  using assms falloc_live_small [OF ms_wfD(3) [OF assms(1)]]
  by (intro areas_disjoint_framed [of _ "mem s" "page_table ms"]) (auto simp: ms_wf_def)

lemma frame_alloc_page:
  assumes inv: "falloc_inv (falloc s)" and al: "frame_alloc s = Some (f, s1)" and g: "g \<in> falloc_live (falloc s)"
  shows "get_bytes_array (mem s1) g = get_bytes_array (mem s) g"
proof -
  note a = frame_alloc_SomeD [OF al inv]
  have "small_ppn g" "g \<noteq> f" using g a(2) falloc_live_small [OF inv] by auto
  then have "page_addrs g \<inter> page_addrs f = {}" using page_addrs_disjoint a(1) by blast
  then show ?thesis by (intro get_bytes_array_cong) (auto simp: a(5) intro!: FrameTracker_new_other)
qed

lemma ms_wf_frame_alloc:
  assumes u: "ms_wf s u" and al: "frame_alloc s = Some (f, s1)"
  shows "ms_wf s1 u" and "pt_abs (mem s1) (page_table u) = pt_abs (mem s) (page_table u)"
    and "f \<notin> ms_frames u" and "\<And>g. g \<in> ms_frames u \<Longrightarrow> get_bytes_array (mem s1) g = get_bytes_array (mem s) g"
proof -
  note a = frame_alloc_SomeD [OF al ms_wfD(3) [OF u]]
  note e = frame_alloc_ext [OF ms_wfD(1) [OF u] al]
  show ab: "pt_abs (mem s1) (page_table u) = pt_abs (mem s) (page_table u)" by (rule e)
  have wf: "pt_wf s1 (page_table u)" using e(1) by (simp add: vm_ext_def)
  with u show "ms_wf s1 u" by (auto simp: ms_wf_def ab a(4) intro: area_ok_mono)
  show nf: "f \<notin> ms_frames u" using a(2) ms_wfD(2) [OF u] by auto
  fix g assume g: "g \<in> ms_frames u"
  then show "get_bytes_array (mem s1) g = get_bytes_array (mem s) g"
    using frame_alloc_page [OF ms_wfD(3) [OF u] al] ms_wfD(2) [OF u] by blast
qed

text \<open>Every frame in use keeps its bytes and stays in use.\<close>

definition mem_kept :: "mm \<Rightarrow> mm \<Rightarrow> bool" where
  "mem_kept s s' \<longleftrightarrow> falloc_inv (falloc s') \<and> falloc_live (falloc s) \<subseteq> falloc_live (falloc s') \<and>
     (\<forall>f \<in> falloc_live (falloc s). get_bytes_array (mem s') f = get_bytes_array (mem s) f)"

lemma mem_kept_trans: "mem_kept s s1 \<Longrightarrow> mem_kept s1 s2 \<Longrightarrow> mem_kept s s2"
  unfolding mem_kept_def by (metis subsetD subset_trans)

lemma same_page_byte:
  assumes "get_bytes_array m' f = get_bytes_array m f" and "x \<in> page_addrs f"
  shows "m' x = m x"
proof -
  have "get_bytes_array m' f ! (x - page_base f) = get_bytes_array m f ! (x - page_base f)" using assms(1) by simp
  with assms(2) show ?thesis by (auto simp: get_bytes_array_def page_addrs_def)
qed

lemma ms_wf_kept:
  assumes u: "ms_wf s u" and k: "mem_kept s s'"
  shows "ms_wf s' u" and "pt_abs (mem s') (page_table u) = pt_abs (mem s) (page_table u)"
    and "\<And>f. f \<in> ms_frames u \<Longrightarrow> get_bytes_array (mem s') f = get_bytes_array (mem s) f"
proof -
  have live: "ms_frames u \<subseteq> falloc_live (falloc s)" by (rule ms_wfD(2) [OF u])
  show page: "get_bytes_array (mem s') f = get_bytes_array (mem s) f" if "f \<in> ms_frames u" for f
    using live k that by (auto simp: mem_kept_def)
  have same: "mem s' x = mem s x" if "x \<in> pt_pages (page_table u)" for x
    using that same_page_byte [OF page] by (auto simp: pt_pages_def ms_frames_def)
  note c = pt_mem_cong [OF ms_wfD(1) [OF u] same]
  show ab: "pt_abs (mem s') (page_table u) = pt_abs (mem s) (page_table u)" by (rule c)
  have "pt_wf s' (page_table u)" using c(1) k by (auto simp: pt_wf_def pt_state_def mem_kept_def)
  with u k show "ms_wf s' u" by (auto simp: ms_wf_def mem_kept_def ab intro: area_ok_mono)
qed

lemma vm_view_cong:
  assumes u: "ms_wf s u" and fr: "\<forall>a \<in> set (areas u). map_type a = Framed" and v: "v \<in> area_pages (areas u)"
    and ab: "pt_abs m' (page_table u) = pt_abs (mem s) (page_table u)"
    and bytes: "\<And>g. g \<in> ms_frames u \<Longrightarrow> get_bytes_array m' g = get_bytes_array (mem s) g"
  shows "vm_view m' (page_table u) v = vm_view (mem s) (page_table u) v"
proof -
  from v obtain a where a: "a \<in> set (areas u)" "v \<in> set (vpns_of (vpn_range a))"
    unfolding area_pages_def by blast
  with fr have "map_type a = Framed" by blast
  from ms_wf_data_page [OF u a(1) this a(2)] obtain f where
    "pt_abs (mem s) (page_table u) v = Some (area_pte a f)" "small_ppn f" "f \<in> ms_frames u"
    by (auto simp: ms_frames_def)
  then show ?thesis using bytes by (simp add: vm_view_def ab)
qed

definition trampoline_vpn :: VirtPageNum where
  "trampoline_vpn = VirtPageNum 134217727"

lemma vpn_of_trampoline: "vpn_of_va (VirtAddr_from TRAMPOLINE) = Inr trampoline_vpn"
  by (simp add: vpn_of_va_def VirtAddr_from_def config_defs va_page_offset_def va_floor_def trampoline_vpn_def)

lemma map_trampoline_spec:
  assumes wf: "pt_wf s (page_table ms)" and n: "2 \<le> falloc_free (falloc s)"
    and al: "pa_page_offset (PhysAddr_from st) = 0"
    and new: "pt_abs (mem s) (page_table ms) trampoline_vpn = None"
  obtains pt s' where "map_trampoline st ms s = Inr (ms\<lparr>page_table := pt\<rparr>, s')"
    "vm_ext (page_table ms, s) (pt, s') {}"
    "pt_abs (mem s') pt = (pt_abs (mem s) (page_table ms))
       (trampoline_vpn \<mapsto> PTE_new (pa_floor (PhysAddr_from st)) ((PTE_R OR PTE_X) OR PTE_V))"
    "falloc_free (falloc s) \<le> falloc_free (falloc s') + 2"
proof -
  have "unat (vpn0 trampoline_vpn) < 2 ^ 27" by (simp add: trampoline_vpn_def)
  from PageTable_map_ext [OF wf n this new, of "pa_floor (PhysAddr_from st)" "PTE_R OR PTE_X"]
  obtain pt s' where "PageTable_map s (page_table ms) trampoline_vpn (pa_floor (PhysAddr_from st)) (PTE_R OR PTE_X) = Inr (pt, s')"
    "vm_ext (page_table ms, s) (pt, s') {}"
    "pt_abs (mem s') pt = (pt_abs (mem s) (page_table ms))
       (trampoline_vpn \<mapsto> PTE_new (pa_floor (PhysAddr_from st)) ((PTE_R OR PTE_X) OR PTE_V))"
    "falloc_free (falloc s) \<le> falloc_free (falloc s') + 2"
    by metis
  with that al show ?thesis by (simp add: map_trampoline_def vpn_of_trampoline ppn_of_pa_def)
qed

lemma MemorySet_new_bare_spec:
  assumes inv: "falloc_inv (falloc s)" and n: "0 < falloc_free (falloc s)"
  obtains f s1 where "frame_alloc s = Some (f, s1)"
    "MemorySet_new_bare s = Inr (\<lparr>page_table = \<lparr>root_ppn = f, pt_frames = [f]\<rparr>, areas = []\<rparr>, s1)"
    "pt_wf s1 \<lparr>root_ppn = f, pt_frames = [f]\<rparr>"
    "pt_abs (mem s1) \<lparr>root_ppn = f, pt_frames = [f]\<rparr> = Map.empty"
    "falloc_free (falloc s) = Suc (falloc_free (falloc s1))"
proof -
  obtain f s1 where al: "frame_alloc s = Some (f, s1)"
    and n1: "falloc_free (falloc s) = Suc (falloc_free (falloc s1))"
    using frame_alloc_free [OF inv n] by metis
  note p = PageTable_new_wf [OF inv al]
  with that al n1 show ?thesis by (simp add: MemorySet_new_bare_def)
qed

text \<open>A new address space that only maps the trampoline, built beside an existing one.\<close>

lemma new_user_space:
  assumes u: "ms_wf s u" and al: "pa_page_offset (PhysAddr_from st) = 0" and n: "3 \<le> falloc_free (falloc s)"
  obtains ms0 s1 ms s2 where "MemorySet_new_bare s = Inr (ms0, s1)" "map_trampoline st ms0 s1 = Inr (ms, s2)"
    "areas ms = []" "ms_wf s2 ms" "ms_wf s2 u" "ms_frames ms \<inter> falloc_live (falloc s) = {}"
    "falloc_live (falloc s) \<subseteq> falloc_live (falloc s2)"
    "pt_abs (mem s2) (page_table ms) =
       [trampoline_vpn \<mapsto> PTE_new (pa_floor (PhysAddr_from st)) ((PTE_R OR PTE_X) OR PTE_V)]"
    "pt_abs (mem s2) (page_table u) = pt_abs (mem s) (page_table u)"
    "\<And>g. g \<in> ms_frames u \<Longrightarrow> get_bytes_array (mem s2) g = get_bytes_array (mem s) g"
    "falloc_free (falloc s) \<le> falloc_free (falloc s2) + 3" "mem_kept s s2"
proof -
  have "0 < falloc_free (falloc s)" using n by simp
  from MemorySet_new_bare_spec [OF ms_wfD(3) [OF u] this] obtain f s1 where fa: "frame_alloc s = Some (f, s1)"
    and nb: "MemorySet_new_bare s = Inr (\<lparr>page_table = \<lparr>root_ppn = f, pt_frames = [f]\<rparr>, areas = []\<rparr>, s1)"
    and wf1: "pt_wf s1 \<lparr>root_ppn = f, pt_frames = [f]\<rparr>"
    and ab1: "pt_abs (mem s1) \<lparr>root_ppn = f, pt_frames = [f]\<rparr> = Map.empty"
    and n1: "falloc_free (falloc s) = Suc (falloc_free (falloc s1))" by metis
  let ?pt = "\<lparr>root_ppn = f, pt_frames = [f]\<rparr>" and ?ms = "\<lparr>page_table = \<lparr>root_ppn = f, pt_frames = [f]\<rparr>, areas = []\<rparr>"
  note u1 = ms_wf_frame_alloc [OF u fa]
  note a1 = frame_alloc_SomeD [OF fa ms_wfD(3) [OF u]]
  obtain pt2 s2 where mt: "map_trampoline st ?ms s1 = Inr (?ms\<lparr>page_table := pt2\<rparr>, s2)"
    and e2: "vm_ext (?pt, s1) (pt2, s2) {}"
    and ab2: "pt_abs (mem s2) pt2 =
       [trampoline_vpn \<mapsto> PTE_new (pa_floor (PhysAddr_from st)) ((PTE_R OR PTE_X) OR PTE_V)]"
    and n2: "falloc_free (falloc s1) \<le> falloc_free (falloc s2) + 2"
    by (rule map_trampoline_spec [of s1 ?ms st]) (use wf1 ab1 al n n1 in auto)
  have d1: "ms_frames u \<inter> set (pt_frames ?pt) = {}" using u1(3) by simp
  note u2 = ms_wf_other [OF u1(1) e2 d1]
  have "falloc_live (falloc s2) = insert f (falloc_live (falloc s)) \<union> set (pt_frames pt2)"
    "set (pt_frames pt2) \<inter> insert f (falloc_live (falloc s)) = {f}"
    using e2 a1(4) by (auto simp: vm_ext_def)
  then have "ms_frames (?ms\<lparr>page_table := pt2\<rparr>) \<inter> falloc_live (falloc s) = {}"
    "falloc_live (falloc s) \<subseteq> falloc_live (falloc s2)"
    using a1(2) by (auto simp: ms_frames_def)
  moreover have "ms_wf s2 (?ms\<lparr>page_table := pt2\<rparr>)" using e2 by (simp add: ms_wf_def vm_ext_def)
  moreover have "get_bytes_array (mem s2) g = get_bytes_array (mem s) g" if "g \<in> falloc_live (falloc s)" for g
    using vm_ext_page [OF e2, of g] frame_alloc_page [OF ms_wfD(3) [OF u] fa that] a1(2,4) that by auto
  then have "mem_kept s s2"
    using calculation e2 by (auto simp: mem_kept_def vm_ext_def dest: pt_wfD)
  ultimately show ?thesis
    using u1 u2 ab2 n1 n2 by (intro that [OF nb mt]) simp_all
qed

lemma from_existed_user_spec:
  assumes u: "ms_wf s u" and fr: "\<forall>a \<in> set (areas u). map_type a = Framed"
    and tr: "trampoline_vpn \<notin> area_pages (areas u)"
    and al: "pa_page_offset (PhysAddr_from (strampoline L)) = 0"
    and n: "3 + 3 * area_count (areas u) \<le> falloc_free (falloc s)"
  shows "\<exists>ms' s'. MemorySet_from_existed_user L u s = Inr (ms', s') \<and> ms_wf s' ms' \<and> ms_wf s' u \<and>
    ms_frames ms' \<inter> falloc_live (falloc s) = {} \<and> map area_shape (areas ms') = map area_shape (areas u) \<and>
    (\<forall>v \<in> area_pages (areas u). vm_view (mem s') (page_table ms') v = vm_view (mem s) (page_table u) v \<and>
       vm_view (mem s') (page_table u) v = vm_view (mem s) (page_table u) v) \<and>
    (\<forall>v. v \<notin> area_pages (areas u) \<longrightarrow> pt_abs (mem s') (page_table ms') v =
       [trampoline_vpn \<mapsto> PTE_new (pa_floor (PhysAddr_from (strampoline L))) ((PTE_R OR PTE_X) OR PTE_V)] v) \<and>
    mem_kept s s' \<and> falloc_free (falloc s) \<le> falloc_free (falloc s') + 3 + 3 * area_count (areas u)"
proof -
  obtain ms0 s1 ms s2 where pre: "MemorySet_new_bare s = Inr (ms0, s1)"
      "map_trampoline (strampoline L) ms0 s1 = Inr (ms, s2)" "areas ms = []"
    and ms: "ms_wf s2 ms" and u2: "ms_wf s2 u" and d: "ms_frames ms \<inter> falloc_live (falloc s) = {}"
    and live: "falloc_live (falloc s) \<subseteq> falloc_live (falloc s2)"
    and abt: "pt_abs (mem s2) (page_table ms) = [trampoline_vpn \<mapsto>
       PTE_new (pa_floor (PhysAddr_from (strampoline L))) ((PTE_R OR PTE_X) OR PTE_V)]"
    and abu: "pt_abs (mem s2) (page_table u) = pt_abs (mem s) (page_table u)"
    and byu: "\<And>g. g \<in> ms_frames u \<Longrightarrow> get_bytes_array (mem s2) g = get_bytes_array (mem s) g"
    and n2: "falloc_free (falloc s) \<le> falloc_free (falloc s2) + 3" and kept: "mem_kept s s2"
    by (rule new_user_space [OF u al]) (use n in auto)
  have d2: "ms_frames u \<inter> ms_frames ms = {}" using d ms_wfD(2) [OF u] by auto
  have none: "\<forall>v \<in> area_pages (areas u). pt_abs (mem s2) (page_table ms) v = None"
    using tr by (auto simp: abt)
  have n3: "3 * area_count (areas u) \<le> falloc_free (falloc s2)" using n n2 by simp
  obtain ms' s' N where run: "copy_areas u (areas u) ms s2 = Inr (ms', s')" and ms': "ms_wf s' ms'"
    and e: "vm_ext (page_table ms, s2) (page_table ms', s') N"
    and fr': "ms_frames ms' = ms_frames ms \<union> set (pt_frames (page_table ms')) \<union> N"
    and sh: "map area_shape (areas ms') = map area_shape (areas ms) @ map area_shape (areas u)"
    and vw: "\<forall>v \<in> area_pages (areas u). vm_view (mem s') (page_table ms') v = vm_view (mem s2) (page_table u) v"
    and ab: "\<forall>v. v \<notin> area_pages (areas u) \<longrightarrow> pt_abs (mem s') (page_table ms') v = pt_abs (mem s2) (page_table ms) v"
    and n4: "falloc_free (falloc s2) \<le> falloc_free (falloc s') + 3 * area_count (areas u)"
    using copy_areas_spec [OF u2 subset_refl fr ms _ d2 none ms_wf_areas_disjoint [OF u2 fr] n3] pre(3)
    by auto
  have "ms_frames u \<inter> set (pt_frames (page_table ms)) = {}" using d2 by (auto simp: ms_frames_def)
  note u3 = ms_wf_other [OF u2 e this]
  have v2: "vm_view (mem s2) (page_table u) v = vm_view (mem s) (page_table u) v"
    if "v \<in> area_pages (areas u)" for v
    by (rule vm_view_cong [OF u fr that abu byu])
  have v3: "vm_view (mem s') (page_table u) v = vm_view (mem s) (page_table u) v"
    if "v \<in> area_pages (areas u)" for v
    by (rule vm_view_cong [OF u fr that]) (simp_all add: u3(2,3) abu byu)
  have "set (pt_frames (page_table ms')) \<inter> falloc_live (falloc s2) = set (pt_frames (page_table ms))"
    "N \<inter> falloc_live (falloc s2) = {}" "set (pt_frames (page_table ms)) \<subseteq> ms_frames ms"
    using e by (simp_all add: vm_ext_def ms_frames_def)
  then have "set (pt_frames (page_table ms')) \<inter> falloc_live (falloc s) = {}" "N \<inter> falloc_live (falloc s) = {}"
    using live d by blast+
  with d have fresh: "ms_frames ms' \<inter> falloc_live (falloc s) = {}"
    unfolding fr' Int_Un_distrib2 by simp
  have go: "MemorySet_from_existed_user L u s = Inr (ms', s')"
    using pre run by (simp add: MemorySet_from_existed_user_def)
  have shs: "map area_shape (areas ms') = map area_shape (areas u)" using sh pre(3) by simp
  have views: "\<forall>v \<in> area_pages (areas u). vm_view (mem s') (page_table ms') v = vm_view (mem s) (page_table u) v \<and>
       vm_view (mem s') (page_table u) v = vm_view (mem s) (page_table u) v"
    using vw v2 v3 by metis
  have "g \<notin> set (pt_frames (page_table ms))" if "g \<in> falloc_live (falloc s)" for g
    using d that by (auto simp: ms_frames_def)
  then have "get_bytes_array (mem s') g = get_bytes_array (mem s) g" if "g \<in> falloc_live (falloc s)" for g
    using vm_ext_page [OF e, of g] kept that by (auto simp: mem_kept_def)
  then have k: "mem_kept s s'"
    using live e ms_wfD(3) [OF ms'] by (auto simp: mem_kept_def vm_ext_def)
  have free: "falloc_free (falloc s) \<le> falloc_free (falloc s') + 3 + 3 * area_count (areas u)"
    using n2 n4 by simp
  show ?thesis
    using go ms' u3(1) fresh shs views ab [unfolded abt] k free by (intro exI conjI)
qed

text \<open>
  (C12) \<open>fork\<close> copies the address space: with enough free frames \<open>from_existed_user\<close> returns a
  well-formed address space with the same areas; every page of them holds the same bytes with the
  same permissions as in the parent, in frames that were all free before, so no frame is shared;
  the parent's memory is unchanged; besides these pages only the trampoline is mapped.
\<close>

theorem fork_copies_address_space:
  assumes "ms_wf s u" and "\<forall>a \<in> set (areas u). map_type a = Framed"
    and "trampoline_vpn \<notin> area_pages (areas u)"
    and "pa_page_offset (PhysAddr_from (strampoline L)) = 0"
    and "3 + 3 * area_count (areas u) \<le> falloc_free (falloc s)"
  shows "\<exists>ms' s'. MemorySet_from_existed_user L u s = Inr (ms', s') \<and> ms_wf s' ms' \<and> ms_wf s' u \<and>
    ms_frames ms' \<inter> falloc_live (falloc s) = {} \<and> map area_shape (areas ms') = map area_shape (areas u) \<and>
    (\<forall>v \<in> area_pages (areas u). vm_view (mem s') (page_table ms') v = vm_view (mem s) (page_table u) v \<and>
       vm_view (mem s') (page_table u) v = vm_view (mem s) (page_table u) v) \<and>
    (\<forall>v. v \<notin> area_pages (areas u) \<longrightarrow> pt_abs (mem s') (page_table ms') v =
       [trampoline_vpn \<mapsto> PTE_new (pa_floor (PhysAddr_from (strampoline L))) ((PTE_R OR PTE_X) OR PTE_V)] v)"
  using from_existed_user_spec [OF assms] by blast

section \<open>Dropping an address space\<close>

lemma drop_frames_spec:
  assumes "falloc_inv (falloc s)" and "distinct fs" and "set fs \<subseteq> falloc_live (falloc s)"
  shows "\<exists>s'. drop_frames s fs = Inr s' \<and> mem s' = mem s \<and> falloc_inv (falloc s') \<and>
    falloc_live (falloc s') = falloc_live (falloc s) - set fs"
  using assms
proof (induction fs arbitrary: s)
  case (Cons f fs)
  then have "f \<in> falloc_live (falloc s)" by simp
  then obtain a where "StackFrameAllocator_dealloc (falloc s) f = Inr a" by (simp add: dealloc_iff)
  then have d: "frame_dealloc s f = Inr (s\<lparr>falloc := a\<rparr>)" by (simp add: frame_dealloc_def)
  note s1 = frame_dealloc_InrD [OF d Cons.prems(1)]
  from Cons.IH [of "s\<lparr>falloc := a\<rparr>"] Cons.prems s1 obtain s' where
    "drop_frames (s\<lparr>falloc := a\<rparr>) fs = Inr s'" "mem s' = mem s" "falloc_inv (falloc s')"
    "falloc_live (falloc s') = falloc_live (falloc s) - {f} - set fs" by auto
  with d show ?case by (auto simp: set_diff_eq)
qed simp

lemma MemorySet_drop_frames:
  assumes "falloc_inv (falloc s)" and "distinct (pt_frames (page_table ms) @ area_frames (areas ms))"
    and "ms_frames ms \<subseteq> falloc_live (falloc s)"
  shows "\<exists>s'. MemorySet_drop ms s = Inr s' \<and> mem s' = mem s \<and> falloc_inv (falloc s') \<and>
    falloc_live (falloc s') = falloc_live (falloc s) - ms_frames ms"
proof -
  have w: "distinct (pt_frames (page_table ms))" "set (pt_frames (page_table ms)) \<subseteq> falloc_live (falloc s)"
    using assms by (auto simp: ms_frames_def)
  obtain s1 where s1: "drop_frames s (pt_frames (page_table ms)) = Inr s1" "mem s1 = mem s"
    "falloc_inv (falloc s1)" "falloc_live (falloc s1) = falloc_live (falloc s) - set (pt_frames (page_table ms))"
    using drop_frames_spec [OF assms(1) w] by auto
  have "distinct (area_frames (areas ms))" "set (area_frames (areas ms)) \<subseteq> falloc_live (falloc s1)"
    using assms s1(4) by (auto simp: ms_frames_def)
  from drop_frames_spec [OF s1(3) this] obtain s' where
    "drop_frames s1 (area_frames (areas ms)) = Inr s'" "mem s' = mem s1" "falloc_inv (falloc s')"
    "falloc_live (falloc s') = falloc_live (falloc s1) - set (area_frames (areas ms))" by auto
  with s1 show ?thesis by (auto simp: MemorySet_drop_def ms_frames_def)
qed

text \<open>
  (C21) Dropping an address space never panics, and gives back exactly the frames it owns, tables
  and data, without touching memory.
\<close>

theorem address_space_drop_frees_its_frames:
  assumes "ms_wf s ms"
  shows "\<exists>s'. MemorySet_drop ms s = Inr s' \<and> mem s' = mem s \<and>
    falloc_live (falloc s') = falloc_live (falloc s) - ms_frames ms"
proof -
  have "distinct (pt_frames (page_table ms) @ area_frames (areas ms))" "ms_frames ms \<subseteq> falloc_live (falloc s)"
    using assms pt_wfD [OF ms_wfD(1) [OF assms]] ms_wfD(2) [OF assms] by (auto simp: ms_wf_def)
  then show ?thesis using MemorySet_drop_frames [OF ms_wfD(3) [OF assms]] by blast
qed

text \<open>
  A zombie's address space: \<open>recycle_data_pages\<close> gives back the frames of the areas and keeps
  the page table, which stays well formed until it is dropped with the task.
\<close>

lemma recycle_keeps_page_table:
  assumes "ms_wf s ms"
  shows "\<exists>s'. recycle_data_pages ms s = Inr (ms\<lparr>areas := []\<rparr>, s') \<and> mem s' = mem s \<and>
    ms_wf s' (ms\<lparr>areas := []\<rparr>) \<and>
    falloc_live (falloc s') = falloc_live (falloc s) - set (area_frames (areas ms))"
proof -
  have "distinct (area_frames (areas ms))" "set (area_frames (areas ms)) \<subseteq> falloc_live (falloc s)"
    using assms by (auto simp: ms_wf_def)
  from drop_frames_spec [OF ms_wfD(3) [OF assms] this] obtain s' where
    s': "drop_frames s (area_frames (areas ms)) = Inr s'" "mem s' = mem s" "falloc_inv (falloc s')"
    "falloc_live (falloc s') = falloc_live (falloc s) - set (area_frames (areas ms))" by auto
  have "ms_wf s' (ms\<lparr>areas := []\<rparr>)"
    using assms s'(2-4) by (auto simp: ms_wf_def pt_wf_def pt_state_def)
  with s' show ?thesis by (simp add: recycle_data_pages_def)
qed

section \<open>A concrete address space\<close>

definition example_big :: mm where
  "example_big = \<lparr>mem = (\<lambda>_. 7), falloc = StackFrameAllocator_init StackFrameAllocator_new (PhysPageNum 5) (PhysPageNum 100)\<rparr>"

definition example_space :: "(MemorySet \<times> mm) res" where
  "example_space =
     bindR (MemorySet_new_bare example_big) (\<lambda>(ms, s).
     insert_framed_area ms (VirtAddr 8192) (VirtAddr 10000) (MapPermission_R OR MapPermission_U) s)"

definition example_symbols :: linker_symbols where
  "example_symbols = \<lparr>stext = 4096, etext = 8192, srodata = 8192, erodata = 12288, sdata = 12288,
     edata = 16384, sbss_with_stack = 16384, ebss = 20480, ekernel = 20480, strampoline = 4096\<rparr>"

lemma example_space_wf:
  obtains ms s fs where "example_space = Inr (ms, s)" "ms_wf s ms" "20 \<le> falloc_free (falloc s)"
    "areas ms = [\<lparr>vpn_range = \<lparr>range_l = VirtPageNum 2, range_r = VirtPageNum 3\<rparr>,
       data_frames = zip [VirtPageNum 2] fs, map_type = Framed, map_perm = MapPermission_R OR MapPermission_U\<rparr>]"
    "length fs = 1" "pt_abs (mem s) (page_table ms) (VirtPageNum 3) = None"
proof -
  let ?r = "\<lparr>range_l = VirtPageNum 2, range_r = VirtPageNum 3\<rparr>"
  let ?a = "\<lparr>vpn_range = ?r, data_frames = [], map_type = Framed, map_perm = MapPermission_R OR MapPermission_U\<rparr>"
  have vs: "vpns_of ?r = [VirtPageNum 2]"
    by (simp add: vpns_of_def range_iter_words less_eq_VirtPageNum_def)
  have new: "MapArea_new (VirtAddr 8192) (VirtAddr 10000) Framed (MapPermission_R OR MapPermission_U) = Inr ?a"
    by (simp add: MapArea_new_def VPNRange_new_def va_floor_def va_ceil_def config_defs less_eq_VirtPageNum_def)
  have inv: "falloc_inv (falloc example_big)" "falloc_free (falloc example_big) = 95"
    by (simp_all add: falloc_inv_def example_big_def StackFrameAllocator_init_def
        StackFrameAllocator_new_def falloc_free_def)
  obtain f s1 where nb: "MemorySet_new_bare example_big =
      Inr (\<lparr>page_table = \<lparr>root_ppn = f, pt_frames = [f]\<rparr>, areas = []\<rparr>, s1)"
    and wf: "pt_wf s1 \<lparr>root_ppn = f, pt_frames = [f]\<rparr>"
    and ab: "pt_abs (mem s1) \<lparr>root_ppn = f, pt_frames = [f]\<rparr> = Map.empty"
    and n: "falloc_free (falloc example_big) = Suc (falloc_free (falloc s1))"
    by (rule MemorySet_new_bare_spec [OF inv(1)]) (use inv(2) in auto)
  let ?ms = "\<lparr>page_table = \<lparr>root_ppn = f, pt_frames = [f]\<rparr>, areas = []\<rparr>"
  have wf1: "ms_wf s1 ?ms" using wf by (simp add: ms_wf_def)
  have ok: "map_type ?a = Framed" "data_frames ?a = []" "range_ok (vpn_range ?a)"
    by (simp_all add: range_ok_def less_eq_VirtPageNum_def)
  have none: "\<forall>v \<in> set (vpns_of (vpn_range ?a)). pt_abs (mem s1) (page_table ?ms) v = None"
    and few: "3 * length (vpns_of (vpn_range ?a)) \<le> falloc_free (falloc s1)"
    using ab n inv(2) vs by simp_all
  obtain fs ms' s' where "MemorySet_push ?ms ?a None s1 = Inr (ms', s')" "length fs = 1"
    "areas ms' = [?a\<lparr>data_frames := zip [VirtPageNum 2] fs\<rparr>]" "ms_wf s' ms'"
    "falloc_free (falloc s1) \<le> falloc_free (falloc s') + 3"
    "pt_abs (mem s') (page_table ms') = pt_abs (mem s1) (page_table ?ms) ++
       map_of (zip [VirtPageNum 2] (map (area_pte ?a) fs))"
    by (rule MemorySet_push_framed [OF wf1 ok none few]) (use vs in auto)
  then show ?thesis
    using that [of ms' s' fs] n inv(2) ab by (auto simp: length_Suc_conv example_space_def nb insert_framed_area_def new)
qed

theorem fork_copies_address_space_witness:
  "\<exists>ms s ms' s'. example_space = Inr (ms, s) \<and> MemorySet_from_existed_user example_symbols ms s = Inr (ms', s') \<and>
     ms_frames ms' \<inter> ms_frames ms = {} \<and>
     vm_view (mem s') (page_table ms') (VirtPageNum 2) = vm_view (mem s) (page_table ms) (VirtPageNum 2)"
proof -
  obtain ms s fs where ms: "example_space = Inr (ms, s)" "ms_wf s ms" "20 \<le> falloc_free (falloc s)"
    and ar: "areas ms = [\<lparr>vpn_range = \<lparr>range_l = VirtPageNum 2, range_r = VirtPageNum 3\<rparr>,
       data_frames = zip [VirtPageNum 2] fs, map_type = Framed, map_perm = MapPermission_R OR MapPermission_U\<rparr>]"
    by (rule example_space_wf)
  have pg: "area_pages (areas ms) = {VirtPageNum 2}" "area_count (areas ms) = 1"
    by (simp_all add: ar area_pages_def area_count_def vpns_of_def range_iter_words less_eq_VirtPageNum_def)
  have al: "pa_page_offset (PhysAddr_from (strampoline example_symbols)) = 0"
    by (simp add: example_symbols_def pa_page_offset_def PhysAddr_from_def config_defs)
  obtain ms' s' where "MemorySet_from_existed_user example_symbols ms s = Inr (ms', s')"
    "ms_frames ms' \<inter> falloc_live (falloc s) = {}"
    "vm_view (mem s') (page_table ms') (VirtPageNum 2) = vm_view (mem s) (page_table ms) (VirtPageNum 2)"
    using fork_copies_address_space [OF ms(2) _ _ al] ms(3) pg by (auto simp: ar trampoline_vpn_def)
  then show ?thesis using ms(1) ms_wfD(2) [OF ms(2)] by blast
qed

theorem address_space_drop_frees_its_frames_witness:
  "\<exists>ms s s'. example_space = Inr (ms, s) \<and> MemorySet_drop ms s = Inr s'"
  using address_space_drop_frees_its_frames by (metis example_space_wf)

end
