(* ===== verification/User_Buffer.thy ===== *)
theory User_Buffer
  imports Address_Space
begin

text \<open>
  The kernel's view of user memory (os/src/mm/page_table.rs from \<open>translated_byte_buffer\<close> on):
  a user buffer is a list of slices of physical frames, a slice being the frame and the range of
  its bytes. The loops follow a user-supplied pointer and need not stop; they carry fuel, and
  the theorems say how much is enough for a pointer in the lower half of the address space.
\<close>

unbundle bit_operations_syntax

type_synonym byte_slice = "PhysPageNum \<times> nat \<times> nat"

definition slice_addrs :: "byte_slice \<Rightarrow> nat list" where
  "slice_addrs b = (case b of (p, i, j) \<Rightarrow> [page_base p + i..<page_base p + j])"

definition frame_slice :: "PhysPageNum \<Rightarrow> nat \<Rightarrow> nat \<Rightarrow> byte_slice res" where
  "frame_slice p i j = (if i \<le> j \<and> j \<le> 4096 then Inr (p, i, j) else Inl IndexOutOfBounds)"

fun translated_byte_buffer_loop ::
  "nat \<Rightarrow> pmem \<Rightarrow> PageTable \<Rightarrow> usize \<Rightarrow> usize \<Rightarrow> byte_slice list \<Rightarrow> byte_slice list res" where
  "translated_byte_buffer_loop 0 m pt start stop v = Inl OutOfFuel"
| "translated_byte_buffer_loop (Suc n) m pt start stop v =
     (if start < stop then
        let start_va = VirtAddr_from start; vpn = va_floor start_va in
        bindR (unwrapR (PageTable_translate m pt vpn)) (\<lambda>e.
        let end_va = min (va_of_vpn (vpn_step vpn)) (VirtAddr_from stop) in
        bindR (frame_slice (pte_ppn e) (unat (va_page_offset start_va))
                 (if va_page_offset end_va = 0 then 4096 else unat (va_page_offset end_va))) (\<lambda>b.
        translated_byte_buffer_loop n m pt (usize_of_va end_va) stop (v @ [b])))
      else Inr v)"

definition translated_byte_buffer ::
  "nat \<Rightarrow> pmem \<Rightarrow> usize \<Rightarrow> usize \<Rightarrow> usize \<Rightarrow> byte_slice list res" where
  "translated_byte_buffer fuel m token ptr len =
     translated_byte_buffer_loop fuel m (PageTable_from_token token) ptr (ptr + len) []"

text \<open>Reading through a physical address, with the null check of \<open>as_mut\<close>.\<close>

definition get_mut :: "PhysAddr \<Rightarrow> nat res" where
  "get_mut pa = (if pa0 pa = 0 then Inl UnwrapNone else Inr (unat (pa0 pa)))"

fun translated_str_loop :: "nat \<Rightarrow> pmem \<Rightarrow> PageTable \<Rightarrow> usize \<Rightarrow> u8 list \<Rightarrow> u8 list res" where
  "translated_str_loop 0 m pt va str = Inl OutOfFuel"
| "translated_str_loop (Suc n) m pt va str =
     bindR (unwrapR (PageTable_translate_va m pt (VirtAddr_from va))) (\<lambda>pa.
     bindR (get_mut pa) (\<lambda>a.
     let ch = m a in
     if ch = 0 then Inr str else translated_str_loop n m pt (va + 1) (str @ [ch])))"

definition translated_str :: "nat \<Rightarrow> pmem \<Rightarrow> usize \<Rightarrow> usize \<Rightarrow> u8 list res" where
  "translated_str fuel m token ptr = translated_str_loop fuel m (PageTable_from_token token) ptr []"

text \<open>
  \<open>translated_ref\<close> and \<open>translated_refmut\<close> give the physical address at which the kernel then
  reads or writes a value of the type.
\<close>

definition translated_refmut :: "pmem \<Rightarrow> usize \<Rightarrow> usize \<Rightarrow> nat res" where
  "translated_refmut m token ptr =
     bindR (unwrapR (PageTable_translate_va m (PageTable_from_token token) (VirtAddr_from ptr))) get_mut"

definition translated_ref :: "pmem \<Rightarrow> usize \<Rightarrow> usize \<Rightarrow> nat res" where
  "translated_ref m token ptr =
     bindR (unwrapR (PageTable_translate_va m (PageTable_from_token token) (VirtAddr_from ptr))) get_mut"

section \<open>User buffers\<close>

record UserBuffer =
  buffers :: "byte_slice list"

definition UserBuffer_new :: "byte_slice list \<Rightarrow> UserBuffer" where
  "UserBuffer_new bs = \<lparr>buffers = bs\<rparr>"

definition byte_slice_len :: "byte_slice \<Rightarrow> nat" where
  "byte_slice_len b = (case b of (p, i, j) \<Rightarrow> j - i)"

definition UserBuffer_len :: "UserBuffer \<Rightarrow> nat" where
  "UserBuffer_len ub = foldl (\<lambda>total b. total + byte_slice_len b) 0 (buffers ub)"

record UserBufferIterator =
  it_buffers :: "byte_slice list"
  current_buffer :: nat
  current_idx :: nat

definition UserBuffer_into_iter :: "UserBuffer \<Rightarrow> UserBufferIterator" where
  "UserBuffer_into_iter ub = \<lparr>it_buffers = buffers ub, current_buffer = 0, current_idx = 0\<rparr>"

definition UserBufferIterator_next ::
  "UserBufferIterator \<Rightarrow> (nat option \<times> UserBufferIterator) res" where
  "UserBufferIterator_next it =
     (if length (it_buffers it) \<le> current_buffer it then Inr (None, it)
      else
        let b = it_buffers it ! current_buffer it in
        bindR (indexR (slice_addrs b) (current_idx it)) (\<lambda>r.
        if current_idx it + 1 = byte_slice_len b
        then Inr (Some r, it\<lparr>current_idx := 0, current_buffer := current_buffer it + 1\<rparr>)
        else Inr (Some r, it\<lparr>current_idx := current_idx it + 1\<rparr>)))"

text \<open>Running the iterator to its end.\<close>

fun collect_iter :: "nat \<Rightarrow> UserBufferIterator \<Rightarrow> nat list res" where
  "collect_iter 0 it = Inl OutOfFuel"
| "collect_iter (Suc n) it =
     bindR (UserBufferIterator_next it) (\<lambda>(r, it').
     case r of None \<Rightarrow> Inr [] | Some a \<Rightarrow> bindR (collect_iter n it') (\<lambda>as. Inr (a # as)))"

section \<open>What the slices cover\<close>

definition vpn_at :: "nat \<Rightarrow> VirtPageNum" where
  "vpn_at a = VirtPageNum (word_of_nat (a div 4096))"

definition has_table :: "pmem \<Rightarrow> PageTable \<Rightarrow> nat \<Rightarrow> bool" where
  "has_table m pt a \<longleftrightarrow> PageTable_translate m pt (vpn_at a) \<noteq> None"

definition phys_of :: "pmem \<Rightarrow> PageTable \<Rightarrow> nat \<Rightarrow> nat" where
  "phys_of m pt a = page_base (pte_ppn (the (PageTable_translate m pt (vpn_at a)))) + a mod 4096"

lemma va_floor_from:
  assumes "unat v < 2 ^ 39"
  shows "va_floor (VirtAddr_from v) = vpn_at (unat v)"
  using assms unat_va_floor [of "VirtAddr_from v"]
  by (metis VirtPageNum.collapse mod_less of_nat_unat ucast_id unat_VirtAddr_from vpn_at_def)

lemma usize_of_va_low:
  assumes "unat (va0 v) < 2 ^ 38"
  shows "usize_of_va v = va0 v"
  using assms by (simp add: usize_of_va_def config_defs word_le_nat_alt)

lemma unat_vpn_at: "a < 2 ^ 64 \<Longrightarrow> unat (vpn0 (vpn_at a)) = a div 4096"
  by (simp add: vpn_at_def unat_of_nat take_bit_eq_mod)

text \<open>The end of the slice that starts at \<open>a\<close>: the next page boundary, or the end of the buffer.\<close>

definition slice_end :: "nat \<Rightarrow> nat \<Rightarrow> nat" where
  "slice_end a b = min ((a div 4096 + 1) * 4096) b"

lemma slice_end_va:
  assumes "unat start < unat stop" and "unat stop < 2 ^ 38"
  shows "unat (va0 (min (va_of_vpn (vpn_step (vpn_at (unat start)))) (VirtAddr_from stop))) =
    slice_end (unat start) (unat stop)"
proof -
  have lt: "unat start < 2 ^ 38" using assms by simp
  have "unat (vpn0 (vpn_step (vpn_at (unat start)))) = unat start div 4096 + 1"
  proof -
    have "unat (vpn0 (vpn_at (unat start))) = unat start div 4096" using lt by (intro unat_vpn_at) simp
    moreover have "unat start div 4096 + 1 < 2 ^ 64" using lt by (simp add: div_less_dividend)
    ultimately show ?thesis
      by (simp add: vpn_step_def unat_word_ariths)
  qed
  moreover have "unat start div 4096 + 1 < 2 ^ 52" using lt by simp
  ultimately have "unat (va0 (va_of_vpn (vpn_step (vpn_at (unat start))))) = (unat start div 4096 + 1) * 4096"
    by (simp add: unat_va_of_vpn)
  moreover have "unat (va0 (VirtAddr_from stop)) = unat stop" using assms by (simp add: unat_VirtAddr_from)
  ultimately show ?thesis
    by (simp add: slice_end_def min_def less_eq_VirtAddr_def word_le_nat_alt)
qed

lemma slice_end_bounds:
  assumes "a < b"
  shows "a < slice_end a b" and "slice_end a b \<le> b" and "slice_end a b - a div 4096 * 4096 \<le> 4096"
    and "(if slice_end a b mod 4096 = 0 then 4096 else slice_end a b mod 4096) = slice_end a b - a div 4096 * 4096"
proof -
  define q where "q = a div 4096"
  have a: "q * 4096 \<le> a" "a < (q + 1) * 4096"  using div_mult_mod_eq [of a 4096] mod_less_divisor [of 4096 a]
    by (simp_all add: q_def algebra_simps)
  show 1: "a < slice_end a b" "slice_end a b \<le> b" "slice_end a b - a div 4096 * 4096 \<le> 4096"
    using a assms unfolding slice_end_def q_def [symmetric] by (auto simp: min_def)
  define e where "e = slice_end a b - q * 4096"
  have e: "slice_end a b = q * 4096 + e" "0 < e" "e \<le> 4096"
    using a 1 unfolding e_def q_def [symmetric] by auto
  then show "(if slice_end a b mod 4096 = 0 then 4096 else slice_end a b mod 4096) = slice_end a b - a div 4096 * 4096"
    unfolding q_def [symmetric] by (cases "e = 4096") auto
qed

lemma slice_addrs_phys:
  assumes ab: "a < b" and tr: "PageTable_translate m pt (vpn_at a) = Some e"
  shows "slice_addrs (pte_ppn e, a mod 4096, slice_end a b - a div 4096 * 4096) =
    map (phys_of m pt) [a..<slice_end a b]"
proof (rule nth_equalityI)
  note e = slice_end_bounds [OF ab]
  have q: "a = a div 4096 * 4096 + a mod 4096" by simp
  show len: "length (slice_addrs (pte_ppn e, a mod 4096, slice_end a b - a div 4096 * 4096)) =
      length (map (phys_of m pt) [a..<slice_end a b])"
    using e q by (simp add: slice_addrs_def)
  fix i
  assume "i < length (slice_addrs (pte_ppn e, a mod 4096, slice_end a b - a div 4096 * 4096))"
  then have i: "a + i < slice_end a b" using len by simp
  have lt: "a mod 4096 + i < 4096" using i e(3) q by linarith
  have "a + i = (a mod 4096 + i) + a div 4096 * 4096" by simp
  with lt have "(a + i) div 4096 = a div 4096" "(a + i) mod 4096 = a mod 4096 + i"
    by (metis add_0_right div_less div_mult_self1 zero_neq_numeral add.commute,
        metis mod_less mod_mult_self1)
  then have "phys_of m pt (a + i) = page_base (pte_ppn e) + a mod 4096 + i"
    using tr by (simp add: phys_of_def vpn_at_def)
  moreover have "page_base (pte_ppn e) + a mod 4096 + i <
      page_base (pte_ppn e) + (slice_end a b - a div 4096 * 4096)"
    using i q by linarith
  ultimately show "slice_addrs (pte_ppn e, a mod 4096, slice_end a b - a div 4096 * 4096) ! i =
      map (phys_of m pt) [a..<slice_end a b] ! i"
    using i by (simp add: slice_addrs_def del: diff_add_assoc)
qed

lemma translated_byte_buffer_loop_covers:
  assumes "unat stop < 2 ^ 38" and "\<forall>a. unat start \<le> a \<and> a < unat stop \<longrightarrow> has_table m pt a"
    and "0 < n" and "unat start < unat stop \<longrightarrow> (unat stop + 4095) div 4096 - unat start div 4096 < n"
  shows "\<exists>bs. translated_byte_buffer_loop n m pt start stop v = Inr (v @ bs) \<and>
    concat (map slice_addrs bs) = map (phys_of m pt) [unat start..<unat stop] \<and>
    (\<forall>b \<in> set bs. 0 < byte_slice_len b)"
  using assms
proof (induction n arbitrary: start v)
  case (Suc n)
  let ?a = "unat start" and ?b = "unat stop"
  show ?case
  proof (cases "start < stop")
    case False
    then show ?thesis by (simp add: word_less_nat_alt)
  next
    case True
    then have ab: "?a < ?b" by (simp only: word_less_nat_alt)
    note e = slice_end_bounds [OF ab]
    have vpn: "va_floor (VirtAddr_from start) = vpn_at ?a"
      using ab Suc.prems(1) by (intro va_floor_from) simp
    have off: "unat (va_page_offset (VirtAddr_from start)) = ?a mod 4096"
      using ab Suc.prems(1) by (simp add: unat_va_page_offset unat_VirtAddr_from)
    obtain pe where tr: "PageTable_translate m pt (vpn_at ?a) = Some pe"
      using Suc.prems(2) ab by (auto simp: has_table_def)
    define ev where "ev = min (va_of_vpn (vpn_step (vpn_at ?a))) (VirtAddr_from stop)"
    have ev: "unat (va0 ev) = slice_end ?a ?b" unfolding ev_def by (rule slice_end_va [OF ab Suc.prems(1)])
    then have evo: "unat (va_page_offset ev) = slice_end ?a ?b mod 4096" by (simp add: unat_va_page_offset)
    then have "va_page_offset ev = 0 \<longleftrightarrow> slice_end ?a ?b mod 4096 = 0"
      by (metis unat_0 word_unat_eq_iff)
    then have en: "(if va_page_offset ev = 0 then 4096 else unat (va_page_offset ev)) =
        slice_end ?a ?b - ?a div 4096 * 4096"
      using e(4) evo by (auto split: if_splits)
    have us: "unat (usize_of_va ev) = slice_end ?a ?b"
      using ev e(2) Suc.prems(1) by (simp add: usize_of_va_low)
    let ?s = "(pte_ppn pe, ?a mod 4096, slice_end ?a ?b - ?a div 4096 * 4096)"
    have q: "?a = ?a div 4096 * 4096 + ?a mod 4096" by simp
    then have le: "?a mod 4096 < slice_end ?a ?b - ?a div 4096 * 4096" using e(1) by linarith
    have fs: "frame_slice (pte_ppn pe) (?a mod 4096)
        (if va_page_offset ev = 0 then 4096 else unat (va_page_offset ev)) = Inr ?s"
      using le e(3) unfolding en by (simp add: frame_slice_def)
    have step: "translated_byte_buffer_loop (Suc n) m pt start stop v =
        translated_byte_buffer_loop n m pt (usize_of_va ev) stop (v @ [?s])"
      unfolding translated_byte_buffer_loop.simps Let_def vpn off ev_def [symmetric]
      using True tr by (simp add: fs split del: if_split)
    have "?a div 4096 < (?b + 4095) div 4096" using div_le_mono [of "?a + 4096" "?b + 4095" 4096] ab by simp
    then have n: "0 < n" using Suc.prems(4) ab by linarith
    have "slice_end ?a ?b < ?b \<longrightarrow> slice_end ?a ?b div 4096 = ?a div 4096 + 1"
      unfolding slice_end_def min_def by (auto simp: div_mult_self_is_m)
    then have "slice_end ?a ?b < ?b \<longrightarrow> (?b + 4095) div 4096 - slice_end ?a ?b div 4096 < n"
      using Suc.prems(4) ab by auto
    with Suc.IH [of "usize_of_va ev" "v @ [?s]"] Suc.prems(1,2) n us e(1) obtain bs where
      bs: "translated_byte_buffer_loop n m pt (usize_of_va ev) stop (v @ [?s]) = Inr ((v @ [?s]) @ bs)"
      "concat (map slice_addrs bs) = map (phys_of m pt) [slice_end ?a ?b..<?b]"
      "\<forall>b \<in> set bs. 0 < byte_slice_len b"
      by auto
    have "[?a..<?b] = [?a..<slice_end ?a ?b] @ [slice_end ?a ?b..<?b]"
      using e(1,2) by (metis le_add_diff_inverse less_imp_le upt_add_eq_append)
    with bs step slice_addrs_phys [OF ab tr] le e(1) show ?thesis
      by (intro exI [of _ "?s # bs"]) (simp add: byte_slice_len_def del: translated_byte_buffer_loop.simps)
  qed
qed simp

lemma byte_buffer_spec:
  assumes "unat ptr + unat len < 2 ^ 38"
    and "\<forall>a. unat ptr \<le> a \<and> a < unat ptr + unat len \<longrightarrow> has_table m (PageTable_from_token token) a"
    and "unat len div 4096 + 2 < fuel"
  shows "\<exists>bs. translated_byte_buffer fuel m token ptr len = Inr bs \<and>
    concat (map slice_addrs bs) =
      map (phys_of m (PageTable_from_token token)) [unat ptr..<unat ptr + unat len] \<and>
    (\<forall>b \<in> set bs. 0 < byte_slice_len b)"
proof -
  have sum: "unat (ptr + len) = unat ptr + unat len"
    using assms(1) by (intro unat_add_lem [THEN iffD1]) simp
  have "(unat ptr + unat len + 4095) div 4096 \<le> unat ptr div 4096 + unat len div 4096 + 2"
    using div_mult_mod_eq [of "unat ptr" 4096] div_mult_mod_eq [of "unat len" 4096]
      mod_less_divisor [of 4096 "unat ptr"] mod_less_divisor [of 4096 "unat len"]
    by linarith
  then have "(unat (ptr + len) + 4095) div 4096 - unat ptr div 4096 < fuel"
    using assms(3) unfolding sum by linarith
  with translated_byte_buffer_loop_covers [of "ptr + len" ptr m "PageTable_from_token token" fuel "[]"] assms sum
  show ?thesis by (auto simp: translated_byte_buffer_def)
qed

text \<open>
  (C22) \<open>translated_byte_buffer\<close> returns for a buffer below \<open>2^38\<close> whose pages have tables, after at
  most one iteration per page, and its slices cover exactly the bytes of the buffer, in order: the
  \<open>k\<close>-th byte of the slices is the physical byte of the \<open>k\<close>-th virtual address. No slice is empty.
\<close>

theorem translated_byte_buffer_covers:
  assumes "unat ptr + unat len < 2 ^ 38"
    and "\<forall>a. unat ptr \<le> a \<and> a < unat ptr + unat len \<longrightarrow> has_table m (PageTable_from_token token) a"
    and "unat len div 4096 + 2 < fuel"
  shows "\<exists>bs. translated_byte_buffer fuel m token ptr len = Inr bs \<and>
    concat (map slice_addrs bs) =
      map (phys_of m (PageTable_from_token token)) [unat ptr..<unat ptr + unat len] \<and>
    (\<forall>b \<in> set bs. 0 < byte_slice_len b)"
  by (rule byte_buffer_spec [OF assms])

section \<open>The iterator\<close>

lemma length_slice_addrs: "length (slice_addrs b) = byte_slice_len b"
  by (cases b) (simp add: slice_addrs_def byte_slice_len_def)

text \<open>
  The addresses an iterator still has to yield, and the invariant that its position is inside a
  slice or at the end.
\<close>

definition iter_rest :: "UserBufferIterator \<Rightarrow> nat list" where
  "iter_rest it = drop (current_idx it) (concat (map slice_addrs (drop (current_buffer it) (it_buffers it))))"

definition iter_ok :: "UserBufferIterator \<Rightarrow> bool" where
  "iter_ok it \<longleftrightarrow> (\<forall>b \<in> set (it_buffers it). 0 < byte_slice_len b) \<and>
     current_buffer it \<le> length (it_buffers it) \<and>
     (if current_buffer it < length (it_buffers it)
      then current_idx it < byte_slice_len (it_buffers it ! current_buffer it) else current_idx it = 0)"

lemma iter_next_end:
  assumes "iter_ok it" and "iter_rest it = []"
  shows "UserBufferIterator_next it = Inr (None, it)"
proof -
  have "\<not> current_buffer it < length (it_buffers it)"
  proof
    assume k: "current_buffer it < length (it_buffers it)"
    then have "drop (current_buffer it) (it_buffers it) =
        it_buffers it ! current_buffer it # drop (Suc (current_buffer it)) (it_buffers it)"
      by (rule Cons_nth_drop_Suc [symmetric])
    with assms k show False by (simp add: iter_rest_def iter_ok_def length_slice_addrs)
  qed
  then show ?thesis by (simp add: UserBufferIterator_next_def)
qed

lemma iter_next_Cons:
  assumes ok: "iter_ok it" and rest: "iter_rest it = a # as"
  obtains it' where "UserBufferIterator_next it = Inr (Some a, it')" "iter_ok it'" "iter_rest it' = as"
proof -
  let ?k = "current_buffer it" and ?i = "current_idx it" and ?bs = "it_buffers it"
  let ?C = "\<lambda>k. concat (map slice_addrs (drop k ?bs))"
  have k: "?k < length ?bs" using rest ok by (cases "?k < length ?bs") (auto simp: iter_rest_def iter_ok_def)
  let ?b = "?bs ! ?k"
  have i: "?i < byte_slice_len ?b" using ok k by (simp add: iter_ok_def)
  have dr: "drop ?k ?bs = ?b # drop (Suc ?k) ?bs" using k by (rule Cons_nth_drop_Suc [symmetric])
  have "drop ?i (?C ?k) = slice_addrs ?b ! ?i # drop (Suc ?i) (?C ?k)"
    using i unfolding dr by (simp add: Cons_nth_drop_Suc [symmetric] length_slice_addrs)
  with rest have a: "a = slice_addrs ?b ! ?i" "as = drop (Suc ?i) (?C ?k)" by (simp_all add: iter_rest_def)
  show ?thesis
  proof (cases "Suc ?i = byte_slice_len ?b")
    case True
    then have "as = ?C (Suc ?k)" unfolding a(2) dr by (simp add: length_slice_addrs)
    with True a k i ok that [of "it\<lparr>current_idx := 0, current_buffer := Suc ?k\<rparr>"] show ?thesis
      by (auto simp: UserBufferIterator_next_def Let_def indexR_def length_slice_addrs iter_ok_def iter_rest_def)
  next
    case False
    with a k i ok that [of "it\<lparr>current_idx := Suc ?i\<rparr>"] show ?thesis
      by (auto simp: UserBufferIterator_next_def Let_def indexR_def length_slice_addrs iter_ok_def iter_rest_def)
  qed
qed

lemma collect_iter_rest:
  "iter_ok it \<Longrightarrow> length (iter_rest it) < n \<Longrightarrow> collect_iter n it = Inr (iter_rest it)"
proof (induction n arbitrary: it)
  case (Suc n)
  show ?case
  proof (cases "iter_rest it")
    case Nil
    then show ?thesis using iter_next_end [OF Suc.prems(1)] by simp
  next
    case (Cons a as)
    from iter_next_Cons [OF Suc.prems(1) Cons] obtain it' where
      it': "UserBufferIterator_next it = Inr (Some a, it')" "iter_ok it'" "iter_rest it' = as" .
    with Suc.IH [OF it'(2)] Suc.prems(2) Cons show ?thesis by simp
  qed
qed simp

lemma into_iter_ok:
  assumes "\<forall>b \<in> set bs. 0 < byte_slice_len b"
  shows "iter_ok (UserBuffer_into_iter (UserBuffer_new bs))"
    and "iter_rest (UserBuffer_into_iter (UserBuffer_new bs)) = concat (map slice_addrs bs)"
  using assms by (auto simp: iter_ok_def iter_rest_def UserBuffer_into_iter_def UserBuffer_new_def)

text \<open>
  Iterating over a user buffer whose slices are not empty yields every byte address once, in
  the order of the slices, then ends; \<open>len\<close> is their number.
\<close>

lemma user_buffer_iterates_all:
  assumes "\<forall>b \<in> set bs. 0 < byte_slice_len b"
    and "UserBuffer_len (UserBuffer_new bs) < fuel"
  shows "collect_iter fuel (UserBuffer_into_iter (UserBuffer_new bs)) = Inr (concat (map slice_addrs bs)) \<and>
    UserBuffer_len (UserBuffer_new bs) = length (concat (map slice_addrs bs))"
proof -
  have "foldl (\<lambda>t b. t + byte_slice_len b) n xs = n + length (concat (map slice_addrs xs))" for n xs
    by (induction xs arbitrary: n) (simp_all add: length_slice_addrs)
  then have len: "UserBuffer_len (UserBuffer_new bs) = length (concat (map slice_addrs bs))"
    by (simp add: UserBuffer_len_def UserBuffer_new_def)
  with collect_iter_rest [OF into_iter_ok(1) [OF assms(1)]] into_iter_ok(2) [OF assms(1)] assms(2)
  show ?thesis by simp
qed

section \<open>Strings\<close>

lemma translate_va_phys_of:
  assumes "unat v < 2 ^ 39" and "has_table m pt (unat v)"
  obtains pa where "PageTable_translate_va m pt (VirtAddr_from v) = Some pa"
    "unat (pa0 pa) = phys_of m pt (unat v)"
proof -
  obtain e where e: "PageTable_translate m pt (va_floor (VirtAddr_from v)) = Some e"
    using assms by (auto simp: has_table_def va_floor_from)
  have "unat (va0 (VirtAddr_from v)) = unat v" using assms(1) by (simp add: unat_VirtAddr_from)
  with e assms(1) that show ?thesis
    by (rule_tac translate_va_phys [OF e]) (simp add: phys_of_def va_floor_from)
qed

lemma translated_str_loop_spec:
  assumes "unat v + length cs < 2 ^ 39" and "length cs < n"
    and "\<forall>k \<le> length cs. has_table m pt (unat v + k) \<and> phys_of m pt (unat v + k) \<noteq> 0"
    and "\<forall>k < length cs. m (phys_of m pt (unat v + k)) = cs ! k \<and> cs ! k \<noteq> 0"
    and "m (phys_of m pt (unat v + length cs)) = 0"
  shows "translated_str_loop n m pt v acc = Inr (acc @ cs)"
  using assms
proof (induction cs arbitrary: n v acc)
  case Nil
  then obtain n' where n: "n = Suc n'" by (cases n) auto
  have "unat v < 2 ^ 39" "has_table m pt (unat v)" using Nil.prems(1,3) by auto
  then obtain pa where "PageTable_translate_va m pt (VirtAddr_from v) = Some pa"
    "unat (pa0 pa) = phys_of m pt (unat v)" by (rule translate_va_phys_of)
  with Nil.prems(3,5) show ?case by (auto simp: n get_mut_def)
next
  case (Cons c cs)
  then obtain n' where n: "n = Suc n'" by (cases n) auto
  have "unat v < 2 ^ 39" "has_table m pt (unat v)" using Cons.prems(1,3) by auto
  then obtain pa where pa: "PageTable_translate_va m pt (VirtAddr_from v) = Some pa"
    "unat (pa0 pa) = phys_of m pt (unat v)" by (rule translate_va_phys_of)
  have c: "m (unat (pa0 pa)) = c" "c \<noteq> 0" "pa0 pa \<noteq> 0"
    using Cons.prems(3) [rule_format, of 0] Cons.prems(4) [rule_format, of 0] pa(2) by auto
  have v: "unat (v + 1) = Suc (unat v)"
    using Cons.prems(1) by (simp add: unat_word_ariths)
  have "\<forall>k \<le> length cs. has_table m pt (unat (v + 1) + k) \<and> phys_of m pt (unat (v + 1) + k) \<noteq> 0"
    "\<forall>k < length cs. m (phys_of m pt (unat (v + 1) + k)) = cs ! k \<and> cs ! k \<noteq> 0"
    using Cons.prems(3) [rule_format, of "Suc _"] Cons.prems(4) [rule_format, of "Suc _"] v by auto
  then have "translated_str_loop n' m pt (v + 1) (acc @ [c]) = Inr ((acc @ [c]) @ cs)"
    using Cons.prems(1,2,5) n v by (intro Cons.IH) auto
  then show ?case using pa(1) c by (simp add: n get_mut_def Let_def)
qed

text \<open>
  (C23) \<open>translated_str\<close> reads a NUL-terminated user string: if the bytes from the pointer on are
  \<open>cs\<close>, none of them zero, followed by a zero byte, and all lie in pages with tables, the call
  returns exactly \<open>cs\<close>.
\<close>

theorem translated_str_reads_string:
  assumes "unat ptr + length cs < 2 ^ 39" and "length cs < fuel"
    and "\<forall>k \<le> length cs. has_table m (PageTable_from_token token) (unat ptr + k) \<and>
      phys_of m (PageTable_from_token token) (unat ptr + k) \<noteq> 0"
    and "\<forall>k < length cs. m (phys_of m (PageTable_from_token token) (unat ptr + k)) = cs ! k \<and> cs ! k \<noteq> 0"
    and "m (phys_of m (PageTable_from_token token) (unat ptr + length cs)) = 0"
  shows "translated_str fuel m token ptr = Inr cs"
  using translated_str_loop_spec [OF assms, of "[]"] by (simp add: translated_str_def)

section \<open>A concrete buffer\<close>

text \<open>The page of the example address space, with a string written to its frame.\<close>

lemma example_text:
  obtains ms s f m where "example_space = Inr (ms, s)" "m = write_bytes (mem s) (page_base f + 2) [104, 105, 0]"
    "\<And>a. 8192 \<le> a \<Longrightarrow> a < 12288 \<Longrightarrow> has_table m (PageTable_from_token (MemorySet_token ms)) a \<and>
       phys_of m (PageTable_from_token (MemorySet_token ms)) a = page_base f + (a - 8192)"
proof -
  obtain ms s fs where ms: "example_space = Inr (ms, s)" "ms_wf s ms"
    and ar: "areas ms = [\<lparr>vpn_range = \<lparr>range_l = VirtPageNum 2, range_r = VirtPageNum 3\<rparr>,
       data_frames = zip [VirtPageNum 2] fs, map_type = Framed, map_perm = MapPermission_R OR MapPermission_U\<rparr>]"
    by (rule example_space_wf)
  let ?a = "\<lparr>vpn_range = \<lparr>range_l = VirtPageNum 2, range_r = VirtPageNum 3\<rparr>,
       data_frames = zip [VirtPageNum 2] fs, map_type = Framed, map_perm = MapPermission_R OR MapPermission_U\<rparr>"
  have v: "VirtPageNum 2 \<in> set (vpns_of (vpn_range ?a))"
    by (simp add: vpns_of_def range_iter_words less_eq_VirtPageNum_def)
  obtain f where f: "pt_abs (mem s) (page_table ms) (VirtPageNum 2) = Some (area_pte ?a f)"
    "f \<notin> set (pt_frames (page_table ms))" "small_ppn f"
    by (rule ms_wf_data_page [OF ms(2), of ?a "VirtPageNum 2"]) (use v in \<open>auto simp: ar\<close>)
  let ?m = "write_bytes (mem s) (page_base f + 2) [104, 105, 0]"
  have out: "?m x = mem s x" if "x \<notin> page_addrs f" for x
    using that by (auto simp: write_bytes_def page_addrs_def)
  have "pt_abs ?m (page_table ms) = pt_abs (mem s) (page_table ms)"
    using pt_wf_outside(2) [of "mem s" s "page_table ms" f ?m] ms_wfD(1) [OF ms(2)] f out by simp
  with f(1) have "PageTable_translate ?m (page_table ms) (VirtPageNum 2) = Some (area_pte ?a f)"
    using pt_abs_SomeD(1) by metis
  then have tr: "PageTable_translate ?m (PageTable_from_token (MemorySet_token ms)) (VirtPageNum 2) = Some (area_pte ?a f)"
    using translate_root [OF token_root [OF ms_wfD(1) [OF ms(2)]]] by (simp add: MemorySet_token_def)
  have "vpn_at a = VirtPageNum 2 \<and> a mod 4096 = a - 8192" if "8192 \<le> a" "a < 12288" for a
  proof -
    from that obtain k where k: "a = 8192 + k" "k < 4096" using le_Suc_ex by force
    then have "a div 4096 = 2" by simp
    moreover have "a mod 4096 = a - 4096 * (a div 4096)" by (rule minus_mult_div_eq_mod [symmetric])
    ultimately show ?thesis by (simp add: vpn_at_def)
  qed
  with tr f(3) show ?thesis
    by (intro that [OF ms(1) refl]) (auto simp: has_table_def phys_of_def)
qed

theorem translated_byte_buffer_covers_witness:
  "\<exists>ms s f m bs. example_space = Inr (ms, s) \<and>
     translated_byte_buffer 5 m (MemorySet_token ms) 8200 3 = Inr bs \<and>
     concat (map slice_addrs bs) = [page_base f + 8, page_base f + 9, page_base f + 10]"
proof -
  obtain ms s f m where ex: "example_space = Inr (ms, s)"
    "\<And>a. 8192 \<le> a \<Longrightarrow> a < 12288 \<Longrightarrow> has_table m (PageTable_from_token (MemorySet_token ms)) a \<and>
       phys_of m (PageTable_from_token (MemorySet_token ms)) a = page_base f + (a - 8192)"
    by (rule example_text) metis
  have "\<exists>bs. translated_byte_buffer 5 m (MemorySet_token ms) 8200 3 = Inr bs \<and>
     concat (map slice_addrs bs) = map (phys_of m (PageTable_from_token (MemorySet_token ms))) [8200..<8203]"
    using translated_byte_buffer_covers [of 8200 3 m "MemorySet_token ms" 5] ex(2) by auto
  moreover have "map (phys_of m (PageTable_from_token (MemorySet_token ms))) [8200..<8203] =
      [page_base f + 8, page_base f + 9, page_base f + 10]"
    by (simp add: ex(2) upt_rec)
  ultimately show ?thesis using ex(1) by metis
qed

theorem translated_str_reads_string_witness:
  "\<exists>ms s m. example_space = Inr (ms, s) \<and> translated_str 9 m (MemorySet_token ms) 8194 = Inr [104, 105]"
proof -
  obtain ms s f m where ex: "example_space = Inr (ms, s)" "m = write_bytes (mem s) (page_base f + 2) [104, 105, 0]"
    "\<And>a. 8192 \<le> a \<Longrightarrow> a < 12288 \<Longrightarrow> has_table m (PageTable_from_token (MemorySet_token ms)) a \<and>
       phys_of m (PageTable_from_token (MemorySet_token ms)) a = page_base f + (a - 8192)"
    by (rule example_text) metis
  have m: "m (page_base f + 2) = 104" "m (Suc (Suc (page_base f))) = 104" "m (page_base f + 3) = 105" "m (page_base f + 4) = 0"
    by (simp_all add: ex(2) write_bytes_def)
  have "translated_str 9 m (MemorySet_token ms) 8194 = Inr [104, 105]"
    by (rule translated_str_reads_string) (auto simp: ex(3) m less_Suc_eq)
  then show ?thesis using ex(1) by metis
qed

end
