(* ===== verification/Pipe.thy ===== *)
theory Pipe
  imports Fifo User_Buffer
begin

text \<open>
  Pipes (os/src/fs/pipe.rs). The ring buffer is the array with its two indices and the status
  flag; its indices stay below 32, so they are natural numbers. The reader and the writer run in
  passes, one per acquisition of the lock; between two passes the other tasks run. A pass ends
  by returning, by suspending the task, or by going round the loop again. The strong count of
  the write end's \<open>Arc\<close> is the argument \<open>strong\<close>.
\<close>

section \<open>The ring buffer\<close>

definition RING_BUFFER_SIZE :: nat where "RING_BUFFER_SIZE = 32"

datatype RingBufferStatus = FULL | EMPTY | NORMAL

record PipeRingBuffer =
  arr :: "u8 list"
  head :: nat
  tail :: nat
  status :: RingBufferStatus
  write_end :: "nat option"

definition PipeRingBuffer_new :: PipeRingBuffer where
  "PipeRingBuffer_new =
     \<lparr>arr = replicate RING_BUFFER_SIZE 0, head = 0, tail = 0, status = EMPTY, write_end = None\<rparr>"

definition set_write_end :: "PipeRingBuffer \<Rightarrow> nat \<Rightarrow> PipeRingBuffer" where
  "set_write_end rb w = rb\<lparr>write_end := Some w\<rparr>"

definition read_byte :: "PipeRingBuffer \<Rightarrow> u8 \<times> PipeRingBuffer" where
  "read_byte rb =
     (let rb1 = rb\<lparr>status := NORMAL\<rparr>;
          c = arr rb1 ! head rb1;
          rb2 = rb1\<lparr>head := (head rb1 + 1) mod RING_BUFFER_SIZE\<rparr>
      in (c, if head rb2 = tail rb2 then rb2\<lparr>status := EMPTY\<rparr> else rb2))"

definition write_byte :: "PipeRingBuffer \<Rightarrow> u8 \<Rightarrow> bool \<times> PipeRingBuffer" where
  "write_byte rb byte =
     (let rb1 = rb\<lparr>status := NORMAL\<rparr>;
          rb2 = rb1\<lparr>arr := (arr rb1)[tail rb1 := byte]\<rparr>;
          rb3 = rb2\<lparr>tail := (tail rb2 + 1) mod RING_BUFFER_SIZE\<rparr>
      in if head rb3 = tail rb3 then (False, rb3\<lparr>status := FULL\<rparr>) else (True, rb3))"

definition available_read :: "PipeRingBuffer \<Rightarrow> nat" where
  "available_read rb =
     (if status rb = EMPTY then 0
      else if tail rb > head rb then tail rb - head rb
      else tail rb + RING_BUFFER_SIZE - head rb)"

definition available_write :: "PipeRingBuffer \<Rightarrow> nat" where
  "available_write rb =
     (if status rb = FULL then 0
      else if tail rb \<ge> head rb then head rb + RING_BUFFER_SIZE - tail rb
      else head rb - tail rb)"

definition all_write_ends_closed :: "(nat \<Rightarrow> nat) \<Rightarrow> PipeRingBuffer \<Rightarrow> bool res" where
  "all_write_ends_closed strong rb =
     bindR (unwrapR (write_end rb)) (\<lambda>w. Inr (strong w = 0))"

record Pipe =
  readable :: bool
  writable :: bool

definition read_end_with_buffer :: Pipe where
  "read_end_with_buffer = \<lparr>readable = True, writable = False\<rparr>"

definition write_end_with_buffer :: Pipe where
  "write_end_with_buffer = \<lparr>readable = False, writable = True\<rparr>"

definition make_pipe :: "nat \<Rightarrow> Pipe \<times> Pipe \<times> PipeRingBuffer" where
  "make_pipe w =
     (read_end_with_buffer, write_end_with_buffer, set_write_end PipeRingBuffer_new w)"

section \<open>Reading and writing\<close>

datatype pass = Return | Suspend | Again

fun read_loop ::
  "nat \<Rightarrow> PipeRingBuffer \<Rightarrow> UserBufferIterator \<Rightarrow> pmem \<Rightarrow> nat \<Rightarrow>
   (pass \<times> PipeRingBuffer \<times> UserBufferIterator \<times> pmem \<times> nat) res" where
  "read_loop 0 rb it m cnt = Inr (Again, rb, it, m, cnt)"
| "read_loop (Suc n) rb it m cnt =
     bindR (UserBufferIterator_next it) (\<lambda>(r, it').
     case r of
       None \<Rightarrow> Inr (Return, rb, it', m, cnt)
     | Some a \<Rightarrow>
         (case read_byte rb of (c, rb') \<Rightarrow> read_loop n rb' it' (m(a := c)) (cnt + 1)))"

definition read_pass ::
  "(nat \<Rightarrow> nat) \<Rightarrow> PipeRingBuffer \<Rightarrow> UserBufferIterator \<Rightarrow> pmem \<Rightarrow> nat \<Rightarrow>
   (pass \<times> PipeRingBuffer \<times> UserBufferIterator \<times> pmem \<times> nat) res" where
  "read_pass strong rb it m cnt =
     (let loop_read = available_read rb in
      if loop_read = 0 then
        bindR (all_write_ends_closed strong rb) (\<lambda>closed.
        Inr (if closed then Return else Suspend, rb, it, m, cnt))
      else read_loop loop_read rb it m cnt)"

fun write_loop ::
  "nat \<Rightarrow> PipeRingBuffer \<Rightarrow> UserBufferIterator \<Rightarrow> pmem \<Rightarrow> nat \<Rightarrow>
   (pass \<times> PipeRingBuffer \<times> UserBufferIterator \<times> nat) res" where
  "write_loop 0 rb it m cnt = Inr (Again, rb, it, cnt)"
| "write_loop (Suc n) rb it m cnt =
     bindR (UserBufferIterator_next it) (\<lambda>(r, it').
     case r of
       None \<Rightarrow> Inr (Return, rb, it', cnt)
     | Some a \<Rightarrow>
         (case write_byte rb (m a) of (ok, rb') \<Rightarrow> write_loop n rb' it' m (cnt + 1)))"

definition write_pass ::
  "PipeRingBuffer \<Rightarrow> UserBufferIterator \<Rightarrow> pmem \<Rightarrow> nat \<Rightarrow>
   (pass \<times> PipeRingBuffer \<times> UserBufferIterator \<times> nat) res" where
  "write_pass rb it m cnt =
     (let loop_write = available_write rb in
      if loop_write = 0 then Inr (Suspend, rb, it, cnt)
      else write_loop loop_write rb it m cnt)"

section \<open>The ring buffer is a bounded FIFO\<close>

definition ring_ok :: "PipeRingBuffer \<Rightarrow> bool" where
  "ring_ok rb \<longleftrightarrow> length (arr rb) = RING_BUFFER_SIZE \<and> head rb < RING_BUFFER_SIZE \<and>
     tail rb < RING_BUFFER_SIZE \<and> (status rb = NORMAL \<longleftrightarrow> head rb \<noteq> tail rb)"

definition ring_list :: "PipeRingBuffer \<Rightarrow> u8 list" where
  "ring_list rb = map (\<lambda>i. arr rb ! ((head rb + i) mod RING_BUFFER_SIZE)) [0..<available_read rb]"

lemma length_ring_list [simp]: "length (ring_list rb) = available_read rb"
  by (simp add: ring_list_def)

lemma available_sum: "ring_ok rb \<Longrightarrow> available_read rb + available_write rb = RING_BUFFER_SIZE"
  by (cases "status rb") (auto simp: ring_ok_def available_read_def available_write_def RING_BUFFER_SIZE_def)

lemma ring_index:
  "k < 2 * RING_BUFFER_SIZE \<Longrightarrow>
   k mod RING_BUFFER_SIZE = (if k < RING_BUFFER_SIZE then k else k - RING_BUFFER_SIZE)"
  by (auto simp: mod_if [of k] RING_BUFFER_SIZE_def)

lemma tail_position: "ring_ok rb \<Longrightarrow> (head rb + available_read rb) mod RING_BUFFER_SIZE = tail rb"
  by (cases "status rb") (auto simp: ring_ok_def available_read_def RING_BUFFER_SIZE_def mod_if)

lemma write_byte_fields:
  "arr (snd (write_byte rb b)) = (arr rb)[tail rb := b]"
  "head (snd (write_byte rb b)) = head rb"
  "tail (snd (write_byte rb b)) = (tail rb + 1) mod RING_BUFFER_SIZE"
  "write_end (snd (write_byte rb b)) = write_end rb"
  "status (snd (write_byte rb b)) = (if head rb = (tail rb + 1) mod RING_BUFFER_SIZE then FULL else NORMAL)"
  "fst (write_byte rb b) \<longleftrightarrow> head rb \<noteq> (tail rb + 1) mod RING_BUFFER_SIZE"
  by (simp_all add: write_byte_def Let_def)

lemma read_byte_fields:
  "arr (snd (read_byte rb)) = arr rb"
  "head (snd (read_byte rb)) = (head rb + 1) mod RING_BUFFER_SIZE"
  "tail (snd (read_byte rb)) = tail rb"
  "write_end (snd (read_byte rb)) = write_end rb"
  "status (snd (read_byte rb)) = (if (head rb + 1) mod RING_BUFFER_SIZE = tail rb then EMPTY else NORMAL)"
  "fst (read_byte rb) = arr rb ! head rb"
  by (simp_all add: read_byte_def Let_def)

lemma write_byte_ok: "ring_ok rb \<Longrightarrow> ring_ok (snd (write_byte rb b))"
  by (auto simp: ring_ok_def write_byte_fields RING_BUFFER_SIZE_def)

lemma read_byte_ok: "ring_ok rb \<Longrightarrow> ring_ok (snd (read_byte rb))"
  by (auto simp: ring_ok_def read_byte_fields RING_BUFFER_SIZE_def)

lemma available_read_write:
  assumes "ring_ok rb" and "available_read rb < RING_BUFFER_SIZE"
  shows "available_read (snd (write_byte rb b)) = Suc (available_read rb)"
proof (cases "tail rb = 31")
  case True
  with assms show ?thesis
    by (cases "status rb") (auto simp: ring_ok_def available_read_def write_byte_fields RING_BUFFER_SIZE_def)
next
  case False
  then have "tail rb + 1 < 32" using assms(1) by (simp add: ring_ok_def RING_BUFFER_SIZE_def)
  then have "(tail rb + 1) mod 32 = tail rb + 1" by simp
  with assms show ?thesis
    by (cases "status rb") (auto simp: ring_ok_def available_read_def write_byte_fields RING_BUFFER_SIZE_def)
qed

lemma available_read_read:
  assumes "ring_ok rb" and "0 < available_read rb"
  shows "available_read rb = Suc (available_read (snd (read_byte rb)))"
proof (cases "head rb = 31")
  case True
  with assms show ?thesis
    by (cases "status rb") (auto simp: ring_ok_def available_read_def read_byte_fields RING_BUFFER_SIZE_def)
next
  case False
  then have "head rb + 1 < 32" using assms(1) by (simp add: ring_ok_def RING_BUFFER_SIZE_def)
  then have "(head rb + 1) mod 32 = head rb + 1" by simp
  with assms show ?thesis
    by (cases "status rb") (auto simp: ring_ok_def available_read_def read_byte_fields RING_BUFFER_SIZE_def)
qed

lemma ring_list_write:
  assumes ok: "ring_ok rb" and room: "available_read rb < RING_BUFFER_SIZE"
  shows "ring_list (snd (write_byte rb b)) = ring_list rb @ [b]"
proof (rule nth_equalityI)
  fix i assume "i < length (ring_list (snd (write_byte rb b)))"
  then have i: "i < Suc (available_read rb)" by (simp add: available_read_write [OF ok room])
  show "ring_list (snd (write_byte rb b)) ! i = (ring_list rb @ [b]) ! i"
  proof (cases "i < available_read rb")
    case True
    have "(head rb + i) mod RING_BUFFER_SIZE \<noteq> (head rb + available_read rb) mod RING_BUFFER_SIZE"
      using ring_index [of "head rb + i"] ring_index [of "head rb + available_read rb"] True room ok
      by (simp add: ring_ok_def split: if_splits)
    then show ?thesis using i True ok
      by (simp add: ring_list_def nth_append write_byte_fields tail_position available_read_write [OF ok room] del: upt_Suc)
  next
    case False
    with i have "i = available_read rb" by simp
    then show ?thesis using tail_position [OF ok] ok
      by (simp add: ring_list_def nth_append write_byte_fields available_read_write [OF ok room] ring_ok_def del: upt_Suc)
  qed
qed (simp add: available_read_write [OF ok room])

lemma ring_list_read:
  assumes ok: "ring_ok rb" and some: "0 < available_read rb"
  shows "ring_list rb = fst (read_byte rb) # ring_list (snd (read_byte rb))"
proof -
  have "[0..<available_read rb] = 0 # map Suc [0..<available_read (snd (read_byte rb))]"
    by (simp add: available_read_read [OF ok some] map_Suc_upt upt_conv_Cons del: upt_Suc)
  moreover have "head rb mod RING_BUFFER_SIZE = head rb" using ok by (simp add: ring_ok_def)
  ultimately show ?thesis
    by (simp add: ring_list_def read_byte_fields o_def mod_add_left_eq)
qed

interpretation ring: fifo "\<lambda>rb b. snd (write_byte rb b)" read_byte ring_list ring_ok RING_BUFFER_SIZE
proof
  fix rb :: PipeRingBuffer and b :: u8
  assume ok: "ring_ok rb"
  show "length (ring_list rb) \<le> RING_BUFFER_SIZE" using available_sum [OF ok] by simp
  show "ring_ok (snd (write_byte rb b))" using ok by (rule write_byte_ok)
  show "ring_list rb \<noteq> [] \<Longrightarrow> ring_ok (snd (read_byte rb))" using read_byte_ok [OF ok] by simp
  show "length (ring_list rb) < RING_BUFFER_SIZE \<Longrightarrow> ring_list (snd (write_byte rb b)) = ring_list rb @ [b]"
    using ring_list_write [OF ok] by simp
  show "ring_list rb \<noteq> [] \<Longrightarrow> ring_list rb = fst (read_byte rb) # ring_list (snd (read_byte rb))"
    using ring_list_read [OF ok] by (metis length_greater_0_conv length_ring_list)
qed

section \<open>What a pass does\<close>

fun stores :: "pmem \<Rightarrow> nat list \<Rightarrow> u8 list \<Rightarrow> pmem" where
  "stores m (a # as) (c # cs) = stores (m(a := c)) as cs"
| "stores m _ _ = m"

lemma stores_other: "x \<notin> set as \<Longrightarrow> stores m as cs x = m x"
  by (induction m as cs rule: stores.induct) auto

lemma stores_same:
  "distinct as \<Longrightarrow> length as = length cs \<Longrightarrow> map (stores m as cs) as = cs"
  by (induction m as cs rule: stores.induct) (auto simp: stores_other)

text \<open>The loop moves one byte per address until the addresses or the count run out.\<close>

lemma read_loop_spec:
  assumes "ring_ok rb" and "iter_ok it" and "n \<le> available_read rb"
  defines "k \<equiv> min n (length (iter_rest it))"
  shows "\<exists>rb' it'. read_loop n rb it m cnt =
      Inr (if length (iter_rest it) < n then Return else Again, rb', it',
           stores m (take k (iter_rest it)) (take k (ring_list rb)), cnt + k) \<and>
    ring_ok rb' \<and> ring_list rb' = drop k (ring_list rb) \<and> write_end rb' = write_end rb \<and>
    iter_ok it' \<and> iter_rest it' = drop k (iter_rest it)"
  using assms(1-3) unfolding k_def
proof (induction n arbitrary: rb it m cnt)
  case (Suc n)
  show ?case
  proof (cases "iter_rest it")
    case Nil
    then show ?thesis using iter_next_end [OF Suc.prems(2) Nil] Suc.prems by simp
  next
    case (Cons a as)
    from iter_next_Cons [OF Suc.prems(2) Cons] obtain it' where
      it': "UserBufferIterator_next it = Inr (Some a, it')" "iter_ok it'" "iter_rest it' = as" .
    have some: "0 < available_read rb" using Suc.prems(3) by simp
    obtain c rb' where rb': "read_byte rb = (c, rb')" by fastforce
    with ring_list_read [OF Suc.prems(1) some] read_byte_ok [OF Suc.prems(1)]
      available_read_read [OF Suc.prems(1) some] read_byte_fields(4) [of rb]
    have *: "ring_list rb = c # ring_list rb'" "ring_ok rb'" "available_read rb = Suc (available_read rb')"
      "write_end rb' = write_end rb" by simp_all
    define m1 where "m1 = m(a := c)"
    from * Suc.IH [OF *(2) it'(2), of m1 "cnt + 1"] Suc.prems(3) it' rb' Cons show ?thesis
      by (simp flip: m1_def)
  qed
qed simp

lemma write_loop_spec:
  assumes "ring_ok rb" and "iter_ok it" and "n + available_read rb \<le> RING_BUFFER_SIZE"
  defines "k \<equiv> min n (length (iter_rest it))"
  shows "\<exists>rb' it'. write_loop n rb it m cnt =
      Inr (if length (iter_rest it) < n then Return else Again, rb', it', cnt + k) \<and>
    ring_ok rb' \<and> ring_list rb' = ring_list rb @ map m (take k (iter_rest it)) \<and> write_end rb' = write_end rb \<and>
    iter_ok it' \<and> iter_rest it' = drop k (iter_rest it)"
  using assms(1-3) unfolding k_def
proof (induction n arbitrary: rb it cnt)
  case (Suc n)
  show ?case
  proof (cases "iter_rest it")
    case Nil
    then show ?thesis using iter_next_end [OF Suc.prems(2) Nil] Suc.prems by simp
  next
    case (Cons a as)
    from iter_next_Cons [OF Suc.prems(2) Cons] obtain it' where
      it': "UserBufferIterator_next it = Inr (Some a, it')" "iter_ok it'" "iter_rest it' = as" .
    have room: "available_read rb < RING_BUFFER_SIZE" using Suc.prems(3) by simp
    obtain ok rb' where rb': "write_byte rb (m a) = (ok, rb')" by fastforce
    with ring_list_write [OF Suc.prems(1) room, of "m a"] write_byte_ok [OF Suc.prems(1), of "m a"]
      available_read_write [OF Suc.prems(1) room, of "m a"] write_byte_fields(4) [of rb "m a"]
    have *: "ring_list rb' = ring_list rb @ [m a]" "ring_ok rb'" "available_read rb' = Suc (available_read rb)"
      "write_end rb' = write_end rb" by simp_all
    with Suc.IH [OF *(2) it'(2), of "cnt + 1"] Suc.prems(3) it' rb' Cons show ?thesis by simp
  qed
qed simp

lemma read_pass_spec:
  assumes "ring_ok rb" and "iter_ok it" and "write_end rb = Some w"
  defines "k \<equiv> min (available_read rb) (length (iter_rest it))"
  shows "\<exists>p rb' it'. read_pass strong rb it m cnt =
      Inr (p, rb', it', stores m (take k (iter_rest it)) (take k (ring_list rb)), cnt + k) \<and>
    p = (if available_read rb = 0 then if strong w = 0 then Return else Suspend
         else if length (iter_rest it) < available_read rb then Return else Again) \<and>
    ring_ok rb' \<and> ring_list rb' = drop k (ring_list rb) \<and> write_end rb' = Some w \<and>
    iter_ok it' \<and> iter_rest it' = drop k (iter_rest it)"
proof (cases "available_read rb = 0")
  case True
  then have "ring_list rb = []" by (metis length_0_conv length_ring_list)
  with True assms show ?thesis
    by (auto simp: read_pass_def all_write_ends_closed_def unwrapR_def k_def)
next
  case False
  with read_loop_spec [OF assms(1,2) order_refl, of m cnt] assms(3) show ?thesis
    unfolding k_def by (auto simp: read_pass_def Let_def)
qed

lemma write_pass_spec:
  assumes "ring_ok rb" and "iter_ok it"
  defines "k \<equiv> min (available_write rb) (length (iter_rest it))"
  shows "\<exists>p rb' it'. write_pass rb it m cnt = Inr (p, rb', it', cnt + k) \<and>
    p = (if available_write rb = 0 then Suspend
         else if length (iter_rest it) < available_write rb then Return else Again) \<and>
    ring_ok rb' \<and> ring_list rb' = ring_list rb @ map m (take k (iter_rest it)) \<and> write_end rb' = write_end rb \<and>
    iter_ok it' \<and> iter_rest it' = drop k (iter_rest it)"
proof (cases "available_write rb = 0")
  case True
  with assms show ?thesis by (auto simp: write_pass_def k_def)
next
  case False
  have "available_write rb + available_read rb \<le> RING_BUFFER_SIZE" using available_sum [OF assms(1)] by simp
  from write_loop_spec [OF assms(1,2) this, of m cnt] False show ?thesis
    unfolding k_def by (auto simp: write_pass_def Let_def)
qed

section \<open>Interleaved readers and writers\<close>

text \<open>
  Any number of readers and writers run passes on one pipe, in any order: \<open>pipe_run rb sent got\<close>
  says that the ring can be \<open>rb\<close> after passes in which the writers took the bytes \<open>sent\<close> from
  their buffers and the readers stored the bytes \<open>got\<close> to theirs. A pass may start at any point
  of a buffer; a reader's buffer has distinct addresses.
\<close>

inductive pipe_run :: "PipeRingBuffer \<Rightarrow> u8 list \<Rightarrow> u8 list \<Rightarrow> bool" where
  start: "make_pipe w = (r, w', rb) \<Longrightarrow> pipe_run rb [] []"
| reader: "pipe_run rb sent got \<Longrightarrow> iter_ok it \<Longrightarrow> distinct (iter_rest it) \<Longrightarrow>
     read_pass strong rb it m cnt = Inr (p, rb', it', m', cnt') \<Longrightarrow>
     pipe_run rb' sent (got @ map m' (take (cnt' - cnt) (iter_rest it)))"
| writer: "pipe_run rb sent got \<Longrightarrow> iter_ok it \<Longrightarrow>
     write_pass rb it m cnt = Inr (p, rb', it', cnt') \<Longrightarrow>
     pipe_run rb' (sent @ map m (take (cnt' - cnt) (iter_rest it))) got"

lemma new_ring: "ring_ok PipeRingBuffer_new \<and> ring_list PipeRingBuffer_new = []"
  by (simp add: ring_ok_def ring_list_def available_read_def PipeRingBuffer_new_def RING_BUFFER_SIZE_def)

lemma set_write_end_ring:
  "ring_ok (set_write_end rb w) = ring_ok rb" "ring_list (set_write_end rb w) = ring_list rb"
  "write_end (set_write_end rb w) = Some w"
  by (simp_all add: set_write_end_def ring_ok_def ring_list_def available_read_def)

lemma pipe_run_spec:
  "pipe_run rb sent got \<Longrightarrow>
   ring_ok rb \<and> (\<exists>w. write_end rb = Some w) \<and> sent = got @ ring_list rb"
proof (induction rule: pipe_run.induct)
  case (start w r w' rb)
  then show ?case using new_ring by (auto simp: make_pipe_def set_write_end_ring)
next
  case (reader rb sent got it strong m cnt p rb' it' m' cnt')
  then obtain w where "write_end rb = Some w" "ring_ok rb" and inv: "sent = got @ ring_list rb" by blast
  let ?k = "min (available_read rb) (length (iter_rest it))"
  from read_pass_spec [OF \<open>ring_ok rb\<close> reader.hyps(2) \<open>write_end rb = Some w\<close>, of strong m cnt] reader.hyps(4)
  have *: "m' = stores m (take ?k (iter_rest it)) (take ?k (ring_list rb))" "cnt' = cnt + ?k"
    "ring_ok rb'" "ring_list rb' = drop ?k (ring_list rb)" "write_end rb' = Some w" by auto
  have "map m' (take ?k (iter_rest it)) = take ?k (ring_list rb)"
    unfolding *(1) using reader.hyps(3) by (intro stores_same) auto
  with * inv show ?case by simp
next
  case (writer rb sent got it m cnt p rb' it' cnt')
  with write_pass_spec [of rb it m cnt] show ?case by auto
qed

text \<open>
  (C14) Pipes are first-in first-out: whatever the interleaving of readers and writers, the bytes
  delivered so far followed by the bytes in the ring are the bytes sent so far, in order; none is
  lost, duplicated or reordered, and at most 32 are in flight.
\<close>

theorem pipe_is_fifo:
  assumes "pipe_run rb sent got"
  shows "sent = got @ ring_list rb \<and> length (ring_list rb) \<le> 32"
  using pipe_run_spec [OF assms] ring.bounded [of rb] by (auto simp: RING_BUFFER_SIZE_def)

text \<open>
  The ring buffer refines a bounded queue: with \<open>n\<close> bytes in it, \<open>write_byte\<close> of up to \<open>32 - n\<close>
  bytes then \<open>read_byte\<close> of all of them gives the old bytes followed by the new ones and leaves it empty.
\<close>

lemma ring_round_trip:
  assumes "ring_ok rb" and "length bs \<le> available_write rb"
  shows "let rb1 = foldl (\<lambda>rb b. snd (write_byte rb b)) rb bs
    in fst (pop_n read_byte (available_read rb1) rb1) = ring_list rb @ bs \<and>
       ring_list (snd (pop_n read_byte (available_read rb1) rb1)) = []"
proof -
  let ?rb = "foldl (\<lambda>rb b. snd (write_byte rb b)) rb bs"
  have "ring_ok ?rb \<and> ring_list ?rb = ring_list rb @ bs"
    using available_sum [OF assms(1)] assms(2) by (intro ring.push_all [OF assms(1)]) simp
  then show ?thesis using ring.pop_all [of ?rb "available_read ?rb"] by (simp add: Let_def flip: length_ring_list)
qed

text \<open>
  (C30) A reader never sleeps through the end of the stream, and may sleep with its request served:
  with the write end dropped a pass on an empty ring returns; while it is alive, a read whose
  buffer holds exactly the bytes available fills it and then suspends, instead of returning.
\<close>

theorem pipe_read_end_of_stream:
  assumes "ring_ok rb" and "iter_ok it" and "write_end rb = Some w"
    and "length (iter_rest it) = available_read rb" and "0 < available_read rb"
  shows "\<exists>rb1 it1 m1 cnt1. read_pass strong rb it m cnt = Inr (Again, rb1, it1, m1, cnt1) \<and>
    cnt1 = cnt + available_read rb \<and> iter_rest it1 = [] \<and>
    read_pass strong rb1 it1 m1 cnt1 = Inr (if strong w = 0 then Return else Suspend, rb1, it1, m1, cnt1)"
proof -
  obtain rb1 it1 m1 where 1: "read_pass strong rb it m cnt = Inr (Again, rb1, it1, m1, cnt + available_read rb)"
    "ring_ok rb1" "ring_list rb1 = []" "write_end rb1 = Some w" "iter_ok it1" "iter_rest it1 = []"
    using read_pass_spec [OF assms(1-3), of strong m cnt] assms(4,5) by auto
  then have "available_read rb1 = 0" by (metis length_ring_list list.size(3))
  with 1 show ?thesis by (auto simp: read_pass_def all_write_ends_closed_def unwrapR_def)
qed

section \<open>A concrete pipe\<close>

text \<open>A writer with the three bytes at 4096, 4097 and 4098, then a reader with room for two.\<close>

definition example_writer :: UserBufferIterator where
  "example_writer = UserBuffer_into_iter (UserBuffer_new [(PhysPageNum 1, 0, 3)])"

definition example_reader :: UserBufferIterator where
  "example_reader = UserBuffer_into_iter (UserBuffer_new [(PhysPageNum 2, 0, 2)])"

definition example_sent :: PipeRingBuffer where
  "example_sent = foldl (\<lambda>rb b. snd (write_byte rb b)) (set_write_end PipeRingBuffer_new 0) [7, 8]"

lemma example_writer_iter: "iter_ok example_writer" "iter_rest example_writer = [4096, 4097, 4098]"
  using into_iter_ok [of "[(PhysPageNum 1, 0, 3)]"]
  by (simp_all add: example_writer_def byte_slice_len_def slice_addrs_def page_base_eq small_ppn_def upt_rec)

lemma example_reader_iter: "iter_ok example_reader" "iter_rest example_reader = [8192, 8193]"
  using into_iter_ok [of "[(PhysPageNum 2, 0, 2)]"]
  by (simp_all add: example_reader_def byte_slice_len_def slice_addrs_def page_base_eq small_ppn_def upt_rec)

lemma example_sent_ring: "ring_ok example_sent" "ring_list example_sent = [7, 8]" "write_end example_sent = Some 0"
proof -
  have "ring_ok example_sent \<and> ring_list example_sent = ring_list (set_write_end PipeRingBuffer_new 0) @ [7, 8]"
    unfolding example_sent_def using new_ring
    by (intro ring.push_all) (auto simp: set_write_end_ring RING_BUFFER_SIZE_def simp flip: length_ring_list)
  then show "ring_ok example_sent" "ring_list example_sent = [7, 8]" using new_ring by (auto simp: set_write_end_ring)
  show "write_end example_sent = Some 0" by (simp add: example_sent_def write_byte_fields set_write_end_def)
qed

theorem pipe_is_fifo_witness:
  "\<exists>rb. pipe_run rb [0, 1, 2] [0, 1] \<and> ring_list rb = [2]"
proof -
  define m :: pmem where "m = (\<lambda>a. word_of_nat (a - 4096))"
  define rb0 where "rb0 = set_write_end PipeRingBuffer_new 0"
  have 0: "pipe_run rb0 [] []" "ring_ok rb0" "ring_list rb0 = []" "write_end rb0 = Some 0" "available_read rb0 = 0"
    using new_ring pipe_run.start [of 0] by (auto simp: rb0_def make_pipe_def set_write_end_ring simp flip: length_ring_list)
  then have "available_write rb0 = 32" using available_sum [of rb0] by (simp add: RING_BUFFER_SIZE_def)
  with write_pass_spec [OF 0(2) example_writer_iter(1), of m 0] 0(4) obtain p1 rb1 it1 where
    1: "write_pass rb0 example_writer m 0 = Inr (p1, rb1, it1, 3)" "ring_ok rb1"
      "ring_list rb1 = [0, 1, 2]" "write_end rb1 = Some 0"
    by (auto simp: example_writer_iter 0(3) m_def)
  have r1: "pipe_run rb1 [0, 1, 2] []"
    using pipe_run.writer [OF 0(1) example_writer_iter(1) 1(1)] by (simp add: example_writer_iter m_def)
  have "available_read rb1 = 3" using 1(3) by (simp flip: length_ring_list)
  with read_pass_spec [OF 1(2) example_reader_iter(1) 1(4), of "\<lambda>_. 1" m 0] obtain p2 rb2 it2 where
    2: "read_pass (\<lambda>_. 1) rb1 example_reader m 0 = Inr (p2, rb2, it2, stores m [8192, 8193] [0, 1], 2)"
    by (auto simp: example_reader_iter 1(3) numeral_2_eq_2)
  have "pipe_run rb2 [0, 1, 2] [0, 1]"
    using pipe_run.reader [OF r1 example_reader_iter(1) _ 2] by (simp add: example_reader_iter)
  with pipe_is_fifo [OF this] show ?thesis by auto
qed

theorem pipe_read_end_of_stream_witness:
  "\<exists>rb1 it1 m1. read_pass (\<lambda>_. 1) example_sent example_reader (\<lambda>_. 0) 0 = Inr (Again, rb1, it1, m1, 2) \<and>
     read_pass (\<lambda>_. 1) rb1 it1 m1 2 = Inr (Suspend, rb1, it1, m1, 2)"
proof -
  have "available_read example_sent = 2" using example_sent_ring(2) by (simp flip: length_ring_list)
  then show ?thesis
    using pipe_read_end_of_stream [OF example_sent_ring(1) example_reader_iter(1) example_sent_ring(3), of "\<lambda>_. 1" "\<lambda>_. 0" 0]
    by (simp add: example_reader_iter numeral_2_eq_2) blast
qed

end
