(* ===== verification/Block_Store.thy ===== *)
theory Block_Store
  imports Prelude
begin

text \<open>
  The contract the file system relies on: a store of 512-byte blocks, read and written in parts,
  with a view that gives every block's content. Typed access (\<open>u32\<close> fields) and the
  read-over-write facts of the file-system structures are derived once from it.
\<close>

locale block_store =
  fixes rd :: "'s \<Rightarrow> nat \<Rightarrow> nat \<Rightarrow> nat \<Rightarrow> (u8 list \<times> 's) res"
    and wr :: "'s \<Rightarrow> nat \<Rightarrow> nat \<Rightarrow> u8 list \<Rightarrow> 's res"
    and ok :: "'s \<Rightarrow> bool"
    and own :: "nat \<Rightarrow> bool"
    and view :: "'s \<Rightarrow> nat \<Rightarrow> u8 list"
  assumes rd_spec: "ok s \<Longrightarrow> own b \<Longrightarrow> off + n \<le> 512 \<Longrightarrow> 0 < n \<Longrightarrow>
      \<exists>s'. rd s b off n = Inr (slice off n (view s b), s') \<and> ok s' \<and> view s' = view s"
    and wr_spec: "ok s \<Longrightarrow> own b \<Longrightarrow> off + length bs \<le> 512 \<Longrightarrow> bs \<noteq> [] \<Longrightarrow>
      \<exists>s'. wr s b off bs = Inr s' \<and> ok s' \<and> view s' = (view s)(b := overwrite off bs (view s b))"
    and view_length: "ok s \<Longrightarrow> length (view s b) = 512"
begin

lemma read_after_write:
  assumes "ok s" and "own b" and "off + length bs \<le> 512" and "bs \<noteq> []"
  shows "\<exists>s' s''. wr s b off bs = Inr s' \<and> rd s' b off (length bs) = Inr (bs, s'') \<and> ok s'' \<and> view s'' = view s'"
proof -
  obtain s' where s': "wr s b off bs = Inr s'" "ok s'" "view s' = (view s)(b := overwrite off bs (view s b))"
    using wr_spec [OF assms] by blast
  moreover have "slice off (length bs) (view s' b) = bs"
    using s'(3) assms(3) view_length [OF assms(1), of b] by (simp add: slice_overwrite_same)
  ultimately show ?thesis using rd_spec [OF s'(2) assms(2,3)] assms(4) by auto
qed

lemma read_other_after_write:
  assumes "ok s" and "own b" and "off + length bs \<le> 512" and "bs \<noteq> []"
    and "own c" and "off' + n \<le> 512" and "0 < n"
    and "c \<noteq> b \<or> off' + n \<le> off \<or> off + length bs \<le> off'"
  shows "\<exists>s' s''. wr s b off bs = Inr s' \<and> rd s' c off' n = Inr (slice off' n (view s c), s'') \<and> ok s''"
proof -
  obtain s' where s': "wr s b off bs = Inr s'" "ok s'" "view s' = (view s)(b := overwrite off bs (view s b))"
    using wr_spec [OF assms(1-4)] by blast
  have "slice off' n (view s' c) = slice off' n (view s c)"
    using assms(3,6,8) view_length [OF assms(1), of b] unfolding s'(3)
    by (auto intro: slice_overwrite_disjoint)
  with s' rd_spec [OF s'(2) assms(5-7)] show ?thesis by auto
qed

lemma read_u32_after_write:
  assumes "ok s" and "own b" and "off + 4 \<le> 512"
  shows "\<exists>s' s''. wr s b off (le32 w) = Inr s' \<and> rd s' b off 4 = Inr (le32 w, s'') \<and> ok s'' \<and> view s'' = view s'"
proof -
  have "le32 w \<noteq> []" using length_le_words(2) [of w] by (metis list.size(3) zero_neq_numeral)
  then show ?thesis using read_after_write [OF assms(1,2), of off "le32 w"] assms(3) by simp
qed

end

end
