(* ===== verification/Block_Cache.thy ===== *)
theory Block_Cache
  imports Prelude Block_Store
begin

text \<open>
  The block caches of the file system (fat32/src/block_cache.rs, fat32/src/block_dev.rs). Two
  managers of at most ten blocks each stand between the file system and the block device: one for
  metadata and directories, one for file data. The device is a trait object: its state and its two
  operations are parameters, and \<open>device_laws\<close> says what is relied on. An \<open>Arc\<close> to a cached
  block is the block's key in the queue; the keys of the handles that are alive outside the queue
  are in \<open>handles\<close>, so that the strong count of an entry is one more than their number. The locks
  of the managers and of the blocks are not modelled. A closure passed to \<open>read\<close> or \<open>modify\<close>
  is a function on the bytes of the object it is given.
\<close>

section \<open>Block devices and cached blocks\<close>

definition BLOCK_SZ :: nat where "BLOCK_SZ = 512"

record 'd BlockDevice =
  read_block :: "'d \<Rightarrow> nat \<Rightarrow> u8 list"
  write_block :: "'d \<Rightarrow> nat \<Rightarrow> u8 list \<Rightarrow> 'd"

definition device_laws :: "'d BlockDevice \<Rightarrow> bool" where
  "device_laws ops \<longleftrightarrow>
     (\<forall>d b. length (read_block ops d b) = BLOCK_SZ) \<and>
     (\<forall>d b bs. length bs = BLOCK_SZ \<longrightarrow> read_block ops (write_block ops d b bs) b = bs) \<and>
     (\<forall>d b c bs. c \<noteq> b \<longrightarrow> read_block ops (write_block ops d b bs) c = read_block ops d c)"

record BlockCache =
  cache :: "u8 list"
  block_id :: nat
  modified :: bool
  time_stamp :: nat

definition BlockCache_new :: "'d BlockDevice \<Rightarrow> 'd \<Rightarrow> nat \<Rightarrow> BlockCache" where
  "BlockCache_new ops d b =
     \<lparr>cache = read_block ops d b, block_id = b, modified = False, time_stamp = 0\<rparr>"

definition addr_of_offset :: "BlockCache \<Rightarrow> nat \<Rightarrow> nat res" where
  "addr_of_offset bc offset = (if offset < length (cache bc) then Inr offset else Inl IndexOutOfBounds)"

text \<open>The type parameter of the accessors enters through its size, \<open>n\<close> bytes.\<close>

definition BlockCache_get_ref :: "BlockCache \<Rightarrow> nat \<Rightarrow> nat \<Rightarrow> u8 list res" where
  "BlockCache_get_ref bc n offset =
     bindR (assertR (offset + n \<le> BLOCK_SZ)) (\<lambda>_.
     bindR (addr_of_offset bc offset) (\<lambda>addr. Inr (slice addr n (cache bc))))"

definition BlockCache_get_mut :: "BlockCache \<Rightarrow> nat \<Rightarrow> nat \<Rightarrow> (u8 list \<times> BlockCache) res" where
  "BlockCache_get_mut bc n offset =
     bindR (assertR (offset + n \<le> BLOCK_SZ)) (\<lambda>_.
     let bc1 = bc\<lparr>modified := True\<rparr> in
     bindR (addr_of_offset bc1 offset) (\<lambda>addr. Inr (slice addr n (cache bc1), bc1)))"

definition BlockCache_read :: "BlockCache \<Rightarrow> nat \<Rightarrow> nat \<Rightarrow> (u8 list \<Rightarrow> 'v) \<Rightarrow> 'v res" where
  "BlockCache_read bc n offset f = bindR (BlockCache_get_ref bc n offset) (\<lambda>t. Inr (f t))"

definition BlockCache_modify ::
  "BlockCache \<Rightarrow> nat \<Rightarrow> nat \<Rightarrow> (u8 list \<Rightarrow> u8 list) \<Rightarrow> BlockCache res" where
  "BlockCache_modify bc n offset f =
     bindR (BlockCache_get_mut bc n offset) (\<lambda>(t, bc1). Inr (bc1\<lparr>cache := overwrite offset (f t) (cache bc1)\<rparr>))"

definition BlockCache_sync :: "'d BlockDevice \<Rightarrow> 'd \<Rightarrow> BlockCache \<Rightarrow> 'd \<times> BlockCache" where
  "BlockCache_sync ops d bc =
     (if modified bc then (write_block ops d (block_id bc) (cache bc), bc\<lparr>modified := False\<rparr>)
      else (d, bc))"

definition BlockCache_drop :: "'d BlockDevice \<Rightarrow> 'd \<Rightarrow> BlockCache \<Rightarrow> 'd" where
  "BlockCache_drop ops d bc = fst (BlockCache_sync ops d bc)"

section \<open>Cache managers\<close>

definition BLOCK_CACHE_SIZE :: nat where "BLOCK_CACHE_SIZE = 10"

record BlockCacheManager =
  start_sec :: nat
  queue :: "(nat \<times> BlockCache) list"
  handles :: "nat list"

definition BlockCacheManager_new :: BlockCacheManager where
  "BlockCacheManager_new = \<lparr>start_sec = 0, queue = [], handles = []\<rparr>"

definition strong_count :: "BlockCacheManager \<Rightarrow> nat \<times> BlockCache \<Rightarrow> nat" where
  "strong_count m pair = 1 + count_list (handles m) (fst pair)"

definition read_block_cache :: "BlockCacheManager \<Rightarrow> nat \<Rightarrow> nat option" where
  "read_block_cache m b = map_option (\<lambda>i. fst (queue m ! i)) (find_index (\<lambda>pair. fst pair = b) (queue m))"

definition evict ::
  "'d BlockDevice \<Rightarrow> 'd \<Rightarrow> BlockCacheManager \<Rightarrow> ('d \<times> (nat \<times> BlockCache) list) res" where
  "evict ops d m =
     (if length (queue m) = BLOCK_CACHE_SIZE then
        case find_index (\<lambda>pair. strong_count m pair = 1) (queue m) of
          Some idx \<Rightarrow> Inr (BlockCache_drop ops d (snd (queue m ! idx)),
            take idx (queue m) @ drop (Suc idx) (queue m))
        | None \<Rightarrow> Inl (ExplicitPanic ''Run out of BlockCache!'')
      else Inr (d, queue m))"

definition manager_get_block_cache ::
  "'d BlockDevice \<Rightarrow> 'd \<Rightarrow> BlockCacheManager \<Rightarrow> nat \<Rightarrow> (nat \<times> 'd \<times> BlockCacheManager) res" where
  "manager_get_block_cache ops d m b =
     (case find_index (\<lambda>pair. fst pair = b) (queue m) of
        Some i \<Rightarrow> Inr (fst (queue m ! i), d, m)
      | None \<Rightarrow>
          bindR (evict ops d m) (\<lambda>(d', q).
          Inr (b, d', m\<lparr>queue := q @ [(b, BlockCache_new ops d' b)]\<rparr>)))"

definition drop_all :: "'d BlockDevice \<Rightarrow> 'd \<Rightarrow> BlockCacheManager \<Rightarrow> 'd \<times> BlockCacheManager" where
  "drop_all ops d m =
     (foldl (\<lambda>d pair. BlockCache_drop ops d (snd pair)) d (queue m), m\<lparr>queue := []\<rparr>)"

section \<open>The two managers of the file system\<close>

datatype manager_kind = INFO | DATA

datatype CacheMode = READ | WRITE

record 'd fs_state =
  dev_ops :: "'d BlockDevice"
  device :: 'd
  INFO_CACHE_MANAGER :: BlockCacheManager
  DATA_BLOCK_CACHE_MANAGER :: BlockCacheManager

fun manager :: "manager_kind \<Rightarrow> 'd fs_state \<Rightarrow> BlockCacheManager" where
  "manager INFO s = INFO_CACHE_MANAGER s"
| "manager DATA s = DATA_BLOCK_CACHE_MANAGER s"

fun set_manager :: "manager_kind \<Rightarrow> BlockCacheManager \<Rightarrow> 'd fs_state \<Rightarrow> 'd fs_state" where
  "set_manager INFO m s = s\<lparr>INFO_CACHE_MANAGER := m\<rparr>"
| "set_manager DATA m s = s\<lparr>DATA_BLOCK_CACHE_MANAGER := m\<rparr>"

definition get_cache :: "manager_kind \<Rightarrow> 'd fs_state \<Rightarrow> nat \<Rightarrow> CacheMode \<Rightarrow> (nat \<times> 'd fs_state) res" where
  "get_cache k s b rw_mode =
     (let phy_blk_id = start_sec (manager k s) + b in
      bindR (manager_get_block_cache (dev_ops s) (device s) (manager k s) phy_blk_id) (\<lambda>(h, d, m).
      let s' = set_manager k m (s\<lparr>device := d\<rparr>) in
      if rw_mode = READ
      then bindR (unwrapR (read_block_cache (manager k s') phy_blk_id)) (\<lambda>h. Inr (h, s'))
      else Inr (h, s')))"

definition get_block_cache :: "'d fs_state \<Rightarrow> nat \<Rightarrow> CacheMode \<Rightarrow> (nat \<times> 'd fs_state) res" where
  "get_block_cache = get_cache DATA"

definition get_info_cache :: "'d fs_state \<Rightarrow> nat \<Rightarrow> CacheMode \<Rightarrow> (nat \<times> 'd fs_state) res" where
  "get_info_cache = get_cache INFO"

definition set_start_sec :: "nat \<Rightarrow> 'd fs_state \<Rightarrow> 'd fs_state" where
  "set_start_sec sec s =
     s\<lparr>INFO_CACHE_MANAGER := (INFO_CACHE_MANAGER s)\<lparr>start_sec := sec\<rparr>,
       DATA_BLOCK_CACHE_MANAGER := (DATA_BLOCK_CACHE_MANAGER s)\<lparr>start_sec := sec\<rparr>\<rparr>"

definition drop_manager :: "manager_kind \<Rightarrow> 'd fs_state \<Rightarrow> 'd fs_state" where
  "drop_manager k s =
     (case drop_all (dev_ops s) (device s) (manager k s) of (d, m) \<Rightarrow> set_manager k m (s\<lparr>device := d\<rparr>))"

definition write_to_dev :: "'d fs_state \<Rightarrow> 'd fs_state" where
  "write_to_dev s = drop_manager DATA (drop_manager INFO s)"

text \<open>Reading and modifying the block behind a handle, and getting a block only for that.\<close>

definition handle_read :: "manager_kind \<Rightarrow> 'd fs_state \<Rightarrow> nat \<Rightarrow> nat \<Rightarrow> nat \<Rightarrow> (u8 list \<Rightarrow> 'v) \<Rightarrow> 'v res" where
  "handle_read k s h n offset f =
     bindR (unwrapR (map_of (queue (manager k s)) h)) (\<lambda>bc. BlockCache_read bc n offset f)"

definition handle_modify ::
  "manager_kind \<Rightarrow> 'd fs_state \<Rightarrow> nat \<Rightarrow> nat \<Rightarrow> nat \<Rightarrow> (u8 list \<Rightarrow> u8 list) \<Rightarrow> 'd fs_state res" where
  "handle_modify k s h n offset f =
     bindR (unwrapR (map_of (queue (manager k s)) h)) (\<lambda>bc.
     bindR (BlockCache_modify bc n offset f) (\<lambda>bc'.
     Inr (set_manager k ((manager k s)\<lparr>queue := map (\<lambda>(b, c). if b = h then (b, bc') else (b, c))
       (queue (manager k s))\<rparr>) s)))"

definition cached_read ::
  "manager_kind \<Rightarrow> 'd fs_state \<Rightarrow> nat \<Rightarrow> CacheMode \<Rightarrow> nat \<Rightarrow> nat \<Rightarrow> (u8 list \<Rightarrow> 'v) \<Rightarrow> ('v \<times> 'd fs_state) res" where
  "cached_read k s b rw_mode n offset f =
     bindR (get_cache k s b rw_mode) (\<lambda>(h, s').
     bindR (handle_read k s' h n offset f) (\<lambda>v. Inr (v, s')))"

definition cached_modify ::
  "manager_kind \<Rightarrow> 'd fs_state \<Rightarrow> nat \<Rightarrow> CacheMode \<Rightarrow> nat \<Rightarrow> nat \<Rightarrow> (u8 list \<Rightarrow> u8 list) \<Rightarrow> 'd fs_state res" where
  "cached_modify k s b rw_mode n offset f =
     bindR (get_cache k s b rw_mode) (\<lambda>(h, s'). handle_modify k s' h n offset f)"

text \<open>Keeping a handle alive while a closure runs, and dropping it.\<close>

definition hold :: "manager_kind \<Rightarrow> nat \<Rightarrow> 'd fs_state \<Rightarrow> 'd fs_state" where
  "hold k h s = set_manager k ((manager k s)\<lparr>handles := h # handles (manager k s)\<rparr>) s"

definition release :: "manager_kind \<Rightarrow> nat \<Rightarrow> 'd fs_state \<Rightarrow> 'd fs_state" where
  "release k h s = set_manager k ((manager k s)\<lparr>handles := remove1 h (handles (manager k s))\<rparr>) s"

section \<open>One manager: what it holds\<close>

definition manager_ok :: "'d BlockDevice \<Rightarrow> 'd \<Rightarrow> BlockCacheManager \<Rightarrow> bool" where
  "manager_ok ops d m \<longleftrightarrow> start_sec m = 0 \<and> distinct (map fst (queue m)) \<and> length (queue m) \<le> BLOCK_CACHE_SIZE \<and>
     (\<forall>(b, c) \<in> set (queue m). block_id c = b \<and> length (cache c) = BLOCK_SZ \<and>
        (\<not> modified c \<longrightarrow> cache c = read_block ops d b)) \<and>
     set (handles m) \<subseteq> fst ` set (queue m) \<and> card (set (handles m)) < BLOCK_CACHE_SIZE"

text \<open>The content of a block as the manager sees it: its copy, else the device's.\<close>

definition manager_view :: "'d BlockDevice \<Rightarrow> 'd \<Rightarrow> BlockCacheManager \<Rightarrow> nat \<Rightarrow> u8 list" where
  "manager_view ops d m b = (case map_of (queue m) b of Some c \<Rightarrow> cache c | None \<Rightarrow> read_block ops d b)"

lemma manager_okD:
  assumes "manager_ok ops d m"
  shows "start_sec m = 0" "distinct (map fst (queue m))" "length (queue m) \<le> BLOCK_CACHE_SIZE"
    "\<And>b c. (b, c) \<in> set (queue m) \<Longrightarrow> block_id c = b \<and> length (cache c) = BLOCK_SZ"
    "\<And>b c. (b, c) \<in> set (queue m) \<Longrightarrow> \<not> modified c \<Longrightarrow> cache c = read_block ops d b"
    "set (handles m) \<subseteq> fst ` set (queue m)" "card (set (handles m)) < BLOCK_CACHE_SIZE"
  using assms by (auto simp: manager_ok_def)

lemma device_lawsD:
  assumes "device_laws ops"
  shows "length (read_block ops d b) = BLOCK_SZ"
    "length bs = BLOCK_SZ \<Longrightarrow> read_block ops (write_block ops d b bs) b = bs"
    "c \<noteq> b \<Longrightarrow> read_block ops (write_block ops d b bs) c = read_block ops d c"
  using assms by (auto simp: device_laws_def)

lemma drop_reaches_device:
  assumes "device_laws ops" and "length (cache c) = BLOCK_SZ"
    and "\<not> modified c \<Longrightarrow> cache c = read_block ops d (block_id c)"
  shows "read_block ops (BlockCache_drop ops d c) b = (if b = block_id c then cache c else read_block ops d b)"
  using assms device_lawsD [OF assms(1)] by (simp add: BlockCache_drop_def BlockCache_sync_def)

lemma unheld_entry:
  assumes ok: "manager_ok ops d m" and full: "length (queue m) = BLOCK_CACHE_SIZE"
  obtains idx where "find_index (\<lambda>pair. strong_count m pair = 1) (queue m) = Some idx"
proof -
  have "card (fst ` set (queue m)) = BLOCK_CACHE_SIZE"
    using manager_okD(2) [OF ok] full distinct_card [of "map fst (queue m)"] by simp
  then have "\<not> fst ` set (queue m) \<subseteq> set (handles m)"
    using manager_okD(7) [OF ok] card_mono [OF finite_set, of "fst ` set (queue m)" "handles m"] by auto
  then have "\<exists>pair \<in> set (queue m). strong_count m pair = 1"
    by (auto simp: strong_count_def count_list_0_iff)
  then have "\<exists>idx. find_index (\<lambda>pair. strong_count m pair = 1) (queue m) = Some idx" by (rule find_index_ex)
  with that show ?thesis by blast
qed

lemma map_of_without:
  assumes "distinct (map fst q)" and "idx < length q"
  shows "map_of (take idx q @ drop (Suc idx) q) = (map_of q)(fst (q ! idx) := None)"
proof -
  let ?p = "take idx q" and ?r = "drop (Suc idx) q"
  have q: "q = ?p @ q ! idx # ?r" using assms(2) by (rule id_take_nth_drop)
  then have "distinct (map fst ?p @ fst (q ! idx) # map fst ?r)" using assms(1) by (metis list.map(2) map_append)
  then have "fst (q ! idx) \<notin> fst ` set ?p" "fst (q ! idx) \<notin> fst ` set ?r" by auto
  then have none: "map_of ?p (fst (q ! idx)) = None" "map_of ?r (fst (q ! idx)) = None"
    by (simp_all add: map_of_eq_None_iff)
  have "map_of q x = map_of (?p @ q ! idx # ?r) x" for x using q by simp
  then show ?thesis using none
    by (intro ext) (cases "q ! idx", auto simp: map_add_def split: option.splits)
qed

lemma evict_spec:
  assumes laws: "device_laws ops" and ok: "manager_ok ops d m"
  obtains d' q where "evict ops d m = Inr (d', q)" "manager_ok ops d' (m\<lparr>queue := q\<rparr>)"
    "length q < BLOCK_CACHE_SIZE" "set q \<subseteq> set (queue m)"
    "manager_view ops d' (m\<lparr>queue := q\<rparr>) = manager_view ops d m"
    "\<forall>b. b \<notin> fst ` set (queue m) \<longrightarrow> read_block ops d' b = read_block ops d b"
proof (cases "length (queue m) = BLOCK_CACHE_SIZE")
  case False
  with ok that [of d "queue m"] manager_okD(3) [OF ok] show ?thesis by (simp add: evict_def)
next
  case True
  obtain idx where idx: "find_index (\<lambda>pair. strong_count m pair = 1) (queue m) = Some idx"
    by (rule unheld_entry [OF ok True])
  define q where "q = take idx (queue m) @ drop (Suc idx) (queue m)"
  let ?c = "snd (queue m ! idx)"
  let ?d = "BlockCache_drop ops d ?c"
  have lt: "idx < length (queue m)" and free: "fst (queue m ! idx) \<notin> set (handles m)"
    using find_index_SomeD [OF idx] by (auto simp: strong_count_def count_list_0_iff)
  have mem: "(fst (queue m ! idx), ?c) \<in> set (queue m)" using lt by simp
  note c = manager_okD(4,5) [OF ok mem]
  have rd: "read_block ops ?d b = (if b = fst (queue m ! idx) then cache ?c else read_block ops d b)" for b
    using drop_reaches_device [OF laws, of ?c d b] c by simp
  note mo = map_of_without [OF manager_okD(2) [OF ok] lt, folded q_def]
  have dist: "distinct (map fst q)"
  proof -
    have "map fst q = take idx (map fst (queue m)) @ drop (Suc idx) (map fst (queue m))"
      by (simp add: q_def take_map drop_map)
    then show ?thesis using manager_okD(2) [OF ok] set_take_disj_set_drop_if_distinct
      by (metis distinct_append distinct_drop distinct_take le_SucI order_refl)
  qed
  have sub: "set q \<subseteq> set (queue m)" by (auto simp: q_def dest: in_set_takeD in_set_dropD)
  have mem_q: "(b, e) \<in> set q \<longleftrightarrow> (b, e) \<in> set (queue m) \<and> b \<noteq> fst (queue m ! idx)" for b e
    using map_of_eq_Some_iff [OF dist, of b e] map_of_eq_Some_iff [OF manager_okD(2) [OF ok], of b e]
    unfolding mo by (auto split: if_splits)
  have view: "manager_view ops ?d (m\<lparr>queue := q\<rparr>) = manager_view ops d m"
  proof
    fix b
    show "manager_view ops ?d (m\<lparr>queue := q\<rparr>) b = manager_view ops d m b"
      using map_of_is_SomeI [OF manager_okD(2) [OF ok] mem]
      by (cases "b = fst (queue m ! idx)") (simp_all add: manager_view_def mo rd cong: option.case_cong)
  qed
  have ok': "manager_ok ops ?d (m\<lparr>queue := q\<rparr>)"
  proof -
    have "set (handles m) \<subseteq> fst ` set q"
    proof
      fix h assume h: "h \<in> set (handles m)"
      then obtain e where "(h, e) \<in> set (queue m)" using manager_okD(6) [OF ok] by auto
      with h free mem_q [of h e] show "h \<in> fst ` set q" by (metis fst_conv image_eqI)
    qed
    moreover have "\<forall>(b, e) \<in> set q. block_id e = b \<and> length (cache e) = BLOCK_SZ \<and>
        (\<not> modified e \<longrightarrow> cache e = read_block ops ?d b)"
    proof (intro ballI, clarify)
      fix b e assume "(b, e) \<in> set q"
      then have "(b, e) \<in> set (queue m)" "b \<noteq> fst (queue m ! idx)" using mem_q by auto
      then show "block_id e = b \<and> length (cache e) = BLOCK_SZ \<and> (\<not> modified e \<longrightarrow> cache e = read_block ops ?d b)"
        using manager_okD(4,5) [OF ok] rd by simp
    qed
    moreover have "length q \<le> BLOCK_CACHE_SIZE" using lt True by (simp add: q_def)
    ultimately show ?thesis using dist manager_okD(1,7) [OF ok] by (simp add: manager_ok_def)
  qed
  have "b \<noteq> fst (queue m ! idx)" if "b \<notin> fst ` set (queue m)" for b using that lt by auto
  then show ?thesis using True idx lt rd
    by (intro that [of ?d q, OF _ ok' _ sub view]) (auto simp: evict_def q_def)
qed

lemma manager_get_spec:
  assumes laws: "device_laws ops" and ok: "manager_ok ops d m"
  obtains d' m' c where "manager_get_block_cache ops d m b = Inr (b, d', m')" "manager_ok ops d' m'"
    "manager_view ops d' m' = manager_view ops d m" "map_of (queue m') b = Some c"
    "handles m' = handles m" "fst ` set (queue m') \<subseteq> insert b (fst ` set (queue m))"
    "\<forall>x. x \<notin> fst ` set (queue m) \<longrightarrow> read_block ops d' x = read_block ops d x"
proof (cases "find_index (\<lambda>pair. fst pair = b) (queue m)")
  case (Some i)
  then have i: "i < length (queue m)" "fst (queue m ! i) = b" using find_index_SomeD [OF Some] by auto
  then have "(b, snd (queue m ! i)) \<in> set (queue m)" by (metis nth_mem prod.collapse)
  then have "map_of (queue m) b = Some (snd (queue m ! i))" using manager_okD(2) [OF ok] by simp
  with Some i ok that [of d m] show ?thesis by (auto simp: manager_get_block_cache_def)
next
  case None
  obtain d' q where e: "evict ops d m = Inr (d', q)" and okq: "manager_ok ops d' (m\<lparr>queue := q\<rparr>)"
    and q: "length q < BLOCK_CACHE_SIZE" "set q \<subseteq> set (queue m)"
    and v: "manager_view ops d' (m\<lparr>queue := q\<rparr>) = manager_view ops d m"
    and rd: "\<forall>x. x \<notin> fst ` set (queue m) \<longrightarrow> read_block ops d' x = read_block ops d x"
    by (rule evict_spec [OF laws ok])
  let ?c = "BlockCache_new ops d' b" and ?m = "m\<lparr>queue := q @ [(b, BlockCache_new ops d' b)]\<rparr>"
  have new: "b \<notin> fst ` set q" using None q(2) by auto
  then have none: "map_of q b = None" by (simp add: map_of_eq_None_iff)
  have "manager_ok ops d' ?m"
    using okq q(1) new device_lawsD(1) [OF laws] by (auto simp: manager_ok_def BlockCache_new_def)
  moreover have "manager_view ops d' ?m x = manager_view ops d' (m\<lparr>queue := q\<rparr>) x" for x
    using none by (simp add: manager_view_def map_add_def BlockCache_new_def split: option.split)
  then have "manager_view ops d' ?m = manager_view ops d m" using v by (intro ext) metis
  moreover have "map_of (queue ?m) b = Some ?c" using none by (simp add: map_add_def)
  moreover have "manager_get_block_cache ops d m b = Inr (b, d', ?m)"
    using None e unfolding manager_get_block_cache_def None by simp
  moreover have "fst ` set (queue ?m) \<subseteq> insert b (fst ` set (queue m))" using q(2) by auto
  ultimately show ?thesis using that [of d' ?m ?c] rd by simp
qed

lemma map_of_replace:
  "map_of (map (\<lambda>(b, c). if b = h then (b, c') else (b, c)) q) x =
     (if x = h then map_option (\<lambda>_. c') (map_of q h) else map_of q x)"
  by (induction q) auto

lemma manager_ok_replace:
  assumes ok: "manager_ok ops d m" and c': "block_id c' = h" "length (cache c') = BLOCK_SZ" "modified c'"
  shows "manager_ok ops d (m\<lparr>queue := map (\<lambda>(b, c). if b = h then (b, c') else (b, c)) (queue m)\<rparr>)"
proof -
  define q where "q = map (\<lambda>(b, c). if b = h then (b, c') else (b, c)) (queue m)"
  have fst_q: "map fst q = map fst (queue m)" by (simp add: q_def split_beta)
  then have "fst ` set q = fst ` set (queue m)" by (metis list.set_map)
  moreover have "length q = length (queue m)" by (simp add: q_def)
  moreover have "block_id e = b \<and> length (cache e) = BLOCK_SZ \<and> (\<not> modified e \<longrightarrow> cache e = read_block ops d b)"
    if "(b, e) \<in> set q" for b e
  proof -
    from that have "(b, e) = (h, c') \<or> (b, e) \<in> set (queue m)" by (auto simp: q_def split: if_splits)
    with c' manager_okD(4,5) [OF ok] show ?thesis by auto
  qed
  ultimately have "manager_ok ops d (m\<lparr>queue := q\<rparr>)"
    using fst_q manager_okD(1-3,6,7) [OF ok] by (auto simp: manager_ok_def)
  then show ?thesis by (simp add: q_def)
qed

lemma manager_modify_spec:
  assumes ok: "manager_ok ops d m" and c: "map_of (queue m) h = Some c"
    and f: "\<And>t. length t = n \<Longrightarrow> length (f t) = n" and rng: "offset + n \<le> BLOCK_SZ" "0 < n"
  obtains c' where "BlockCache_modify c n offset f = Inr c'"
    "cache c' = overwrite offset (f (slice offset n (cache c))) (cache c)"
    "manager_ok ops d (m\<lparr>queue := map (\<lambda>(b, c). if b = h then (b, c') else (b, c)) (queue m)\<rparr>)"
proof -
  note len = manager_okD(4) [OF ok map_of_SomeD [OF c]]
  let ?c = "c\<lparr>modified := True, cache := overwrite offset (f (slice offset n (cache c))) (cache c)\<rparr>"
  have "length (slice offset n (cache c)) = n" using rng len by simp
  from f [OF this] rng len have "length (cache ?c) = BLOCK_SZ" by simp
  with len have "manager_ok ops d (m\<lparr>queue := map (\<lambda>(b, e). if b = h then (b, ?c) else (b, e)) (queue m)\<rparr>)"
    by (intro manager_ok_replace [OF ok]) simp_all
  moreover have "BlockCache_modify c n offset f = Inr ?c"
    using rng len by (simp add: BlockCache_modify_def BlockCache_get_mut_def addr_of_offset_def Let_def)
  ultimately show ?thesis using that [of ?c] by simp
qed

lemma drop_all_spec:
  assumes laws: "device_laws ops" and ok: "manager_ok ops d m"
  shows "read_block ops (fst (drop_all ops d m)) b = manager_view ops d m b"
proof -
  have "read_block ops (foldl (\<lambda>d pair. BlockCache_drop ops d (snd pair)) d' q) b =
      (case map_of q b of Some c \<Rightarrow> cache c | None \<Rightarrow> read_block ops d' b)"
    if "\<forall>(x, c) \<in> set q. block_id c = x \<and> length (cache c) = BLOCK_SZ \<and> (\<not> modified c \<longrightarrow> cache c = read_block ops d' x)"
      "distinct (map fst q)" for q d'
    using that
  proof (induction q arbitrary: d')
    case (Cons p q)
    obtain x c where p: "p = (x, c)" by fastforce
    have rd: "read_block ops (BlockCache_drop ops d' c) y = (if y = x then cache c else read_block ops d' y)" for y
      using drop_reaches_device [OF laws, of c d' y] Cons.prems(1) p by auto
    have x: "x \<notin> fst ` set q" using Cons.prems(2) p by simp
    have "\<forall>(y, e) \<in> set q. block_id e = y \<and> length (cache e) = BLOCK_SZ \<and>
        (\<not> modified e \<longrightarrow> cache e = read_block ops (BlockCache_drop ops d' c) y)"
      using Cons.prems(1) x rd by force
    then have IH: "read_block ops (foldl (\<lambda>d pair. BlockCache_drop ops d (snd pair)) (BlockCache_drop ops d' c) q) b =
        (case map_of q b of Some c \<Rightarrow> cache c | None \<Rightarrow> read_block ops (BlockCache_drop ops d' c) b)"
      using Cons.prems(2) by (intro Cons.IH) simp_all
    have "map_of q x = None" using x by (simp add: map_of_eq_None_iff)
    with IH show ?case using p by (cases "b = x"; cases "map_of q b") (simp_all add: rd)
  qed simp
  then show ?thesis using ok by (simp add: drop_all_def manager_view_def manager_ok_def)
qed

section \<open>The two managers over one device\<close>

text \<open>
  \<open>fs_ok I hs s\<close>: the caches are in order, the blocks of \<open>I\<close> are accessed through the information
  cache only and the others through the data cache only, and \<open>hs\<close> are the information blocks with a
  live handle. \<open>disk_view\<close> is the content of the disk with the pending writes.
\<close>

definition owns :: "nat set \<Rightarrow> manager_kind \<Rightarrow> nat \<Rightarrow> bool" where
  "owns I k b \<longleftrightarrow> (b \<in> I \<longleftrightarrow> k = INFO)"

definition fs_ok :: "nat set \<Rightarrow> nat list \<Rightarrow> 'd fs_state \<Rightarrow> bool" where
  "fs_ok I hs s \<longleftrightarrow> device_laws (dev_ops s) \<and>
     (\<forall>k. manager_ok (dev_ops s) (device s) (manager k s) \<and>
        (\<forall>b \<in> fst ` set (queue (manager k s)). owns I k b) \<and>
        handles (manager k s) = (if k = INFO then hs else []))"

definition disk_view :: "'d fs_state \<Rightarrow> nat \<Rightarrow> u8 list" where
  "disk_view s b = (case map_of (queue (manager INFO s)) b of Some c \<Rightarrow> cache c
     | None \<Rightarrow> manager_view (dev_ops s) (device s) (manager DATA s) b)"

lemma manager_set_manager [simp]:
  "manager k (set_manager k' m s) = (if k = k' then m else manager k s)"
  "dev_ops (set_manager k' m s) = dev_ops s" "device (set_manager k' m s) = device s"
  "manager k (s\<lparr>device := d\<rparr>) = manager k s"
  by (cases k; cases k'; simp)+

declare manager.simps [simp del] set_manager.simps [simp del]

lemma fs_okD:
  assumes "fs_ok I hs s"
  shows "device_laws (dev_ops s)" "manager_ok (dev_ops s) (device s) (manager k s)"
    "b \<in> fst ` set (queue (manager k s)) \<Longrightarrow> owns I k b"
    "handles (manager k s) = (if k = INFO then hs else [])"
  using assms by (auto simp: fs_ok_def)

lemma disk_view_owner:
  assumes "fs_ok I hs s" and "owns I k b"
  shows "disk_view s b = manager_view (dev_ops s) (device s) (manager k s) b"
proof (cases k)
  case INFO
  then have "b \<notin> fst ` set (queue (manager DATA s))" using assms fs_okD(3) [OF assms(1), of b DATA] by (auto simp: owns_def)
  then have "map_of (queue (manager DATA s)) b = None" by (simp only: map_of_eq_None_iff not_False_eq_True)
  then show ?thesis using INFO by (simp add: disk_view_def manager_view_def split: option.split)
next
  case DATA
  then have "b \<notin> fst ` set (queue (manager INFO s))" using assms fs_okD(3) [OF assms(1), of b INFO] by (auto simp: owns_def)
  then have "map_of (queue (manager INFO s)) b = None" by (simp only: map_of_eq_None_iff not_False_eq_True)
  then show ?thesis using DATA by (simp add: disk_view_def)
qed

lemma ex_owner: "\<exists>k. owns I k b"
  by (rule exI [of _ "if b \<in> I then INFO else DATA"]) (simp add: owns_def)

text \<open>A change of one manager and of the device at blocks that manager holds.\<close>

lemma fs_ok_update:
  assumes ok: "fs_ok I hs s" and m: "manager_ok (dev_ops s) d m" "handles m = handles (manager k s)"
    and sub: "\<forall>b \<in> fst ` set (queue m). owns I k b"
    and rd: "\<forall>x. x \<notin> fst ` set (queue (manager k s)) \<longrightarrow> read_block (dev_ops s) d x = read_block (dev_ops s) (device s) x"
  shows "fs_ok I hs (set_manager k m (s\<lparr>device := d\<rparr>))"
    and "\<And>b. \<not> owns I k b \<Longrightarrow> disk_view (set_manager k m (s\<lparr>device := d\<rparr>)) b = disk_view s b"
    and "\<And>b. owns I k b \<Longrightarrow> disk_view (set_manager k m (s\<lparr>device := d\<rparr>)) b = manager_view (dev_ops s) d m b"
proof -
  let ?s = "set_manager k m (s\<lparr>device := d\<rparr>)"
  have other: "read_block (dev_ops s) d x = read_block (dev_ops s) (device s) x" if "\<not> owns I k x" for x
    using that rd fs_okD(3) [OF ok, of x k] by blast
  have oth_ok: "manager_ok (dev_ops s) d (manager k' s)" if "k' \<noteq> k" for k'
  proof -
    have "\<not> owns I k x" if "x \<in> fst ` set (queue (manager k' s))" for x
      using fs_okD(3) [OF ok that] \<open>k' \<noteq> k\<close> by (cases k; cases k'; auto simp: owns_def)
    then have "read_block (dev_ops s) d x = read_block (dev_ops s) (device s) x"
      if "x \<in> fst ` set (queue (manager k' s))" for x using other that by blast
    then show ?thesis using fs_okD(2) [OF ok, of k'] by (force simp: manager_ok_def)
  qed
  then have all_ok: "manager_ok (dev_ops s) d (manager k' ?s)" for k' using m(1) by simp
  show ok': "fs_ok I hs ?s"
    using ok all_ok m(2) sub by (auto simp: fs_ok_def)
  show "disk_view ?s b = manager_view (dev_ops s) d m b" if "owns I k b" for b
    using disk_view_owner [OF ok' that] by simp
  show "disk_view ?s b = disk_view s b" if "\<not> owns I k b" for b
  proof -
    obtain k' where k': "owns I k' b" using ex_owner by blast
    with that have "k' \<noteq> k" by auto
    then show ?thesis using disk_view_owner [OF ok' k'] disk_view_owner [OF ok k'] other [OF that]
      by (simp add: manager_view_def split: option.split)
  qed
qed

lemma get_cache_spec:
  assumes ok: "fs_ok I hs s" and own: "owns I k b"
  obtains s' c where "get_cache k s b mode = Inr (b, s')" "fs_ok I hs s'" "disk_view s' = disk_view s"
    "map_of (queue (manager k s')) b = Some c" "cache c = disk_view s b"
proof -
  obtain d m c where g: "manager_get_block_cache (dev_ops s) (device s) (manager k s) b = Inr (b, d, m)"
    and m: "manager_ok (dev_ops s) d m"
      "manager_view (dev_ops s) d m = manager_view (dev_ops s) (device s) (manager k s)"
    and c: "map_of (queue m) b = Some c"
    and h: "handles m = handles (manager k s)" "fst ` set (queue m) \<subseteq> insert b (fst ` set (queue (manager k s)))"
    and rd: "\<forall>x. x \<notin> fst ` set (queue (manager k s)) \<longrightarrow> read_block (dev_ops s) d x = read_block (dev_ops s) (device s) x"
    by (rule manager_get_spec [OF fs_okD(1,2) [OF ok]])
  let ?s = "set_manager k m (s\<lparr>device := d\<rparr>)"
  have sub: "\<forall>x \<in> fst ` set (queue m). owns I k x" using h(2) own fs_okD(3) [OF ok] by blast
  note up = fs_ok_update [OF ok m(1) h(1) sub rd]
  have view: "disk_view ?s = disk_view s"
  proof
    fix x show "disk_view ?s x = disk_view s x"
      using up(2,3) [of x] m(2) disk_view_owner [OF ok, of k x] by (cases "owns I k x") simp_all
  qed
  have cache: "cache c = disk_view s b"
    using up(3) [OF own] view c by (simp add: manager_view_def)
  have "\<exists>pair \<in> set (queue m). fst pair = b" using map_of_SomeD [OF c] by force
  then obtain i where "find_index (\<lambda>pair. fst pair = b) (queue m) = Some i" using find_index_ex by fastforce
  then have "read_block_cache m b = Some b"
    using find_index_SomeD [of "\<lambda>pair. fst pair = b" "queue m" i] by (simp add: read_block_cache_def)
  then have "get_cache k s b mode = Inr (b, ?s)"
    using g manager_okD(1) [OF fs_okD(2) [OF ok, of k]] by (simp add: get_cache_def Let_def)
  then show ?thesis using that [of ?s c] up(1) view c cache by simp
qed

lemma disk_view_length: "fs_ok I hs s \<Longrightarrow> length (disk_view s b) = BLOCK_SZ"
proof -
  assume ok: "fs_ok I hs s"
  obtain k where k: "owns I k b" using ex_owner by blast
  show ?thesis
  proof (cases "map_of (queue (manager k s)) b")
    case None
    then show ?thesis using disk_view_owner [OF ok k] device_lawsD(1) [OF fs_okD(1) [OF ok]]
      by (simp add: manager_view_def)
  next
    case (Some c)
    then show ?thesis using disk_view_owner [OF ok k] manager_okD(4) [OF fs_okD(2) [OF ok] map_of_SomeD [OF Some]]
      by (simp add: manager_view_def)
  qed
qed

lemma cached_read_spec:
  assumes ok: "fs_ok I hs s" and own: "owns I k b" and rng: "offset + n \<le> BLOCK_SZ" "0 < n"
  shows "\<exists>s'. cached_read k s b mode n offset f = Inr (f (slice offset n (disk_view s b)), s') \<and>
    fs_ok I hs s' \<and> disk_view s' = disk_view s"
proof -
  obtain s' c where s': "get_cache k s b mode = Inr (b, s')" "fs_ok I hs s'" "disk_view s' = disk_view s"
    "map_of (queue (manager k s')) b = Some c" "cache c = disk_view s b"
    by (rule get_cache_spec [OF ok own])
  then show ?thesis using rng disk_view_length [OF ok, of b]
    by (simp add: cached_read_def handle_read_def BlockCache_read_def BlockCache_get_ref_def addr_of_offset_def)
qed

lemma handle_modify_spec:
  assumes ok: "fs_ok I hs s" and own: "owns I k b" and c: "map_of (queue (manager k s)) b = Some c"
    and rng: "offset + n \<le> BLOCK_SZ" "0 < n" and f: "\<And>t. length t = n \<Longrightarrow> length (f t) = n"
  shows "\<exists>s'. handle_modify k s b n offset f = Inr s' \<and> fs_ok I hs s' \<and>
    disk_view s' = (disk_view s)(b := overwrite offset (f (slice offset n (disk_view s b))) (disk_view s b))"
proof -
  let ?q = "\<lambda>c'. map (\<lambda>(b', c). if b' = b then (b', c') else (b', c)) (queue (manager k s))"
  have view_b: "disk_view s b = cache c" using disk_view_owner [OF ok own] c by (simp add: manager_view_def)
  obtain c' where c': "BlockCache_modify c n offset f = Inr c'"
    "cache c' = overwrite offset (f (slice offset n (cache c))) (cache c)"
    "manager_ok (dev_ops s) (device s) ((manager k s)\<lparr>queue := ?q c'\<rparr>)"
    by (rule manager_modify_spec [OF fs_okD(2) [OF ok] c f rng])
  let ?m = "(manager k s)\<lparr>queue := ?q c'\<rparr>"
  have "fst ` set (queue ?m) = fst ` set (queue (manager k s))" by force
  then have sub: "\<forall>x \<in> fst ` set (queue ?m). owns I k x" using fs_okD(3) [OF ok] by blast
  have eq: "handle_modify k s b n offset f = Inr (set_manager k ?m (s\<lparr>device := device s\<rparr>))"
    using c c'(1) by (simp add: handle_modify_def)
  note up = fs_ok_update [OF ok c'(3) _ sub]
  have view: "disk_view (set_manager k ?m (s\<lparr>device := device s\<rparr>)) x =
      ((disk_view s)(b := overwrite offset (f (slice offset n (disk_view s b))) (disk_view s b))) x" for x
  proof (cases "owns I k x")
    case True
    then show ?thesis using up(3) [OF _ _ True] disk_view_owner [OF ok True] c'(2) c view_b
      by (simp add: manager_view_def map_of_replace)
  next
    case False
    with own up(2) [OF _ _ False] show ?thesis by auto
  qed
  have "fs_ok I hs (set_manager k ?m (s\<lparr>device := device s\<rparr>))" by (rule up(1)) simp_all
  with eq view show ?thesis by blast
qed

lemma cached_modify_spec:
  assumes ok: "fs_ok I hs s" and own: "owns I k b"
    and rng: "offset + n \<le> BLOCK_SZ" "0 < n" and f: "\<And>t. length t = n \<Longrightarrow> length (f t) = n"
  shows "\<exists>s'. cached_modify k s b mode n offset f = Inr s' \<and> fs_ok I hs s' \<and>
    disk_view s' = (disk_view s)(b := overwrite offset (f (slice offset n (disk_view s b))) (disk_view s b))"
proof -
  obtain s1 c where s1: "get_cache k s b mode = Inr (b, s1)" "fs_ok I hs s1" "disk_view s1 = disk_view s"
    "map_of (queue (manager k s1)) b = Some c"
    by (rule get_cache_spec [OF ok own])
  with handle_modify_spec [OF s1(2) own s1(4) rng f] show ?thesis by (simp add: cached_modify_def)
qed

lemma drop_manager_spec:
  assumes ok: "fs_ok I hs s" and none: "handles (manager k s) = []"
  shows "fs_ok I hs (drop_manager k s)" and "disk_view (drop_manager k s) = disk_view s"
    and "queue (manager k (drop_manager k s)) = []"
    and "k' \<noteq> k \<Longrightarrow> manager k' (drop_manager k s) = manager k' s"
    and "owns I k b \<Longrightarrow> read_block (dev_ops s) (device (drop_manager k s)) b = disk_view s b"
    and "dev_ops (drop_manager k s) = dev_ops s"
proof -
  let ?d = "fst (drop_all (dev_ops s) (device s) (manager k s))" and ?m = "(manager k s)\<lparr>queue := []\<rparr>"
  have eq: "drop_manager k s = set_manager k ?m (s\<lparr>device := ?d\<rparr>)"
    by (simp add: drop_manager_def drop_all_def)
  note rd = drop_all_spec [OF fs_okD(1,2) [OF ok], of k]
  have "\<forall>x. x \<notin> fst ` set (queue (manager k s)) \<longrightarrow> read_block (dev_ops s) ?d x = read_block (dev_ops s) (device s) x"
    using rd by (auto simp: manager_view_def map_of_eq_None_iff [THEN iffD2])
  moreover have "manager_ok (dev_ops s) ?d ?m"
    using manager_okD(1) [OF fs_okD(2) [OF ok, of k]] none by (simp add: manager_ok_def BLOCK_CACHE_SIZE_def)
  ultimately have up: "fs_ok I hs (drop_manager k s)"
    "\<And>b. \<not> owns I k b \<Longrightarrow> disk_view (drop_manager k s) b = disk_view s b"
    "\<And>b. owns I k b \<Longrightarrow> disk_view (drop_manager k s) b = manager_view (dev_ops s) ?d ?m b"
    unfolding eq using fs_ok_update [OF ok, of ?d ?m k] by simp_all
  show "fs_ok I hs (drop_manager k s)" by (rule up(1))
  show "read_block (dev_ops s) (device (drop_manager k s)) b = disk_view s b" if "owns I k b"
    using rd [of b] disk_view_owner [OF ok that] by (simp add: eq)
  have "disk_view (drop_manager k s) b = disk_view s b" for b
    using up(2,3) [of b] rd [of b] disk_view_owner [OF ok, of k b]
    by (cases "owns I k b") (simp_all add: manager_view_def)
  then show "disk_view (drop_manager k s) = disk_view s" by blast
qed (auto simp: drop_manager_def drop_all_def)

lemma write_to_dev_spec:
  assumes ok: "fs_ok I [] s"
  shows "fs_ok J [] (write_to_dev s)" and "disk_view (write_to_dev s) = disk_view s"
    and "read_block (dev_ops s) (device (write_to_dev s)) b = disk_view s b"
    and "queue (manager k (write_to_dev s)) = []" and "dev_ops (write_to_dev s) = dev_ops s"
proof -
  have h: "handles (manager k s) = []" for k using fs_okD(4) [OF ok] by simp
  let ?s = "drop_manager INFO s"
  note a = drop_manager_spec [OF ok h]
  have h': "handles (manager k ?s) = []" for k using fs_okD(4) [OF a(1)] by simp
  note b = drop_manager_spec [OF a(1) h']
  show q: "queue (manager k (write_to_dev s)) = []" for k
    using a(3) b(3) b(4) [of INFO DATA] by (cases k) (simp_all add: write_to_dev_def)
  show "disk_view (write_to_dev s) = disk_view s" using a(2) b(2) by (simp add: write_to_dev_def)
  moreover show "dev_ops (write_to_dev s) = dev_ops s" using a(6) b(6) by (simp add: write_to_dev_def)
  ultimately show "read_block (dev_ops s) (device (write_to_dev s)) b = disk_view s b"
    using q by (metis (no_types) disk_view_def manager_view_def map_of.simps(1) option.simps(4))
  have "fs_ok I [] (write_to_dev s)" using b(1) by (simp add: write_to_dev_def)
  then show "fs_ok J [] (write_to_dev s)" using q by (auto simp: fs_ok_def)
qed

lemma fs_ok_handles:
  assumes ok: "fs_ok I hs s" and hs': "set hs' \<subseteq> fst ` set (queue (manager INFO s))" "card (set hs') < BLOCK_CACHE_SIZE"
  shows "fs_ok I hs' (set_manager INFO ((manager INFO s)\<lparr>handles := hs'\<rparr>) s)"
    and "disk_view (set_manager INFO ((manager INFO s)\<lparr>handles := hs'\<rparr>) s) = disk_view s"
proof -
  have "manager_ok (dev_ops s) (device s) ((manager INFO s)\<lparr>handles := hs'\<rparr>)"
    using fs_okD(2) [OF ok, of INFO] hs' by (simp add: manager_ok_def)
  with ok show "fs_ok I hs' (set_manager INFO ((manager INFO s)\<lparr>handles := hs'\<rparr>) s)" by (auto simp: fs_ok_def)
  show "disk_view (set_manager INFO ((manager INFO s)\<lparr>handles := hs'\<rparr>) s) = disk_view s"
    by (rule ext) (simp add: disk_view_def manager_view_def split: option.split)
qed

lemma hold_spec:
  assumes ok: "fs_ok I hs s" and c: "map_of (queue (manager INFO s)) b = Some c"
    and room: "length hs < 9"
  shows "fs_ok I (b # hs) (hold INFO b s)" "disk_view (hold INFO b s) = disk_view s"
proof -
  have "b \<in> fst ` set (queue (manager INFO s))" using map_of_SomeD [OF c] by force
  then have "set (b # hs) \<subseteq> fst ` set (queue (manager INFO s))"
    using manager_okD(6) [OF fs_okD(2) [OF ok, of INFO]] fs_okD(4) [OF ok, of INFO] by simp
  moreover have "card (set (b # hs)) < BLOCK_CACHE_SIZE"
    using card_length [of "b # hs"] room by (simp add: BLOCK_CACHE_SIZE_def)
  ultimately show "fs_ok I (b # hs) (hold INFO b s)" "disk_view (hold INFO b s) = disk_view s"
    using fs_ok_handles [OF ok] fs_okD(4) [OF ok, of INFO] by (simp_all add: hold_def)
qed

lemma release_spec:
  assumes ok: "fs_ok I (b # hs) s"
  shows "fs_ok I hs (release INFO b s)" "disk_view (release INFO b s) = disk_view s"
proof -
  note m = manager_okD(6,7) [OF fs_okD(2) [OF ok, of INFO]] fs_okD(4) [OF ok, of INFO]
  have "card (set hs) \<le> card (set (b # hs))" by (intro card_mono) auto
  with m have "set hs \<subseteq> fst ` set (queue (manager INFO s))" "card (set hs) < BLOCK_CACHE_SIZE" by auto
  from fs_ok_handles [OF ok this] m(3) show "fs_ok I hs (release INFO b s)" "disk_view (release INFO b s) = disk_view s"
    by (simp_all add: release_def)
qed

section \<open>Both caches are block stores\<close>

definition store_read :: "manager_kind \<Rightarrow> 'd fs_state \<Rightarrow> nat \<Rightarrow> nat \<Rightarrow> nat \<Rightarrow> (u8 list \<times> 'd fs_state) res" where
  "store_read k s b off n = cached_read k s b READ n off (\<lambda>t. t)"

definition store_write :: "manager_kind \<Rightarrow> 'd fs_state \<Rightarrow> nat \<Rightarrow> nat \<Rightarrow> u8 list \<Rightarrow> 'd fs_state res" where
  "store_write k s b off bs = cached_modify k s b WRITE (length bs) off (\<lambda>_. bs)"

interpretation store: block_store "store_read k" "store_write k" "fs_ok I hs" "owns I k" disk_view for k I hs
proof
  fix s :: "'d fs_state" and b off n :: nat and bs :: "u8 list"
  assume ok: "fs_ok I hs s"
  show "length (disk_view s b) = 512" using disk_view_length [OF ok] by (simp add: BLOCK_SZ_def)
  assume own: "owns I k b"
  show "\<exists>s'. store_read k s b off n = Inr (slice off n (disk_view s b), s') \<and> fs_ok I hs s' \<and> disk_view s' = disk_view s"
    if "off + n \<le> 512" "0 < n"
    using cached_read_spec [OF ok own, of off n READ "\<lambda>t. t"] that by (simp add: store_read_def BLOCK_SZ_def)
  show "\<exists>s'. store_write k s b off bs = Inr s' \<and> fs_ok I hs s' \<and>
      disk_view s' = (disk_view s)(b := overwrite off bs (disk_view s b))"
    if "off + length bs \<le> 512" "bs \<noteq> []"
    using cached_modify_spec [OF ok own, of off "length bs" "\<lambda>_. bs" WRITE] that by (simp add: store_write_def BLOCK_SZ_def)
qed

section \<open>The caches are transparent\<close>

datatype cache_op =
    ReadOp manager_kind nat nat nat
  | WriteOp manager_kind nat nat "u8 list"
  | SyncOp

fun run_cached :: "cache_op list \<Rightarrow> 'd fs_state \<Rightarrow> (u8 list list \<times> 'd fs_state) res" where
  "run_cached [] s = Inr ([], s)"
| "run_cached (ReadOp k b off n # os) s =
     bindR (store_read k s b off n) (\<lambda>(bs, s1). bindR (run_cached os s1) (\<lambda>(out, s2). Inr (bs # out, s2)))"
| "run_cached (WriteOp k b off bs # os) s = bindR (store_write k s b off bs) (run_cached os)"
| "run_cached (SyncOp # os) s = run_cached os (write_to_dev s)"

text \<open>The same operations on a plain array of blocks.\<close>

fun run_flat :: "cache_op list \<Rightarrow> (nat \<Rightarrow> u8 list) \<Rightarrow> u8 list list \<times> (nat \<Rightarrow> u8 list)" where
  "run_flat [] D = ([], D)"
| "run_flat (ReadOp k b off n # os) D = (case run_flat os D of (out, D') \<Rightarrow> (slice off n (D b) # out, D'))"
| "run_flat (WriteOp k b off bs # os) D = run_flat os (D(b := overwrite off bs (D b)))"
| "run_flat (SyncOp # os) D = run_flat os D"

text \<open>
  The caches do not know of each other. What keeps them coherent is a discipline of the file system: between two
  write-backs, each block is used through one of them. \<open>disciplined U os\<close> checks it along a sequence, where \<open>U\<close>
  says which cache a block has been used through since the last write-back. A write-back empties both caches, and
  a block may then be used through the other one: \<open>alloc_cluster\<close> clears the clusters of a directory through the
  data cache and writes back, before the directory is accessed through the information cache.
\<close>

definition uses :: "(nat \<rightharpoonup> manager_kind) \<Rightarrow> manager_kind \<Rightarrow> nat \<Rightarrow> bool" where
  "uses U k b \<longleftrightarrow> U b = None \<or> U b = Some k"

fun disciplined :: "(nat \<rightharpoonup> manager_kind) \<Rightarrow> cache_op list \<Rightarrow> bool" where
  "disciplined U [] \<longleftrightarrow> True"
| "disciplined U (ReadOp k b off n # os) \<longleftrightarrow> uses U k b \<and> off + n \<le> 512 \<and> 0 < n \<and> disciplined (U(b \<mapsto> k)) os"
| "disciplined U (WriteOp k b off bs # os) \<longleftrightarrow> uses U k b \<and> off + length bs \<le> 512 \<and> bs \<noteq> [] \<and> disciplined (U(b \<mapsto> k)) os"
| "disciplined U (SyncOp # os) \<longleftrightarrow> disciplined Map.empty os"

text \<open>The cache that holds a block at the start.\<close>

definition cached_in :: "'d fs_state \<Rightarrow> nat \<rightharpoonup> manager_kind" where
  "cached_in s b =
     (if b \<in> fst ` set (queue (manager INFO s)) then Some INFO
      else if b \<in> fst ` set (queue (manager DATA s)) then Some DATA else None)"

text \<open>The partition of the blocks that a disciplined sequence uses up to its first write-back.\<close>

fun first_use :: "cache_op list \<Rightarrow> nat \<rightharpoonup> manager_kind" where
  "first_use [] b = None"
| "first_use (ReadOp k c off n # os) b = (if b = c then Some k else first_use os b)"
| "first_use (WriteOp k c off bs # os) b = (if b = c then Some k else first_use os b)"
| "first_use (SyncOp # os) b = None"

definition info_blocks :: "(nat \<rightharpoonup> manager_kind) \<Rightarrow> cache_op list \<Rightarrow> nat set" where
  "info_blocks U os = {b. (case U b of None \<Rightarrow> first_use os b | Some k \<Rightarrow> Some k) = Some INFO}"

lemma info_blocks_step:
  assumes "uses U k b"
  shows "info_blocks U (ReadOp k b off n # os) = info_blocks (U(b \<mapsto> k)) os"
    and "info_blocks U (WriteOp k b off bs # os) = info_blocks (U(b \<mapsto> k)) os"
    and "owns (info_blocks (U(b \<mapsto> k)) os) k b"
  using assms by (auto simp: info_blocks_def uses_def owns_def split: option.splits if_splits)

lemma fs_ok_repartition:
  assumes "fs_ok I hs s" and "\<And>k b. b \<in> fst ` set (queue (manager k s)) \<Longrightarrow> owns J k b"
  shows "fs_ok J hs s"
  using assms by (auto simp: fs_ok_def)

lemma fs_ok_cached_in:
  assumes "fs_ok I hs s" shows "fs_ok (info_blocks (cached_in s) os) hs s"
proof (rule fs_ok_repartition [OF assms])
  fix k b assume b: "b \<in> fst ` set (queue (manager k s))"
  then have "k = DATA \<Longrightarrow> b \<notin> fst ` set (queue (manager INFO s))"
    using fs_okD(3) [OF assms, of b INFO] fs_okD(3) [OF assms, of b k] by (auto simp: owns_def)
  then have "cached_in s b = Some k" using b by (cases k) (simp_all add: cached_in_def)
  then show "owns (info_blocks (cached_in s) os) k b" by (auto simp: owns_def info_blocks_def)
qed

lemma run_cached_spec:
  assumes "fs_ok (info_blocks U os) [] s" and "disciplined U os"
  shows "\<exists>out s'. run_cached os s = Inr (out, s') \<and> out = fst (run_flat os (disk_view s)) \<and>
    (\<forall>b. read_block (dev_ops s') (device (write_to_dev s')) b = snd (run_flat os (disk_view s)) b)"
  using assms
proof (induction os s arbitrary: U rule: run_cached.induct)
  case (1 s)
  then show ?case using write_to_dev_spec(3) [OF 1(1)] by simp
next
  case (2 k b off n os s)
  let ?I = "info_blocks (U(b \<mapsto> k)) os"
  have u: "uses U k b" "off + n \<le> 512" "0 < n" "disciplined (U(b \<mapsto> k)) os" using "2.prems"(2) by simp_all
  have "fs_ok ?I [] s" using "2.prems"(1) unfolding info_blocks_step(1) [OF u(1)] .
  then obtain s1 where s1: "store_read k s b off n = Inr (slice off n (disk_view s b), s1)" "fs_ok ?I [] s1"
    "disk_view s1 = disk_view s" using store.rd_spec [of ?I "[]" s k b off n] info_blocks_step(3) [OF u(1)] u by auto
  with "2.IH" [OF s1(1) refl s1(2) u(4)] show ?case by (auto split: prod.splits)
next
  case (3 k b off bs os s)
  let ?I = "info_blocks (U(b \<mapsto> k)) os"
  have u: "uses U k b" "off + length bs \<le> 512" "bs \<noteq> []" "disciplined (U(b \<mapsto> k)) os" using "3.prems"(2) by simp_all
  have "fs_ok ?I [] s" using "3.prems"(1) unfolding info_blocks_step(2) [OF u(1)] .
  then obtain s1 where s1: "store_write k s b off bs = Inr s1" "fs_ok ?I [] s1"
    "disk_view s1 = (disk_view s)(b := overwrite off bs (disk_view s b))"
    using store.wr_spec [of ?I "[]" s k b off bs] info_blocks_step(3) [OF u(1)] u by auto
  have "run_cached (WriteOp k b off bs # os) s = run_cached os s1" using s1(1) by simp
  moreover have "run_flat (WriteOp k b off bs # os) (disk_view s) = run_flat os (disk_view s1)"
    unfolding s1(3) by (rule run_flat.simps)
  ultimately show ?case using "3.IH" [OF s1(1,2) u(4)] by simp
next
  case (4 os s)
  then show ?case using write_to_dev_spec(1,2) [OF "4.prems"(1)] by simp
qed

text \<open>
  (C6) The two block caches are transparent on every sequence of reads, writes and write-backs in which, between
  two write-backs, each block is used through one cache only, a block that is cached at the start through the
  cache that holds it: the sequence returns, with no panic, exactly what the same operations on a plain array of
  blocks return, and after a final write-back the device holds that array. Whatever was evicted when, no write is
  lost or reordered. A block may change from one cache to the other at each write-back.
\<close>

theorem cache_transparent:
  assumes "fs_ok I [] s" and "disciplined (cached_in s) os"
  shows "\<exists>out s'. run_cached os s = Inr (out, s') \<and> out = fst (run_flat os (disk_view s)) \<and>
    (\<forall>b. read_block (dev_ops s') (device (write_to_dev s')) b = snd (run_flat os (disk_view s)) b)"
  by (rule run_cached_spec [OF fs_ok_cached_in [OF assms(1)] assms(2)])

section \<open>A concrete device\<close>

definition array_device :: "(nat \<Rightarrow> u8 list) BlockDevice" where
  "array_device = \<lparr>read_block = (\<lambda>d b. take 512 (d b @ replicate 512 0)), write_block = (\<lambda>d b bs. d(b := bs))\<rparr>"

definition example_fs :: "(nat \<Rightarrow> u8 list) \<Rightarrow> (nat \<Rightarrow> u8 list) fs_state" where
  "example_fs d = \<lparr>dev_ops = array_device, device = d,
     INFO_CACHE_MANAGER = BlockCacheManager_new, DATA_BLOCK_CACHE_MANAGER = BlockCacheManager_new\<rparr>"

lemma example_fs_ok: "fs_ok I [] (example_fs d)"
proof -
  have "manager k (example_fs d) = BlockCacheManager_new" for k
    by (cases k) (simp_all add: example_fs_def manager.simps)
  then show ?thesis
    by (simp add: fs_ok_def device_laws_def manager_ok_def example_fs_def array_device_def BlockCacheManager_new_def
        BLOCK_SZ_def BLOCK_CACHE_SIZE_def min_def)
qed

lemma example_fs_view: "disk_view (example_fs d) b = take 512 (d b @ replicate 512 0)"
  by (simp add: disk_view_def manager_view_def manager.simps example_fs_def BlockCacheManager_new_def array_device_def)

lemma example_fs_cached: "cached_in (example_fs d) = Map.empty"
  by (rule ext) (simp add: cached_in_def example_fs_def manager.simps BlockCacheManager_new_def)

text \<open>Block 3 is written through the data cache, written back, and then used through the information cache.\<close>

definition example_ops :: "cache_op list" where
  "example_ops = [WriteOp DATA 3 1 [7, 8], SyncOp, WriteOp INFO 3 2 [9], ReadOp INFO 3 0 4]"

theorem cache_transparent_witness:
  "\<exists>s'. run_cached example_ops (example_fs (\<lambda>_. [])) = Inr ([[0, 7, 9, 0]], s') \<and>
     slice 0 4 (read_block (dev_ops s') (device (write_to_dev s')) 3) = [0, 7, 9, 0]"
proof -
  let ?D = "disk_view (example_fs (\<lambda>_. []))"
  have v: "slice 0 4 (overwrite 2 [9] (overwrite 1 [7, 8] (?D 3))) = [0, 7, 9, 0]"
    by (simp add: example_fs_view slice_def overwrite_def take_Cons' drop_Cons' numeral_eq_Suc)
  have "disciplined (cached_in (example_fs (\<lambda>_. []))) example_ops"
    unfolding example_fs_cached by (simp add: example_ops_def uses_def)
  then obtain out s' where "run_cached example_ops (example_fs (\<lambda>_. [])) = Inr (out, s')"
    "out = fst (run_flat example_ops ?D)" "read_block (dev_ops s') (device (write_to_dev s')) 3 = snd (run_flat example_ops ?D) 3"
    using cache_transparent [OF example_fs_ok [of UNIV]] by blast
  with v show ?thesis by (simp add: example_ops_def)
qed

text \<open>Without the discipline a cache may serve an old copy: block 3 written through one cache, read through the other.\<close>

lemma caches_not_coherent:
  "\<exists>s'. run_cached [WriteOp INFO 3 0 [7], ReadOp DATA 3 0 1] (example_fs (\<lambda>_. [])) = Inr ([[0]], s')"
  "fst (run_flat [WriteOp INFO 3 0 [7], ReadOp DATA 3 0 1] (disk_view (example_fs (\<lambda>_. [])))) = [[7]]"
  by (simp_all add: store_read_def store_write_def cached_read_def cached_modify_def handle_read_def handle_modify_def
      get_cache_def manager_get_block_cache_def evict_def BlockCache_new_def BlockCache_read_def BlockCache_get_ref_def
      BlockCache_modify_def BlockCache_get_mut_def addr_of_offset_def read_block_cache_def example_fs_def manager.simps
      set_manager.simps BlockCacheManager_new_def array_device_def BLOCK_SZ_def BLOCK_CACHE_SIZE_def Let_def slice_def
      overwrite_def disk_view_def manager_view_def numeral_eq_Suc)

end
