(* ===== verification/Fat_Layout.thy ===== *)
theory Fat_Layout
  imports Block_Cache
begin

text \<open>
  The on-disk structures of the file system (fat32/src/layout.rs): the boot sector, short and long
  directory entries with their byte encodings, names, checksums and times. The structures are
  \<open>repr(packed)\<close>, so a structure is the concatenation of its fields, integers little-endian.
  A \<open>str\<close> is its bytes; a \<open>String\<close> built by pushing \<open>u8 as char\<close> is the list of those characters,
  and \<open>utf8\<close> gives its bytes.
\<close>

unbundle bit_operations_syntax

section \<open>Constants\<close>

definition SECTOR_SIZE :: u32 where "SECTOR_SIZE = 8192"
definition FAT_SIZE :: u64 where "FAT_SIZE = 400"
definition LEAD_SIGNATURE :: u32 where "LEAD_SIGNATURE = 0x41615252"
definition SECOND_SIGNATURE :: u32 where "SECOND_SIGNATURE = 0x61417272"
definition FREE_CLUSTER :: u32 where "FREE_CLUSTER = 0"
definition END_CLUSTER :: u32 where "END_CLUSTER = 0x0FFFFFF8"
definition BAD_CLUSTER :: u32 where "BAD_CLUSTER = 0x0FFFFFF7"
definition FATENTRY_PER_SEC :: u32 where "FATENTRY_PER_SEC = 128"
definition ATTRIBUTE_DIRECTORY :: u8 where "ATTRIBUTE_DIRECTORY = 0x10"
definition ATTRIBUTE_LFN :: u8 where "ATTRIBUTE_LFN = 0x0F"
definition DIRENT_SZ :: nat where "DIRENT_SZ = 32"
definition LONG_NAME_LEN :: nat where "LONG_NAME_LEN = 13"
definition ALL_LOWER_CASE :: u8 where "ALL_LOWER_CASE = 0x08"

definition utf8 :: "u8 list \<Rightarrow> u8 list" where
  "utf8 cs = concat (map (\<lambda>c. if c < 0x80 then [c] else [0xC0 OR drop_bit 6 c, 0x80 OR (c AND 0x3F)]) cs)"

definition to_ascii_uppercase :: "u8 \<Rightarrow> u8" where
  "to_ascii_uppercase c = (if 97 \<le> c \<and> c \<le> 122 then c - 32 else c)"

definition to_ascii_lowercase :: "u8 \<Rightarrow> u8" where
  "to_ascii_lowercase c = (if 65 \<le> c \<and> c \<le> 90 then c + 32 else c)"

section \<open>The boot sector\<close>

record FatBS =
  bs_unused :: "u8 list"
  bs_bytes_per_sector :: u16
  bs_sectors_per_cluster :: u8
  reserved_sector_count :: u16
  table_count :: u8
  root_entry_count :: u16
  total_sectors_16 :: u16
  media_type :: u8
  table_size_16 :: u16
  sectors_per_track :: u16
  head_side_count :: u16
  hidden_sector_count :: u32
  total_sectors_32 :: u32

definition FatBS_bytes :: "FatBS \<Rightarrow> u8 list" where
  "FatBS_bytes bs =
     bs_unused bs @ le16 (bs_bytes_per_sector bs) @ [bs_sectors_per_cluster bs] @
     le16 (reserved_sector_count bs) @ [table_count bs] @ le16 (root_entry_count bs) @
     le16 (total_sectors_16 bs) @ [media_type bs] @ le16 (table_size_16 bs) @
     le16 (sectors_per_track bs) @ le16 (head_side_count bs) @
     le32 (hidden_sector_count bs) @ le32 (total_sectors_32 bs)"

definition FatBS_of_bytes :: "u8 list \<Rightarrow> FatBS" where
  "FatBS_of_bytes b =
     \<lparr>bs_unused = slice 0 11 b, bs_bytes_per_sector = de16 (slice 11 2 b), bs_sectors_per_cluster = b ! 13,
      reserved_sector_count = de16 (slice 14 2 b), table_count = b ! 16, root_entry_count = de16 (slice 17 2 b),
      total_sectors_16 = de16 (slice 19 2 b), media_type = b ! 21, table_size_16 = de16 (slice 22 2 b),
      sectors_per_track = de16 (slice 24 2 b), head_side_count = de16 (slice 26 2 b),
      hidden_sector_count = de32 (slice 28 4 b), total_sectors_32 = de32 (slice 32 4 b)\<rparr>"

definition init_boot_sector :: "'d fs_state \<Rightarrow> 'd fs_state res" where
  "init_boot_sector s =
     cached_modify INFO s 0 WRITE 36 0 (\<lambda>_. FatBS_bytes
       \<lparr>bs_unused = replicate 11 0, bs_bytes_per_sector = word_of_nat BLOCK_SZ, bs_sectors_per_cluster = 1,
        reserved_sector_count = 2, table_count = 2, root_entry_count = 0, total_sectors_16 = 0, media_type = 0,
        table_size_16 = 0, sectors_per_track = 0, head_side_count = 0, hidden_sector_count = 0,
        total_sectors_32 = SECTOR_SIZE\<rparr>)"

definition total_sectors :: "FatBS \<Rightarrow> u32" where
  "total_sectors bs = (if total_sectors_16 bs = 0 then total_sectors_32 bs else ucast (total_sectors_16 bs))"

definition first_fat_sector :: "FatBS \<Rightarrow> u32" where
  "first_fat_sector bs = ucast (reserved_sector_count bs)"

record FatExtBS =
  table_size_32 :: u32
  extended_flags :: u16
  fat_version :: u16
  root_clusters :: u32
  fat_info :: u16
  backup_bs_sector :: u16
  reserved_0 :: "u8 list"
  drive_number :: u8
  reserved_1 :: u8
  boot_signature :: u8

definition FatExtBS_of_bytes :: "u8 list \<Rightarrow> FatExtBS" where
  "FatExtBS_of_bytes b =
     \<lparr>table_size_32 = de32 (slice 0 4 b), extended_flags = de16 (slice 4 2 b), fat_version = de16 (slice 6 2 b),
      root_clusters = de32 (slice 8 4 b), fat_info = de16 (slice 12 2 b), backup_bs_sector = de16 (slice 14 2 b),
      reserved_0 = slice 16 12 b, drive_number = b ! 28, reserved_1 = b ! 29, boot_signature = b ! 30\<rparr>"

definition fat_size :: "FatExtBS \<Rightarrow> u32" where
  "fat_size e = table_size_32 e"

definition fat_info_sec :: "FatExtBS \<Rightarrow> u32" where
  "fat_info_sec e = ucast (fat_info e)"

section \<open>Short directory entries\<close>

record ShortDirEntry =
  sname :: "u8 list"
  extension :: "u8 list"
  attribute :: u8
  winnt_reserved :: u8
  creation_tenths :: u8
  creation_time :: u16
  creation_date :: u16
  last_acc_date :: u16
  cluster_high :: u16
  modification_time :: u16
  modification_date :: u16
  cluster_low :: u16
  fsize :: u32

definition ShortDirEntry_empty :: ShortDirEntry where
  "ShortDirEntry_empty =
     \<lparr>sname = replicate 8 0, extension = replicate 3 0, attribute = 0, winnt_reserved = 0, creation_tenths = 0,
      creation_time = 0, creation_date = 0, last_acc_date = 0, cluster_high = 0, modification_time = 0,
      modification_date = 0, cluster_low = 0, fsize = 0\<rparr>"

definition ShortDirEntry_new :: "u8 list \<Rightarrow> u8 list \<Rightarrow> u8 \<Rightarrow> ShortDirEntry res" where
  "ShortDirEntry_new nm ext attr =
     bindR (sliceR nm 0 8) (\<lambda>n. bindR (sliceR ext 0 3) (\<lambda>e.
     Inr \<lparr>sname = n, extension = e, attribute = attr, winnt_reserved = 0, creation_tenths = 0,
      creation_time = 0, creation_date = 0x529c, last_acc_date = 0, cluster_high = 0, modification_time = 0,
      modification_date = 0, cluster_low = 0, fsize = 0\<rparr>))"

definition ShortDirEntry_initialize :: "ShortDirEntry \<Rightarrow> u8 list \<Rightarrow> u8 list \<Rightarrow> u8 \<Rightarrow> ShortDirEntry res" where
  "ShortDirEntry_initialize self nm ext attr =
     bindR (sliceR nm 0 8) (\<lambda>n. bindR (sliceR ext 0 3) (\<lambda>e.
     Inr \<lparr>sname = n, extension = e, attribute = attr, winnt_reserved = 0, creation_tenths = 0,
      creation_time = 0, creation_date = 0x529c, last_acc_date = 0, cluster_high = 0, modification_time = 0,
      modification_date = 0, cluster_low = 0, fsize = 0\<rparr>))"

definition data_clusters :: "ShortDirEntry \<Rightarrow> u32 \<Rightarrow> u32" where
  "data_clusters e bytes_per_cluster = (fsize e + bytes_per_cluster - 1) div bytes_per_cluster"

definition is_dir :: "ShortDirEntry \<Rightarrow> bool" where
  "is_dir e \<longleftrightarrow> attribute e AND ATTRIBUTE_DIRECTORY \<noteq> 0"

definition is_valid :: "ShortDirEntry \<Rightarrow> bool" where
  "is_valid e \<longleftrightarrow> \<not> sname e ! 0 = 0xE5"

definition is_deleted :: "ShortDirEntry \<Rightarrow> bool" where
  "is_deleted e \<longleftrightarrow> sname e ! 0 = 0xE5"

definition is_empty :: "ShortDirEntry \<Rightarrow> bool" where
  "is_empty e \<longleftrightarrow> sname e ! 0 = 0x00"

definition is_file :: "ShortDirEntry \<Rightarrow> bool" where
  "is_file e \<longleftrightarrow> \<not> attribute e AND ATTRIBUTE_DIRECTORY \<noteq> 0"

definition is_long :: "ShortDirEntry \<Rightarrow> bool" where
  "is_long e \<longleftrightarrow> attribute e = ATTRIBUTE_LFN"

definition long_sec :: "u32 \<Rightarrow> u32 \<Rightarrow> u32 \<Rightarrow> u32 \<Rightarrow> u32 \<Rightarrow> u32 \<Rightarrow> u64" where
  "long_sec year month day hour minute sec =
     ucast ((((year - 1970) * 365 + month * 30 + day) * 24 + hour) * 3600 + minute * 60 + sec)"

definition get_creation_time :: "ShortDirEntry \<Rightarrow> u32 \<times> u32 \<times> u32 \<times> u32 \<times> u32 \<times> u32 \<times> u64" where
  "get_creation_time e =
     (let year = ucast (drop_bit 9 (creation_date e AND 0xFE00)) + 1980;
          month = ucast (drop_bit 5 (creation_date e AND 0x01E0));
          day = ucast (creation_date e AND 0x001F);
          hour = ucast (drop_bit 11 (creation_time e AND 0xF800));
          minute = ucast (drop_bit 5 (creation_time e AND 0x07E0));
          sec = ucast (push_bit 1 (creation_time e AND 0x001F))
      in (year, month, day, hour, minute, sec, long_sec year month day hour minute sec))"

definition get_modification_time :: "ShortDirEntry \<Rightarrow> u32 \<times> u32 \<times> u32 \<times> u32 \<times> u32 \<times> u32 \<times> u64" where
  "get_modification_time e =
     (let year = ucast (drop_bit 9 (modification_date e AND 0xFE00)) + 1980;
          month = ucast (drop_bit 5 (modification_date e AND 0x01E0));
          day = ucast (modification_date e AND 0x001F);
          hour = ucast (drop_bit 11 (modification_time e AND 0xF800));
          minute = ucast (drop_bit 5 (modification_time e AND 0x07E0));
          sec = ucast (push_bit 1 (modification_time e AND 0x001F))
      in (year, month, day, hour, minute, sec, long_sec year month day hour minute sec))"

definition get_accessed_time :: "ShortDirEntry \<Rightarrow> u32 \<times> u32 \<times> u32 \<times> u32 \<times> u32 \<times> u32 \<times> u64" where
  "get_accessed_time e =
     (let year = ucast (drop_bit 9 (last_acc_date e AND 0xFE00)) + 1980;
          month = ucast (drop_bit 5 (last_acc_date e AND 0x01E0));
          day = ucast (last_acc_date e AND 0x001F)
      in (year, month, day, 0, 0, 0, long_sec year month day 0 0 0))"

definition first_cluster :: "ShortDirEntry \<Rightarrow> u32" where
  "first_cluster e = push_bit 16 (ucast (cluster_high e)) + ucast (cluster_low e)"

definition get_name_uppercase :: "ShortDirEntry \<Rightarrow> u8 list" where
  "get_name_uppercase e =
     (let n = takeWhile (\<lambda>c. c \<noteq> 0x20) (take 8 (sname e)); x = takeWhile (\<lambda>c. c \<noteq> 0x20) (take 3 (extension e))
      in n @ (if x = [] then [] else 46 # x))"

definition get_name_lowercase :: "ShortDirEntry \<Rightarrow> u8 list" where
  "get_name_lowercase e =
     (let n = takeWhile (\<lambda>c. c \<noteq> 0x20) (take 8 (sname e)); x = takeWhile (\<lambda>c. c \<noteq> 0x20) (take 3 (extension e))
      in map to_ascii_lowercase n @ (if x = [] then [] else 46 # map to_ascii_lowercase x))"

fun checksum_loop :: "u8 list \<Rightarrow> u8 \<Rightarrow> u8" where
  "checksum_loop [] csum = csum"
| "checksum_loop (c # cs) csum =
     checksum_loop cs (if csum AND 1 \<noteq> 0 then 0x80 + drop_bit 1 csum + c else drop_bit 1 csum + c)"

definition checksum :: "ShortDirEntry \<Rightarrow> u8" where
  "checksum e = checksum_loop (take 8 (sname e) @ take 3 (extension e)) 0"

definition set_size :: "u32 \<Rightarrow> ShortDirEntry \<Rightarrow> ShortDirEntry" where
  "set_size n e = e\<lparr>fsize := n\<rparr>"

definition set_case :: "u8 \<Rightarrow> ShortDirEntry \<Rightarrow> ShortDirEntry" where
  "set_case c e = e\<lparr>winnt_reserved := c\<rparr>"

definition set_first_cluster :: "u32 \<Rightarrow> ShortDirEntry \<Rightarrow> ShortDirEntry" where
  "set_first_cluster c e =
     e\<lparr>cluster_high := ucast (drop_bit 16 (c AND 0xFFFF0000)), cluster_low := ucast (c AND 0x0000FFFF)\<rparr>"

definition ShortDirEntry_clear :: "ShortDirEntry \<Rightarrow> ShortDirEntry" where
  "ShortDirEntry_clear e = set_first_cluster 0 (e\<lparr>fsize := 0\<rparr>)"

definition ShortDirEntry_delete :: "ShortDirEntry \<Rightarrow> ShortDirEntry" where
  "ShortDirEntry_delete e = set_first_cluster 0 (e\<lparr>fsize := 0, sname := (sname e)[0 := 0xE5]\<rparr>)"

definition ShortDirEntry_as_bytes :: "ShortDirEntry \<Rightarrow> u8 list" where
  "ShortDirEntry_as_bytes e =
     sname e @ extension e @ [attribute e, winnt_reserved e, creation_tenths e] @
     le16 (creation_time e) @ le16 (creation_date e) @ le16 (last_acc_date e) @ le16 (cluster_high e) @
     le16 (modification_time e) @ le16 (modification_date e) @ le16 (cluster_low e) @ le32 (fsize e)"

definition ShortDirEntry_of_bytes :: "u8 list \<Rightarrow> ShortDirEntry" where
  "ShortDirEntry_of_bytes b =
     \<lparr>sname = slice 0 8 b, extension = slice 8 3 b, attribute = b ! 11, winnt_reserved = b ! 12,
      creation_tenths = b ! 13, creation_time = de16 (slice 14 2 b), creation_date = de16 (slice 16 2 b),
      last_acc_date = de16 (slice 18 2 b), cluster_high = de16 (slice 20 2 b),
      modification_time = de16 (slice 22 2 b), modification_date = de16 (slice 24 2 b),
      cluster_low = de16 (slice 26 2 b), fsize = de32 (slice 28 4 b)\<rparr>"

section \<open>Long directory entries\<close>

record LongDirEntry =
  order :: u8
  name1 :: "u8 list"
  lattribute :: u8
  ltype :: u8
  check_sum :: u8
  name2 :: "u8 list"
  lzero :: "u8 list"
  name3 :: "u8 list"

definition LongDirEntry_from :: "u8 list \<Rightarrow> LongDirEntry" where
  "LongDirEntry_from b =
     \<lparr>order = b ! 0, name1 = slice 1 10 b, lattribute = b ! 11, ltype = b ! 12, check_sum = b ! 13,
      name2 = slice 14 12 b, lzero = slice 26 2 b, name3 = slice 28 4 b\<rparr>"

definition LongDirEntry_empty :: LongDirEntry where
  "LongDirEntry_empty =
     \<lparr>order = 0, name1 = replicate 10 0, lattribute = 0, ltype = 0, check_sum = 0,
      name2 = replicate 12 0, lzero = replicate 2 0, name3 = replicate 4 0\<rparr>"

definition LongDirEntry_is_empty :: "LongDirEntry \<Rightarrow> bool" where
  "LongDirEntry_is_empty e \<longleftrightarrow> order e = 0x00"

definition LongDirEntry_is_valid :: "LongDirEntry \<Rightarrow> bool" where
  "LongDirEntry_is_valid e \<longleftrightarrow> \<not> order e = 0xE5"

definition LongDirEntry_is_deleted :: "LongDirEntry \<Rightarrow> bool" where
  "LongDirEntry_is_deleted e \<longleftrightarrow> order e = 0xE5"

text \<open>
  The three loops of \<open>initialize\<close>, each over the characters of one part of the name: \<open>base\<close> is the
  first index of the part, \<open>end_offset\<close> the index of the terminating zero, 0 while none was seen.
\<close>

fun long_name_part ::
  "u8 list \<Rightarrow> nat \<Rightarrow> nat list \<Rightarrow> nat \<Rightarrow> u8 list \<Rightarrow> (u8 list \<times> nat) res" where
  "long_name_part name_buffer base [] end_offset part = Inr (part, end_offset)"
| "long_name_part name_buffer base (i # js) end_offset part =
     (if end_offset = 0 then
        bindR (indexR name_buffer i) (\<lambda>c.
        long_name_part name_buffer base js (if c = 0 then i else end_offset) (part[2 * (i - base) := c]))
      else
        long_name_part name_buffer base js end_offset
          (part[2 * (i - base) := 0xFF, 2 * (i - base) + 1 := 0xFF]))"

definition LongDirEntry_initialize :: "LongDirEntry \<Rightarrow> u8 list \<Rightarrow> u8 \<Rightarrow> u8 \<Rightarrow> LongDirEntry res" where
  "LongDirEntry_initialize self name_buffer ord csum =
     bindR (long_name_part name_buffer 0 [0..<5] 0 (replicate 10 0)) (\<lambda>(n1, e1).
     bindR (long_name_part name_buffer 5 [5..<11] e1 (replicate 12 0)) (\<lambda>(n2, e2).
     bindR (long_name_part name_buffer 11 [11..<13] e2 (replicate 4 0)) (\<lambda>(n3, e3).
     Inr \<lparr>order = ord, name1 = n1, lattribute = ATTRIBUTE_LFN, ltype = 0, check_sum = csum,
      name2 = n2, lzero = replicate 2 0, name3 = n3\<rparr>)))"

definition LongDirEntry_clear :: "LongDirEntry \<Rightarrow> LongDirEntry" where
  "LongDirEntry_clear e = e"

definition LongDirEntry_delete :: "LongDirEntry \<Rightarrow> LongDirEntry" where
  "LongDirEntry_delete e = e\<lparr>order := 0xE5\<rparr>"

text \<open>The characters are the even bytes of the three parts; the loops return at a zero.\<close>

definition name_chars :: "LongDirEntry \<Rightarrow> u8 list" where
  "name_chars e = map (\<lambda>i. name1 e ! (2 * i)) [0..<5] @ map (\<lambda>i. name2 e ! (2 * i)) [0..<6] @
     map (\<lambda>i. name3 e ! (2 * i)) [0..<2]"

fun raw_loop :: "u8 list \<Rightarrow> u8 list \<Rightarrow> u8 list" where
  "raw_loop [] acc = acc"
| "raw_loop (c # cs) acc = (if c = 0 then acc @ [c] else raw_loop cs (acc @ [c]))"

definition get_name_raw :: "LongDirEntry \<Rightarrow> u8 list" where
  "get_name_raw e = raw_loop (name_chars e) []"

fun format_loop :: "u8 list \<Rightarrow> u8 list \<Rightarrow> u8 list" where
  "format_loop [] acc = acc"
| "format_loop (c # cs) acc = (if c = 0 then acc else format_loop cs (acc @ [c]))"

definition get_name_format :: "LongDirEntry \<Rightarrow> u8 list" where
  "get_name_format e = format_loop (name_chars e) []"

definition LongDirEntry_as_bytes :: "LongDirEntry \<Rightarrow> u8 list" where
  "LongDirEntry_as_bytes e =
     [order e] @ name1 e @ [lattribute e, ltype e, check_sum e] @ name2 e @ lzero e @ name3 e"

section \<open>Entries and their bytes\<close>

definition entry_ok :: "ShortDirEntry \<Rightarrow> bool" where
  "entry_ok e \<longleftrightarrow> length (sname e) = 8 \<and> length (extension e) = 3"

lemma slice_parts:
  "slice 0 n (xs @ ys) = (if n \<le> length xs then take n xs else xs @ slice 0 (n - length xs) ys)"
  "length xs \<le> k \<Longrightarrow> slice k n (xs @ ys) = slice (k - length xs) n ys"
  "0 < k \<Longrightarrow> slice k n (x # ys) = slice (k - 1) n ys"
  by (auto simp: slice_def drop_Cons')

lemma slice_whole: "length xs = n \<Longrightarrow> slice 0 n xs = xs"
  by (simp add: slice_def)

lemma length_as_bytes: "entry_ok e \<Longrightarrow> length (ShortDirEntry_as_bytes e) = 32"
  by (simp add: ShortDirEntry_as_bytes_def entry_ok_def)

lemma entry_of_as_bytes: "entry_ok e \<Longrightarrow> ShortDirEntry_of_bytes (ShortDirEntry_as_bytes e) = e"
  by (rule ShortDirEntry.equality)
    (simp_all add: entry_ok_def ShortDirEntry_of_bytes_def ShortDirEntry_as_bytes_def slice_parts slice_whole nth_append nth_Cons')

lemma list32:
  assumes "length b = 32"
  obtains b0 b1 b2 b3 b4 b5 b6 b7 b8 b9 b10 b11 b12 b13 b14 b15 b16 b17 b18 b19 b20 b21 b22 b23 b24 b25
    b26 b27 b28 b29 b30 b31
  where "b = [b0, b1, b2, b3, b4, b5, b6, b7, b8, b9, b10, b11, b12, b13, b14, b15, b16, b17, b18, b19, b20, b21,
    b22, b23, b24, b25, b26, b27, b28, b29, b30, b31]"
  using assms by (auto simp: length_Suc_conv numeral_eq_Suc)

lemma as_of_bytes:
  assumes "length b = 32"
  shows "entry_ok (ShortDirEntry_of_bytes b)" and "ShortDirEntry_as_bytes (ShortDirEntry_of_bytes b) = b"
  using assms
  by (rule list32, simp add: entry_ok_def ShortDirEntry_of_bytes_def ShortDirEntry_as_bytes_def)
    (rule list32 [OF assms], simp add: ShortDirEntry_of_bytes_def ShortDirEntry_as_bytes_def slice_def le_de_words)

lemma first_cluster_set: "first_cluster (set_first_cluster c e) = c"
proof -
  have mask: "(0xFFFF :: u32) = mask 16" "(0xFFFF0000 :: u32) = push_bit 16 (mask 16)"
    by (simp_all add: mask_eq_exp_minus_1 push_bit_eq_mult)
  have "ucast (ucast (drop_bit 16 (c AND 0xFFFF0000)) :: u16) = drop_bit 16 c"
    unfolding mask by (rule bit_word_eqI) (auto simp: bit_simps dest: bit_imp_le_length)
  moreover have "ucast (ucast (c AND 0xFFFF) :: u16) = take_bit 16 c"
    unfolding mask by (rule bit_word_eqI) (auto simp: bit_simps)
  ultimately show ?thesis
    using bits_ident [of 16 c] by (simp add: first_cluster_def set_first_cluster_def)
qed

section \<open>Long names\<close>

text \<open>What \<open>initialize\<close> stores for character \<open>i\<close> when the name ends at \<open>t\<close>.\<close>

definition name_cell :: "u8 list \<Rightarrow> nat \<Rightarrow> nat \<Rightarrow> u8" where
  "name_cell buf t i = (if i \<le> t then buf ! i else 0xFF)"

definition name_end :: "u8 list \<Rightarrow> nat \<Rightarrow> bool" where
  "name_end buf t \<longleftrightarrow> 0 < t \<and> (\<forall>j < t. buf ! j \<noteq> 0) \<and> (t < length buf \<and> buf ! t = 0 \<or> t = 13 \<and> length buf = 13)"

lemma long_name_part_spec:
  assumes t: "name_end buf t" and b: "b \<le> 13" "2 * (b - base) \<le> length part" and a: "base \<le> a" "a \<le> b"
  shows "\<exists>part'. long_name_part buf base [a..<b] (if t < a then t else 0) part = Inr (part', if t < b then t else 0) \<and>
    (\<forall>i. base \<le> i \<longrightarrow> i < b \<longrightarrow> part' ! (2 * (i - base)) = (if i < a then part ! (2 * (i - base)) else name_cell buf t i))"
  using a b(2)
proof (induction "b - a" arbitrary: a part)
  case 0
  then show ?case by simp
next
  case (Suc n)
  then have lt: "a < b" and n: "n = b - Suc a" by linarith+
  then have upt: "[a..<b] = a # [Suc a..<b]" by (simp add: upt_conv_Cons)
  have e0: "0 < t" using t by (simp add: name_end_def)
  show ?case
  proof (cases "t < a")
    case True
    let ?p = "part[2 * (a - base) := 0xFF, 2 * (a - base) + 1 := 0xFF]"
    obtain p' where p': "long_name_part buf base [Suc a..<b] t ?p = Inr (p', t)"
      "\<forall>i. base \<le> i \<longrightarrow> i < b \<longrightarrow> p' ! (2 * (i - base)) = (if i < Suc a then ?p ! (2 * (i - base)) else name_cell buf t i)"
      using Suc.hyps(1) [OF n, of ?p] Suc.prems lt True by auto
    have "p' ! (2 * (i - base)) = (if i < a then part ! (2 * (i - base)) else name_cell buf t i)"
      if i: "base \<le> i" "i < b" for i
    proof (cases "i = a")
      case True
      have "2 * (a - base) < length part" "2 * (a - base) + 1 \<noteq> 2 * (a - base)" using Suc.prems lt by linarith+
      then show ?thesis using p'(2) i True \<open>t < a\<close> by (simp add: name_cell_def)
    next
      case False
      have "2 * (a - base) + 1 \<noteq> 2 * (i - base)" by presburger
      moreover have "2 * (a - base) \<noteq> 2 * (i - base)" using False i Suc.prems by linarith
      ultimately show ?thesis using p'(2) i False by (simp add: less_Suc_eq)
    qed
    with True e0 p'(1) lt show ?thesis unfolding upt by simp
  next
    case False
    have len: "a < length buf" using False t lt b(1) by (auto simp: name_end_def)
    let ?p = "part[2 * (a - base) := buf ! a]"
    have z: "(if buf ! a = 0 then a else 0) = (if t < Suc a then t else 0)"
    proof (cases "a = t")
      case True
      then show ?thesis using t len lt b(1) by (auto simp: name_end_def)
    next
      case neq: False
      then have "a < t" using False by simp
      then show ?thesis using t by (simp add: name_end_def)
    qed
    obtain p' where p': "long_name_part buf base [Suc a..<b] (if t < Suc a then t else 0) ?p = Inr (p', if t < b then t else 0)"
      "\<forall>i. base \<le> i \<longrightarrow> i < b \<longrightarrow> p' ! (2 * (i - base)) = (if i < Suc a then ?p ! (2 * (i - base)) else name_cell buf t i)"
      using Suc.hyps(1) [OF n, of ?p] Suc.prems lt by auto
    have "p' ! (2 * (i - base)) = (if i < a then part ! (2 * (i - base)) else name_cell buf t i)"
      if i: "base \<le> i" "i < b" for i
    proof (cases "i = a")
      case True
      have "2 * (a - base) < length part" using Suc.prems lt by linarith
      then show ?thesis using p'(2) i True False by (simp add: name_cell_def)
    next
      case neq: False
      have "2 * (a - base) \<noteq> 2 * (i - base)" using neq i Suc.prems by linarith
      then show ?thesis using p'(2) i neq by (simp add: less_Suc_eq)
    qed
    moreover have "long_name_part buf base [a..<b] (if t < a then t else 0) part =
        long_name_part buf base [Suc a..<b] (if buf ! a = 0 then a else 0) ?p"
      using False len unfolding upt by (simp add: indexR_def)
    ultimately show ?thesis using p'(1) unfolding z by (intro exI [of _ p']) simp
  qed
qed

lemma initialize_chars:
  assumes t: "name_end buf t"
  shows "\<exists>e. LongDirEntry_initialize self buf ord csum = Inr e \<and> order e = ord \<and> check_sum e = csum \<and>
    lattribute e = ATTRIBUTE_LFN \<and> name_chars e = map (name_cell buf t) [0..<13]"
proof -
  have pos: "0 < t" using t by (simp add: name_end_def)
  obtain n1 where n1: "long_name_part buf 0 [0..<5] 0 (replicate 10 0) = Inr (n1, if t < 5 then t else 0)"
    "\<forall>i < 5. n1 ! (2 * i) = name_cell buf t i"
    using long_name_part_spec [OF t, of 5 0 "replicate 10 0" 0] pos by auto
  obtain n2 where n2: "long_name_part buf 5 [5..<11] (if t < 5 then t else 0) (replicate 12 0) = Inr (n2, if t < 11 then t else 0)"
    "\<forall>i. 5 \<le> i \<longrightarrow> i < 11 \<longrightarrow> n2 ! (2 * (i - 5)) = name_cell buf t i"
    using long_name_part_spec [OF t, of 11 5 "replicate 12 0" 5] by auto
  obtain n3 where n3: "long_name_part buf 11 [11..<13] (if t < 11 then t else 0) (replicate 4 0) = Inr (n3, if t < 13 then t else 0)"
    "\<forall>i. 11 \<le> i \<longrightarrow> i < 13 \<longrightarrow> n3 ! (2 * (i - 11)) = name_cell buf t i"
    using long_name_part_spec [OF t, of 13 11 "replicate 4 0" 11] by auto
  have "map (\<lambda>i. n1 ! (2 * i)) [0..<5] = map (name_cell buf t) [0..<5]" using n1(2) by simp
  moreover have "map (\<lambda>i. n2 ! (2 * i)) [0..<6] = map (name_cell buf t) [5..<11]"
    using n2(2) [rule_format, of "5 + _"] by (intro nth_equalityI) (simp_all del: upt_rec_numeral)
  moreover have "map (\<lambda>i. n3 ! (2 * i)) [0..<2] = map (name_cell buf t) [11..<13]"
    using n3(2) [rule_format, of "11 + _"] by (intro nth_equalityI) (simp_all del: upt_rec_numeral)
  moreover have "[0..<13] = [0..<5] @ [5..<11] @ [11..<(13::nat)]" by (simp add: upt_rec)
  ultimately show ?thesis using n1(1) n2(1) n3(1)
    by (simp add: LongDirEntry_initialize_def name_chars_def del: upt_Suc upt_rec_numeral)
qed

lemma raw_loop_stop: "0 \<notin> set cs \<Longrightarrow> raw_loop (cs @ 0 # xs) acc = acc @ cs @ [0]"
  by (induction cs arbitrary: acc) auto

lemma raw_loop_all: "0 \<notin> set cs \<Longrightarrow> raw_loop cs acc = acc @ cs"
  by (induction cs arbitrary: acc) auto

lemma format_loop_stop: "0 \<notin> set cs \<Longrightarrow> format_loop (cs @ 0 # xs) acc = acc @ cs"
  by (induction cs arbitrary: acc) auto

lemma format_loop_all: "0 \<notin> set cs \<Longrightarrow> format_loop cs acc = acc @ cs"
  by (induction cs arbitrary: acc) auto

text \<open>
  (C31) A piece of a long name survives the directory entry: \<open>initialize\<close> with up to 13 characters
  (followed by a zero if there are fewer) does not panic, and \<open>get_name_raw\<close> gives back exactly what
  was stored, \<open>get_name_format\<close> the characters alone.
\<close>

theorem long_name_round_trip:
  assumes "0 \<notin> set cs" and "0 < length cs" and "length cs \<le> 13"
  shows "\<exists>e. LongDirEntry_initialize self (cs @ (if length cs < 13 then [0] else [])) ord csum = Inr e \<and>
    order e = ord \<and> check_sum e = csum \<and> lattribute e = ATTRIBUTE_LFN \<and>
    get_name_raw e = cs @ (if length cs < 13 then [0] else []) \<and> get_name_format e = cs"
proof -
  let ?buf = "cs @ (if length cs < 13 then [0] else [])" and ?t = "length cs"
  have t: "name_end ?buf ?t"
    using assms by (auto simp: name_end_def nth_append in_set_conv_nth)
  have chars: "map (name_cell ?buf ?t) [0..<13] = cs @ (if ?t < 13 then 0 # replicate (12 - ?t) 0xFF else [])"
    using assms(3) by (intro nth_equalityI) (auto simp: name_cell_def nth_append nth_Cons')
  then show ?thesis
    using initialize_chars [OF t, of self ord csum] assms(1)
    by (auto simp: get_name_raw_def get_name_format_def raw_loop_stop raw_loop_all format_loop_stop format_loop_all
        simp del: upt_rec_numeral)
qed

theorem long_name_round_trip_witness:
  "\<exists>e. LongDirEntry_initialize LongDirEntry_empty [104, 105, 0] 0x41 7 = Inr e \<and>
    get_name_raw e = [104, 105, 0] \<and> get_name_format e = [104, 105]"
  using long_name_round_trip [of "[104, 105]" LongDirEntry_empty "0x41" 7] by auto

text \<open>
  (C32) A short directory entry and its 32 bytes determine each other: encoding then decoding gives the
  entry back, decoding then encoding the bytes, and the split first-cluster field returns the
  cluster that was stored.
\<close>

theorem dirent_round_trip:
  assumes "entry_ok e" and "length b = 32"
  shows "ShortDirEntry_of_bytes (ShortDirEntry_as_bytes e) = e \<and> length (ShortDirEntry_as_bytes e) = DIRENT_SZ \<and>
    ShortDirEntry_as_bytes (ShortDirEntry_of_bytes b) = b \<and> first_cluster (set_first_cluster c e) = c"
  using entry_of_as_bytes [OF assms(1)] length_as_bytes [OF assms(1)] as_of_bytes(2) [OF assms(2)] first_cluster_set
  by (simp add: DIRENT_SZ_def)

theorem dirent_round_trip_witness:
  "ShortDirEntry_of_bytes (ShortDirEntry_as_bytes ShortDirEntry_empty) = ShortDirEntry_empty \<and>
   first_cluster (set_first_cluster 0x12345 ShortDirEntry_empty) = 0x12345"
  using dirent_round_trip [of ShortDirEntry_empty "replicate 32 0" "0x12345"]
  by (simp add: entry_ok_def ShortDirEntry_empty_def)

end
