(* ===== verification/Fat_Table.thy ===== *)
theory Fat_Table
  imports Fat_Layout
begin

text \<open>
  The file allocation table and the file-system information sector (\<open>FAT\<close> and \<open>FSInfo\<close> of
  fat32/src/layout.rs), as functions on the state of the block caches. The loops that follow a
  chain or search a free entry are bounded by \<open>fuel\<close>; they give \<open>OutOfFuel\<close> only when it runs out.
\<close>

section \<open>The information sector\<close>

record FSInfo =
  sector_num :: u32

definition FSInfo_new :: "u32 \<Rightarrow> FSInfo" where
  "FSInfo_new sec = \<lparr>sector_num = sec\<rparr>"

definition check_lead_signature :: "FSInfo \<Rightarrow> 'd fs_state \<Rightarrow> (bool \<times> 'd fs_state) res" where
  "check_lead_signature i s = cached_read INFO s (unat (sector_num i)) READ 4 0 (\<lambda>b. de32 b = LEAD_SIGNATURE)"

definition check_another_signature :: "FSInfo \<Rightarrow> 'd fs_state \<Rightarrow> (bool \<times> 'd fs_state) res" where
  "check_another_signature i s = cached_read INFO s (unat (sector_num i)) READ 4 484 (\<lambda>b. de32 b = SECOND_SIGNATURE)"

definition check_signature :: "FSInfo \<Rightarrow> 'd fs_state \<Rightarrow> (bool \<times> 'd fs_state) res" where
  "check_signature i s =
     bindR (check_lead_signature i s) (\<lambda>(ok, s1). if ok then check_another_signature i s1 else Inr (False, s1))"

definition read_free_clusters :: "FSInfo \<Rightarrow> 'd fs_state \<Rightarrow> (u32 \<times> 'd fs_state) res" where
  "read_free_clusters i s = cached_read INFO s (unat (sector_num i)) READ 4 488 de32"

definition write_free_clusters :: "FSInfo \<Rightarrow> u32 \<Rightarrow> 'd fs_state \<Rightarrow> 'd fs_state res" where
  "write_free_clusters i free s = cached_modify INFO s (unat (sector_num i)) WRITE 4 488 (\<lambda>_. le32 free)"

definition first_free_cluster :: "FSInfo \<Rightarrow> 'd fs_state \<Rightarrow> (u32 \<times> 'd fs_state) res" where
  "first_free_cluster i s = cached_read INFO s (unat (sector_num i)) READ 4 492 de32"

definition write_first_free_cluster :: "FSInfo \<Rightarrow> u32 \<Rightarrow> 'd fs_state \<Rightarrow> 'd fs_state res" where
  "write_first_free_cluster i start s = cached_modify INFO s (unat (sector_num i)) WRITE 4 492 (\<lambda>_. le32 start)"

section \<open>The table\<close>

record FAT =
  fat1_sector :: u32
  fat2_sector :: u32
  n_sectors :: u32
  n_entry :: u32

definition FAT_new :: "u32 \<Rightarrow> u32 \<Rightarrow> u32 \<Rightarrow> u32 \<Rightarrow> FAT" where
  "FAT_new f1 f2 n e = \<lparr>fat1_sector = f1, fat2_sector = f2, n_sectors = n, n_entry = e\<rparr>"

definition calculate_pos :: "FAT \<Rightarrow> u32 \<Rightarrow> u32 \<times> u32 \<times> u32" where
  "calculate_pos fat cluster =
     (fat1_sector fat + cluster div FATENTRY_PER_SEC, fat2_sector fat + cluster div FATENTRY_PER_SEC,
      4 * (cluster mod FATENTRY_PER_SEC))"

fun next_free_loop :: "nat \<Rightarrow> FAT \<Rightarrow> u32 \<Rightarrow> 'd fs_state \<Rightarrow> (u32 \<times> 'd fs_state) res" where
  "next_free_loop 0 fat cur s = Inl OutOfFuel"
| "next_free_loop (Suc n) fat cur s =
     (case calculate_pos fat cur of (fat1_sec, fat2_sec, offset) \<Rightarrow>
      bindR (cached_read INFO s (unat fat1_sec) READ 4 (unat offset) de32) (\<lambda>(entry_val, s1).
      if entry_val = FREE_CLUSTER then Inr (cur, s1) else next_free_loop n fat (cur + 1) s1))"

definition next_free_cluster :: "nat \<Rightarrow> FAT \<Rightarrow> u32 \<Rightarrow> 'd fs_state \<Rightarrow> (u32 \<times> 'd fs_state) res" where
  "next_free_cluster fuel fat current s =
     bindR (next_free_loop fuel fat (current + 1) s) (\<lambda>(c, s1). Inr (c AND 0x0FFFFFFF, s1))"

definition get_next_cluster :: "FAT \<Rightarrow> u32 \<Rightarrow> 'd fs_state \<Rightarrow> (u32 \<times> 'd fs_state) res" where
  "get_next_cluster fat cluster s =
     (case calculate_pos fat cluster of (fat1_sec, fat2_sec, offset) \<Rightarrow>
      bindR (cached_read INFO s (unat fat1_sec) READ 4 (unat offset) de32) (\<lambda>(fat1_rs, s1).
      bindR (cached_read INFO s1 (unat fat2_sec) READ 4 (unat offset) de32) (\<lambda>(fat2_rs, s2).
      Inr (if fat1_rs = BAD_CLUSTER then
             if fat2_rs = BAD_CLUSTER then 0 else fat2_rs AND 0x0FFFFFFF
           else fat1_rs AND 0x0FFFFFFF, s2))))"

definition set_next_cluster :: "FAT \<Rightarrow> u32 \<Rightarrow> u32 \<Rightarrow> 'd fs_state \<Rightarrow> 'd fs_state res" where
  "set_next_cluster fat cluster next s =
     (case calculate_pos fat cluster of (fat1_sec, fat2_sec, offset) \<Rightarrow>
      bindR (cached_modify INFO s (unat fat1_sec) WRITE 4 (unat offset) (\<lambda>_. le32 next)) (\<lambda>s1.
      cached_modify INFO s1 (unat fat2_sec) WRITE 4 (unat offset) (\<lambda>_. le32 next)))"

definition set_end :: "FAT \<Rightarrow> u32 \<Rightarrow> 'd fs_state \<Rightarrow> 'd fs_state res" where
  "set_end fat cluster s = set_next_cluster fat cluster END_CLUSTER s"

fun cluster_at_loop :: "nat \<Rightarrow> FAT \<Rightarrow> u32 \<Rightarrow> 'd fs_state \<Rightarrow> (u32 \<times> 'd fs_state) res" where
  "cluster_at_loop 0 fat cluster s = Inr (cluster, s)"
| "cluster_at_loop (Suc i) fat cluster s =
     bindR (get_next_cluster fat cluster s) (\<lambda>(c, s1).
     if c = 0 then Inr (c, s1) else cluster_at_loop i fat c s1)"

definition get_cluster_at :: "FAT \<Rightarrow> u32 \<Rightarrow> u32 \<Rightarrow> 'd fs_state \<Rightarrow> (u32 \<times> 'd fs_state) res" where
  "get_cluster_at fat start index s =
     bindR (cluster_at_loop (unat index) fat start s) (\<lambda>(c, s1). Inr (c AND 0x0FFFFFFF, s1))"

fun final_loop :: "nat \<Rightarrow> FAT \<Rightarrow> u32 \<Rightarrow> 'd fs_state \<Rightarrow> (u32 \<times> 'd fs_state) res" where
  "final_loop 0 fat cur s = Inl OutOfFuel"
| "final_loop (Suc n) fat cur s =
     bindR (get_next_cluster fat cur s) (\<lambda>(next, s1).
     if next \<ge> END_CLUSTER \<or> next = 0 then Inr (cur AND 0x0FFFFFFF, s1) else final_loop n fat next s1)"

definition final_cluster :: "nat \<Rightarrow> FAT \<Rightarrow> u32 \<Rightarrow> 'd fs_state \<Rightarrow> (u32 \<times> 'd fs_state) res" where
  "final_cluster fuel fat start s = bindR (assertR (start \<noteq> 0)) (\<lambda>_. final_loop fuel fat start s)"

fun all_cluster_loop :: "nat \<Rightarrow> FAT \<Rightarrow> u32 \<Rightarrow> u32 list \<Rightarrow> 'd fs_state \<Rightarrow> (u32 list \<times> 'd fs_state) res" where
  "all_cluster_loop 0 fat cur v s = Inl OutOfFuel"
| "all_cluster_loop (Suc n) fat cur v s =
     bindR (get_next_cluster fat cur s) (\<lambda>(next, s1).
     if next \<ge> END_CLUSTER \<or> next = 0 then Inr (v @ [cur AND 0x0FFFFFFF], s1)
     else all_cluster_loop n fat next (v @ [cur AND 0x0FFFFFFF]) s1)"

definition get_all_cluster_of :: "nat \<Rightarrow> FAT \<Rightarrow> u32 \<Rightarrow> 'd fs_state \<Rightarrow> (u32 list \<times> 'd fs_state) res" where
  "get_all_cluster_of fuel fat start s = all_cluster_loop fuel fat start [] s"

fun count_loop :: "nat \<Rightarrow> FAT \<Rightarrow> u32 \<Rightarrow> u32 \<Rightarrow> 'd fs_state \<Rightarrow> (u32 \<times> 'd fs_state) res" where
  "count_loop 0 fat cur count s = Inl OutOfFuel"
| "count_loop (Suc n) fat cur count s =
     bindR (get_next_cluster fat cur s) (\<lambda>(next, s1).
     if next \<ge> END_CLUSTER \<or> next > 0xF000000 then Inr (count + 1, s1) else count_loop n fat next (count + 1) s1)"

definition count_claster_num :: "nat \<Rightarrow> FAT \<Rightarrow> u32 \<Rightarrow> 'd fs_state \<Rightarrow> (u32 \<times> 'd fs_state) res" where
  "count_claster_num fuel fat start s = (if start = 0 then Inr (0, s) else count_loop fuel fat start 0 s)"

section \<open>Entries\<close>

text \<open>
  The table occupies the sectors of its two copies, all of them information blocks; a cluster
  number is in the table if it has an entry and is small enough to be a chain link.
\<close>

definition fat_sectors :: "FAT \<Rightarrow> nat set" where
  "fat_sectors fat = {unat (fat1_sector fat)..<unat (fat1_sector fat) + unat (n_sectors fat)} \<union>
     {unat (fat2_sector fat)..<unat (fat2_sector fat) + unat (n_sectors fat)}"

definition fat_geom :: "nat set \<Rightarrow> FAT \<Rightarrow> bool" where
  "fat_geom I fat \<longleftrightarrow> unat (fat1_sector fat) + unat (n_sectors fat) \<le> unat (fat2_sector fat) \<and>
     unat (fat2_sector fat) + unat (n_sectors fat) < 2 ^ 32 \<and> fat_sectors fat \<subseteq> I"

definition in_fat :: "FAT \<Rightarrow> u32 \<Rightarrow> bool" where
  "in_fat fat c \<longleftrightarrow> unat c < 128 * unat (n_sectors fat) \<and> c \<le> 0xF000000"

definition entry_of :: "u32 \<Rightarrow> (nat \<Rightarrow> u8 list) \<Rightarrow> u32 \<Rightarrow> u32" where
  "entry_of sec V c = de32 (slice (4 * (unat c mod 128)) 4 (V (unat sec + unat c div 128)))"

definition next_entry :: "FAT \<Rightarrow> (nat \<Rightarrow> u8 list) \<Rightarrow> u32 \<Rightarrow> u32" where
  "next_entry fat V c =
     (if entry_of (fat1_sector fat) V c = BAD_CLUSTER then
        if entry_of (fat2_sector fat) V c = BAD_CLUSTER then 0 else entry_of (fat2_sector fat) V c AND 0x0FFFFFFF
      else entry_of (fat1_sector fat) V c AND 0x0FFFFFFF)"

lemma unat_pos:
  fixes c sec :: u32
  assumes "unat sec + unat c div 128 < 2 ^ 32"
  shows "unat (sec + c div FATENTRY_PER_SEC) = unat sec + unat c div 128"
    and "unat (4 * (c mod FATENTRY_PER_SEC)) = 4 * (unat c mod 128)"
proof -
  have "unat (c div FATENTRY_PER_SEC) = unat c div 128" by (simp add: FATENTRY_PER_SEC_def unat_div)
  with assms show "unat (sec + c div FATENTRY_PER_SEC) = unat sec + unat c div 128"
    by (simp add: unat_word_ariths)
  have "unat (c mod FATENTRY_PER_SEC) = unat c mod 128" by (simp add: FATENTRY_PER_SEC_def unat_mod)
  moreover have "unat c mod 128 < 128" by simp
  ultimately show "unat (4 * (c mod FATENTRY_PER_SEC)) = 4 * (unat c mod 128)"
    by (simp add: unat_word_ariths)
qed

lemma calculate_pos_nat:
  assumes "fat_geom I fat" and "in_fat fat c"
  obtains f1 f2 off where "calculate_pos fat c = (f1, f2, off)"
    "unat f1 = unat (fat1_sector fat) + unat c div 128" "unat f2 = unat (fat2_sector fat) + unat c div 128"
    "unat off = 4 * (unat c mod 128)" "unat off + 4 \<le> BLOCK_SZ" "owns I INFO (unat f1)" "owns I INFO (unat f2)"
    "unat f1 \<noteq> unat f2" "unat f1 \<in> fat_sectors fat" "unat f2 \<in> fat_sectors fat"
proof -
  have lt: "unat c div 128 < unat (n_sectors fat)" using assms(2) by (simp add: in_fat_def less_mult_imp_div_less mult.commute)
  have m: "4 * (unat c mod 128) + 4 \<le> 512"
  proof -
    have "unat c mod 128 < 128" by simp
    then show ?thesis by linarith
  qed
  have g: "unat (fat1_sector fat) + unat c div 128 < 2 ^ 32" "unat (fat2_sector fat) + unat c div 128 < 2 ^ 32"
    using assms(1) lt by (auto simp: fat_geom_def)
  have mem: "unat (fat1_sector fat) + unat c div 128 \<in> fat_sectors fat" "unat (fat2_sector fat) + unat c div 128 \<in> fat_sectors fat"
    using lt by (auto simp: fat_sectors_def)
  moreover have "fat_sectors fat \<subseteq> I" using assms(1) by (simp add: fat_geom_def)
  moreover have "unat (fat1_sector fat) + unat c div 128 \<noteq> unat (fat2_sector fat) + unat c div 128"
    using assms(1) lt by (auto simp: fat_geom_def)
  ultimately show ?thesis
    using unat_pos [OF g(1)] unat_pos [OF g(2)] m
    by (intro that [OF calculate_pos_def]) (auto simp: owns_def BLOCK_SZ_def)
qed

lemma get_next_cluster_spec:
  assumes geom: "fat_geom I fat" "in_fat fat c" and ok: "fs_ok I hs s"
  shows "\<exists>s'. get_next_cluster fat c s = Inr (next_entry fat (disk_view s) c, s') \<and> fs_ok I hs s' \<and>
    disk_view s' = disk_view s"
proof -
  obtain f1 f2 off where p: "calculate_pos fat c = (f1, f2, off)"
    "unat f1 = unat (fat1_sector fat) + unat c div 128" "unat f2 = unat (fat2_sector fat) + unat c div 128"
    "unat off = 4 * (unat c mod 128)" "unat off + 4 \<le> BLOCK_SZ" "owns I INFO (unat f1)" "owns I INFO (unat f2)"
    by (rule calculate_pos_nat [OF geom])
  obtain s1 where s1: "cached_read INFO s (unat f1) READ 4 (unat off) de32 = Inr (entry_of (fat1_sector fat) (disk_view s) c, s1)"
    "fs_ok I hs s1" "disk_view s1 = disk_view s"
    using cached_read_spec [OF ok p(6,5), of READ de32] p(2,4) by (auto simp: entry_of_def)
  obtain s2 where s2: "cached_read INFO s1 (unat f2) READ 4 (unat off) de32 = Inr (entry_of (fat2_sector fat) (disk_view s) c, s2)"
    "fs_ok I hs s2" "disk_view s2 = disk_view s"
    using cached_read_spec [OF s1(2) p(7,5), of READ de32] p(3,4) s1(3) by (auto simp: entry_of_def)
  show ?thesis using p(1) s1(1) s2 by (simp add: get_next_cluster_def next_entry_def)
qed

lemma entry_of_write:
  fixes c c' :: u32
  assumes "length (V b) = BLOCK_SZ" and "b = unat sec + unat c div 128"
  shows "entry_of sec (V(b := overwrite (4 * (unat c mod 128)) (le32 v) (V b))) c' = (if c' = c then v else entry_of sec V c')"
proof -
  have m: "4 * (unat x mod 128) + 4 \<le> 512" for x :: u32
  proof -
    have "unat x mod 128 < 128" by simp
    then show ?thesis by linarith
  qed
  show ?thesis
  proof (cases "unat c' div 128 = unat c div 128")
    case False
    then show ?thesis using assms(2) by (auto simp: entry_of_def)
  next
    case div: True
    show ?thesis
    proof (cases "c' = c")
      case True
      then show ?thesis using assms m [of c] by (simp add: entry_of_def slice_overwrite_same BLOCK_SZ_def)
    next
      case False
      have "unat c' mod 128 \<noteq> unat c mod 128"
      proof
        assume "unat c' mod 128 = unat c mod 128"
        with div have "unat c' = unat c" by (metis div_mult_mod_eq)
        with False show False by (simp add: word_unat_eq_iff)
      qed
      then have "4 * (unat c' mod 128) + 4 \<le> 4 * (unat c mod 128) \<or> 4 * (unat c mod 128) + 4 \<le> 4 * (unat c' mod 128)"
        by linarith
      then have "slice (4 * (unat c' mod 128)) 4 (overwrite (4 * (unat c mod 128)) (le32 v) (V b)) =
          slice (4 * (unat c' mod 128)) 4 (V b)"
        using m [of c] m [of c'] assms(1) by (intro slice_overwrite_disjoint) (simp_all add: BLOCK_SZ_def)
      with False div assms(2) show ?thesis by (simp add: entry_of_def)
    qed
  qed
qed

lemma entry_of_other:
  "b \<noteq> unat sec + unat c div 128 \<Longrightarrow> entry_of sec (V(b := x)) c = entry_of sec V c"
  by (simp add: entry_of_def)

lemma fat_copies_apart:
  assumes "fat_geom I fat" and "in_fat fat c" and "in_fat fat c'"
  shows "unat (fat1_sector fat) + unat c div 128 \<noteq> unat (fat2_sector fat) + unat c' div 128"
proof -
  have "unat c div 128 < unat (n_sectors fat)" using assms(2) by (simp add: in_fat_def less_mult_imp_div_less mult.commute)
  then show ?thesis using assms(1) by (simp add: fat_geom_def)
qed

definition fat_write :: "FAT \<Rightarrow> u32 \<Rightarrow> u32 \<Rightarrow> (nat \<Rightarrow> u8 list) \<Rightarrow> (nat \<Rightarrow> u8 list) \<Rightarrow> bool" where
  "fat_write fat c v V V' \<longleftrightarrow>
     (\<forall>c'. in_fat fat c' \<longrightarrow>
        entry_of (fat1_sector fat) V' c' = (if c' = c then v else entry_of (fat1_sector fat) V c') \<and>
        entry_of (fat2_sector fat) V' c' = (if c' = c then v else entry_of (fat2_sector fat) V c')) \<and>
     (\<forall>b. b \<notin> fat_sectors fat \<longrightarrow> V' b = V b)"

lemma set_next_cluster_spec:
  assumes geom: "fat_geom I fat" "in_fat fat c" and ok: "fs_ok I hs s"
  shows "\<exists>s'. set_next_cluster fat c v s = Inr s' \<and> fs_ok I hs s' \<and> fat_write fat c v (disk_view s) (disk_view s')"
proof -
  obtain f1 f2 off where p: "calculate_pos fat c = (f1, f2, off)"
    "unat f1 = unat (fat1_sector fat) + unat c div 128" "unat f2 = unat (fat2_sector fat) + unat c div 128"
    "unat off = 4 * (unat c mod 128)" "unat off + 4 \<le> BLOCK_SZ" "owns I INFO (unat f1)" "owns I INFO (unat f2)"
    "unat f1 \<noteq> unat f2" "unat f1 \<in> fat_sectors fat" "unat f2 \<in> fat_sectors fat"
    by (rule calculate_pos_nat [OF geom])
  let ?V = "disk_view s"
  let ?V1 = "?V(unat f1 := overwrite (unat off) (le32 v) (?V (unat f1)))"
  let ?V2 = "?V1(unat f2 := overwrite (unat off) (le32 v) (?V1 (unat f2)))"
  obtain s1 where s1: "cached_modify INFO s (unat f1) WRITE 4 (unat off) (\<lambda>_. le32 v) = Inr s1" "fs_ok I hs s1" "disk_view s1 = ?V1"
    using cached_modify_spec [OF ok p(6,5), of "\<lambda>_. le32 v" WRITE] by auto
  obtain s2 where s2: "cached_modify INFO s1 (unat f2) WRITE 4 (unat off) (\<lambda>_. le32 v) = Inr s2" "fs_ok I hs s2" "disk_view s2 = ?V2"
    using cached_modify_spec [OF s1(2) p(7,5), of "\<lambda>_. le32 v" WRITE] unfolding s1(3) by auto
  have len: "length (?V b) = BLOCK_SZ" "length (?V1 b) = BLOCK_SZ" for b
    using disk_view_length [OF ok] disk_view_length [OF s1(2)] unfolding s1(3) by auto
  have "entry_of (fat1_sector fat) ?V2 c' = (if c' = c then v else entry_of (fat1_sector fat) ?V c') \<and>
      entry_of (fat2_sector fat) ?V2 c' = (if c' = c then v else entry_of (fat2_sector fat) ?V c')" if c': "in_fat fat c'" for c'
  proof
    have "entry_of (fat1_sector fat) ?V2 c' = entry_of (fat1_sector fat) ?V1 c'"
      using fat_copies_apart [OF geom(1) c' geom(2)] p(3) by (intro entry_of_other) simp
    also have "\<dots> = (if c' = c then v else entry_of (fat1_sector fat) ?V c')"
      unfolding p(4) by (rule entry_of_write [OF len(1) p(2)])
    finally show "entry_of (fat1_sector fat) ?V2 c' = (if c' = c then v else entry_of (fat1_sector fat) ?V c')" .
    have "entry_of (fat2_sector fat) ?V2 c' = (if c' = c then v else entry_of (fat2_sector fat) ?V1 c')"
      using entry_of_write [where V = ?V1, OF len(2) p(3), where v = v and c' = c'] unfolding p(4) by simp
    moreover have "entry_of (fat2_sector fat) ?V1 c' = entry_of (fat2_sector fat) ?V c'"
      using fat_copies_apart [OF geom(1,2) c'] p(2) by (intro entry_of_other) simp
    ultimately show "entry_of (fat2_sector fat) ?V2 c' = (if c' = c then v else entry_of (fat2_sector fat) ?V c')" by simp
  qed
  moreover have "?V2 b = ?V b" if "b \<notin> fat_sectors fat" for b using that p(9,10) by auto
  ultimately have "fat_write fat c v ?V (disk_view s2)" unfolding fat_write_def s2(3) by simp
  then show ?thesis using p(1) s1(1) s2(1,2) by (simp add: set_next_cluster_def)
qed

lemma next_entry_write:
  assumes "fat_write fat c v V V'" and "in_fat fat c'"
  shows "next_entry fat V' c' = (if c' = c then (if v = BAD_CLUSTER then 0 else v AND 0x0FFFFFFF) else next_entry fat V c')"
proof -
  have "entry_of (fat1_sector fat) V' c' = (if c' = c then v else entry_of (fat1_sector fat) V c')"
    "entry_of (fat2_sector fat) V' c' = (if c' = c then v else entry_of (fat2_sector fat) V c')"
    using assms by (simp_all add: fat_write_def)
  then show ?thesis unfolding next_entry_def by (cases "c' = c") simp_all
qed

section \<open>Chains\<close>

text \<open>\<open>chain fat V cs\<close>: the table links the clusters \<open>cs\<close> in order and ends after the last.\<close>

fun chain :: "FAT \<Rightarrow> (nat \<Rightarrow> u8 list) \<Rightarrow> u32 list \<Rightarrow> bool" where
  "chain fat V [] \<longleftrightarrow> False"
| "chain fat V [c] \<longleftrightarrow> in_fat fat c \<and> c \<noteq> 0 \<and> END_CLUSTER \<le> next_entry fat V c"
| "chain fat V (c # d # cs) \<longleftrightarrow> in_fat fat c \<and> c \<noteq> 0 \<and> next_entry fat V c = d \<and> chain fat V (d # cs)"

lemma chain_in_fat: "chain fat V cs \<Longrightarrow> c \<in> set cs \<Longrightarrow> in_fat fat c \<and> c \<noteq> 0"
  by (induction fat V cs rule: chain.induct) auto

lemma chain_hd: "chain fat V (c # cs) \<Longrightarrow> in_fat fat c \<and> c \<noteq> 0"
  by (cases cs) auto

lemma mask28: "(c :: u32) \<le> 0xF000000 \<Longrightarrow> c AND 0x0FFFFFFF = c"
proof -
  assume "c \<le> 0xF000000"
  then have "unat c < 2 ^ 28" by (simp add: word_le_nat_alt)
  then have "take_bit 28 c = c"
    by (simp add: word_unat_eq_iff unsigned_take_bit_eq take_bit_nat_eq_self)
  moreover have "(0x0FFFFFFF :: u32) = mask 28" by (simp add: mask_eq_exp_minus_1)
  ultimately show ?thesis by (simp add: take_bit_eq_mask)
qed

lemma in_fat_link:
  assumes "in_fat fat c"
  shows "c AND 0x0FFFFFFF = c" "\<not> END_CLUSTER \<le> c" "\<not> 0xF000000 < c"
proof -
  have "c \<le> 0xF000000" using assms by (simp add: in_fat_def)
  then show "c AND 0x0FFFFFFF = c" "\<not> END_CLUSTER \<le> c" "\<not> 0xF000000 < c"
    using mask28 by (auto simp: END_CLUSTER_def word_le_nat_alt word_less_nat_alt)
qed

lemma end_above: "END_CLUSTER \<le> c \<Longrightarrow> 0xF000000 < c \<and> c \<noteq> 0"
  by (auto simp: END_CLUSTER_def word_le_nat_alt word_less_nat_alt)

text \<open>One step along a chain, shared by the loops.\<close>

lemma chain_step:
  assumes "fat_geom I fat" and "fs_ok I hs s" and "chain fat (disk_view s) (c # cs)"
  obtains nx s1 where "get_next_cluster fat c s = Inr (nx, s1)" "fs_ok I hs s1" "disk_view s1 = disk_view s"
    "c AND 0x0FFFFFFF = c" "c \<noteq> 0" "nx \<noteq> 0"
    "case cs of [] \<Rightarrow> END_CLUSTER \<le> nx \<and> 0xF000000 < nx
     | d # ds \<Rightarrow> nx = d \<and> \<not> END_CLUSTER \<le> nx \<and> \<not> 0xF000000 < nx \<and> chain fat (disk_view s1) (d # ds)"
proof -
  have c: "in_fat fat c" "c \<noteq> 0" using chain_hd [OF assms(3)] by auto
  obtain s1 where s1: "get_next_cluster fat c s = Inr (next_entry fat (disk_view s) c, s1)" "fs_ok I hs s1"
    "disk_view s1 = disk_view s" using get_next_cluster_spec [OF assms(1) c(1) assms(2)] by blast
  show ?thesis
  proof (cases cs)
    case Nil
    with assms(3) have "END_CLUSTER \<le> next_entry fat (disk_view s) c" by simp
    with Nil s1 c in_fat_link(1) [OF c(1)] end_above that show ?thesis by simp
  next
    case (Cons d ds)
    with assms(3) have "next_entry fat (disk_view s) c = d" "chain fat (disk_view s) (d # ds)" by auto
    moreover from this have "in_fat fat d" "d \<noteq> 0" using chain_hd by blast+
    ultimately show ?thesis using Cons s1 c in_fat_link(1) [OF c(1)] in_fat_link [of fat d] that by simp
  qed
qed

lemma all_cluster_loop_spec:
  assumes "fat_geom I fat"
  shows "fs_ok I hs s \<Longrightarrow> chain fat (disk_view s) (c # cs) \<Longrightarrow> length cs < n \<Longrightarrow>
    \<exists>s'. all_cluster_loop n fat c v s = Inr (v @ c # cs, s') \<and> fs_ok I hs s' \<and> disk_view s' = disk_view s"
proof (induction n arbitrary: c cs v s)
  case (Suc n)
  obtain nx s1 where 1: "get_next_cluster fat c s = Inr (nx, s1)" "fs_ok I hs s1" "disk_view s1 = disk_view s"
    "c AND 0x0FFFFFFF = c" "c \<noteq> 0" "nx \<noteq> 0"
    "case cs of [] \<Rightarrow> END_CLUSTER \<le> nx \<and> 0xF000000 < nx
     | d # ds \<Rightarrow> nx = d \<and> \<not> END_CLUSTER \<le> nx \<and> \<not> 0xF000000 < nx \<and> chain fat (disk_view s1) (d # ds)"
    by (rule chain_step [OF assms Suc.prems(1,2)])
  show ?case
  proof (cases cs)
    case Nil
    with 1 Suc.prems(3) show ?thesis by simp
  next
    case (Cons d ds)
    with 1 Suc.prems(3) Suc.IH [OF 1(2), of d ds "v @ [c]"] show ?thesis by (auto)
  qed
qed simp

lemma count_loop_spec:
  assumes "fat_geom I fat"
  shows "fs_ok I hs s \<Longrightarrow> chain fat (disk_view s) (c # cs) \<Longrightarrow> length cs < n \<Longrightarrow>
    \<exists>s'. count_loop n fat c k s = Inr (k + word_of_nat (length (c # cs)), s') \<and> fs_ok I hs s' \<and> disk_view s' = disk_view s"
proof (induction n arbitrary: c cs k s)
  case (Suc n)
  obtain nx s1 where 1: "get_next_cluster fat c s = Inr (nx, s1)" "fs_ok I hs s1" "disk_view s1 = disk_view s"
    "c AND 0x0FFFFFFF = c" "c \<noteq> 0" "nx \<noteq> 0"
    "case cs of [] \<Rightarrow> END_CLUSTER \<le> nx \<and> 0xF000000 < nx
     | d # ds \<Rightarrow> nx = d \<and> \<not> END_CLUSTER \<le> nx \<and> \<not> 0xF000000 < nx \<and> chain fat (disk_view s1) (d # ds)"
    by (rule chain_step [OF assms Suc.prems(1,2)])
  show ?case
  proof (cases cs)
    case Nil
    with 1 Suc.prems(3) show ?thesis by simp
  next
    case (Cons d ds)
    with 1 Suc.prems(3) Suc.IH [OF 1(2), of d ds "k + 1"] show ?thesis by (auto simp: add.assoc)
  qed
qed simp

lemma final_loop_spec:
  assumes "fat_geom I fat"
  shows "fs_ok I hs s \<Longrightarrow> chain fat (disk_view s) (c # cs) \<Longrightarrow> length cs < n \<Longrightarrow>
    \<exists>s'. final_loop n fat c s = Inr (last (c # cs), s') \<and> fs_ok I hs s' \<and> disk_view s' = disk_view s"
proof (induction n arbitrary: c cs s)
  case (Suc n)
  obtain nx s1 where 1: "get_next_cluster fat c s = Inr (nx, s1)" "fs_ok I hs s1" "disk_view s1 = disk_view s"
    "c AND 0x0FFFFFFF = c" "c \<noteq> 0" "nx \<noteq> 0"
    "case cs of [] \<Rightarrow> END_CLUSTER \<le> nx \<and> 0xF000000 < nx
     | d # ds \<Rightarrow> nx = d \<and> \<not> END_CLUSTER \<le> nx \<and> \<not> 0xF000000 < nx \<and> chain fat (disk_view s1) (d # ds)"
    by (rule chain_step [OF assms Suc.prems(1,2)])
  show ?case
  proof (cases cs)
    case Nil
    with 1 Suc.prems(3) show ?thesis by simp
  next
    case (Cons d ds)
    with 1 Suc.prems(3) Suc.IH [OF 1(2), of d ds] show ?thesis by (auto)
  qed
qed simp

lemma cluster_at_loop_spec:
  assumes "fat_geom I fat"
  shows "fs_ok I hs s \<Longrightarrow> chain fat (disk_view s) (c # cs) \<Longrightarrow> i \<le> length cs \<Longrightarrow>
    \<exists>s'. cluster_at_loop i fat c s = Inr ((c # cs) ! i, s') \<and> fs_ok I hs s' \<and> disk_view s' = disk_view s"
proof (induction i arbitrary: c cs s)
  case (Suc i)
  obtain nx s1 where 1: "get_next_cluster fat c s = Inr (nx, s1)" "fs_ok I hs s1" "disk_view s1 = disk_view s"
    "c AND 0x0FFFFFFF = c" "c \<noteq> 0" "nx \<noteq> 0"
    "case cs of [] \<Rightarrow> END_CLUSTER \<le> nx \<and> 0xF000000 < nx
     | d # ds \<Rightarrow> nx = d \<and> \<not> END_CLUSTER \<le> nx \<and> \<not> 0xF000000 < nx \<and> chain fat (disk_view s1) (d # ds)"
    by (rule chain_step [OF assms Suc.prems(1,2)])
  show ?case
  proof (cases cs)
    case Nil
    with 1 Suc.prems(3) show ?thesis by simp
  next
    case (Cons d ds)
    with 1 Suc.prems(3) Suc.IH [OF 1(2), of d ds] show ?thesis by (auto)
  qed
qed simp

section \<open>Searching a free entry\<close>

definition fat_free :: "FAT \<Rightarrow> (nat \<Rightarrow> u8 list) \<Rightarrow> u32 \<Rightarrow> bool" where
  "fat_free fat V c \<longleftrightarrow> in_fat fat c \<and> entry_of (fat1_sector fat) V c = FREE_CLUSTER"

lemma in_fat_mono: "in_fat fat c \<Longrightarrow> d \<le> c \<Longrightarrow> in_fat fat d"
  by (auto simp: in_fat_def word_le_nat_alt)

lemma next_free_loop_spec:
  assumes geom: "fat_geom I fat" and free: "fat_free fat V t"
  shows "fs_ok I hs s \<Longrightarrow> disk_view s = V \<Longrightarrow> unat cur + k = unat t \<Longrightarrow> k < n \<Longrightarrow>
    (\<forall>j. cur \<le> j \<longrightarrow> j < t \<longrightarrow> \<not> fat_free fat V j) \<Longrightarrow>
    \<exists>s'. next_free_loop n fat cur s = Inr (t, s') \<and> fs_ok I hs s' \<and> disk_view s' = V"
proof (induction k arbitrary: n cur s)
  case 0
  then obtain n' where n: "n = Suc n'" by (cases n) auto
  have cur: "cur = t" using 0 by (simp add: word_unat_eq_iff)
  have t: "in_fat fat t" using free by (simp add: fat_free_def)
  obtain f1 f2 off where p: "calculate_pos fat t = (f1, f2, off)" "unat f1 = unat (fat1_sector fat) + unat t div 128"
    "unat off = 4 * (unat t mod 128)" "unat off + 4 \<le> BLOCK_SZ" "owns I INFO (unat f1)"
    by (rule calculate_pos_nat [OF geom t])
  with cached_read_spec [OF 0(1) p(5,4), of READ de32] free 0(2) show ?case by (auto simp: n cur entry_of_def fat_free_def)
next
  case (Suc k)
  then obtain n' where n: "n = Suc n'" "k < n'" by (cases n) auto
  have lt: "cur < t" using Suc.prems(3) by (simp add: word_less_nat_alt)
  then have c: "in_fat fat cur" using free in_fat_mono [of fat t cur] by (simp add: fat_free_def)
  obtain f1 f2 off where p: "calculate_pos fat cur = (f1, f2, off)" "unat f1 = unat (fat1_sector fat) + unat cur div 128"
    "unat off = 4 * (unat cur mod 128)" "unat off + 4 \<le> BLOCK_SZ" "owns I INFO (unat f1)"
    by (rule calculate_pos_nat [OF geom c])
  obtain s1 where s1: "cached_read INFO s (unat f1) READ 4 (unat off) de32 = Inr (entry_of (fat1_sector fat) V cur, s1)"
    "fs_ok I hs s1" "disk_view s1 = V"
    using cached_read_spec [OF Suc.prems(1) p(5,4), of READ de32] p(2,3) Suc.prems(2) by (auto simp: entry_of_def)
  have "entry_of (fat1_sector fat) V cur \<noteq> FREE_CLUSTER" using Suc.prems(5) lt c by (auto simp: fat_free_def)
  moreover have "unat (cur + 1) + k = unat t" using unat_inc [OF lt] Suc.prems(3) by simp
  moreover have "\<forall>j. cur + 1 \<le> j \<longrightarrow> j < t \<longrightarrow> \<not> fat_free fat V j"
    using Suc.prems(5) unat_inc [OF lt] by (auto simp: word_le_nat_alt)
  ultimately show ?case using Suc.IH [OF s1(2,3), of "cur + 1" n'] s1(1) p(1) n by simp
qed

lemma next_free_cluster_spec:
  assumes geom: "fat_geom I fat" and ok: "fs_ok I hs s" and free: "fat_free fat (disk_view s) t" and lt: "c < t"
    and least: "\<forall>j. c < j \<longrightarrow> j < t \<longrightarrow> \<not> fat_free fat (disk_view s) j" and fuel: "unat t \<le> unat c + fuel"
  shows "\<exists>s'. next_free_cluster fuel fat c s = Inr (t, s') \<and> fs_ok I hs s' \<and> disk_view s' = disk_view s"
proof -
  have u: "unat (c + 1) = Suc (unat c)" by (rule unat_inc [OF lt])
  have lt': "unat c < unat t" using lt by (simp add: word_less_nat_alt)
  have "\<forall>j. c + 1 \<le> j \<longrightarrow> j < t \<longrightarrow> \<not> fat_free fat (disk_view s) j"
    using least u by (auto simp: word_le_nat_alt word_less_nat_alt)
  then have "\<exists>s'. next_free_loop fuel fat (c + 1) s = Inr (t, s') \<and> fs_ok I hs s' \<and> disk_view s' = disk_view s"
    using u lt' fuel by (intro next_free_loop_spec [OF geom free ok refl, where k = "unat t - Suc (unat c)"]) auto
  moreover have "t AND 0x0FFFFFFF = t" using free in_fat_link(1) [of fat t] by (simp add: fat_free_def)
  ultimately show ?thesis by (auto simp: next_free_cluster_def)
qed

text \<open>
  (C33) Walking a chain ends and is right: for a chain of the table, with as much fuel as it has
  clusters, \<open>get_all_cluster_of\<close> returns exactly its clusters in order, \<open>count_claster_num\<close> their number,
  \<open>final_cluster\<close> the last and \<open>get_cluster_at\<close> the one at every index; the disk is not changed.
\<close>

theorem fat_chain_walks:
  assumes "fat_geom I fat" and "fs_ok I hs s" and "chain fat (disk_view s) (c # cs)" and "length cs < fuel"
    and "unat i \<le> length cs"
  shows "\<exists>s1 s2 s3 s4. get_all_cluster_of fuel fat c s = Inr (c # cs, s1) \<and>
    count_claster_num fuel fat c s = Inr (word_of_nat (length (c # cs)), s2) \<and>
    final_cluster fuel fat c s = Inr (last (c # cs), s3) \<and>
    get_cluster_at fat c i s = Inr ((c # cs) ! unat i, s4) \<and>
    (\<forall>s' \<in> {s1, s2, s3, s4}. fs_ok I hs s' \<and> disk_view s' = disk_view s)"
proof -
  obtain s1 where 1: "all_cluster_loop fuel fat c [] s = Inr (c # cs, s1)" "fs_ok I hs s1" "disk_view s1 = disk_view s"
    using all_cluster_loop_spec [OF assms(1-4), of "[]"] by auto
  obtain s2 where 2: "count_loop fuel fat c 0 s = Inr (word_of_nat (length (c # cs)), s2)" "fs_ok I hs s2" "disk_view s2 = disk_view s"
    using count_loop_spec [OF assms(1-4), of 0] by auto
  obtain s3 where 3: "final_loop fuel fat c s = Inr (last (c # cs), s3)" "fs_ok I hs s3" "disk_view s3 = disk_view s"
    using final_loop_spec [OF assms(1-4)] by blast
  obtain s4 where 4: "cluster_at_loop (unat i) fat c s = Inr ((c # cs) ! unat i, s4)" "fs_ok I hs s4" "disk_view s4 = disk_view s"
    using cluster_at_loop_spec [OF assms(1-3,5)] by blast
  have "in_fat fat ((c # cs) ! unat i)" using chain_in_fat [OF assms(3), of "(c # cs) ! unat i"] assms(5) nth_mem [of "unat i" "c # cs"] by simp
  then have "(c # cs) ! unat i AND 0x0FFFFFFF = (c # cs) ! unat i" by (rule in_fat_link(1))
  moreover have "c \<noteq> 0" using chain_hd [OF assms(3)] by simp
  ultimately show ?thesis using 1 2 3 4
    by (auto simp: get_all_cluster_of_def count_claster_num_def final_cluster_def get_cluster_at_def)
qed

text \<open>
  (C34) A damaged entry is replaced by its backup: \<open>get_next_cluster\<close> reads the second copy of the table
  when the first is marked bad, reports 0 when both are, and otherwise never looks at the second.
\<close>

theorem fat_bad_entry_falls_back:
  assumes "fat_geom I fat" and "in_fat fat c" and "fs_ok I hs s"
    and "e1 = entry_of (fat1_sector fat) (disk_view s) c" and "e2 = entry_of (fat2_sector fat) (disk_view s) c"
  shows "\<exists>s' nx. get_next_cluster fat c s = Inr (nx, s') \<and> fs_ok I hs s' \<and> disk_view s' = disk_view s \<and>
    (e1 \<noteq> BAD_CLUSTER \<longrightarrow> nx = e1 AND 0x0FFFFFFF) \<and>
    (e1 = BAD_CLUSTER \<longrightarrow> e2 \<noteq> BAD_CLUSTER \<longrightarrow> nx = e2 AND 0x0FFFFFFF) \<and>
    (e1 = BAD_CLUSTER \<longrightarrow> e2 = BAD_CLUSTER \<longrightarrow> nx = 0)"
  using get_next_cluster_spec [OF assms(1-3)] assms(4,5) by (auto simp: next_entry_def)

text \<open>
  (C35) Linking a cluster changes that link in both copies of the table and nothing else: afterwards
  the cluster leads to the new successor, every other cluster to the old one, and no block
  outside the table is touched.
\<close>

theorem fat_link_round_trip:
  assumes "fat_geom I fat" and "in_fat fat c" and "in_fat fat c'" and "fs_ok I hs s" and "nx \<noteq> BAD_CLUSTER"
  shows "\<exists>s1 s2. set_next_cluster fat c nx s = Inr s1 \<and>
    get_next_cluster fat c' s1 = Inr (if c' = c then nx AND 0x0FFFFFFF else next_entry fat (disk_view s) c', s2) \<and>
    entry_of (fat1_sector fat) (disk_view s1) c = entry_of (fat2_sector fat) (disk_view s1) c \<and>
    (\<forall>b. b \<notin> fat_sectors fat \<longrightarrow> disk_view s1 b = disk_view s b)"
proof -
  obtain s1 where s1: "set_next_cluster fat c nx s = Inr s1" "fs_ok I hs s1" "fat_write fat c nx (disk_view s) (disk_view s1)"
    using set_next_cluster_spec [OF assms(1,2,4)] by blast
  obtain s2 where "get_next_cluster fat c' s1 = Inr (next_entry fat (disk_view s1) c', s2)"
    using get_next_cluster_spec [OF assms(1,3) s1(2)] by blast
  with s1(1) next_entry_write [OF s1(3) assms(3)] assms(2,5) s1(3) show ?thesis by (auto simp: fat_write_def)
qed

section \<open>A concrete table\<close>

text \<open>
  One sector per copy, at sectors 2 and 3; clusters 2, 5 and 4 form a chain, clusters 3 and 7 are free,
  and the first copy of cluster 6's entry is marked bad. The information sector 1 records 100 free
  clusters and the hint 2.
\<close>

definition example_fat :: FAT where
  "example_fat = FAT_new 2 3 1 128"

definition example_table :: "u32 \<Rightarrow> u8 list" where
  "example_table bad = concat (map le32 [0x0FFFFFF8, 0x0FFFFFFF, 5, 0, 0x0FFFFFF8, 4, bad, 0])"

definition example_disk :: "nat \<Rightarrow> u8 list" where
  "example_disk b = (if b = 2 then example_table BAD_CLUSTER else if b = 3 then example_table 9
     else if b = 1 then replicate 488 0 @ le32 100 @ le32 2 else [])"

lemma example_geom: "fat_geom {0, 1, 2, 3} example_fat" "c \<le> 127 \<Longrightarrow> in_fat example_fat c"
  by (auto simp: fat_geom_def fat_sectors_def example_fat_def FAT_new_def in_fat_def word_le_nat_alt)

lemma example_view: "disk_view (example_fs example_disk) b = take 512 (example_disk b @ replicate 512 0)"
  by (simp add: example_fs_view)

lemma slice_words: "i < length ws \<Longrightarrow> slice (4 * i) 4 (concat (map le32 ws)) = le32 (ws ! i)"
proof (induction ws arbitrary: i)
  case (Cons w ws)
  then show ?case by (cases i) (simp_all add: slice_def)
qed simp

lemma slice_padded: "k + n \<le> length xs \<Longrightarrow> k + n \<le> m \<Longrightarrow> slice k n (take m (xs @ ys)) = slice k n xs"
  by (simp add: slice_def drop_take min_def)

lemma entry_of_words:
  assumes "V (unat sec) = take 512 (concat (map le32 ws) @ pad)" and "unat c < length ws" and "length ws \<le> 128"
  shows "entry_of sec V c = ws ! unat c"
proof -
  have "length (concat (map le32 ws)) = 4 * length ws" by (induction ws) simp_all
  then have "slice (4 * unat c) 4 (take 512 (concat (map le32 ws) @ pad)) = le32 (ws ! unat c)"
    using assms(2,3) slice_words [OF assms(2)] by (subst slice_padded) simp_all
  then show ?thesis using assms by (simp add: entry_of_def del: take_append)
qed

lemma example_entry:
  "entry_of 2 (disk_view (example_fs example_disk)) 2 = 5" "entry_of 2 (disk_view (example_fs example_disk)) 5 = 4"
  "entry_of 2 (disk_view (example_fs example_disk)) 4 = 0x0FFFFFF8" "entry_of 2 (disk_view (example_fs example_disk)) 3 = 0"
  "entry_of 2 (disk_view (example_fs example_disk)) 6 = BAD_CLUSTER" "entry_of 3 (disk_view (example_fs example_disk)) 6 = 9"
  "entry_of 2 (disk_view (example_fs example_disk)) 7 = 0"
proof -
  have u: "unat (2 :: u32) = 2" "unat (3 :: u32) = 3" by simp_all
  have "disk_view (example_fs example_disk) (unat (2 :: u32)) =
      take 512 (concat (map le32 [0x0FFFFFF8, 0x0FFFFFFF, 5, 0, 0x0FFFFFF8, 4, BAD_CLUSTER, 0]) @ replicate 512 0)"
    unfolding example_view example_disk_def example_table_def u by (simp only: refl if_True)
  note v2 = entry_of_words [where V = "disk_view (example_fs example_disk)" and sec = 2, OF this]
  have "disk_view (example_fs example_disk) (unat (3 :: u32)) =
      take 512 (concat (map le32 [0x0FFFFFF8, 0x0FFFFFFF, 5, 0, 0x0FFFFFF8, 4, 9, 0]) @ replicate 512 0)"
    unfolding example_view example_disk_def example_table_def u by (simp only: num.simps numeral_eq_iff refl if_True if_False)
  note v3 = entry_of_words [where V = "disk_view (example_fs example_disk)" and sec = 3, OF this]
  have n: "unat (4 :: u32) = Suc (Suc (Suc (Suc 0)))" "unat (5 :: u32) = Suc (Suc (Suc (Suc (Suc 0))))"
    "unat (7 :: u32) = Suc (Suc (Suc (Suc (Suc (Suc (Suc 0))))))" "unat (6 :: u32) = Suc (Suc (Suc (Suc (Suc (Suc 0)))))" "unat (2 :: u32) = Suc (Suc 0)" "unat (3 :: u32) = Suc (Suc (Suc 0))"
    by simp_all
  show "entry_of 2 (disk_view (example_fs example_disk)) 2 = 5" "entry_of 2 (disk_view (example_fs example_disk)) 5 = 4"
    "entry_of 2 (disk_view (example_fs example_disk)) 4 = 0x0FFFFFF8" "entry_of 2 (disk_view (example_fs example_disk)) 3 = 0"
    "entry_of 2 (disk_view (example_fs example_disk)) 6 = BAD_CLUSTER" "entry_of 3 (disk_view (example_fs example_disk)) 6 = 9"
    "entry_of 2 (disk_view (example_fs example_disk)) 7 = 0"
    by (subst v2 v3, simp_all add: n)+
qed

lemma example_chain: "chain example_fat (disk_view (example_fs example_disk)) [2, 5, 4]"
proof -
  have link: "(5 :: u32) AND 0x0FFFFFFF = 5" "(4 :: u32) AND 0x0FFFFFFF = 4" "(0x0FFFFFF8 :: u32) AND 0x0FFFFFFF = 0x0FFFFFF8"
    by (simp_all add: mask28)
  have "fat1_sector example_fat = 2" by (simp add: example_fat_def FAT_new_def)
  then have "next_entry example_fat (disk_view (example_fs example_disk)) 2 = 5"
    "next_entry example_fat (disk_view (example_fs example_disk)) 5 = 4"
    "next_entry example_fat (disk_view (example_fs example_disk)) 4 = END_CLUSTER"
    unfolding next_entry_def by (simp_all add: example_entry link BAD_CLUSTER_def END_CLUSTER_def del: numeral_and_num)
  then show ?thesis using example_geom(2) by (simp add: END_CLUSTER_def)
qed

theorem fat_chain_walks_witness:
  "\<exists>s1 s2 s3 s4. get_all_cluster_of 3 example_fat 2 (example_fs example_disk) = Inr ([2, 5, 4], s1) \<and>
    count_claster_num 3 example_fat 2 (example_fs example_disk) = Inr (3, s2) \<and>
    final_cluster 3 example_fat 2 (example_fs example_disk) = Inr (4, s3) \<and>
    get_cluster_at example_fat 2 1 (example_fs example_disk) = Inr (5, s4)"
  using fat_chain_walks [OF example_geom(1) example_fs_ok example_chain, of 3 1] by auto

theorem fat_bad_entry_falls_back_witness:
  "\<exists>s'. get_next_cluster example_fat 6 (example_fs example_disk) = Inr (9, s')"
proof -
  have e: "entry_of (fat1_sector example_fat) (disk_view (example_fs example_disk)) 6 = BAD_CLUSTER"
    "entry_of (fat2_sector example_fat) (disk_view (example_fs example_disk)) 6 = 9"
    using example_entry(5,6) by (simp_all add: example_fat_def FAT_new_def)
  have "(9 :: u32) \<noteq> BAD_CLUSTER" "(9 :: u32) AND 0x0FFFFFFF = 9" by (simp_all add: BAD_CLUSTER_def)
  with fat_bad_entry_falls_back [OF example_geom(1) example_geom(2) example_fs_ok [where d = example_disk] e [symmetric]]
  show ?thesis by auto
qed

theorem fat_link_round_trip_witness:
  "\<exists>s1 s2. set_next_cluster example_fat 3 7 (example_fs example_disk) = Inr s1 \<and>
    get_next_cluster example_fat 3 s1 = Inr (7, s2)"
  using fat_link_round_trip [OF example_geom(1) example_geom(2) [of 3] example_geom(2) [of 3] example_fs_ok, of 7 example_disk]
  by (auto simp: BAD_CLUSTER_def)

end
