(* ===== verification/Fat_Manager.thy ===== *)
theory Fat_Manager
  imports Fat_Table
begin

text \<open>
  The file-system manager (fat32/src/fat.rs): mounting, allocation and release of clusters, sizes and
  offsets, and the conversion of file names. The manager's fields do not change after mounting
  except the root directory's entry, which is passed along with it. Sector numbers are computed in
  \<open>usize\<close>, with its wrap-around, and used as block numbers.
\<close>

record FAT32Manager =
  fsinfo :: FSInfo
  sectors_per_cluster :: u32
  bytes_per_sector :: u32
  bytes_per_cluster :: u32
  fat :: FAT
  root_sec :: u32
  mtotal_sectors :: u32
  vroot_dirent :: ShortDirEntry

definition create_fat :: "nat \<Rightarrow> 'd fs_state \<Rightarrow> 'd fs_state res" where
  "create_fat b s =
     bindR (get_cache INFO s b WRITE) (\<lambda>(h, s1).
     bindR (handle_modify INFO s1 h 8 0 (\<lambda>_. le64 0xFFFFFFFFFFFFFFFF)) (\<lambda>s2.
     handle_modify INFO s2 h 4 8 (\<lambda>_. le32 0x0FFFFFFF)))"

definition first_sector_of_cluster :: "FAT32Manager \<Rightarrow> u32 \<Rightarrow> nat" where
  "first_sector_of_cluster m cluster =
     unat ((ucast cluster - 2) * ucast (sectors_per_cluster m) + ucast (root_sec m) :: usize)"

definition FAT32Manager_open :: "'d fs_state \<Rightarrow> (FAT32Manager \<times> 'd fs_state) res" where
  "FAT32Manager_open s0 =
     (let s = set_start_sec 0 s0 in
      bindR (cached_read INFO s 0 READ 36 0 FatBS_of_bytes) (\<lambda>(boot_sec, s1).
      bindR (cached_read INFO s1 0 READ 31 36 FatExtBS_of_bytes) (\<lambda>(ext_boot_sec, s2).
      let info = FSInfo_new (fat_info_sec ext_boot_sec) in
      bindR (check_signature info s2) (\<lambda>(ok, s3).
      bindR (assertR ok) (\<lambda>_.
      let spc = ucast (bs_sectors_per_cluster boot_sec);
          bps = ucast (bs_bytes_per_sector boot_sec);
          fat_n_sec = fat_size ext_boot_sec;
          fat1_sector = first_fat_sector boot_sec;
          fat2_sector = fat1_sector + fat_n_sec;
          fat_n_entry = fat_n_sec * bps div 4
      in bindR (ShortDirEntry_new [0x2F, 0x20, 0x20, 0x20, 0x20, 0x20, 0x20, 0x20] [0x20, 0x20, 0x20]
           ATTRIBUTE_DIRECTORY) (\<lambda>root.
      Inr (\<lparr>fsinfo = info, sectors_per_cluster = spc, bytes_per_sector = bps, bytes_per_cluster = spc * bps,
            fat = FAT_new fat1_sector fat2_sector fat_n_sec fat_n_entry,
            root_sec = ucast (table_count boot_sec) * fat_n_sec + ucast (reserved_sector_count boot_sec),
            mtotal_sectors = total_sectors boot_sec, vroot_dirent = set_first_cluster 2 root\<rparr>, s3)))))))"

definition free_clusters :: "FAT32Manager \<Rightarrow> 'd fs_state \<Rightarrow> (u32 \<times> 'd fs_state) res" where
  "free_clusters m s = read_free_clusters (fsinfo m) s"

fun clear_sectors :: "nat \<Rightarrow> nat \<Rightarrow> 'd fs_state \<Rightarrow> 'd fs_state res" where
  "clear_sectors sec 0 s = Inr s"
| "clear_sectors sec (Suc n) s =
     bindR (cached_modify DATA s sec WRITE 512 0 (\<lambda>_. replicate 512 0)) (clear_sectors (Suc sec) n)"

definition clear_cluster :: "FAT32Manager \<Rightarrow> u32 \<Rightarrow> 'd fs_state \<Rightarrow> 'd fs_state res" where
  "clear_cluster m c s = clear_sectors (first_sector_of_cluster m c) (unat (sectors_per_cluster m)) s"

fun alloc_loop :: "nat \<Rightarrow> nat \<Rightarrow> FAT32Manager \<Rightarrow> u32 \<Rightarrow> 'd fs_state \<Rightarrow> (u32 \<times> 'd fs_state) res" where
  "alloc_loop 0 fuel m current s = Inr (current, s)"
| "alloc_loop (Suc k) fuel m current s =
     bindR (clear_cluster m current s) (\<lambda>s1.
     bindR (next_free_cluster fuel (fat m) current s1) (\<lambda>(next, s2).
     bindR (assertR (next \<noteq> 0)) (\<lambda>_.
     bindR (set_next_cluster (fat m) current next s2) (\<lambda>s3.
     alloc_loop k fuel m next s3))))"

definition alloc_cluster :: "nat \<Rightarrow> FAT32Manager \<Rightarrow> u32 \<Rightarrow> 'd fs_state \<Rightarrow> (u32 option \<times> 'd fs_state) res" where
  "alloc_cluster fuel m num s =
     bindR (free_clusters m s) (\<lambda>(free, s1).
     if num > free then Inr (None, s1)
     else
       bindR (first_free_cluster (fsinfo m) s1) (\<lambda>(prev_cluster, s2).
       bindR (next_free_cluster fuel (fat m) prev_cluster s2) (\<lambda>(first, s3).
       bindR (alloc_loop (unat num - 1) fuel m first s3) (\<lambda>(current, s4).
       bindR (clear_cluster m current s4) (\<lambda>s5.
       bindR (set_end (fat m) current s5) (\<lambda>s6.
       bindR (write_free_clusters (fsinfo m) (free - num) s6) (\<lambda>s7.
       bindR (write_first_free_cluster (fsinfo m) current s7) (\<lambda>s8.
       Inr (Some first, write_to_dev s8)))))))))"

fun free_loop :: "FAT32Manager \<Rightarrow> u32 list \<Rightarrow> 'd fs_state \<Rightarrow> 'd fs_state res" where
  "free_loop m [] s = Inr s"
| "free_loop m (c # cs) s = bindR (set_next_cluster (fat m) c FREE_CLUSTER s) (free_loop m cs)"

definition dealloc_cluster :: "FAT32Manager \<Rightarrow> u32 list \<Rightarrow> 'd fs_state \<Rightarrow> 'd fs_state res" where
  "dealloc_cluster m clusters s =
     bindR (free_clusters m s) (\<lambda>(free, s1).
     bindR (free_loop m clusters s1) (\<lambda>s2.
     if length clusters > 0 then
       bindR (write_free_clusters (fsinfo m) (free + word_of_nat (length clusters)) s2) (\<lambda>s3.
       if clusters ! 0 > 2 then
         bindR (first_free_cluster (fsinfo m) s3) (\<lambda>(hint, s4).
         if clusters ! 0 < hint then write_first_free_cluster (fsinfo m) (clusters ! 0 - 1) s4 else Inr s4)
       else Inr s3)
     else Inr s2))"

definition size_to_clusters :: "FAT32Manager \<Rightarrow> u32 \<Rightarrow> u32 res" where
  "size_to_clusters m sz =
     (if bytes_per_cluster m = 0 then Inl DivideByZero
      else Inr ((sz + bytes_per_cluster m - 1) div bytes_per_cluster m))"

definition cluster_of_offset :: "FAT32Manager \<Rightarrow> nat \<Rightarrow> u32 res" where
  "cluster_of_offset m offset =
     (if bytes_per_cluster m = 0 then Inl DivideByZero else Inr (word_of_nat offset div bytes_per_cluster m))"

definition cluster_num_needed ::
  "nat \<Rightarrow> FAT32Manager \<Rightarrow> u32 \<Rightarrow> u32 \<Rightarrow> bool \<Rightarrow> u32 \<Rightarrow> 'd fs_state \<Rightarrow> (u32 \<times> 'd fs_state) res" where
  "cluster_num_needed fuel m old_size new_size dir first s =
     (if old_size \<ge> new_size then Inr (0, s)
      else if dir then
        bindR (count_claster_num fuel (fat m) first s) (\<lambda>(old_clusters, s1).
        bindR (size_to_clusters m new_size) (\<lambda>n. Inr (n - old_clusters, s1)))
      else
        bindR (size_to_clusters m new_size) (\<lambda>n.
        bindR (size_to_clusters m old_size) (\<lambda>k. Inr (n - k, s))))"

section \<open>Names\<close>

fun split_chars :: "u8 list \<Rightarrow> nat list \<Rightarrow> u8 list" where
  "split_chars name [] = []"
| "split_chars name (j # js) =
     (if j < length name then name ! j # split_chars name js
      else if j > length name then 0xFF # split_chars name js
      else [0])"

definition long_name_split :: "u8 list \<Rightarrow> u8 list list" where
  "long_name_split name =
     (let n_ent = (length name + LONG_NAME_LEN - 1) div LONG_NAME_LEN
      in map (\<lambda>i. split_chars name [i * LONG_NAME_LEN..<i * LONG_NAME_LEN + LONG_NAME_LEN]) [0..<n_ent])"

fun split_dots :: "u8 list \<Rightarrow> u8 list list" where
  "split_dots [] = [[]]"
| "split_dots (c # cs) =
     (if c = 46 then [] # split_dots cs
      else case split_dots cs of [] \<Rightarrow> [[c]] | p # ps \<Rightarrow> (c # p) # ps)"

definition split_name_ext :: "u8 list \<Rightarrow> u8 list \<times> u8 list" where
  "split_name_ext name =
     (let parts = split_dots name; parts' = (if length parts = 1 then parts @ [[]] else parts)
      in (parts' ! 0, parts' ! 1))"

definition pad_upper :: "nat \<Rightarrow> u8 list \<Rightarrow> u8 list" where
  "pad_upper n bs = map (\<lambda>i. if i \<ge> length bs then 0x20 else to_ascii_uppercase (bs ! i)) [0..<n]"

definition short_name_format :: "u8 list \<Rightarrow> u8 list \<times> u8 list" where
  "short_name_format name =
     (let (nm, ext) = (if name = [46] \<or> name = [46, 46] then (name, []) else split_name_ext name)
      in (pad_upper 8 nm, pad_upper 3 ext))"

fun upper_prefix :: "u8 list \<Rightarrow> nat list \<Rightarrow> u8 list res" where
  "upper_prefix name [] = Inr []"
| "upper_prefix name (i # js) =
     bindR (indexR name i) (\<lambda>c. bindR (upper_prefix name js) (\<lambda>cs. Inr (to_ascii_uppercase c # cs)))"

definition generate_short_name :: "u8 list \<Rightarrow> u8 list res" where
  "generate_short_name long_name =
     (case split_name_ext long_name of (name, ext) \<Rightarrow>
      bindR (upper_prefix name [0..<6]) (\<lambda>p.
      bindR (upper_prefix name [0..<min 3 (length ext)]) (\<lambda>x.
      Inr (p @ [126, 49] @ x @ replicate (3 - length ext) 0x20))))"

definition cache_write_back :: "'d fs_state \<Rightarrow> 'd fs_state" where
  "cache_write_back s = write_to_dev s"

end
