(* ===== verification/Fat_Alloc.thy ===== *)
theory Fat_Alloc
  imports Fat_Manager
begin

text \<open>
  Allocation and release of clusters: what \<open>alloc_cluster\<close> and \<open>dealloc_cluster\<close> of
  fat32/src/fat.rs do to the table, the information sector and the data sectors.
\<close>

definition cluster_sectors :: "FAT32Manager \<Rightarrow> u32 \<Rightarrow> nat set" where
  "cluster_sectors m c = {first_sector_of_cluster m c..<first_sector_of_cluster m c + unat (sectors_per_cluster m)}"

definition info_sec :: "FAT32Manager \<Rightarrow> nat" where
  "info_sec m = unat (sector_num (fsinfo m))"

text \<open>The table and the information sector are information blocks, apart from each other.\<close>

definition manager_geom :: "nat set \<Rightarrow> FAT32Manager \<Rightarrow> bool" where
  "manager_geom I m \<longleftrightarrow> fat_geom I (fat m) \<and> info_sec m \<in> I \<and> info_sec m \<notin> fat_sectors (fat m)"

definition free_count :: "FAT32Manager \<Rightarrow> (nat \<Rightarrow> u8 list) \<Rightarrow> u32" where
  "free_count m V = de32 (slice 488 4 (V (info_sec m)))"

definition free_hint :: "FAT32Manager \<Rightarrow> (nat \<Rightarrow> u8 list) \<Rightarrow> u32" where
  "free_hint m V = de32 (slice 492 4 (V (info_sec m)))"

lemma manager_geomD:
  assumes "manager_geom I m"
  shows "fat_geom I (fat m)" "owns I INFO (info_sec m)" "info_sec m \<notin> fat_sectors (fat m)" "fat_sectors (fat m) \<subseteq> I"
  using assms by (auto simp: manager_geom_def owns_def fat_geom_def)

lemma free_clusters_spec:
  assumes "manager_geom I m" and "fs_ok I hs s"
  shows "\<exists>s'. free_clusters m s = Inr (free_count m (disk_view s), s') \<and> fs_ok I hs s' \<and> disk_view s' = disk_view s"
  using cached_read_spec [OF assms(2) manager_geomD(2) [OF assms(1)], of 488 4 READ de32]
  by (simp add: free_clusters_def read_free_clusters_def free_count_def info_sec_def BLOCK_SZ_def)

lemma first_free_cluster_spec:
  assumes "manager_geom I m" and "fs_ok I hs s"
  shows "\<exists>s'. first_free_cluster (fsinfo m) s = Inr (free_hint m (disk_view s), s') \<and> fs_ok I hs s' \<and> disk_view s' = disk_view s"
  using cached_read_spec [OF assms(2) manager_geomD(2) [OF assms(1)], of 492 4 READ de32]
  by (simp add: first_free_cluster_def free_hint_def info_sec_def BLOCK_SZ_def)

text \<open>Writing a field of the information sector changes that field only.\<close>

definition info_write :: "FAT32Manager \<Rightarrow> u32 \<Rightarrow> u32 \<Rightarrow> (nat \<Rightarrow> u8 list) \<Rightarrow> (nat \<Rightarrow> u8 list) \<Rightarrow> bool" where
  "info_write m count hint V V' \<longleftrightarrow> free_count m V' = count \<and> free_hint m V' = hint \<and> (\<forall>b. b \<noteq> info_sec m \<longrightarrow> V' b = V b)"

lemma info_write_trans:
  "info_write m a b V V' \<Longrightarrow> info_write m c d V' V'' \<Longrightarrow> info_write m c d V V''"
  by (simp add: info_write_def)

lemma write_info_spec:
  assumes "manager_geom I m" and "fs_ok I hs s"
  shows "\<exists>s'. write_free_clusters (fsinfo m) n s = Inr s' \<and> fs_ok I hs s' \<and>
      info_write m n (free_hint m (disk_view s)) (disk_view s) (disk_view s')"
    and "\<exists>s'. write_first_free_cluster (fsinfo m) n s = Inr s' \<and> fs_ok I hs s' \<and>
      info_write m (free_count m (disk_view s)) n (disk_view s) (disk_view s')"
proof -
  let ?b = "info_sec m"
  have len: "length (disk_view s ?b) = 512" using disk_view_length [OF assms(2)] by (simp add: BLOCK_SZ_def)
  have sl: "slice 488 4 (overwrite 488 (le32 n) (disk_view s ?b)) = le32 n"
    "slice 492 4 (overwrite 492 (le32 n) (disk_view s ?b)) = le32 n"
    "slice 492 4 (overwrite 488 (le32 n) (disk_view s ?b)) = slice 492 4 (disk_view s ?b)"
    "slice 488 4 (overwrite 492 (le32 n) (disk_view s ?b)) = slice 488 4 (disk_view s ?b)"
    using len by (auto intro!: slice_overwrite_same slice_overwrite_disjoint)
  obtain s1 where "cached_modify INFO s ?b WRITE 4 488 (\<lambda>_. le32 n) = Inr s1" "fs_ok I hs s1"
    "disk_view s1 = (disk_view s)(?b := overwrite 488 (le32 n) (disk_view s ?b))"
    using cached_modify_spec [OF assms(2) manager_geomD(2) [OF assms(1)], of 488 4 "\<lambda>_. le32 n" WRITE] by (auto simp: BLOCK_SZ_def)
  with sl show "\<exists>s'. write_free_clusters (fsinfo m) n s = Inr s' \<and> fs_ok I hs s' \<and>
      info_write m n (free_hint m (disk_view s)) (disk_view s) (disk_view s')"
    by (simp add: write_free_clusters_def info_write_def free_count_def free_hint_def flip: info_sec_def)
  obtain s2 where "cached_modify INFO s ?b WRITE 4 492 (\<lambda>_. le32 n) = Inr s2" "fs_ok I hs s2"
    "disk_view s2 = (disk_view s)(?b := overwrite 492 (le32 n) (disk_view s ?b))"
    using cached_modify_spec [OF assms(2) manager_geomD(2) [OF assms(1)], of 492 4 "\<lambda>_. le32 n" WRITE] by (auto simp: BLOCK_SZ_def)
  with sl show "\<exists>s'. write_first_free_cluster (fsinfo m) n s = Inr s' \<and> fs_ok I hs s' \<and>
      info_write m (free_count m (disk_view s)) n (disk_view s) (disk_view s')"
    by (simp add: write_first_free_cluster_def info_write_def free_count_def free_hint_def flip: info_sec_def)
qed

section \<open>Clearing a cluster\<close>

definition zeroed :: "nat set \<Rightarrow> (nat \<Rightarrow> u8 list) \<Rightarrow> nat \<Rightarrow> u8 list" where
  "zeroed S V b = (if b \<in> S then replicate 512 0 else V b)"

lemma clear_sectors_spec:
  assumes "fs_ok I hs s" and "{sec..<sec + n} \<inter> I = {}"
  shows "\<exists>s'. clear_sectors sec n s = Inr s' \<and> fs_ok I hs s' \<and> disk_view s' = zeroed {sec..<sec + n} (disk_view s)"
  using assms
proof (induction n arbitrary: sec s)
  case 0
  then show ?case by (simp add: zeroed_def)
next
  case (Suc n)
  have "sec \<in> {sec..<sec + Suc n}" by simp
  with Suc.prems(2) have "sec \<notin> I" by blast
  then have own: "owns I DATA sec" by (simp add: owns_def)
  obtain s1 where s1: "cached_modify DATA s sec WRITE 512 0 (\<lambda>_. replicate 512 0) = Inr s1" "fs_ok I hs s1"
    "disk_view s1 = (disk_view s)(sec := overwrite 0 (replicate 512 0) (disk_view s sec))"
    using cached_modify_spec [OF Suc.prems(1) own, of 0 512 "\<lambda>_. replicate 512 0" WRITE] by (auto simp: BLOCK_SZ_def)
  have ow: "overwrite 0 (replicate 512 0) (disk_view s sec) = replicate 512 0"
    using disk_view_length [OF Suc.prems(1), of sec] by (intro overwrite_all) (simp add: BLOCK_SZ_def)
  have "{Suc sec..<Suc sec + n} \<subseteq> {sec..<sec + Suc n}" by auto
  with Suc.prems(2) have "{Suc sec..<Suc sec + n} \<inter> I = {}" by blast
  then obtain s2 where s2: "clear_sectors (Suc sec) n s1 = Inr s2" "fs_ok I hs s2"
    "disk_view s2 = zeroed {Suc sec..<Suc sec + n} (disk_view s1)" using Suc.IH [OF s1(2)] by blast
  have "disk_view s2 = zeroed {sec..<sec + Suc n} (disk_view s)"
    unfolding s2(3) s1(3) ow by (rule ext) (auto simp: zeroed_def)
  with s1(1) s2 show ?case by auto
qed

lemma clear_cluster_spec:
  assumes "fs_ok I hs s" and "cluster_sectors m c \<inter> I = {}"
  shows "\<exists>s'. clear_cluster m c s = Inr s' \<and> fs_ok I hs s' \<and> disk_view s' = zeroed (cluster_sectors m c) (disk_view s)"
  using clear_sectors_spec [OF assms(1), of "first_sector_of_cluster m c" "unat (sectors_per_cluster m)"] assms(2)
  by (simp add: clear_cluster_def cluster_sectors_def)

section \<open>Allocation\<close>

text \<open>\<open>free_run fat V h cs\<close>: \<open>cs\<close> are the next free clusters above \<open>h\<close>, in order.\<close>

fun free_run :: "FAT \<Rightarrow> (nat \<Rightarrow> u8 list) \<Rightarrow> u32 \<Rightarrow> u32 list \<Rightarrow> bool" where
  "free_run f V h [] \<longleftrightarrow> True"
| "free_run f V h (c # cs) \<longleftrightarrow>
     h < c \<and> fat_free f V c \<and> (\<forall>j. h < j \<longrightarrow> j < c \<longrightarrow> \<not> fat_free f V j) \<and> free_run f V c cs"

lemma free_run_above: "free_run f V h cs \<Longrightarrow> c \<in> set cs \<Longrightarrow> h < c \<and> fat_free f V c"
  by (induction cs arbitrary: h) (auto dest: less_trans)

lemma free_run_distinct: "free_run f V h cs \<Longrightarrow> distinct (h # cs)"
  by (induction cs arbitrary: h) (auto dest: free_run_above)

lemma entry_cong:
  assumes "\<forall>b \<in> fat_sectors f. V' b = V b" and "in_fat f c"
  shows "entry_of (fat1_sector f) V' c = entry_of (fat1_sector f) V c"
    and "entry_of (fat2_sector f) V' c = entry_of (fat2_sector f) V c"
proof -
  have "unat c div 128 < unat (n_sectors f)" using assms(2) by (simp add: in_fat_def less_mult_imp_div_less mult.commute)
  then have "unat (fat1_sector f) + unat c div 128 \<in> fat_sectors f" "unat (fat2_sector f) + unat c div 128 \<in> fat_sectors f"
    by (auto simp: fat_sectors_def)
  then show "entry_of (fat1_sector f) V' c = entry_of (fat1_sector f) V c"
    "entry_of (fat2_sector f) V' c = entry_of (fat2_sector f) V c" using assms(1) by (simp_all add: entry_of_def)
qed

lemma free_run_cong:
  assumes "\<forall>c. h < c \<longrightarrow> fat_free f V' c = fat_free f V c" and "free_run f V h cs"
  shows "free_run f V' h cs"
  using assms
proof (induction cs arbitrary: h)
  case (Cons c cs)
  then have "\<forall>d. c < d \<longrightarrow> fat_free f V' d = fat_free f V d" using less_trans by auto
  with Cons show ?case by auto
qed simp

text \<open>
  The effect on the disk of linking \<open>cs\<close> in order: both copies lead from each cluster to the next, the
  sectors in \<open>S\<close> are zero, the rest is as before.
\<close>

definition linked :: "FAT \<Rightarrow> u32 list \<Rightarrow> nat set \<Rightarrow> (nat \<Rightarrow> u8 list) \<Rightarrow> (nat \<Rightarrow> u8 list) \<Rightarrow> bool" where
  "linked f cs S V V' \<longleftrightarrow>
     (\<forall>c. in_fat f c \<longrightarrow>
        entry_of (fat1_sector f) V' c = (case map_of (zip cs (tl cs)) c of Some d \<Rightarrow> d | None \<Rightarrow> entry_of (fat1_sector f) V c) \<and>
        entry_of (fat2_sector f) V' c = (case map_of (zip cs (tl cs)) c of Some d \<Rightarrow> d | None \<Rightarrow> entry_of (fat2_sector f) V c)) \<and>
     (\<forall>b. b \<notin> fat_sectors f \<longrightarrow> V' b = zeroed S V b)"

lemma alloc_loop_spec:
  assumes geom: "manager_geom I m"
  shows "fs_ok I hs s \<Longrightarrow> free_run (fat m) (disk_view s) cur ds \<Longrightarrow> in_fat (fat m) cur \<Longrightarrow>
    (\<forall>c \<in> set (butlast (cur # ds)). cluster_sectors m c \<inter> I = {}) \<Longrightarrow> (\<forall>d \<in> set ds. unat d \<le> fuel) \<Longrightarrow>
    \<exists>s'. alloc_loop (length ds) fuel m cur s = Inr (last (cur # ds), s') \<and> fs_ok I hs s' \<and>
      linked (fat m) (cur # ds) (\<Union>c \<in> set (butlast (cur # ds)). cluster_sectors m c) (disk_view s) (disk_view s')"
proof (induction ds arbitrary: cur s)
  case Nil
  then show ?case by (simp add: linked_def zeroed_def)
next
  case (Cons d ds)
  let ?V = "disk_view s" and ?f = "fat m"
  note fg = manager_geomD(1) [OF geom]
  have run: "cur < d" "fat_free ?f ?V d" "\<forall>j. cur < j \<longrightarrow> j < d \<longrightarrow> \<not> fat_free ?f ?V j" "free_run ?f ?V d ds"
    using Cons.prems(2) by auto
  then have d: "in_fat ?f d" "d \<noteq> 0" using word_gt_0 [of d] le_less_trans [OF word_zero_le] by (auto simp: fat_free_def)
  have data: "cluster_sectors m cur \<inter> I = {}" using Cons.prems(4) by simp
  obtain s1 where s1: "clear_cluster m cur s = Inr s1" "fs_ok I hs s1" "disk_view s1 = zeroed (cluster_sectors m cur) ?V"
    using clear_cluster_spec [OF Cons.prems(1) data] by blast
  have same: "\<forall>b \<in> fat_sectors ?f. disk_view s1 b = ?V b"
    using data manager_geomD(4) [OF geom] unfolding s1(3) by (auto simp: zeroed_def)
  have free1: "fat_free ?f (disk_view s1) c = fat_free ?f ?V c" for c
    using entry_cong(1) [OF same, of c] by (auto simp: fat_free_def)
  obtain s2 where s2: "next_free_cluster fuel ?f cur s1 = Inr (d, s2)" "fs_ok I hs s2" "disk_view s2 = disk_view s1"
    using next_free_cluster_spec [OF fg s1(2), of d cur fuel] run Cons.prems(5) free1 by auto
  obtain s3 where s3: "set_next_cluster ?f cur d s2 = Inr s3" "fs_ok I hs s3" "fat_write ?f cur d (disk_view s1) (disk_view s3)"
    using set_next_cluster_spec [OF fg Cons.prems(3) s2(2), of d] unfolding s2(3) by blast
  have E: "entry_of (fat1_sector ?f) (disk_view s3) c = (if c = cur then d else entry_of (fat1_sector ?f) ?V c)"
    "entry_of (fat2_sector ?f) (disk_view s3) c = (if c = cur then d else entry_of (fat2_sector ?f) ?V c)" if "in_fat ?f c" for c
    using s3(3) that entry_cong [OF same that] by (auto simp: fat_write_def)
  have "\<forall>c. d < c \<longrightarrow> fat_free ?f (disk_view s3) c = fat_free ?f ?V c"
    using E(1) run(1) by (metis fat_free_def less_asym)
  then have run3: "free_run ?f (disk_view s3) d ds" using run(4) by (rule free_run_cong)
  obtain s4 where s4: "alloc_loop (length ds) fuel m d s3 = Inr (last (d # ds), s4)" "fs_ok I hs s4"
    "linked ?f (d # ds) (\<Union>c \<in> set (butlast (d # ds)). cluster_sectors m c) (disk_view s3) (disk_view s4)"
    using Cons.IH [OF s3(2) run3 d(1)] Cons.prems(4,5) by auto
  have "cur \<notin> set (d # ds)" using free_run_distinct [OF Cons.prems(2)] by simp
  then have none: "map_of (zip (d # ds) ds) cur = None" by (auto simp: map_of_eq_None_iff dest: set_zip_leftD)
  have "linked ?f (cur # d # ds) (\<Union>c \<in> set (butlast (cur # d # ds)). cluster_sectors m c) ?V (disk_view s4)"
    unfolding linked_def
  proof (intro conjI allI impI)
    fix c assume c: "in_fat ?f c"
    show "entry_of (fat1_sector ?f) (disk_view s4) c =
        (case map_of (zip (cur # d # ds) (tl (cur # d # ds))) c of Some d \<Rightarrow> d | None \<Rightarrow> entry_of (fat1_sector ?f) ?V c)"
      "entry_of (fat2_sector ?f) (disk_view s4) c =
        (case map_of (zip (cur # d # ds) (tl (cur # d # ds))) c of Some d \<Rightarrow> d | None \<Rightarrow> entry_of (fat2_sector ?f) ?V c)"
      using s4(3) c E [OF c] none by (auto simp: linked_def split: option.split)
  next
    fix b assume b: "b \<notin> fat_sectors ?f"
    then have "disk_view s3 b = disk_view s1 b" using s3(3) by (simp add: fat_write_def)
    with b s4(3) s1(3) show "disk_view s4 b = zeroed (\<Union>c \<in> set (butlast (cur # d # ds)). cluster_sectors m c) ?V b"
      by (auto simp: linked_def zeroed_def)
  qed
  then show ?case using s1(1) s2(1) s3(1) s4 d(2) by simp
qed

lemma chain_from_links:
  assumes "distinct cs" and "cs \<noteq> []" and "\<forall>c \<in> set cs. in_fat f c \<and> c \<noteq> 0"
    and "\<forall>c \<in> set cs. c \<noteq> last cs \<longrightarrow> map_of (zip cs (tl cs)) c = Some (next_entry f V c)"
    and "END_CLUSTER \<le> next_entry f V (last cs)"
  shows "chain f V cs"
  using assms
proof (induction cs)
  case (Cons c cs)
  show ?case
  proof (cases cs)
    case Nil
    then show ?thesis using Cons.prems by simp
  next
    case (Cons d ds)
    have neq: "c \<noteq> last (d # ds)" using Cons.prems(1) Cons by (metis distinct.simps(2) last_in_set list.distinct(1))
    then have "next_entry f V c = d" using Cons.prems(4) Cons by auto
    moreover have "map_of (zip cs (tl cs)) x = Some (next_entry f V x)" if "x \<in> set cs" "x \<noteq> last cs" for x
    proof -
      have "x \<noteq> c" using that(1) Cons.prems(1) by auto
      then show ?thesis using Cons.prems(4) that Cons by auto
    qed
    ultimately show ?thesis using Cons.prems Cons Cons.IH by auto
  qed
qed simp

lemma map_of_successor:
  "x \<in> set cs \<Longrightarrow> x \<noteq> last cs \<Longrightarrow> \<exists>d \<in> set cs. map_of (zip cs (tl cs)) x = Some d"
proof (induction cs)
  case (Cons c cs)
  then show ?case by (cases cs) (auto split: if_splits)
qed simp

lemma map_of_successor_dom: "map_of (zip cs (tl cs)) x \<noteq> None \<Longrightarrow> x \<in> set cs"
  by (auto dest: map_of_SomeD set_zip_leftD)

text \<open>What a successful allocation of \<open>cs\<close> does to the links, the information sector and the data.\<close>

definition allocated :: "FAT32Manager \<Rightarrow> u32 list \<Rightarrow> (nat \<Rightarrow> u8 list) \<Rightarrow> (nat \<Rightarrow> u8 list) \<Rightarrow> bool" where
  "allocated m cs V V' \<longleftrightarrow>
     (\<forall>x. in_fat (fat m) x \<longrightarrow> next_entry (fat m) V' x =
        (if x = last cs then END_CLUSTER
         else case map_of (zip cs (tl cs)) x of
           Some d \<Rightarrow> (if d = BAD_CLUSTER then 0 else d AND 0x0FFFFFFF) | None \<Rightarrow> next_entry (fat m) V x)) \<and>
     info_write m (free_count m V - word_of_nat (length cs)) (last cs) V' V' \<and>
     (\<forall>b. b \<notin> fat_sectors (fat m) \<longrightarrow> b \<noteq> info_sec m \<longrightarrow> V' b = zeroed (\<Union>x \<in> set cs. cluster_sectors m x) V b)"

lemma allocated_chain:
  assumes "allocated m cs V V'" and "distinct cs" and "cs \<noteq> []" and inf: "\<forall>x \<in> set cs. in_fat (fat m) x \<and> x \<noteq> 0"
  shows "chain (fat m) V' cs"
    and "in_fat (fat m) x \<Longrightarrow> x \<notin> set cs \<Longrightarrow> next_entry (fat m) V' x = next_entry (fat m) V x"
proof -
  note link = assms(1) [unfolded allocated_def, THEN conjunct1, rule_format]
  show "chain (fat m) V' cs"
  proof (rule chain_from_links [OF assms(2,3) inf])
    show "\<forall>x \<in> set cs. x \<noteq> last cs \<longrightarrow> map_of (zip cs (tl cs)) x = Some (next_entry (fat m) V' x)"
    proof (intro ballI impI)
      fix x assume x: "x \<in> set cs" "x \<noteq> last cs"
      from map_of_successor [OF this] obtain d where d: "d \<in> set cs" "map_of (zip cs (tl cs)) x = Some d" by (rule bexE)
      from inf d(1) have "in_fat (fat m) d" by simp
      then have "d AND 0x0FFFFFFF = d" "d \<noteq> BAD_CLUSTER"
        using in_fat_link(1,3) [of "fat m" d] by (simp, force simp: BAD_CLUSTER_def)
      with link [of x] inf x d show "map_of (zip cs (tl cs)) x = Some (next_entry (fat m) V' x)" by simp
    qed
    show "END_CLUSTER \<le> next_entry (fat m) V' (last cs)" using link [of "last cs"] inf assms(3) by simp
  qed
  show "next_entry (fat m) V' x = next_entry (fat m) V x" if "in_fat (fat m) x" "x \<notin> set cs"
  proof -
    have "map_of (zip cs (tl cs)) x = None" using map_of_successor_dom [of cs x] that(2) by blast
    moreover have "x \<noteq> last cs" using that(2) last_in_set [OF assms(3)] by blast
    ultimately have "map_of (zip cs (tl cs)) x = None" "x \<noteq> last cs" .
    with link [OF that(1)] show ?thesis by simp
  qed
qed

text \<open>Terminating the new chain, clearing its last cluster and updating the information sector.\<close>

lemma finish_allocation:
  assumes geom: "manager_geom I m" and ok: "fs_ok I [] s" and inf: "in_fat (fat m) (last cs)" and ne: "cs \<noteq> []"
    and lk: "linked (fat m) cs (\<Union>x \<in> set (butlast cs). cluster_sectors m x) V (disk_view s)"
    and data: "\<forall>x \<in> set cs. cluster_sectors m x \<inter> I = {}" and n: "n = free_count m V - word_of_nat (length cs)"
  shows "\<exists>s5 s6 s7 s8. clear_cluster m (last cs) s = Inr s5 \<and> set_end (fat m) (last cs) s5 = Inr s6 \<and>
    write_free_clusters (fsinfo m) n s6 = Inr s7 \<and> write_first_free_cluster (fsinfo m) (last cs) s7 = Inr s8 \<and>
    fs_ok I [] s8 \<and> allocated m cs V (disk_view s8)"
proof -
  let ?f = "fat m" and ?l = "last cs"
  note fg = manager_geomD(1) [OF geom]
  have l: "?l \<in> set cs" using ne by simp
  obtain s5 where s5: "clear_cluster m ?l s = Inr s5" "fs_ok I [] s5" "disk_view s5 = zeroed (cluster_sectors m ?l) (disk_view s)"
    using clear_cluster_spec [OF ok] data l by blast
  obtain s6 where s6: "set_end ?f ?l s5 = Inr s6" "fs_ok I [] s6" "fat_write ?f ?l END_CLUSTER (disk_view s5) (disk_view s6)"
    using set_next_cluster_spec [OF fg inf s5(2), of END_CLUSTER] by (auto simp: set_end_def)
  obtain s7 where s7: "write_free_clusters (fsinfo m) n s6 = Inr s7" "fs_ok I [] s7"
    "info_write m n (free_hint m (disk_view s6)) (disk_view s6) (disk_view s7)"
    using write_info_spec(1) [OF geom s6(2)] by blast
  obtain s8 where s8: "write_first_free_cluster (fsinfo m) ?l s7 = Inr s8" "fs_ok I [] s8"
    "info_write m (free_count m (disk_view s7)) ?l (disk_view s7) (disk_view s8)"
    using write_info_spec(2) [OF geom s7(2)] by blast
  have iw: "info_write m n ?l (disk_view s6) (disk_view s8)"
    using info_write_trans [OF s7(3) s8(3)] s7(3) by (simp add: info_write_def)
  have apart: "b \<notin> cluster_sectors m ?l" if "b \<in> fat_sectors ?f" for b
    using data that l manager_geomD(4) [OF geom] by blast
  have link: "next_entry ?f (disk_view s8) x = (if x = ?l then END_CLUSTER else case map_of (zip cs (tl cs)) x of
      Some d \<Rightarrow> (if d = BAD_CLUSTER then 0 else d AND 0x0FFFFFFF) | None \<Rightarrow> next_entry ?f V x)" if x: "in_fat ?f x" for x
  proof -
    have "\<forall>b \<in> fat_sectors ?f. disk_view s8 b = disk_view s6 b" using iw manager_geomD(3) [OF geom] unfolding info_write_def by metis
    from entry_cong [OF this x] have "next_entry ?f (disk_view s8) x = next_entry ?f (disk_view s6) x" by (simp add: next_entry_def)
    moreover have "\<forall>b \<in> fat_sectors ?f. disk_view s5 b = disk_view s b" unfolding s5(3) using apart by (simp add: zeroed_def)
    from entry_cong [OF this x] have "next_entry ?f (disk_view s5) x = next_entry ?f (disk_view s) x" by (simp add: next_entry_def)
    moreover have "END_CLUSTER AND 0x0FFFFFFF = END_CLUSTER" "END_CLUSTER \<noteq> BAD_CLUSTER" by (simp_all add: END_CLUSTER_def BAD_CLUSTER_def)
    moreover have "next_entry ?f (disk_view s) x = (case map_of (zip cs (tl cs)) x of
        Some d \<Rightarrow> (if d = BAD_CLUSTER then 0 else d AND 0x0FFFFFFF) | None \<Rightarrow> next_entry ?f V x)"
      using lk x by (auto simp: linked_def next_entry_def split: option.split)
    ultimately show ?thesis using next_entry_write [OF s6(3) x] by simp
  qed
  have all: "set cs = insert ?l (set (butlast cs))" using ne by (cases cs rule: rev_cases) auto
  have "disk_view s8 b = zeroed (\<Union>x \<in> set cs. cluster_sectors m x) V b" if "b \<notin> fat_sectors ?f" "b \<noteq> info_sec m" for b
  proof -
    have "disk_view s8 b = disk_view s5 b" using iw s6(3) that by (simp add: info_write_def fat_write_def)
    then show ?thesis using lk that(1) unfolding s5(3) all by (auto simp: zeroed_def linked_def)
  qed
  with link iw n have "allocated m cs V (disk_view s8)" by (simp add: allocated_def info_write_def)
  then show ?thesis using s5(1) s6(1) s7(1) s8(1,2) by blast
qed

text \<open>
  (C11) Allocation: if the next free clusters above the hint are \<open>c # cs\<close> and the recorded number of
  free clusters allows as many, \<open>alloc_cluster\<close> returns the first, and on the disk they are then a
  chain of zeroed clusters; every other link and every other block are as before, the count of free
  clusters is reduced by their number, and everything has reached the device.
\<close>

theorem alloc_cluster_makes_zeroed_chain:
  assumes geom: "manager_geom I m" and ok: "fs_ok I [] s"
    and run: "free_run (fat m) (disk_view s) (free_hint m (disk_view s)) (c # cs)"
    and num: "unat num = length (c # cs)" "num \<le> free_count m (disk_view s)"
    and data: "\<forall>x \<in> set (c # cs). cluster_sectors m x \<inter> I = {}" and fuel: "\<forall>x \<in> set (c # cs). unat x \<le> fuel"
  shows "\<exists>s'. alloc_cluster fuel m num s = Inr (Some c, s') \<and> fs_ok J [] s' \<and> chain (fat m) (disk_view s') (c # cs) \<and>
    (\<forall>x. in_fat (fat m) x \<longrightarrow> x \<notin> set (c # cs) \<longrightarrow> next_entry (fat m) (disk_view s') x = next_entry (fat m) (disk_view s) x) \<and>
    free_count m (disk_view s') = free_count m (disk_view s) - num \<and> free_hint m (disk_view s') = last (c # cs) \<and>
    (\<forall>b. b \<notin> fat_sectors (fat m) \<longrightarrow> b \<noteq> info_sec m \<longrightarrow>
      disk_view s' b = (if b \<in> (\<Union>x \<in> set (c # cs). cluster_sectors m x) then replicate 512 0 else disk_view s b)) \<and>
    (\<forall>b. read_block (dev_ops s') (device s') b = disk_view s' b)"
proof -
  let ?V = "disk_view s" and ?f = "fat m" and ?cs = "c # cs"
  note fg = manager_geomD(1) [OF geom]
  obtain s1 where s1: "free_clusters m s = Inr (free_count m ?V, s1)" "fs_ok I [] s1" "disk_view s1 = ?V"
    using free_clusters_spec [OF geom ok] by blast
  obtain s2 where s2: "first_free_cluster (fsinfo m) s1 = Inr (free_hint m ?V, s2)" "fs_ok I [] s2" "disk_view s2 = ?V"
    using first_free_cluster_spec [OF geom s1(2)] s1(3) by auto
  obtain s3 where s3: "next_free_cluster fuel ?f (free_hint m ?V) s2 = Inr (c, s3)" "fs_ok I [] s3" "disk_view s3 = ?V"
    using next_free_cluster_spec [OF fg s2(2), of c "free_hint m ?V" fuel] run s2(3) fuel by auto
  have inf: "\<forall>x \<in> set ?cs. in_fat ?f x \<and> x \<noteq> 0"
    using free_run_above [OF run] le_less_trans [OF word_zero_le] by (auto simp: fat_free_def)
  have data': "\<forall>x \<in> set (butlast ?cs). cluster_sectors m x \<inter> I = {}"
    by (intro ballI bspec [OF data]) (rule in_set_butlastD)
  have "\<exists>s4. alloc_loop (length cs) fuel m c s3 = Inr (last ?cs, s4) \<and> fs_ok I [] s4 \<and>
      linked ?f ?cs (\<Union>x \<in> set (butlast ?cs). cluster_sectors m x) (disk_view s3) (disk_view s4)"
    by (rule alloc_loop_spec [OF geom s3(2)])
      (use run s3(3) inf data' fuel in simp_all)
  then obtain s4 where s4: "alloc_loop (length cs) fuel m c s3 = Inr (last ?cs, s4)" "fs_ok I [] s4"
    "linked ?f ?cs (\<Union>x \<in> set (butlast ?cs). cluster_sectors m x) ?V (disk_view s4)" unfolding s3(3) by blast
  have n: "free_count m ?V - num = free_count m ?V - word_of_nat (length ?cs)" using num(1) by (metis ucast_id of_nat_unat)
  have "in_fat ?f (last ?cs)" using inf last_in_set [of ?cs] by blast
  then obtain s5 s6 s7 s8 where s8: "clear_cluster m (last ?cs) s4 = Inr s5" "set_end ?f (last ?cs) s5 = Inr s6"
    "write_free_clusters (fsinfo m) (free_count m ?V - num) s6 = Inr s7" "write_first_free_cluster (fsinfo m) (last ?cs) s7 = Inr s8"
    "fs_ok I [] s8" "allocated m ?cs ?V (disk_view s8)"
    using finish_allocation [OF geom s4(2) _ _ s4(3) data n] by blast
  let ?s = "write_to_dev s8"
  note dev = write_to_dev_spec [OF s8(5)]
  have run_eq: "alloc_cluster fuel m num s = Inr (Some c, ?s)"
    using s1(1) s2(1) s3(1) s4(1) s8(1-4) num by (simp add: alloc_cluster_def)
  have al: "allocated m ?cs ?V (disk_view ?s)" using s8(6) dev(2) by simp
  have "distinct ?cs" using free_run_distinct [OF run] by simp
  note ch = allocated_chain [OF al this _ inf]
  have "read_block (dev_ops ?s) (device ?s) b = disk_view ?s b" for b using dev(2,3,5) by simp
  moreover have "free_count m (disk_view ?s) = free_count m ?V - num" "free_hint m (disk_view ?s) = last ?cs"
    "\<forall>b. b \<notin> fat_sectors ?f \<longrightarrow> b \<noteq> info_sec m \<longrightarrow> disk_view ?s b = (if b \<in> (\<Union>x \<in> set ?cs. cluster_sectors m x) then replicate 512 0 else ?V b)"
    using al n unfolding allocated_def info_write_def zeroed_def by simp_all
  ultimately show ?thesis using run_eq dev(1) ch by blast
qed

section \<open>Release\<close>

lemma free_loop_spec:
  assumes fg: "fat_geom I (fat m)"
  shows "fs_ok I hs s \<Longrightarrow> (\<forall>c \<in> set cs. in_fat (fat m) c) \<Longrightarrow>
    \<exists>s'. free_loop m cs s = Inr s' \<and> fs_ok I hs s' \<and>
      (\<forall>c. in_fat (fat m) c \<longrightarrow>
        entry_of (fat1_sector (fat m)) (disk_view s') c = (if c \<in> set cs then 0 else entry_of (fat1_sector (fat m)) (disk_view s) c) \<and>
        entry_of (fat2_sector (fat m)) (disk_view s') c = (if c \<in> set cs then 0 else entry_of (fat2_sector (fat m)) (disk_view s) c)) \<and>
      (\<forall>b. b \<notin> fat_sectors (fat m) \<longrightarrow> disk_view s' b = disk_view s b)"
proof (induction cs arbitrary: s)
  case (Cons x cs)
  obtain s1 where s1: "set_next_cluster (fat m) x FREE_CLUSTER s = Inr s1" "fs_ok I hs s1" "fat_write (fat m) x FREE_CLUSTER (disk_view s) (disk_view s1)"
    using set_next_cluster_spec [OF fg _ Cons.prems(1), of x FREE_CLUSTER] Cons.prems(2) by auto
  obtain s2 where s2: "free_loop m cs s1 = Inr s2" "fs_ok I hs s2"
    "\<forall>c. in_fat (fat m) c \<longrightarrow>
        entry_of (fat1_sector (fat m)) (disk_view s2) c = (if c \<in> set cs then 0 else entry_of (fat1_sector (fat m)) (disk_view s1) c) \<and>
        entry_of (fat2_sector (fat m)) (disk_view s2) c = (if c \<in> set cs then 0 else entry_of (fat2_sector (fat m)) (disk_view s1) c)"
    "\<forall>b. b \<notin> fat_sectors (fat m) \<longrightarrow> disk_view s2 b = disk_view s1 b"
    using Cons.IH [OF s1(2)] Cons.prems(2) by auto
  have "entry_of (fat1_sector (fat m)) (disk_view s2) c = (if c \<in> set (x # cs) then 0 else entry_of (fat1_sector (fat m)) (disk_view s) c) \<and>
      entry_of (fat2_sector (fat m)) (disk_view s2) c = (if c \<in> set (x # cs) then 0 else entry_of (fat2_sector (fat m)) (disk_view s) c)"
    if "in_fat (fat m) c" for c
    using s2(3) [rule_format, OF that] s1(3) [unfolded fat_write_def, THEN conjunct1, rule_format, OF that]
    by (cases "c = x") (simp_all add: FREE_CLUSTER_def)
  moreover have "disk_view s2 b = disk_view s b" if "b \<notin> fat_sectors (fat m)" for b
    using s2(4) s1(3) that by (simp add: fat_write_def)
  ultimately show ?case using s1(1) s2(1,2) by simp
qed simp

text \<open>
  (C36) Release: \<open>dealloc_cluster\<close> marks exactly the given clusters free in both copies of the table and
  adds their number to the count of free clusters; every other link and every data block are as before.
\<close>

theorem dealloc_cluster_frees:
  assumes geom: "manager_geom I m" and ok: "fs_ok I hs s" and cs: "\<forall>c \<in> set cs. in_fat (fat m) c" "cs \<noteq> []"
  shows "\<exists>s'. dealloc_cluster m cs s = Inr s' \<and> fs_ok I hs s' \<and> (\<forall>c \<in> set cs. fat_free (fat m) (disk_view s') c) \<and>
    (\<forall>c. in_fat (fat m) c \<longrightarrow> c \<notin> set cs \<longrightarrow> next_entry (fat m) (disk_view s') c = next_entry (fat m) (disk_view s) c) \<and>
    free_count m (disk_view s') = free_count m (disk_view s) + word_of_nat (length cs) \<and>
    (\<forall>b. b \<notin> fat_sectors (fat m) \<longrightarrow> b \<noteq> info_sec m \<longrightarrow> disk_view s' b = disk_view s b)"
proof -
  let ?V = "disk_view s" and ?n = "free_count m (disk_view s) + word_of_nat (length cs)"
  obtain s1 where s1: "free_clusters m s = Inr (free_count m ?V, s1)" "fs_ok I hs s1" "disk_view s1 = ?V"
    using free_clusters_spec [OF geom ok] by blast
  obtain s2 where s2: "free_loop m cs s1 = Inr s2" "fs_ok I hs s2"
    "\<forall>c. in_fat (fat m) c \<longrightarrow>
        entry_of (fat1_sector (fat m)) (disk_view s2) c = (if c \<in> set cs then 0 else entry_of (fat1_sector (fat m)) ?V c) \<and>
        entry_of (fat2_sector (fat m)) (disk_view s2) c = (if c \<in> set cs then 0 else entry_of (fat2_sector (fat m)) ?V c)"
    "\<forall>b. b \<notin> fat_sectors (fat m) \<longrightarrow> disk_view s2 b = ?V b"
    using free_loop_spec [OF manager_geomD(1) [OF geom] s1(2) cs(1)] unfolding s1(3) by auto
  obtain s3 where s3: "write_free_clusters (fsinfo m) ?n s2 = Inr s3" "fs_ok I hs s3"
    "info_write m ?n (free_hint m (disk_view s2)) (disk_view s2) (disk_view s3)"
    using write_info_spec(1) [OF geom s2(2)] by blast
  obtain s4 where s4: "first_free_cluster (fsinfo m) s3 = Inr (free_hint m (disk_view s3), s4)" "fs_ok I hs s4" "disk_view s4 = disk_view s3"
    using first_free_cluster_spec [OF geom s3(2)] by blast
  obtain s5 where s5: "write_first_free_cluster (fsinfo m) (cs ! 0 - 1) s4 = Inr s5" "fs_ok I hs s5"
    "info_write m (free_count m (disk_view s4)) (cs ! 0 - 1) (disk_view s4) (disk_view s5)"
    using write_info_spec(2) [OF geom s4(2)] by blast
  have run: "dealloc_cluster m cs s =
      (if cs ! 0 > 2 then if cs ! 0 < free_hint m (disk_view s3) then Inr s5 else Inr s4 else Inr s3)"
    using s1(1) s2(1) s3(1) s4(1) s5(1) cs(2) by (simp add: dealloc_cluster_def)
  have iw: "info_write m ?n (cs ! 0 - 1) (disk_view s2) (disk_view s5)" "info_write m ?n (free_hint m (disk_view s2)) (disk_view s2) (disk_view s4)"
    using s3(3) s5(3) s4(3) by (simp_all add: info_write_def)
  obtain s' h where s': "dealloc_cluster m cs s = Inr s'" "fs_ok I hs s'" "info_write m ?n h (disk_view s2) (disk_view s')"
    using run iw s3(2,3) s4(2) s5(2) by (auto split: if_splits)
  have same: "\<forall>b \<in> fat_sectors (fat m). disk_view s' b = disk_view s2 b"
    using s'(3) manager_geomD(3) [OF geom] unfolding info_write_def by metis
  have E: "next_entry (fat m) (disk_view s') c = next_entry (fat m) (disk_view s2) c"
    "entry_of (fat1_sector (fat m)) (disk_view s') c = entry_of (fat1_sector (fat m)) (disk_view s2) c" if "in_fat (fat m) c" for c
    using entry_cong [OF same that] by (simp_all add: next_entry_def)
  have "\<forall>c \<in> set cs. fat_free (fat m) (disk_view s') c"
    using cs(1) E(2) s2(3) by (simp add: fat_free_def FREE_CLUSTER_def)
  moreover have "\<forall>c. in_fat (fat m) c \<longrightarrow> c \<notin> set cs \<longrightarrow> next_entry (fat m) (disk_view s') c = next_entry (fat m) ?V c"
    using E(1) s2(3) by (simp add: next_entry_def)
  ultimately show ?thesis using s' s2(4) by (auto simp: info_write_def)
qed

section \<open>A concrete file system\<close>

text \<open>The table of the previous theory, with one sector per cluster from sector 4 on.\<close>

definition example_manager :: FAT32Manager where
  "example_manager = \<lparr>fsinfo = FSInfo_new 1, sectors_per_cluster = 1, bytes_per_sector = 512, bytes_per_cluster = 512,
     fat = example_fat, root_sec = 4, mtotal_sectors = 8192, vroot_dirent = ShortDirEntry_empty\<rparr>"

lemma example_manager_fat: "fat example_manager = example_fat"
  by (simp add: example_manager_def)

lemma example_manager_geom: "manager_geom {0, 1, 2, 3} example_manager"
  using example_geom(1)
  by (auto simp: manager_geom_def example_manager_def info_sec_def FSInfo_new_def fat_sectors_def example_fat_def FAT_new_def)

lemma example_info:
  "free_count example_manager (disk_view (example_fs example_disk)) = 100"
  "free_hint example_manager (disk_view (example_fs example_disk)) = 2"
proof -
  have "take 512 ((replicate 488 0 @ le32 100 @ le32 2) @ replicate 512 0) = replicate 488 0 @ le32 100 @ le32 2 @ replicate 16 0"
    by simp
  then have v: "disk_view (example_fs example_disk) 1 = replicate 488 0 @ le32 100 @ le32 2 @ replicate 16 0"
    unfolding example_view example_disk_def by (simp only: num.simps one_eq_numeral_iff if_False if_True refl)
  then show "free_count example_manager (disk_view (example_fs example_disk)) = 100"
    "free_hint example_manager (disk_view (example_fs example_disk)) = 2"
    by (simp_all add: free_count_def free_hint_def info_sec_def example_manager_def FSInfo_new_def slice_def)
qed

lemma example_free_run: "free_run example_fat (disk_view (example_fs example_disk)) 2 [3, 7]"
proof -
  have f1: "fat1_sector example_fat = 2" by (simp add: example_fat_def FAT_new_def)
  have "\<not> fat_free example_fat (disk_view (example_fs example_disk)) j" if j: "3 < j" "j < 7" for j :: u32
  proof -
    have "unat j = 4 \<or> unat j = 5 \<or> unat j = 6" using j by (auto simp: word_less_nat_alt)
    then have "j = 4 \<or> j = 5 \<or> j = 6" by (simp add: word_unat_eq_iff)
    then show ?thesis using example_entry by (auto simp: fat_free_def f1 FREE_CLUSTER_def BAD_CLUSTER_def)
  qed
  moreover have "\<not> (2 < j \<and> j < (3 :: u32))" for j by (simp add: word_less_nat_alt)
  moreover have "fat_free example_fat (disk_view (example_fs example_disk)) 3" "fat_free example_fat (disk_view (example_fs example_disk)) 7"
    using example_entry example_geom(2) by (simp_all add: fat_free_def f1 FREE_CLUSTER_def)
  ultimately show ?thesis by auto
qed

lemma example_sectors: "cluster_sectors example_manager 3 = {5}" "cluster_sectors example_manager 7 = {9}"
  by (auto simp: cluster_sectors_def first_sector_of_cluster_def example_manager_def)

theorem alloc_cluster_makes_zeroed_chain_witness:
  "\<exists>s'. alloc_cluster 10 example_manager 2 (example_fs example_disk) = Inr (Some 3, s') \<and>
     chain example_fat (disk_view s') [3, 7] \<and> disk_view s' 5 = replicate 512 0 \<and> free_count example_manager (disk_view s') = 98"
proof -
  have run: "free_run (fat example_manager) (disk_view (example_fs example_disk))
      (free_hint example_manager (disk_view (example_fs example_disk))) [3, 7]"
    using example_free_run by (simp add: example_info example_manager_fat)
  have "5 \<notin> fat_sectors example_fat" "5 \<noteq> info_sec example_manager"
    by (auto simp: fat_sectors_def example_fat_def FAT_new_def info_sec_def example_manager_def FSInfo_new_def)
  then show ?thesis
    using alloc_cluster_makes_zeroed_chain [OF example_manager_geom example_fs_ok run, of 2 10 "{}"]
    by (auto simp: example_info example_sectors example_manager_fat)
qed

theorem dealloc_cluster_frees_witness:
  "\<exists>s'. dealloc_cluster example_manager [2, 5, 4] (example_fs example_disk) = Inr s' \<and>
     free_count example_manager (disk_view s') = 103 \<and> fat_free example_fat (disk_view s') 5"
  using dealloc_cluster_frees [OF example_manager_geom example_fs_ok, of "[2, 5, 4]" example_disk] example_geom(2)
  by (auto simp: example_info example_manager_fat)

end
