(* ===== verification/Fat_File.thy ===== *)
theory Fat_File
  imports Fat_Alloc
begin

text \<open>
  Reading and writing a file's bytes through its directory entry (\<open>get_pos\<close>, \<open>read_at\<close> and
  \<open>write_at\<close> of \<open>ShortDirEntry\<close> in fat32/src/layout.rs), and what they do to the file as a list of
  bytes. Directories go through the information cache, files through the data cache. Offsets are
  natural numbers, cast to \<open>u32\<close> where the code casts them. \<open>fuel\<close> bounds the walk along the chain
  of a directory and the number of sectors touched.
\<close>

section \<open>The operations\<close>

definition get_pos :: "ShortDirEntry \<Rightarrow> nat \<Rightarrow> FAT32Manager \<Rightarrow> 'd fs_state \<Rightarrow> ((u32 \<times> nat \<times> nat) \<times> 'd fs_state) res" where
  "get_pos e offset m s =
     (let bps = unat (bytes_per_sector m); bpc = unat (bytes_per_cluster m) in
      bindR (cluster_of_offset m offset) (\<lambda>cluster_index.
      bindR (get_cluster_at (fat m) (first_cluster e) cluster_index s) (\<lambda>(current_cluster, s1).
      if bps = 0 then Inl DivideByZero
      else Inr ((current_cluster,
        first_sector_of_cluster m current_cluster + (offset - unat cluster_index * bpc) div bps,
        offset mod bps), s1))))"

definition entry_cache :: "ShortDirEntry \<Rightarrow> manager_kind" where
  "entry_cache e = (if is_dir e then INFO else DATA)"

definition io_end ::
  "nat \<Rightarrow> ShortDirEntry \<Rightarrow> nat \<Rightarrow> nat \<Rightarrow> FAT32Manager \<Rightarrow> 'd fs_state \<Rightarrow> (nat \<times> 'd fs_state) res" where
  "io_end fuel e offset len m s =
     (if is_dir e then
        bindR (count_claster_num fuel (fat m) (first_cluster e) s) (\<lambda>(n, s1).
        Inr (offset + min len (unat (bytes_per_cluster m) * unat n), s1))
      else Inr (min (offset + len) (unat (fsize e)), s))"

primrec read_at_loop ::
  "nat \<Rightarrow> ShortDirEntry \<Rightarrow> FAT32Manager \<Rightarrow> nat \<Rightarrow> nat \<Rightarrow> u32 \<Rightarrow> nat \<Rightarrow> nat \<Rightarrow> u8 list \<Rightarrow> 'd fs_state \<Rightarrow>
   (nat \<times> u8 list \<times> 'd fs_state) res" where
  "read_at_loop 0 e m stop current_off cluster sector read_size buf s = Inl OutOfFuel"
| "read_at_loop (Suc n) e m stop current_off cluster sector read_size buf s =
     (let bps = unat (bytes_per_sector m) in
      if bps = 0 then Inl DivideByZero else
      let end_current_block = min ((current_off div bps + 1) * bps) stop;
          block_read_size = end_current_block - current_off
      in
      bindR (sliceR buf read_size (read_size + block_read_size)) (\<lambda>dst.
      bindR (cached_read (entry_cache e) s sector READ BLOCK_SZ 0
        (\<lambda>data_block. sliceR data_block (current_off mod BLOCK_SZ) (current_off mod BLOCK_SZ + block_read_size))) (\<lambda>(r, s1).
      bindR r (\<lambda>src.
      let buf' = overwrite read_size src buf; read_size' = read_size + block_read_size in
      if end_current_block = stop then Inr (read_size', buf', s1)
      else if end_current_block mod unat (bytes_per_cluster m) = 0 then
        bindR (get_next_cluster (fat m) cluster s1) (\<lambda>(cluster', s2).
        if cluster' \<ge> END_CLUSTER then Inr (read_size', buf', s2)
        else read_at_loop n e m stop end_current_block cluster' (first_sector_of_cluster m cluster') read_size' buf' s2)
      else read_at_loop n e m stop end_current_block cluster (sector + 1) read_size' buf' s1))))"

definition read_at ::
  "nat \<Rightarrow> ShortDirEntry \<Rightarrow> nat \<Rightarrow> u8 list \<Rightarrow> FAT32Manager \<Rightarrow> 'd fs_state \<Rightarrow> (nat \<times> u8 list \<times> 'd fs_state) res" where
  "read_at fuel e offset buf m s =
     bindR (io_end fuel e offset (length buf) m s) (\<lambda>(stop, s1).
     if offset \<ge> stop then Inr (0, buf, s1)
     else
       bindR (get_pos e offset m s1) (\<lambda>((c_clu, c_sec, _), s2).
       if c_clu \<ge> END_CLUSTER then Inr (0, buf, s2)
       else read_at_loop fuel e m stop offset c_clu c_sec 0 buf s2))"

primrec write_at_loop ::
  "nat \<Rightarrow> ShortDirEntry \<Rightarrow> FAT32Manager \<Rightarrow> nat \<Rightarrow> nat \<Rightarrow> u32 \<Rightarrow> nat \<Rightarrow> nat \<Rightarrow> u8 list \<Rightarrow> 'd fs_state \<Rightarrow>
   (nat \<times> 'd fs_state) res" where
  "write_at_loop 0 e m stop current_off cluster sector write_size buf s = Inl OutOfFuel"
| "write_at_loop (Suc n) e m stop current_off cluster sector write_size buf s =
     (let bps = unat (bytes_per_sector m) in
      if bps = 0 then Inl DivideByZero else
      let end_current_block = min ((current_off div bps + 1) * bps) stop in
      if end_current_block < current_off then Inl IndexOutOfBounds
      else
      let block_write_size = end_current_block - current_off;
          off = current_off mod BLOCK_SZ
      in
      bindR (get_cache (entry_cache e) s sector READ) (\<lambda>(h, s0).
      bindR (sliceR buf write_size (write_size + block_write_size)) (\<lambda>src.
      bindR (if off + block_write_size \<le> BLOCK_SZ then Inr () else Inl IndexOutOfBounds) (\<lambda>_.
      bindR (handle_modify (entry_cache e) s0 h BLOCK_SZ 0 (overwrite off src)) (\<lambda>s1.
      let write_size' = write_size + block_write_size in
      if end_current_block = stop then Inr (write_size', s1)
      else if end_current_block mod unat (bytes_per_cluster m) = 0 then
        bindR (get_next_cluster (fat m) cluster s1) (\<lambda>(cluster', s2).
        if cluster' \<ge> END_CLUSTER then Inl (ExplicitPanic ''END_CLUSTER'')
        else write_at_loop n e m stop end_current_block cluster' (first_sector_of_cluster m cluster') write_size' buf s2)
      else write_at_loop n e m stop end_current_block cluster (sector + 1) write_size' buf s1)))))"

definition write_at ::
  "nat \<Rightarrow> ShortDirEntry \<Rightarrow> nat \<Rightarrow> u8 list \<Rightarrow> FAT32Manager \<Rightarrow> 'd fs_state \<Rightarrow> (nat \<times> 'd fs_state) res" where
  "write_at fuel e offset buf m s =
     bindR (io_end fuel e offset (length buf) m s) (\<lambda>(stop, s1).
     bindR (get_pos e offset m s1) (\<lambda>((c_clu, c_sec, _), s2).
     write_at_loop fuel e m stop offset c_clu c_sec 0 buf s2))"

section \<open>The bytes of a chain\<close>

definition file_geom :: "FAT32Manager \<Rightarrow> bool" where
  "file_geom m \<longleftrightarrow> bytes_per_sector m = 512 \<and> 0 < unat (sectors_per_cluster m) \<and> unat (sectors_per_cluster m) < 256 \<and>
     unat (bytes_per_cluster m) = 512 * unat (sectors_per_cluster m)"

definition sectors :: "FAT32Manager \<Rightarrow> u32 list \<Rightarrow> nat list" where
  "sectors m cs = concat (map (\<lambda>c. [first_sector_of_cluster m c..<first_sector_of_cluster m c + unat (sectors_per_cluster m)]) cs)"

definition content :: "(nat \<Rightarrow> u8 list) \<Rightarrow> nat list \<Rightarrow> u8 list" where
  "content V secs = concat (map V secs)"

lemma nth_concat_const:
  assumes "\<forall>x \<in> set xs. length (f x) = n" and "k < n * length xs"
  shows "concat (map f xs) ! k = f (xs ! (k div n)) ! (k mod n)" and "k div n < length xs" and "k mod n < n"
proof -
  have pos: "0 < n" using assms(2) by (cases n) auto
  then show "k mod n < n" by simp
  show "k div n < length xs" using assms(2) by (simp add: less_mult_imp_div_less mult.commute)
  show "concat (map f xs) ! k = f (xs ! (k div n)) ! (k mod n)"
    using assms
  proof (induction xs arbitrary: k)
    case (Cons x xs)
    show ?case
    proof (cases "k < n")
      case True
      then show ?thesis using Cons.prems(1) by (simp add: nth_append)
    next
      case False
      then have "concat (map f (x # xs)) ! k = concat (map f xs) ! (k - n)" using Cons.prems(1) by (simp add: nth_append)
      also have "\<dots> = f (xs ! ((k - n) div n)) ! ((k - n) mod n)" using Cons False by (intro Cons.IH) auto
      also have "\<dots> = f ((x # xs) ! (k div n)) ! (k mod n)" using False pos by (simp add: le_div_geq le_mod_geq)
      finally show ?thesis .
    qed
  qed simp
qed

lemma length_concat_const: "\<forall>x \<in> set xs. length (f x) = n \<Longrightarrow> length (concat (map f xs)) = n * length xs"
  by (induction xs) auto

lemma length_sectors: "length (sectors m cs) = unat (sectors_per_cluster m) * length cs"
  unfolding sectors_def by (rule length_concat_const) simp

lemma nth_sectors:
  assumes "k < unat (sectors_per_cluster m) * length cs"
  shows "sectors m cs ! k = first_sector_of_cluster m (cs ! (k div unat (sectors_per_cluster m))) + k mod unat (sectors_per_cluster m)"
  using nth_concat_const [of cs "\<lambda>c. [first_sector_of_cluster m c..<first_sector_of_cluster m c + unat (sectors_per_cluster m)]"
      "unat (sectors_per_cluster m)" k] assms by (simp add: sectors_def)

lemma length_content: "\<forall>b \<in> set secs. length (V b) = 512 \<Longrightarrow> length (content V secs) = 512 * length secs"
  unfolding content_def by (rule length_concat_const)

lemma content_slice:
  assumes len: "\<forall>b \<in> set secs. length (V b) = 512" and k: "k < length secs" and r: "r + n \<le> 512"
  shows "slice (512 * k + r) n (content V secs) = slice r n (V (secs ! k))"
proof (rule nth_equalityI)
  have l: "length (V (secs ! k)) = 512" using len k by simp
  have total: "512 * k + 512 \<le> length (content V secs)" using length_content [OF len] k by simp
  then show "length (slice (512 * k + r) n (content V secs)) = length (slice r n (V (secs ! k)))" using l r by simp
  fix i assume "i < length (slice (512 * k + r) n (content V secs))"
  then have i: "i < n" using total r by simp
  have "(512 * k + (r + i)) div 512 = k" "(512 * k + (r + i)) mod 512 = r + i" using i r by simp_all
  moreover have "512 * k + (r + i) < 512 * length secs" using i r k by simp
  ultimately have "content V secs ! (512 * k + (r + i)) = V (secs ! k) ! (r + i)"
    using nth_concat_const(1) [OF len, of "512 * k + (r + i)"] by (simp add: content_def)
  then show "slice (512 * k + r) n (content V secs) ! i = slice r n (V (secs ! k)) ! i"
    using i l r total by (simp add: nth_slice add.assoc)
qed

lemma content_write:
  assumes len: "\<forall>b \<in> set secs. length (V b) = 512" and k: "k < length secs" and dist: "distinct secs"
    and r: "r + length src \<le> 512"
  shows "content (V(secs ! k := overwrite r src (V (secs ! k)))) secs = overwrite (512 * k + r) src (content V secs)"
proof -
  define V' where "V' = V(secs ! k := overwrite r src (V (secs ! k)))"
  have V': "V' b = (if b = secs ! k then overwrite r src (V (secs ! k)) else V b)" for b by (simp add: V'_def)
  have l: "length (V (secs ! k)) = 512" using len k by simp
  have len': "\<forall>b \<in> set secs. length (V' b) = 512" using len l r by (simp add: V')
  have total: "512 * k + r + length src \<le> length (content V secs)" using length_content [OF len] k r by simp
  have "content V' secs = overwrite (512 * k + r) src (content V secs)"
  proof (rule nth_equalityI)
  show "length (content V' secs) = length (overwrite (512 * k + r) src (content V secs))"
    using length_content [OF len] length_content [OF len'] total by simp
  fix i assume "i < length (content V' secs)"
  then have i: "i < 512 * length secs" using length_content [OF len'] by simp
  note c = nth_concat_const [OF len' i] and c0 = nth_concat_const [OF len i]
  have v: "V' (secs ! (i div 512)) = (if i div 512 = k then overwrite r src (V (secs ! k)) else V (secs ! (i div 512)))"
    using nth_eq_iff_index_eq [OF dist _ k, of "i div 512"] c0(2) by (simp add: V')
  show "content V' secs ! i = overwrite (512 * k + r) src (content V secs) ! i"
  proof (cases "i div 512 = k")
    case True
    define j where "j = i mod 512"
    have ij: "i = 512 * k + j" using True unfolding j_def by (metis mult.commute div_mult_mod_eq)
    have "content V' secs ! i = overwrite r src (V (secs ! k)) ! j" using c(1) v True by (simp add: content_def j_def)
    also have "\<dots> = (if r \<le> j \<and> j < r + length src then src ! (j - r) else V (secs ! k) ! j)"
      using r l by (intro nth_overwrite) (simp_all add: j_def)
    also have "V (secs ! k) ! j = content V secs ! i" using c0(1) True by (simp add: content_def j_def)
    also have "(if r \<le> j \<and> j < r + length src then src ! (j - r) else content V secs ! i) =
        (if 512 * k + r \<le> i \<and> i < 512 * k + r + length src then src ! (i - (512 * k + r)) else content V secs ! i)"
      unfolding ij by simp
    finally show ?thesis using total i length_content [OF len] by (simp add: nth_overwrite)
  next
    case False
    have "\<not> (512 * k + r \<le> i \<and> i < 512 * k + r + length src)"
    proof
      assume a: "512 * k + r \<le> i \<and> i < 512 * k + r + length src"
      then obtain j where "i = 512 * k + j" "j < 512" using r le_iff_add [of "512 * k" i] by (metis add_lessD1 add_leD1 nat_add_left_cancel_less add.assoc order_less_le_trans)
      then have "i div 512 = k" by simp
      with False show False by simp
    qed
    then have "overwrite (512 * k + r) src (content V secs) ! i = content V secs ! i"
      using total i length_content [OF len] by (subst nth_overwrite) auto
    then show ?thesis using c(1) c0(1) v False by (simp add: content_def)
  qed
qed
  then show ?thesis by (simp add: V'_def)
qed

lemma slice_append: "slice a (m + n) xs = slice a m xs @ slice (a + m) n xs"
  by (simp add: slice_def take_add drop_drop add.commute)

lemma overwrite_append:
  assumes "k + length a + length b \<le> length xs"
  shows "overwrite (k + length a) b (overwrite k a xs) = overwrite k (a @ b) xs"
  using assms by (intro nth_equalityI) (auto simp: nth_overwrite nth_append)

lemma chain_nth: "chain f V cs \<Longrightarrow> Suc i < length cs \<Longrightarrow> next_entry f V (cs ! i) = cs ! Suc i"
proof (induction f V cs arbitrary: i rule: chain.induct)
  case (3 f V c d cs)
  then show ?case by (cases i) auto
qed auto

section \<open>Positions\<close>

definition at_pos :: "FAT32Manager \<Rightarrow> u32 list \<Rightarrow> nat \<Rightarrow> u32 \<Rightarrow> nat \<Rightarrow> bool" where
  "at_pos m cs off clu sec \<longleftrightarrow> off < 512 * length (sectors m cs) \<and>
     clu = cs ! (off div (512 * unat (sectors_per_cluster m))) \<and> sec = sectors m cs ! (off div 512)"

lemma at_pos_in:
  assumes "file_geom m" and "at_pos m cs off clu sec"
  shows "clu \<in> set cs" and "sec \<in> set (sectors m cs)" and "off div 512 < length (sectors m cs)"
proof -
  have "off < (512 * unat (sectors_per_cluster m)) * length cs" using assms(2) by (simp add: at_pos_def length_sectors mult.assoc)
  then have "off div (512 * unat (sectors_per_cluster m)) < length cs" by (simp add: less_mult_imp_div_less mult.commute)
  then show "clu \<in> set cs" using assms(2) by (simp add: at_pos_def)
  show "off div 512 < length (sectors m cs)" using assms(2) by (simp add: at_pos_def less_mult_imp_div_less mult.commute)
  then show "sec \<in> set (sectors m cs)" using assms(2) by (simp add: at_pos_def)
qed

lemma pos_next:
  assumes geom: "file_geom m" and ch: "chain (fat m) V cs" and pos: "at_pos m cs off clu sec"
    and e: "e = (off div 512 + 1) * 512" and lt: "e < 512 * length (sectors m cs)"
  shows "e mod unat (bytes_per_cluster m) = 0 \<Longrightarrow>
      at_pos m cs e (next_entry (fat m) V clu) (first_sector_of_cluster m (next_entry (fat m) V clu))"
    and "e mod unat (bytes_per_cluster m) \<noteq> 0 \<Longrightarrow> at_pos m cs e clu (sec + 1)"
proof -
  define q k where "q = unat (sectors_per_cluster m)" and "k = off div 512"
  have q: "0 < q" "unat (bytes_per_cluster m) = 512 * q" using geom by (auto simp: file_geom_def q_def)
  have e': "e = 512 * Suc k" using e by (simp add: k_def)
  have div: "off div (512 * q) = k div q" "e div (512 * q) = Suc k div q" "e div 512 = Suc k" and mod: "e mod (512 * q) = 512 * (Suc k mod q)"
    unfolding e' by (simp_all only: k_def div_mult2_eq mult_mod_right nonzero_mult_div_cancel_left)
  have k: "Suc k < q * length cs" using lt e by (simp add: length_sectors k_def q_def)
  then have "Suc k div q < length cs" by (simp add: less_mult_imp_div_less mult.commute)
  have nth: "sectors m cs ! k = first_sector_of_cluster m (cs ! (k div q)) + k mod q"
    "sectors m cs ! Suc k = first_sector_of_cluster m (cs ! (Suc k div q)) + Suc k mod q"
    using nth_sectors [of k m cs] nth_sectors [of "Suc k" m cs] k by (simp_all add: q_def)
  have clu: "clu = cs ! (k div q)" "sec = sectors m cs ! k" using pos div(1) by (simp_all add: at_pos_def q_def k_def)
  show "at_pos m cs e (next_entry (fat m) V clu) (first_sector_of_cluster m (next_entry (fat m) V clu))"
    if "e mod unat (bytes_per_cluster m) = 0"
  proof -
    have z: "Suc k mod q = 0" using that mod q by simp
    then have sd: "Suc k div q = Suc (k div q)" by (simp add: div_Suc)
    have "next_entry (fat m) V clu = cs ! (Suc k div q)"
      using chain_nth [OF ch, of "k div q"] \<open>Suc k div q < length cs\<close> clu(1) sd by simp
    then show ?thesis using lt div z nth(2) by (simp add: at_pos_def flip: q_def)
  qed
  show "at_pos m cs e clu (sec + 1)" if "e mod unat (bytes_per_cluster m) \<noteq> 0"
  proof -
    have z: "Suc k mod q \<noteq> 0" using that mod q by simp
    then have "Suc k div q = k div q" "Suc k mod q = Suc (k mod q)" by (simp_all add: div_Suc mod_Suc split: if_splits)
    then show ?thesis using lt div nth clu by (simp add: at_pos_def flip: q_def)
  qed
qed

lemma chain_next_link:
  assumes "chain f V cs" and "c \<in> set cs" and "next_entry f V c \<in> set cs"
  shows "\<not> END_CLUSTER \<le> next_entry f V c"
  using chain_in_fat [OF assms(1,3)] in_fat_link(2) by blast

lemma get_pos_spec:
  assumes geom: "file_geom m" "fat_geom I (fat m)" and ok: "fs_ok I hs s" and ch: "chain (fat m) (disk_view s) cs"
    and first: "first_cluster e = hd cs" and off: "off < 512 * length (sectors m cs)" "off < 2 ^ 32"
  shows "\<exists>clu sec s'. get_pos e off m s = Inr ((clu, sec, off mod 512), s') \<and> fs_ok I hs s' \<and> disk_view s' = disk_view s \<and>
    at_pos m cs off clu sec \<and> \<not> END_CLUSTER \<le> clu"
proof -
  define q where "q = unat (sectors_per_cluster m)"
  have q: "0 < q" "unat (bytes_per_cluster m) = 512 * q" "unat (bytes_per_sector m) = 512" using geom by (auto simp: file_geom_def q_def)
  let ?i = "word_of_nat off div bytes_per_cluster m"
  have ui: "unat ?i = off div (512 * q)" using off(2) q by (simp add: unat_div unat_of_nat take_bit_eq_mod)
  have bpc: "bytes_per_cluster m \<noteq> 0" using q by (metis mult_is_0 neq0_conv unat_0 zero_neq_numeral)
  obtain c cs' where cs: "cs = c # cs'" using ch by (cases cs) auto
  have "off < (512 * q) * length cs" using off(1) by (simp add: length_sectors q_def mult.assoc)
  then have lt: "off div (512 * q) < length cs" by (simp add: less_mult_imp_div_less mult.commute)
  obtain s' where s': "cluster_at_loop (unat ?i) (fat m) c s = Inr (cs ! (off div (512 * q)), s')" "fs_ok I hs s'" "disk_view s' = disk_view s"
    using cluster_at_loop_spec [OF geom(2) ok, of c cs' "unat ?i"] ch cs lt ui by auto
  let ?c = "cs ! (off div (512 * q))"
  have "in_fat (fat m) ?c" using chain_in_fat [OF ch] lt by simp
  note link = in_fat_link [OF this]
  have sec: "first_sector_of_cluster m ?c + (off - unat ?i * (512 * q)) div 512 = sectors m cs ! (off div 512)"
  proof -
    have "off - off div (512 * q) * (512 * q) = off mod (512 * q)" by (simp add: minus_div_mult_eq_mod)
    moreover have "off mod (512 * q) div 512 = off div 512 mod q" by (simp add: mod_mult2_eq)
    moreover have "off div 512 < q * length cs" using off(1) by (simp add: length_sectors q_def less_mult_imp_div_less mult.commute)
    ultimately show ?thesis using nth_sectors [of "off div 512" m cs] ui by (simp add: q_def div_mult2_eq)
  qed
  have "get_pos e off m s = Inr ((?c, sectors m cs ! (off div 512), off mod 512), s')"
    using s'(1) link(1) sec bpc first cs q by (simp add: get_pos_def cluster_of_offset_def get_cluster_at_def Let_def)
  moreover have "at_pos m cs off ?c (sectors m cs ! (off div 512))" using off(1) by (simp add: at_pos_def q_def)
  ultimately show ?thesis using s'(2,3) link(2) by blast
qed

section \<open>Reading\<close>

lemma block_bounds:
  fixes off stop :: nat
  assumes "off < stop" and "e = min ((off div 512 + 1) * 512) stop"
  shows "off < e" and "e \<le> stop" and "off mod 512 + (e - off) \<le> 512" and "e \<noteq> stop \<Longrightarrow> e = (off div 512 + 1) * 512"
    and "off = 512 * (off div 512) + off mod 512"
proof -
  have m: "off mod 512 < 512" by simp
  show off: "off = 512 * (off div 512) + off mod 512" by simp
  have d: "(off div 512 + 1) * 512 = 512 * (off div 512) + 512" by simp
  with m off have "off < (off div 512 + 1) * 512" by linarith
  with assms show "off < e" "e \<le> stop" "e \<noteq> stop \<Longrightarrow> e = (off div 512 + 1) * 512" by (auto simp: min_def split: if_splits)
  have "e \<le> 512 * (off div 512) + 512" using assms(2) d by simp
  with off m show "off mod 512 + (e - off) \<le> 512" by linarith
qed

lemma read_at_loop_spec:
  fixes s :: "'d fs_state"
  assumes geom: "file_geom m" "fat_geom I (fat m)" and ch: "chain (fat m) V cs"
    and own: "\<forall>b \<in> set (sectors m cs). owns I (entry_cache e) b"
  shows "fs_ok I hs s \<Longrightarrow> disk_view s = V \<Longrightarrow> at_pos m cs off clu sec \<Longrightarrow> off < stop \<Longrightarrow>
    stop \<le> 512 * length (sectors m cs) \<Longrightarrow> rs + (stop - off) \<le> length buf \<Longrightarrow> stop \<le> 512 * (off div 512 + n) \<Longrightarrow>
    \<exists>s'. read_at_loop n e m stop off clu sec rs buf s =
      Inr (rs + (stop - off), overwrite rs (slice off (stop - off) (content V (sectors m cs))) buf, s') \<and>
      fs_ok I hs s' \<and> disk_view s' = V"
proof (induction n arbitrary: s off clu sec rs buf)
  case 0
  have "512 * (off div 512) \<le> off" by (rule times_div_less_eq_dividend)
  with 0 have False by simp
  then show ?case ..
next
  case (Suc n)
  let ?secs = "sectors m cs"
  define e' where "e' = min ((off div 512 + 1) * 512) stop"
  note b = block_bounds [OF Suc.prems(4) e'_def]
  note pin = at_pos_in [OF geom(1) Suc.prems(3)]
  have len: "\<forall>x \<in> set ?secs. length (V x) = 512" using disk_view_length [OF Suc.prems(1)] Suc.prems(2) by (simp add: BLOCK_SZ_def)
  have bps: "unat (bytes_per_sector m) = 512" using geom(1) by (simp add: file_geom_def)
  let ?src = "slice off (e' - off) (content V ?secs)"
  have src: "slice (off mod 512) (e' - off) (V sec) = ?src"
    using content_slice [OF len pin(3) b(3)] Suc.prems(3) b(5) by (simp add: at_pos_def)
  have lsrc: "length ?src = e' - off" using length_content [OF len] Suc.prems(5) b(1,2) by simp
  obtain s1 where s1: "cached_read (entry_cache e) s sec READ 512 0 (\<lambda>d. sliceR d (off mod 512) (off mod 512 + (e' - off))) = Inr (Inr ?src, s1)"
    "fs_ok I hs s1" "disk_view s1 = V"
    using cached_read_spec [OF Suc.prems(1) bspec [OF own pin(2)], of 0 512 READ "\<lambda>d. sliceR d (off mod 512) (off mod 512 + (e' - off))"]
      Suc.prems(2) bspec [OF len pin(2)] b(3) src by (auto simp: BLOCK_SZ_def slice_all sliceR_def)
  let ?buf = "overwrite rs ?src buf"
  have fit: "rs + (e' - off) \<le> length buf" using Suc.prems(6) b(1,2) by linarith
  have dst: "sliceR buf rs (rs + (e' - off)) = Inr (slice rs (e' - off) buf)" using fit by (simp add: sliceR_def)
  have step: "read_at_loop (Suc n) e m stop off clu sec rs buf s =
      (if e' = stop then Inr (rs + (e' - off), ?buf, s1)
       else if e' mod unat (bytes_per_cluster m) = 0 then
         bindR (get_next_cluster (fat m) clu s1) (\<lambda>(c, s2). if c \<ge> END_CLUSTER then Inr (rs + (e' - off), ?buf, s2)
           else read_at_loop n e m stop e' c (first_sector_of_cluster m c) (rs + (e' - off)) ?buf s2)
       else read_at_loop n e m stop e' clu (sec + 1) (rs + (e' - off)) ?buf s1)"
    unfolding read_at_loop.simps Let_def bps BLOCK_SZ_def e'_def [symmetric] using s1(1) dst by simp
  show ?case
  proof (cases "e' = stop")
    case True
    then show ?thesis using s1(2,3) unfolding step by simp
  next
    case False
    note e'_eq = b(4) [OF False]
    have lt: "e' < stop" using False b(2) by simp
    then have lt': "e' < 512 * length ?secs" using Suc.prems(5) by simp
    note nx = pos_next [OF geom(1) ch Suc.prems(3) e'_eq lt']
    have IH: "\<exists>s'. read_at_loop n e m stop e' clu' sec' (rs + (e' - off)) ?buf s2 =
        Inr (rs + (stop - off), overwrite rs (slice off (stop - off) (content V ?secs)) buf, s') \<and> fs_ok I hs s' \<and> disk_view s' = V"
      if "fs_ok I hs s2" "disk_view s2 = V" "at_pos m cs e' clu' sec'" for s2 :: "'d fs_state" and clu' sec'
    proof -
      have sz: "stop - off = (e' - off) + (stop - e')" "off + (e' - off) = e'" using b(1) lt by simp_all
      have "e' div 512 = off div 512 + 1" using e'_eq by simp
      then have fuel: "stop \<le> 512 * (e' div 512 + n)" using Suc.prems(7) by simp
      have room: "rs + (e' - off) + (stop - e') \<le> length ?buf" using Suc.prems(6) sz(1) fit lsrc by simp
      note Suc.IH [OF that lt Suc.prems(5) room fuel]
      moreover have "overwrite (rs + (e' - off)) (slice e' (stop - e') (content V ?secs)) ?buf =
          overwrite rs (slice off (stop - off) (content V ?secs)) buf"
      proof -
        have l2: "length (slice e' (stop - e') (content V ?secs)) = stop - e'" using length_content [OF len] Suc.prems(5) lt by simp
        have "rs + length ?src + length (slice e' (stop - e') (content V ?secs)) \<le> length buf"
          unfolding lsrc l2 using Suc.prems(6) sz(1) by linarith
        from overwrite_append [OF this, unfolded lsrc] show ?thesis
          unfolding sz(1) slice_append sz(2) .
      qed
      moreover have "rs + (e' - off) + (stop - e') = rs + (stop - off)" using sz(1) by simp
      ultimately show ?thesis by (simp only:)
    qed
    show ?thesis
    proof (cases "e' mod unat (bytes_per_cluster m) = 0")
      case True
      let ?c = "next_entry (fat m) V clu"
      obtain s2 where s2: "get_next_cluster (fat m) clu s1 = Inr (?c, s2)" "fs_ok I hs s2" "disk_view s2 = V"
        using get_next_cluster_spec [OF geom(2) _ s1(2), of clu] chain_in_fat [OF ch pin(1)] s1(3) by auto
      have "\<not> END_CLUSTER \<le> ?c" using chain_next_link [OF ch pin(1) at_pos_in(1) [OF geom(1) nx(1) [OF True]]] .
      then show ?thesis using IH [OF s2(2,3) nx(1) [OF True]] s2(1) True False unfolding step by simp
    next
      case nz: False
      then show ?thesis using IH [OF s1(2,3) nx(2) [OF nz]] False unfolding step by simp
    qed
  qed
qed

section \<open>Writing\<close>

lemma chain_cong:
  assumes "\<forall>b \<in> fat_sectors f. V' b = V b" and "chain f V cs"
  shows "chain f V' cs"
proof -
  have "next_entry f V' c = next_entry f V c" if "in_fat f c" for c
    using entry_cong [OF assms(1) that] by (simp add: next_entry_def)
  then show ?thesis using assms(2) by (induction f V cs rule: chain.induct) simp_all
qed

lemma write_at_loop_spec:
  fixes s :: "'d fs_state"
  assumes geom: "file_geom m" "fat_geom I (fat m)" and dist: "distinct (sectors m cs)"
    and apart: "set (sectors m cs) \<inter> fat_sectors (fat m) = {}" and own: "\<forall>b \<in> set (sectors m cs). owns I (entry_cache e) b"
  shows "fs_ok I hs s \<Longrightarrow> chain (fat m) (disk_view s) cs \<Longrightarrow> at_pos m cs off clu sec \<Longrightarrow> off < stop \<Longrightarrow>
    stop \<le> 512 * length (sectors m cs) \<Longrightarrow> ws + (stop - off) \<le> length buf \<Longrightarrow> stop \<le> 512 * (off div 512 + n) \<Longrightarrow>
    \<exists>s'. write_at_loop n e m stop off clu sec ws buf s = Inr (ws + (stop - off), s') \<and> fs_ok I hs s' \<and>
      content (disk_view s') (sectors m cs) = overwrite off (slice ws (stop - off) buf) (content (disk_view s) (sectors m cs)) \<and>
      (\<forall>b. b \<notin> set (sectors m cs) \<longrightarrow> disk_view s' b = disk_view s b)"
proof (induction n arbitrary: s off clu sec ws)
  case 0
  have "512 * (off div 512) \<le> off" by (rule times_div_less_eq_dividend)
  with 0 have False by simp
  then show ?case ..
next
  case (Suc n)
  let ?secs = "sectors m cs" and ?V = "disk_view s"
  define e' where "e' = min ((off div 512 + 1) * 512) stop"
  note b = block_bounds [OF Suc.prems(4) e'_def]
  note pin = at_pos_in [OF geom(1) Suc.prems(3)]
  have len: "\<forall>x \<in> set ?secs. length (?V x) = 512" using disk_view_length [OF Suc.prems(1)] by (simp add: BLOCK_SZ_def)
  have bps: "unat (bytes_per_sector m) = 512" using geom(1) by (simp add: file_geom_def)
  let ?src = "slice ws (e' - off) buf"
  have fit: "ws + (e' - off) \<le> length buf" using Suc.prems(6) b(1,2) by linarith
  then have lsrc: "length ?src = e' - off" and src: "sliceR buf ws (ws + (e' - off)) = Inr ?src" by (simp_all add: sliceR_def)
  obtain s0 where s0: "get_cache (entry_cache e) s sec READ = Inr (sec, s0)" "fs_ok I hs s0" "disk_view s0 = ?V"
    and c: "\<exists>c. map_of (queue (manager (entry_cache e) s0)) sec = Some c"
    by (rule get_cache_spec [OF Suc.prems(1) bspec [OF own pin(2)], of READ]) blast
  obtain c where c: "map_of (queue (manager (entry_cache e) s0)) sec = Some c" using c by blast
  obtain s1 where s1: "handle_modify (entry_cache e) s0 sec 512 0 (overwrite (off mod 512) ?src) = Inr s1" "fs_ok I hs s1"
    and v1: "disk_view s1 = ?V(sec := overwrite (off mod 512) ?src (?V sec))"
    using handle_modify_spec [OF s0(2) bspec [OF own pin(2)] c, of 0 512 "overwrite (off mod 512) ?src"]
      b(3) lsrc bspec [OF len pin(2)] unfolding s0(3) by (auto simp: BLOCK_SZ_def slice_all overwrite_all)
  have sec: "sec = ?secs ! (off div 512)" using Suc.prems(3) by (simp add: at_pos_def)
  have v1_content: "content (disk_view s1) ?secs = overwrite off ?src (content ?V ?secs)"
    using content_write [OF len pin(3) dist, of "off mod 512" ?src] b(3,5) lsrc unfolding v1 sec by simp
  have v1_other: "\<forall>x. x \<notin> set ?secs \<longrightarrow> disk_view s1 x = ?V x" using pin(2) unfolding v1 by auto
  have ch1: "chain (fat m) (disk_view s1) cs" by (rule chain_cong [OF _ Suc.prems(2)]) (use v1_other apart in auto)
  have step: "write_at_loop (Suc n) e m stop off clu sec ws buf s =
      (if e' = stop then Inr (ws + (e' - off), s1)
       else if e' mod unat (bytes_per_cluster m) = 0 then
         bindR (get_next_cluster (fat m) clu s1) (\<lambda>(c, s2). if c \<ge> END_CLUSTER then Inl (ExplicitPanic ''END_CLUSTER'')
           else write_at_loop n e m stop e' c (first_sector_of_cluster m c) (ws + (e' - off)) buf s2)
       else write_at_loop n e m stop e' clu (sec + 1) (ws + (e' - off)) buf s1)"
    unfolding write_at_loop.simps Let_def bps BLOCK_SZ_def e'_def [symmetric] using s0(1) s1(1) src b(1,3) by simp
  show ?case
  proof (cases "e' = stop")
    case True
    then show ?thesis using s1(2) v1_content v1_other unfolding step by simp
  next
    case False
    note e'_eq = b(4) [OF False]
    have lt: "e' < stop" using False b(2) by simp
    then have lt': "e' < 512 * length ?secs" using Suc.prems(5) by simp
    note nx = pos_next [OF geom(1) ch1 Suc.prems(3) e'_eq lt']
    have IH: "\<exists>s'. write_at_loop n e m stop e' clu' sec' (ws + (e' - off)) buf s2 = Inr (ws + (stop - off), s') \<and> fs_ok I hs s' \<and>
        content (disk_view s') ?secs = overwrite off (slice ws (stop - off) buf) (content ?V ?secs) \<and>
        (\<forall>x. x \<notin> set ?secs \<longrightarrow> disk_view s' x = ?V x)"
      if ok2: "fs_ok I hs s2" and v2: "disk_view s2 = disk_view s1" and p2: "at_pos m cs e' clu' sec'" for s2 :: "'d fs_state" and clu' sec'
    proof -
      have sz: "stop - off = (e' - off) + (stop - e')" "off + (e' - off) = e'" using b(1) lt by simp_all
      have "e' div 512 = off div 512 + 1" using e'_eq by simp
      then have fuel: "stop \<le> 512 * (e' div 512 + n)" using Suc.prems(7) by simp
      have room: "ws + (e' - off) + (stop - e') \<le> length buf" using Suc.prems(6) sz(1) by simp
      have ch2: "chain (fat m) (disk_view s2) cs" using ch1 v2 by simp
      have fits: "off + length ?src + length (slice (ws + (e' - off)) (stop - e') buf) \<le> length (content ?V ?secs)"
        using lsrc room sz Suc.prems(5) lt length_content [OF len] by simp
      have "overwrite e' (slice (ws + (e' - off)) (stop - e') buf) (overwrite off ?src (content ?V ?secs)) =
          overwrite off (slice ws (stop - off) buf) (content ?V ?secs)"
        using overwrite_append [OF fits, unfolded lsrc] unfolding sz slice_append .
      moreover have "ws + (e' - off) + (stop - e') = ws + (stop - off)" using sz(1) by simp
      moreover obtain s' where "write_at_loop n e m stop e' clu' sec' (ws + (e' - off)) buf s2 = Inr (ws + (e' - off) + (stop - e'), s')"
        "fs_ok I hs s'" "content (disk_view s') ?secs = overwrite e' (slice (ws + (e' - off)) (stop - e') buf) (overwrite off ?src (content ?V ?secs))"
        "\<forall>x. x \<notin> set ?secs \<longrightarrow> disk_view s' x = disk_view s1 x"
        using Suc.IH [OF ok2 ch2 p2 lt Suc.prems(5) room fuel] unfolding v2 v1_content by (elim exE conjE)
      ultimately show ?thesis using v1_other by (intro exI [of _ s']) simp
    qed
    show ?thesis
    proof (cases "e' mod unat (bytes_per_cluster m) = 0")
      case True
      let ?c = "next_entry (fat m) (disk_view s1) clu"
      obtain s2 where s2: "get_next_cluster (fat m) clu s1 = Inr (?c, s2)" "fs_ok I hs s2" "disk_view s2 = disk_view s1"
        using get_next_cluster_spec [OF geom(2) _ s1(2), of clu] chain_in_fat [OF ch1 pin(1)] by auto
      have "\<not> END_CLUSTER \<le> ?c" using chain_next_link [OF ch1 pin(1) at_pos_in(1) [OF geom(1) nx(1) [OF True]]] .
      then show ?thesis using IH [OF s2(2,3) nx(1) [OF True]] s2(1) True False unfolding step by simp
    next
      case nz: False
      then show ?thesis using IH [OF s1(2) refl nx(2) [OF nz]] False unfolding step by simp
    qed
  qed
qed

section \<open>A file as a list of bytes\<close>

text \<open>
  \<open>file_on I m e cs V\<close>: on the disk \<open>V\<close> the entry \<open>e\<close> is a regular file whose chain is \<open>cs\<close>, whose
  sectors are distinct, belong to the data cache and are not the table's, and hold its recorded size.
\<close>

definition file_on :: "nat set \<Rightarrow> FAT32Manager \<Rightarrow> ShortDirEntry \<Rightarrow> u32 list \<Rightarrow> (nat \<Rightarrow> u8 list) \<Rightarrow> bool" where
  "file_on I m e cs V \<longleftrightarrow> \<not> is_dir e \<and> file_geom m \<and> fat_geom I (fat m) \<and> chain (fat m) V cs \<and> first_cluster e = hd cs \<and>
     distinct (sectors m cs) \<and> set (sectors m cs) \<inter> I = {} \<and> unat (fsize e) \<le> 512 * length (sectors m cs)"

definition file_bytes :: "FAT32Manager \<Rightarrow> ShortDirEntry \<Rightarrow> u32 list \<Rightarrow> (nat \<Rightarrow> u8 list) \<Rightarrow> u8 list" where
  "file_bytes m e cs V = take (unat (fsize e)) (content V (sectors m cs))"

lemma file_onD:
  assumes "file_on I m e cs V"
  shows "file_geom m" "fat_geom I (fat m)" "chain (fat m) V cs" "first_cluster e = hd cs" "distinct (sectors m cs)"
    "set (sectors m cs) \<inter> fat_sectors (fat m) = {}" "\<forall>b \<in> set (sectors m cs). owns I (entry_cache e) b"
    "unat (fsize e) \<le> 512 * length (sectors m cs)" "\<not> is_dir e"
  using assms by (auto simp: file_on_def fat_geom_def owns_def entry_cache_def)

lemma file_on_kept:
  assumes "file_on I m e cs V" and "\<forall>b. b \<notin> set (sectors m cs) \<longrightarrow> V' b = V b"
  shows "file_on I m e cs V'"
proof -
  have "chain (fat m) V' cs" by (rule chain_cong [OF _ file_onD(3) [OF assms(1)]]) (use assms(2) file_onD(6) [OF assms(1)] in auto)
  with assms(1) show ?thesis by (simp add: file_on_def)
qed

lemma file_pos:
  assumes fo: "file_on I m e cs (disk_view s)" and ok: "fs_ok I hs s" and off: "off < unat (fsize e)"
  obtains clu sec s' where "get_pos e off m s = Inr ((clu, sec, off mod 512), s')" "fs_ok I hs s'" "disk_view s' = disk_view s"
    "at_pos m cs off clu sec" "\<not> END_CLUSTER \<le> clu"
proof -
  have "off < 512 * length (sectors m cs)" "off < 2 ^ 32" using off file_onD(8) [OF fo] unsigned_less [of "fsize e", where 'a = nat] by auto
  from get_pos_spec [OF file_onD(1,2) [OF fo] ok file_onD(3,4) [OF fo] this] that show ?thesis by blast
qed

lemma length_file_bytes:
  assumes "file_on I m e cs V" and "\<forall>b. length (V b) = 512"
  shows "length (file_bytes m e cs V) = unat (fsize e)"
  using length_content [of "sectors m cs" V] assms file_onD(8) [OF assms(1)] by (simp add: file_bytes_def)

lemma slice_take: "a + n \<le> k \<Longrightarrow> slice a n (take k xs) = slice a n xs"
  by (simp add: slice_def drop_take)

lemma slice_min: "slice a (min n (length xs - a)) xs = slice a n xs"
  by (simp add: slice_def min_def)

lemma take_overwrite: "a + length src \<le> k \<Longrightarrow> k \<le> length xs \<Longrightarrow> take k (overwrite a src xs) = overwrite a src (take k xs)"
  by (rule nth_equalityI) (auto simp: nth_overwrite)

lemma fuel_enough:
  fixes off stop fuel :: nat
  assumes "stop - off \<le> 512 * (fuel - 1)" and "0 < fuel"
  shows "stop \<le> 512 * (off div 512 + fuel)"
proof -
  have "off = 512 * (off div 512) + off mod 512" "off mod 512 < 512" by simp_all
  moreover obtain k where "fuel = Suc k" using assms(2) by (cases fuel) auto
  ultimately show ?thesis using assms(1) by simp
qed

lemma read_file_spec:
  assumes fo: "file_on I m e cs (disk_view s)" and ok: "fs_ok I hs s"
    and fuel: "length buf \<le> 512 * (fuel - 1)" "0 < fuel"
  shows "\<exists>s'. read_at fuel e off buf m s =
      Inr (min (length buf) (unat (fsize e) - off),
        overwrite 0 (slice off (length buf) (file_bytes m e cs (disk_view s))) buf, s') \<and>
      fs_ok I hs s' \<and> disk_view s' = disk_view s"
proof -
  note f = file_onD [OF fo]
  let ?V = "disk_view s" and ?sz = "unat (fsize e)" and ?stop = "min (off + length buf) (unat (fsize e))"
  have len: "length (file_bytes m e cs ?V) = ?sz"
    using length_file_bytes [OF fo] disk_view_length [OF ok] by (simp add: BLOCK_SZ_def)
  have stop: "io_end fuel e off (length buf) m s = Inr (?stop, s)" using f(9) by (simp add: io_end_def)
  show ?thesis
  proof (cases "?stop \<le> off")
    case True
    then have "buf = [] \<or> ?sz \<le> off" by (auto simp: min_def split: if_splits)
    then have none: "slice off (length buf) (file_bytes m e cs ?V) = []" "min (length buf) (?sz - off) = 0"
      using len by (auto simp: slice_def)
    show ?thesis unfolding none using True stop ok by (simp add: read_at_def overwrite_def)
  next
    case False
    then have off: "off < ?sz" "off < ?stop" by (simp_all add: not_le)
    obtain clu sec s1 where p: "get_pos e off m s = Inr ((clu, sec, off mod 512), s1)" "fs_ok I hs s1" "disk_view s1 = ?V"
      "at_pos m cs off clu sec" "\<not> END_CLUSTER \<le> clu"
      by (rule file_pos [OF fo ok off(1)])
    have n: "?stop - off = min (length buf) (?sz - off)" by simp
    have bounds: "?stop \<le> 512 * length (sectors m cs)" "0 + (?stop - off) \<le> length buf" using f(8) by simp_all
    have fl: "?stop \<le> 512 * (off div 512 + fuel)" using fuel n by (intro fuel_enough) auto
    have "read_at fuel e off buf m s = read_at_loop fuel e m ?stop off clu sec 0 buf s1"
      using False stop p(1,5) by (simp add: read_at_def)
    moreover have "slice off (?stop - off) (content ?V (sectors m cs)) = slice off (length buf) (file_bytes m e cs ?V)"
    proof -
      have "slice off (?stop - off) (content ?V (sectors m cs)) = slice off (?stop - off) (file_bytes m e cs ?V)"
        unfolding file_bytes_def using off by (intro slice_take [symmetric]) simp
      then show ?thesis using slice_min [of off "length buf" "file_bytes m e cs ?V"] len n by simp
    qed
    ultimately show ?thesis using read_at_loop_spec [OF f(1,2,3,7) p(2,3,4) off(2) bounds fl] unfolding n by simp
  qed
qed

lemma write_file_spec:
  assumes fo: "file_on I m e cs (disk_view s)" and ok: "fs_ok I hs s"
    and off: "off < unat (fsize e)" "buf \<noteq> []" and fuel: "length buf \<le> 512 * (fuel - 1)" "0 < fuel"
  shows "\<exists>s'. write_at fuel e off buf m s = Inr (min (length buf) (unat (fsize e) - off), s') \<and> fs_ok I hs s' \<and>
      file_bytes m e cs (disk_view s') = overwrite off (take (unat (fsize e) - off) buf) (file_bytes m e cs (disk_view s)) \<and>
      (\<forall>b. b \<notin> set (sectors m cs) \<longrightarrow> disk_view s' b = disk_view s b)"
proof -
  note f = file_onD [OF fo]
  let ?V = "disk_view s" and ?sz = "unat (fsize e)" and ?stop = "min (off + length buf) (unat (fsize e))"
  have stop: "io_end fuel e off (length buf) m s = Inr (?stop, s)" using f(9) by (simp add: io_end_def)
  obtain clu sec s1 where p: "get_pos e off m s = Inr ((clu, sec, off mod 512), s1)" "fs_ok I hs s1" "disk_view s1 = ?V"
    "at_pos m cs off clu sec"
    by (rule file_pos [OF fo ok off(1)])
  have lt: "off < ?stop" using off by simp
  have n: "?stop - off = min (length buf) (?sz - off)" by simp
  have bounds: "?stop \<le> 512 * length (sectors m cs)" "0 + (?stop - off) \<le> length buf" using f(8) by simp_all
  have fl: "?stop \<le> 512 * (off div 512 + fuel)" using fuel n by (intro fuel_enough) auto
  have ch: "chain (fat m) (disk_view s1) cs" using f(3) p(3) by simp
  have start: "write_at fuel e off buf m s = write_at_loop fuel e m ?stop off clu sec 0 buf s1" using stop p(1) by (simp add: write_at_def)
  have len: "length (content ?V (sectors m cs)) = 512 * length (sectors m cs)"
    using length_content [of "sectors m cs" ?V] disk_view_length [OF ok] by (simp add: BLOCK_SZ_def)
  have "slice 0 (?stop - off) buf = take (?sz - off) buf" unfolding n by (simp add: slice_def min_def)
  then have "take ?sz (overwrite off (slice 0 (?stop - off) buf) (content ?V (sectors m cs))) =
      overwrite off (take (?sz - off) buf) (file_bytes m e cs ?V)"
    unfolding file_bytes_def using off f(8) len by (simp add: take_overwrite)
  then show ?thesis
    using write_at_loop_spec [OF f(1,2,5,6,7) p(2) ch p(4) lt bounds fl] unfolding start p(3) n file_bytes_def by auto
qed

section \<open>Reading and writing files\<close>

text \<open>
  (C37) Reading a file. For every offset and buffer, with fuel for the sectors the buffer spans,
  \<open>read_at\<close> on a file returns, copies into the front of the buffer the file's bytes from that offset on
  (as many as the buffer and the file have), reports exactly their number, which is 0 at or past the end
  of the file, leaves the rest of the buffer alone, and changes nothing on the disk.
\<close>

theorem read_at_reads_file:
  assumes "file_on I m e cs (disk_view s)" and "fs_ok I hs s" and "length buf \<le> 512 * (fuel - 1)" and "0 < fuel"
  shows "\<exists>n buf' s'. read_at fuel e off buf m s = Inr (n, buf', s') \<and> n = min (length buf) (unat (fsize e) - off) \<and>
    take n buf' = slice off n (file_bytes m e cs (disk_view s)) \<and> drop n buf' = drop n buf \<and>
    fs_ok I hs s' \<and> disk_view s' = disk_view s"
proof -
  have "length (file_bytes m e cs (disk_view s)) = unat (fsize e)"
    using length_file_bytes [OF assms(1)] disk_view_length [OF assms(2)] by (simp add: BLOCK_SZ_def)
  then have "length (slice off (length buf) (file_bytes m e cs (disk_view s))) = min (length buf) (unat (fsize e) - off)" by simp
  moreover have "slice off (min (length buf) (unat (fsize e) - off)) (file_bytes m e cs (disk_view s)) =
      slice off (length buf) (file_bytes m e cs (disk_view s))"
    using slice_min [of off "length buf" "file_bytes m e cs (disk_view s)"] \<open>length (file_bytes m e cs (disk_view s)) = _\<close> by simp
  ultimately show ?thesis using read_file_spec [OF assms, of off] by (auto simp: overwrite_def)
qed

text \<open>
  (C10) Writing a file. Inside the file \<open>write_at\<close> returns without panicking, replaces exactly the bytes
  from the offset on by the buffer (cut at the recorded size, which it never changes), reports how many it
  wrote, and touches no sector outside the file's chain; a read of the same range then returns the bytes
  written.
\<close>

theorem write_at_then_read_at:
  assumes fo: "file_on I m e cs (disk_view s)" and ok: "fs_ok I hs s" and off: "off < unat (fsize e)" "buf \<noteq> []"
    and fuel: "length buf \<le> 512 * (fuel - 1)" "0 < fuel"
  shows "\<exists>n s'. write_at fuel e off buf m s = Inr (n, s') \<and> n = min (length buf) (unat (fsize e) - off) \<and>
    file_bytes m e cs (disk_view s') = overwrite off (take n buf) (file_bytes m e cs (disk_view s)) \<and>
    (\<forall>b. b \<notin> set (sectors m cs) \<longrightarrow> disk_view s' b = disk_view s b) \<and>
    (\<exists>s''. read_at fuel e off (replicate n 0) m s' = Inr (n, take n buf, s'') \<and> disk_view s'' = disk_view s')"
proof -
  let ?n = "min (length buf) (unat (fsize e) - off)" and ?bytes = "\<lambda>s. file_bytes m e cs (disk_view s)"
  have n: "take (unat (fsize e) - off) buf = take ?n buf" by (simp add: min_def)
  obtain s' where s': "write_at fuel e off buf m s = Inr (?n, s')" "fs_ok I hs s'"
    "?bytes s' = overwrite off (take ?n buf) (?bytes s)" "\<forall>b. b \<notin> set (sectors m cs) \<longrightarrow> disk_view s' b = disk_view s b"
    using write_file_spec [OF assms] unfolding n by blast
  have len: "length (?bytes s) = unat (fsize e)"
    using length_file_bytes [OF fo] disk_view_length [OF ok] by (simp add: BLOCK_SZ_def)
  have "length (replicate ?n (0 :: u8)) \<le> 512 * (fuel - 1)" using fuel(1) by simp
  then obtain s'' where "read_at fuel e off (replicate ?n 0) m s' =
      Inr (min ?n (unat (fsize e) - off), overwrite 0 (slice off ?n (?bytes s')) (replicate ?n 0), s'')" "disk_view s'' = disk_view s'"
    using read_file_spec [OF file_on_kept [OF fo s'(4)] s'(2) _ fuel(2), of "replicate ?n 0" off] by auto
  moreover have "slice off ?n (?bytes s') = take ?n buf"
    unfolding s'(3) using len off(1) by (intro slice_overwrite_same [where src = "take ?n buf", simplified length_take min.absorb2]) auto
  ultimately show ?thesis using s' off by (auto simp: overwrite_all)
qed

section \<open>Witnesses\<close>

text \<open>A file of 1000 bytes on the chain 2, 5, 4 of the example disk.\<close>

definition example_file :: ShortDirEntry where
  "example_file = ShortDirEntry_empty\<lparr>cluster_low := 2, fsize := 1000\<rparr>"

lemma example_file_on: "file_on {0, 1, 2, 3} example_manager example_file [2, 5, 4] (disk_view (example_fs example_disk))"
proof -
  have "sectors example_manager [2, 5, 4] = [4, 7, 6]"
    by (simp add: sectors_def first_sector_of_cluster_def example_manager_def)
  moreover have "first_cluster example_file = 2" "\<not> is_dir example_file"
    by (simp_all add: example_file_def ShortDirEntry_empty_def first_cluster_def is_dir_def)
  moreover have "file_geom example_manager" by (simp add: file_geom_def example_manager_def)
  ultimately show ?thesis using example_geom(1) example_chain
    by (simp add: file_on_def example_manager_fat) (simp add: example_file_def)
qed

theorem read_at_reads_file_witness:
  "\<exists>buf' s'. read_at 2 example_file 990 (replicate 20 9) example_manager (example_fs example_disk) = Inr (10, buf', s') \<and>
     drop 10 buf' = replicate 10 9"
proof -
  have "unat (fsize example_file) = 1000" by (simp add: example_file_def)
  then show ?thesis using read_at_reads_file [OF example_file_on example_fs_ok, of "replicate 20 9" 2 990] by auto
qed

theorem write_at_then_read_at_witness:
  "\<exists>s' s''. write_at 2 example_file 511 [1, 2, 3] example_manager (example_fs example_disk) = Inr (3, s') \<and>
     read_at 2 example_file 511 (replicate 3 0) example_manager s' = Inr (3, [1, 2, 3], s'')"
proof -
  have "unat (fsize example_file) = 1000" by (simp add: example_file_def)
  then show ?thesis using write_at_then_read_at [OF example_file_on example_fs_ok, of 511 "[1, 2, 3]" 2] by (auto simp: numeral_3_eq_3)
qed

end
