(* ===== verification/Vfs.thy ===== *)
theory Vfs
  imports Fat_File
begin

text \<open>
  Files and directories (fat32/src/vfs.rs): \<open>VFile\<close> with its lookups by name and path, creation, growth,
  reading and writing, listing, truncation and removal, and the records \<open>kstat\<close> and \<open>dirent\<close> handed to
  user programs. Operations that can change the root directory's entry return the manager with it. A
  closure run on a directory entry keeps that entry's cache block alive (\<open>hold\<close>, \<open>release\<close>). The locks of
  the manager, the table and the cache entries are not represented: one thread runs at a time. \<open>fuel\<close>
  bounds the scans of a directory and the walks along chains.
\<close>

section \<open>Records for user programs\<close>

record kstat =
  st_dev :: u64
  st_ino :: u64
  st_mode :: u32
  st_nlink :: u32
  st_uid :: u32
  st_gid :: u32
  st_rdev :: u64
  st_pad :: u64
  st_size :: u64
  st_blksize :: u32
  st_pad2 :: u32
  st_blocks :: u64
  st_atime_sec :: u64
  st_atime_nsec :: u64
  st_mtime_sec :: u64
  st_mtime_nsec :: u64
  st_ctime_sec :: u64
  st_ctime_nsec :: u64
  st_unused :: "u32 \<times> u32"

definition kstat_to_bytes :: "kstat \<Rightarrow> u8 list" where
  "kstat_to_bytes k =
     le64 (st_dev k) @ le64 (st_ino k) @ le32 (st_mode k) @ le32 (st_nlink k) @ le32 (st_uid k) @ le32 (st_gid k) @
     le64 (st_rdev k) @ le64 (st_pad k) @ le64 (st_size k) @ le32 (st_blksize k) @ le32 (st_pad2 k) @ le64 (st_blocks k) @
     le64 (st_atime_sec k) @ le64 (st_atime_nsec k) @ le64 (st_mtime_sec k) @ le64 (st_mtime_nsec k) @
     le64 (st_ctime_sec k) @ le64 (st_ctime_nsec k) @ le32 (fst (st_unused k)) @ le32 (snd (st_unused k))"

record dirent =
  d_ino :: u64
  d_off :: u64
  d_reclen :: u16
  d_type :: u8
  d_name :: "u8 list"

definition dirent_to_bytes :: "dirent \<Rightarrow> u8 list" where
  "dirent_to_bytes d = le64 (d_ino d) @ le64 (d_off d) @ le16 (d_reclen d) @ [d_type d] @ d_name d"

section \<open>Virtual files\<close>

record VFile =
  vname :: "u8 list"
  short_sector :: nat
  short_offset :: nat
  long_pos_vec :: "(nat \<times> nat) list"
  vattribute :: u8

definition VFile_new :: "u8 list \<Rightarrow> nat \<Rightarrow> nat \<Rightarrow> (nat \<times> nat) list \<Rightarrow> u8 \<Rightarrow> u32 \<Rightarrow> VFile" where
  "VFile_new nm sector offset long_pos attr sz =
     \<lparr>vname = nm, short_sector = sector, short_offset = offset, long_pos_vec = long_pos, vattribute = attr\<rparr>"

definition get_root_vfile :: VFile where
  "get_root_vfile = VFile_new [47] 0 0 [] ATTRIBUTE_DIRECTORY 0"

definition VFile_is_dir :: "VFile \<Rightarrow> bool" where
  "VFile_is_dir v \<longleftrightarrow> 0 \<noteq> vattribute v AND ATTRIBUTE_DIRECTORY"

definition is_short :: "VFile \<Rightarrow> bool" where
  "is_short v \<longleftrightarrow> length (long_pos_vec v) = 0"

definition read_short_dirent ::
  "VFile \<Rightarrow> FAT32Manager \<Rightarrow> 'd fs_state \<Rightarrow> (ShortDirEntry \<Rightarrow> 'd fs_state \<Rightarrow> ('v \<times> 'd fs_state) res) \<Rightarrow> ('v \<times> 'd fs_state) res" where
  "read_short_dirent v m s f =
     (if short_sector v = 0 then f (vroot_dirent m) s
      else
        bindR (get_cache INFO s (short_sector v) READ) (\<lambda>(h, s1).
        bindR (handle_read INFO s1 h DIRENT_SZ (short_offset v) ShortDirEntry_of_bytes) (\<lambda>e.
        bindR (f e (hold INFO h s1)) (\<lambda>(r, s2). Inr (r, release INFO h s2)))))"

definition modify_long_dirent ::
  "VFile \<Rightarrow> nat \<Rightarrow> (LongDirEntry \<Rightarrow> LongDirEntry) \<Rightarrow> 'd fs_state \<Rightarrow> 'd fs_state res" where
  "modify_long_dirent v index f s =
     bindR (indexR (long_pos_vec v) index) (\<lambda>(sector, offset).
     cached_modify INFO s sector READ DIRENT_SZ offset (\<lambda>b. LongDirEntry_as_bytes (f (LongDirEntry_from b))))"

text \<open>
  The closure gets the entry and returns it changed; the block is marked modified before it runs and
  the entry is written in place.
\<close>

definition modify_short_dirent ::
  "VFile \<Rightarrow> FAT32Manager \<Rightarrow> 'd fs_state \<Rightarrow> (ShortDirEntry \<Rightarrow> 'd fs_state \<Rightarrow> ('v \<times> ShortDirEntry \<times> 'd fs_state) res) \<Rightarrow>
   ('v \<times> FAT32Manager \<times> 'd fs_state) res" where
  "modify_short_dirent v m s f =
     (if short_sector v = 0 then
        bindR (f (vroot_dirent m) s) (\<lambda>(r, e, s1). Inr (r, m\<lparr>vroot_dirent := e\<rparr>, s1))
      else
        bindR (get_cache INFO s (short_sector v) READ) (\<lambda>(h, s1).
        bindR (handle_modify INFO (hold INFO h s1) h DIRENT_SZ (short_offset v) (\<lambda>b. b)) (\<lambda>s2.
        bindR (handle_read INFO s2 h DIRENT_SZ (short_offset v) ShortDirEntry_of_bytes) (\<lambda>e.
        bindR (f e s2) (\<lambda>(r, e', s3).
        bindR (handle_modify INFO s3 h DIRENT_SZ (short_offset v) (\<lambda>_. ShortDirEntry_as_bytes e')) (\<lambda>s4.
        Inr (r, m, release INFO h s4)))))))"

definition VFile_get_size :: "VFile \<Rightarrow> FAT32Manager \<Rightarrow> 'd fs_state \<Rightarrow> (u32 \<times> 'd fs_state) res" where
  "VFile_get_size v m s = read_short_dirent v m s (\<lambda>se s. Inr (fsize se, s))"

definition VFile_first_cluster :: "VFile \<Rightarrow> FAT32Manager \<Rightarrow> 'd fs_state \<Rightarrow> (u32 \<times> 'd fs_state) res" where
  "VFile_first_cluster v m s = read_short_dirent v m s (\<lambda>se s. Inr (first_cluster se, s))"

definition VFile_get_pos :: "VFile \<Rightarrow> nat \<Rightarrow> FAT32Manager \<Rightarrow> 'd fs_state \<Rightarrow> ((nat \<times> nat) \<times> 'd fs_state) res" where
  "VFile_get_pos v offset m s =
     read_short_dirent v m s (\<lambda>s_ent s.
       bindR (get_pos s_ent offset m s) (\<lambda>((_, sec, off), s1). Inr ((sec, off), s1)))"

section \<open>Lookup\<close>

text \<open>The remaining long entries of a candidate: \<open>None\<close> for a short read, else whether all match.\<close>

primrec match_long ::
  "nat list \<Rightarrow> nat \<Rightarrow> FAT32Manager \<Rightarrow> u8 list list \<Rightarrow> ShortDirEntry \<Rightarrow> nat \<Rightarrow> LongDirEntry \<Rightarrow> 'd fs_state \<Rightarrow>
   (bool option \<times> LongDirEntry \<times> 'd fs_state) res" where
  "match_long [] fuel m name_vec dir_ent offset long_ent s = Inr (Some True, long_ent, s)"
| "match_long (i # js) fuel m name_vec dir_ent offset long_ent s =
     bindR (read_at fuel dir_ent (offset + i * DIRENT_SZ) (LongDirEntry_as_bytes long_ent) m s) (\<lambda>(read_sz, b, s1).
     let long_ent' = LongDirEntry_from b in
     if read_sz \<noteq> DIRENT_SZ then Inr (None, long_ent', s1)
     else bindR (indexR name_vec (length name_vec - 1 - i)) (\<lambda>nm.
       if get_name_raw long_ent' \<noteq> nm \<or> lattribute long_ent' \<noteq> ATTRIBUTE_LFN then Inr (Some False, long_ent', s1)
       else match_long js fuel m name_vec dir_ent offset long_ent' s1))"

primrec get_positions :: "nat list \<Rightarrow> VFile \<Rightarrow> FAT32Manager \<Rightarrow> 'd fs_state \<Rightarrow> ((nat \<times> nat) list \<times> 'd fs_state) res" where
  "get_positions [] v m s = Inr ([], s)"
| "get_positions (off # offs) v m s =
     bindR (VFile_get_pos v off m s) (\<lambda>(pos, s1).
     bindR (get_positions offs v m s1) (\<lambda>(ps, s2). Inr (pos # ps, s2)))"

definition found_long ::
  "nat \<Rightarrow> VFile \<Rightarrow> FAT32Manager \<Rightarrow> u8 list \<Rightarrow> nat \<Rightarrow> u8 \<Rightarrow> u8 \<Rightarrow> ShortDirEntry \<Rightarrow> nat \<Rightarrow> 'd fs_state \<Rightarrow>
   (VFile option \<times> 'd fs_state) res" where
  "found_long fuel v m name long_ent_num ord l_checksum dir_ent offset s =
     (let s_off = offset + long_ent_num * DIRENT_SZ in
      bindR (read_at fuel dir_ent s_off (ShortDirEntry_as_bytes ShortDirEntry_empty) m s) (\<lambda>(read_sz, b, s1).
      let short_ent = ShortDirEntry_of_bytes b in
      if read_sz \<noteq> DIRENT_SZ then Inr (None, s1)
      else if is_valid short_ent \<and> l_checksum = checksum short_ent then
        bindR (VFile_get_pos v s_off m s1) (\<lambda>((sector, off), s2).
        bindR (get_positions (map (\<lambda>i. offset + i) [0..<unat ord]) v m s2) (\<lambda>(long_pos, s3).
        Inr (Some (VFile_new name sector off long_pos (attribute short_ent) (fsize short_ent)), s3)))
      else Inr (None, s1)))"

primrec find_long_loop ::
  "nat \<Rightarrow> nat \<Rightarrow> VFile \<Rightarrow> FAT32Manager \<Rightarrow> u8 list \<Rightarrow> u8 list list \<Rightarrow> u8 list \<Rightarrow> ShortDirEntry \<Rightarrow> nat \<Rightarrow> LongDirEntry \<Rightarrow> 'd fs_state \<Rightarrow>
   (VFile option \<times> 'd fs_state) res" where
  "find_long_loop 0 fuel v m name name_vec name_last dir_ent offset long_ent s = Inl OutOfFuel"
| "find_long_loop (Suc n) fuel v m name name_vec name_last dir_ent offset long_ent s =
     bindR (read_at fuel dir_ent offset (LongDirEntry_as_bytes long_ent) m s) (\<lambda>(read_sz, b, s1).
     let long_ent1 = LongDirEntry_from b;
         continue = find_long_loop n fuel v m name name_vec name_last dir_ent (offset + DIRENT_SZ)
     in
     if read_sz \<noteq> DIRENT_SZ \<or> LongDirEntry_is_empty long_ent1 then Inr (None, s1)
     else if get_name_raw long_ent1 = name_last \<and> lattribute long_ent1 = ATTRIBUTE_LFN then
       if order long_ent1 AND 0x40 = 0 \<or> order long_ent1 = 0xE5 then continue long_ent1 s1
       else
         let ord = order long_ent1 XOR 0x40; l_checksum = check_sum long_ent1 in
         if unat ord \<noteq> length name_vec then continue long_ent1 s1
         else
           bindR (match_long [1..<unat ord] fuel m name_vec dir_ent offset long_ent1 s1) (\<lambda>(r, long_ent2, s2).
           case r of
             None \<Rightarrow> Inr (None, s2)
           | Some is_match \<Rightarrow>
               if is_match then found_long fuel v m name (length name_vec) ord l_checksum dir_ent offset s2
               else continue long_ent2 s2)
     else continue long_ent1 s1)"

text \<open>
  The loop that would compute \<open>step\<close> runs over an empty range and its result is overwritten by 1. The
  subtraction that indexes the last part wraps for an empty name, whose indexing panics.
\<close>

definition find_long_name ::
  "nat \<Rightarrow> VFile \<Rightarrow> FAT32Manager \<Rightarrow> u8 list \<Rightarrow> ShortDirEntry \<Rightarrow> 'd fs_state \<Rightarrow> (VFile option \<times> 'd fs_state) res" where
  "find_long_name fuel v m name dir_ent s =
     (let name_vec = long_name_split name in
      if name_vec = [] then Inl IndexOutOfBounds
      else bindR (indexR name_vec (length name_vec - 1)) (\<lambda>name_last.
        find_long_loop fuel fuel v m name name_vec name_last dir_ent 0 LongDirEntry_empty s))"

primrec find_short_loop ::
  "nat \<Rightarrow> nat \<Rightarrow> VFile \<Rightarrow> FAT32Manager \<Rightarrow> u8 list \<Rightarrow> u8 list \<Rightarrow> ShortDirEntry \<Rightarrow> nat \<Rightarrow> ShortDirEntry \<Rightarrow> 'd fs_state \<Rightarrow>
   (VFile option \<times> 'd fs_state) res" where
  "find_short_loop 0 fuel v m name name_upper dir_ent offset short_ent s = Inl OutOfFuel"
| "find_short_loop (Suc n) fuel v m name name_upper dir_ent offset short_ent s =
     bindR (read_at fuel dir_ent offset (ShortDirEntry_as_bytes short_ent) m s) (\<lambda>(read_sz, b, s1).
     let short_ent1 = ShortDirEntry_of_bytes b in
     if read_sz \<noteq> DIRENT_SZ \<or> is_empty short_ent1 then Inr (None, s1)
     else if is_valid short_ent1 \<and> name_upper = utf8 (get_name_uppercase short_ent1) then
       bindR (VFile_get_pos v offset m s1) (\<lambda>((sector, off), s2).
       Inr (Some (VFile_new name sector off [] (attribute short_ent1) (fsize short_ent1)), s2))
     else find_short_loop n fuel v m name name_upper dir_ent (offset + DIRENT_SZ) short_ent1 s1)"

definition find_short_name ::
  "nat \<Rightarrow> VFile \<Rightarrow> FAT32Manager \<Rightarrow> u8 list \<Rightarrow> ShortDirEntry \<Rightarrow> 'd fs_state \<Rightarrow> (VFile option \<times> 'd fs_state) res" where
  "find_short_name fuel v m name dir_ent s =
     find_short_loop fuel fuel v m name (map to_ascii_uppercase name) dir_ent 0 ShortDirEntry_empty s"

definition find_vfile_byname ::
  "nat \<Rightarrow> VFile \<Rightarrow> FAT32Manager \<Rightarrow> u8 list \<Rightarrow> 'd fs_state \<Rightarrow> (VFile option \<times> 'd fs_state) res" where
  "find_vfile_byname fuel v m name s =
     bindR (assertR (VFile_is_dir v)) (\<lambda>_.
     case split_name_ext name of (nm, ext) \<Rightarrow>
       read_short_dirent v m s (\<lambda>short_ent s.
         if length nm > 8 \<or> length ext > 3 then find_long_name fuel v m name short_ent s
         else find_short_name fuel v m name short_ent s))"

primrec find_vfile_bypath ::
  "u8 list list \<Rightarrow> nat \<Rightarrow> VFile \<Rightarrow> FAT32Manager \<Rightarrow> 'd fs_state \<Rightarrow> (VFile option \<times> 'd fs_state) res" where
  "find_vfile_bypath [] fuel v m s = Inr (Some v, s)"
| "find_vfile_bypath (p # path) fuel v m s =
     (if p = [] \<or> p = [46] then find_vfile_bypath path fuel v m s
      else
        bindR (find_vfile_byname fuel v m p s) (\<lambda>(r, s1).
        case r of Some vfile \<Rightarrow> find_vfile_bypath path fuel vfile m s1 | None \<Rightarrow> Inr (None, s1)))"

section \<open>Growth, reading and writing\<close>

definition increase_size :: "nat \<Rightarrow> VFile \<Rightarrow> u32 \<Rightarrow> FAT32Manager \<Rightarrow> 'd fs_state \<Rightarrow> (FAT32Manager \<times> 'd fs_state) res" where
  "increase_size fuel v new_size m s =
     bindR (VFile_first_cluster v m s) (\<lambda>(first, s1).
     bindR (VFile_get_size v m s1) (\<lambda>(old_size, s2).
     if new_size \<le> old_size then Inr (m, s2)
     else
       bindR (cluster_num_needed fuel m old_size new_size (VFile_is_dir v) first s2) (\<lambda>(needed, s3).
       if needed = 0 then
         if \<not> VFile_is_dir v then
           bindR (modify_short_dirent v m s3 (\<lambda>se s. Inr ((), set_size new_size se, s))) (\<lambda>(_, m1, s4). Inr (m1, s4))
         else Inr (m, s3)
       else
         bindR (alloc_cluster fuel m needed s3) (\<lambda>(r, s4).
         case r of
           None \<Rightarrow> Inl (ExplicitPanic ''SD Card no space!!!'')
         | Some cluster \<Rightarrow>
             bindR
               (if first = 0 then
                  bindR (modify_short_dirent v m s4 (\<lambda>se s. Inr ((), set_first_cluster cluster se, s))) (\<lambda>(_, m1, s5). Inr (m1, s5))
                else
                  bindR (final_cluster fuel (fat m) first s4) (\<lambda>(final, s5).
                  bindR (assertR (cluster \<noteq> 0)) (\<lambda>_.
                  bindR (set_next_cluster (fat m) final cluster s5) (\<lambda>s6. Inr (m, s6))))) (\<lambda>(m1, s7).
             bindR (modify_short_dirent v m1 s7 (\<lambda>se s. Inr ((), set_size new_size se, s))) (\<lambda>(_, m2, s8). Inr (m2, s8)))))))"

definition VFile_read_at :: "nat \<Rightarrow> VFile \<Rightarrow> nat \<Rightarrow> u8 list \<Rightarrow> FAT32Manager \<Rightarrow> 'd fs_state \<Rightarrow> ((nat \<times> u8 list) \<times> 'd fs_state) res" where
  "VFile_read_at fuel v offset buf m s =
     read_short_dirent v m s (\<lambda>short_ent s. bindR (read_at fuel short_ent offset buf m s) (\<lambda>(n, b, s1). Inr ((n, b), s1)))"

definition VFile_write_at :: "nat \<Rightarrow> VFile \<Rightarrow> nat \<Rightarrow> u8 list \<Rightarrow> FAT32Manager \<Rightarrow> 'd fs_state \<Rightarrow> (nat \<times> FAT32Manager \<times> 'd fs_state) res" where
  "VFile_write_at fuel v offset buf m s =
     bindR (increase_size fuel v (word_of_nat (offset + length buf)) m s) (\<lambda>(m1, s1).
     modify_short_dirent v m1 s1 (\<lambda>short_ent s. bindR (write_at fuel short_ent offset buf m1 s) (\<lambda>(n, s2). Inr (n, short_ent, s2))))"

section \<open>Creation\<close>

primrec find_free_loop :: "nat \<Rightarrow> nat \<Rightarrow> VFile \<Rightarrow> FAT32Manager \<Rightarrow> nat \<Rightarrow> 'd fs_state \<Rightarrow> (nat \<times> 'd fs_state) res" where
  "find_free_loop 0 fuel v m offset s = Inl OutOfFuel"
| "find_free_loop (Suc n) fuel v m offset s =
     bindR (VFile_read_at fuel v offset (ShortDirEntry_as_bytes ShortDirEntry_empty) m s) (\<lambda>((read_sz, b), s1).
     if is_empty (ShortDirEntry_of_bytes b) \<or> read_sz = 0 then Inr (offset, s1)
     else find_free_loop n fuel v m (offset + DIRENT_SZ) s1)"

definition find_free_dirent :: "nat \<Rightarrow> VFile \<Rightarrow> FAT32Manager \<Rightarrow> 'd fs_state \<Rightarrow> (nat option \<times> 'd fs_state) res" where
  "find_free_dirent fuel v m s =
     (if \<not> VFile_is_dir v then Inr (None, s)
      else bindR (find_free_loop fuel fuel v m 0 s) (\<lambda>(offset, s1). Inr (Some offset, s1)))"

text \<open>\<open>parts\<close> are the parts still to be written, the last one first; \<open>i\<close> counts those written.\<close>

primrec write_long_entries ::
  "u8 list list \<Rightarrow> nat \<Rightarrow> nat \<Rightarrow> nat \<Rightarrow> VFile \<Rightarrow> u8 \<Rightarrow> nat \<Rightarrow> LongDirEntry \<Rightarrow> FAT32Manager \<Rightarrow> 'd fs_state \<Rightarrow> (nat \<times> FAT32Manager \<times> 'd fs_state) res" where
  "write_long_entries [] i long_ent_num fuel v csum dirent_offset long_ent m s = Inr (dirent_offset, m, s)"
| "write_long_entries (p # parts) i long_ent_num fuel v csum dirent_offset long_ent m s =
     (let ord0 = word_of_nat (long_ent_num - i); ord = (if i = 0 then ord0 OR 0x40 else ord0) in
      bindR (LongDirEntry_initialize long_ent (utf8 p) ord csum) (\<lambda>long_ent1.
      bindR (VFile_write_at fuel v dirent_offset (LongDirEntry_as_bytes long_ent1) m s) (\<lambda>(n, m1, s1).
      bindR (assertR (n = DIRENT_SZ)) (\<lambda>_.
      write_long_entries parts (i + 1) long_ent_num fuel v csum (dirent_offset + DIRENT_SZ) long_ent1 m1 s1))))"

text \<open>The directory entries \<open>.\<close> and \<open>..\<close> of a new directory.\<close>

definition create_dots :: "nat \<Rightarrow> VFile \<Rightarrow> VFile \<Rightarrow> FAT32Manager \<Rightarrow> 'd fs_state \<Rightarrow> (FAT32Manager \<times> 'd fs_state) res" where
  "create_dots fuel v vfile m s =
     (case short_name_format [46] of (name_bytes, ext_bytes) \<Rightarrow>
      bindR (ShortDirEntry_new name_bytes ext_bytes ATTRIBUTE_DIRECTORY) (\<lambda>self_dir.
      case short_name_format [46, 46] of (name_bytes, ext_bytes) \<Rightarrow>
      bindR (ShortDirEntry_new name_bytes ext_bytes ATTRIBUTE_DIRECTORY) (\<lambda>par_dir.
      bindR (VFile_first_cluster v m s) (\<lambda>(parent, s1).
      let par_dir1 = set_first_cluster parent par_dir in
      bindR (VFile_write_at fuel vfile 0 (ShortDirEntry_as_bytes self_dir) m s1) (\<lambda>(_, m2, s2).
      bindR (VFile_write_at fuel vfile DIRENT_SZ (ShortDirEntry_as_bytes par_dir1) m2 s2) (\<lambda>(_, m3, s3).
      bindR (VFile_first_cluster vfile m3 s3) (\<lambda>(first, s4).
      bindR (VFile_write_at fuel vfile 0 (ShortDirEntry_as_bytes (set_first_cluster first self_dir)) m3 s4) (\<lambda>(_, m5, s5).
      Inr (m5, s5)))))))))"

definition VFile_create ::
  "nat \<Rightarrow> VFile \<Rightarrow> u8 list \<Rightarrow> u8 \<Rightarrow> FAT32Manager \<Rightarrow> 'd fs_state \<Rightarrow> (VFile option \<times> FAT32Manager \<times> 'd fs_state) res" where
  "VFile_create fuel v name attr m s =
     bindR (assertR (VFile_is_dir v)) (\<lambda>_.
     case split_name_ext name of (nm, ext) \<Rightarrow>
     bindR (find_free_dirent fuel v m s) (\<lambda>(r, s1).
     case r of
       None \<Rightarrow> Inr (None, m, s1)
     | Some dirent_offset \<Rightarrow>
         bindR
           (if length nm > 8 \<or> length ext > 3 then
              let v_long_name = long_name_split name in
              bindR (generate_short_name name) (\<lambda>short_name.
              case short_name_format (utf8 short_name) of (name_bytes, ext_bytes) \<Rightarrow>
              bindR (ShortDirEntry_initialize ShortDirEntry_empty name_bytes ext_bytes attr) (\<lambda>short_ent.
              bindR (write_long_entries (rev v_long_name) 0 (length v_long_name) fuel v (checksum short_ent) dirent_offset
                LongDirEntry_empty m s1) (\<lambda>(off, m2, s2). Inr (short_ent, off, m2, s2))))
            else
              case short_name_format name of (name_bytes, ext_bytes) \<Rightarrow>
              bindR (ShortDirEntry_initialize ShortDirEntry_empty name_bytes ext_bytes attr) (\<lambda>short_ent.
              Inr (set_case ALL_LOWER_CASE short_ent, dirent_offset, m, s1))) (\<lambda>(short_ent, off, m2, s2).
         bindR (VFile_write_at fuel v off (ShortDirEntry_as_bytes short_ent) m2 s2) (\<lambda>(n, m3, s3).
         bindR (assertR (n = DIRENT_SZ)) (\<lambda>_.
         bindR (find_vfile_byname fuel v m3 name s3) (\<lambda>(found, s4).
         case found of
           None \<Rightarrow> Inr (None, m3, s4)
         | Some vfile \<Rightarrow>
             if attr AND ATTRIBUTE_DIRECTORY \<noteq> 0 then
               bindR (create_dots fuel v vfile m3 s4) (\<lambda>(m5, s5). Inr (Some vfile, m5, s5))
             else Inr (Some vfile, m3, s4)))))))"

section \<open>Listing\<close>

text \<open>
  The long entries after the first one of a name; each part goes in front. \<open>None\<close> where the scan stops.
\<close>

primrec ls_long_parts ::
  "nat \<Rightarrow> nat \<Rightarrow> VFile \<Rightarrow> FAT32Manager \<Rightarrow> nat \<Rightarrow> u8 list \<Rightarrow> LongDirEntry \<Rightarrow> 'd fs_state \<Rightarrow>
   ((nat \<times> u8 list \<times> LongDirEntry) option \<times> 'd fs_state) res" where
  "ls_long_parts 0 fuel v m offset name long_ent s = Inr (Some (offset, name, long_ent), s)"
| "ls_long_parts (Suc k) fuel v m offset name long_ent s =
     bindR (VFile_read_at fuel v (offset + DIRENT_SZ) (LongDirEntry_as_bytes long_ent) m s) (\<lambda>((read_sz, b), s1).
     let long_ent1 = LongDirEntry_from b in
     if read_sz \<noteq> DIRENT_SZ \<or> LongDirEntry_is_empty long_ent1 \<or> LongDirEntry_is_deleted long_ent1 then Inr (None, s1)
     else ls_long_parts k fuel v m (offset + DIRENT_SZ) (get_name_raw long_ent1 @ name) long_ent1 s1)"

primrec ls_loop ::
  "nat \<Rightarrow> nat \<Rightarrow> VFile \<Rightarrow> FAT32Manager \<Rightarrow> nat \<Rightarrow> ShortDirEntry \<Rightarrow> (u8 list \<times> u8) list \<Rightarrow> 'd fs_state \<Rightarrow>
   ((u8 list \<times> u8) list \<times> 'd fs_state) res" where
  "ls_loop 0 fuel v m offset short_ent acc s = Inl OutOfFuel"
| "ls_loop (Suc n) fuel v m offset short_ent acc s =
     bindR (VFile_read_at fuel v offset (ShortDirEntry_as_bytes short_ent) m s) (\<lambda>((read_sz, b), s1).
     let short_ent1 = ShortDirEntry_of_bytes b in
     if read_sz \<noteq> DIRENT_SZ \<or> is_empty short_ent1 then Inr (acc, s1)
     else if is_deleted short_ent1 then ls_loop n fuel v m (offset + DIRENT_SZ) short_ent1 acc s1
     else if is_long short_ent1 then
       let long_ent = LongDirEntry_from b in
       if order long_ent AND 0x40 = 0 then ls_loop n fuel v m (offset + DIRENT_SZ) short_ent1 acc s1
       else
         bindR (ls_long_parts (unat (order long_ent XOR 0x40) - 1) fuel v m offset (get_name_raw long_ent) long_ent s1) (\<lambda>(r, s2).
         case r of
           None \<Rightarrow> Inr (acc, s2)
         | Some (offset1, name, long_ent1) \<Rightarrow>
             bindR (VFile_read_at fuel v (offset1 + DIRENT_SZ) (LongDirEntry_as_bytes long_ent1) m s2) (\<lambda>((read_sz, b), s3).
             let long_ent2 = LongDirEntry_from b in
             if read_sz \<noteq> DIRENT_SZ \<or> LongDirEntry_is_empty long_ent2 \<or> LongDirEntry_is_deleted long_ent2 then Inr (acc, s3)
             else ls_loop n fuel v m (offset1 + 2 * DIRENT_SZ) short_ent1 (acc @ [(name, lattribute long_ent2)]) s3))
     else ls_loop n fuel v m (offset + DIRENT_SZ) short_ent1
       (acc @ [(get_name_lowercase short_ent1, attribute short_ent1)]) s1)"

definition VFile_ls :: "nat \<Rightarrow> VFile \<Rightarrow> FAT32Manager \<Rightarrow> 'd fs_state \<Rightarrow> ((u8 list \<times> u8) list option \<times> 'd fs_state) res" where
  "VFile_ls fuel v m s =
     (if \<not> VFile_is_dir v then Inr (None, s)
      else bindR (ls_loop fuel fuel v m 0 ShortDirEntry_empty [] s) (\<lambda>(xs, s1). Inr (Some xs, s1)))"

primrec ls_lite_loop ::
  "nat \<Rightarrow> nat \<Rightarrow> VFile \<Rightarrow> FAT32Manager \<Rightarrow> nat \<Rightarrow> LongDirEntry \<Rightarrow> u8 list \<Rightarrow> bool \<Rightarrow> (u8 list \<times> u8) list \<Rightarrow> 'd fs_state \<Rightarrow>
   ((u8 list \<times> u8) list \<times> 'd fs_state) res" where
  "ls_lite_loop 0 fuel v m offset long_ent name is_long_name acc s = Inl OutOfFuel"
| "ls_lite_loop (Suc n) fuel v m offset long_ent name is_long_name acc s =
     bindR (VFile_read_at fuel v offset (LongDirEntry_as_bytes long_ent) m s) (\<lambda>((read_sz, b), s1).
     let long_ent1 = LongDirEntry_from b in
     if read_sz \<noteq> DIRENT_SZ \<or> LongDirEntry_is_empty long_ent1 then Inr (acc, s1)
     else if LongDirEntry_is_deleted long_ent1 then ls_lite_loop n fuel v m (offset + DIRENT_SZ) long_ent1 name False acc s1
     else if lattribute long_ent1 \<noteq> ATTRIBUTE_LFN then
       let short_ent = ShortDirEntry_of_bytes b in
       ls_lite_loop n fuel v m (offset + DIRENT_SZ) long_ent1 [] False
         (acc @ [(if is_long_name then name else get_name_lowercase short_ent, attribute short_ent)]) s1
     else ls_lite_loop n fuel v m (offset + DIRENT_SZ) long_ent1 (get_name_format long_ent1 @ name) True acc s1)"

definition ls_lite :: "nat \<Rightarrow> VFile \<Rightarrow> FAT32Manager \<Rightarrow> 'd fs_state \<Rightarrow> ((u8 list \<times> u8) list option \<times> 'd fs_state) res" where
  "ls_lite fuel v m s =
     (if \<not> VFile_is_dir v then Inr (None, s)
      else bindR (ls_lite_loop fuel fuel v m 0 LongDirEntry_empty [] False [] s) (\<lambda>(xs, s1). Inr (Some xs, s1)))"

section \<open>Information, truncation, removal\<close>

definition dirent_info :: "VFile \<Rightarrow> FAT32Manager \<Rightarrow> 'd fs_state \<Rightarrow> (dirent option \<times> 'd fs_state) res" where
  "dirent_info v m s =
     read_short_dirent v m s (\<lambda>sde s.
       bindR (sliceR (replicate 512 0 :: u8 list) 0 (length (vname v))) (\<lambda>_.
       Inr (Some \<lparr>d_ino = ucast (first_cluster sde), d_off = word_of_nat (short_offset v), d_reclen = word_of_nat DIRENT_SZ,
         d_type = attribute sde, d_name = overwrite 0 (vname v) (replicate 512 0)\<rparr>, s)))"

definition VFile_stat :: "nat \<Rightarrow> VFile \<Rightarrow> FAT32Manager \<Rightarrow> 'd fs_state \<Rightarrow> (kstat \<times> 'd fs_state) res" where
  "VFile_stat fuel v m s =
     read_short_dirent v m s (\<lambda>sde s.
       case get_creation_time sde of (_, _, _, _, _, _, ctime) \<Rightarrow>
       case get_accessed_time sde of (_, _, _, _, _, _, atime) \<Rightarrow>
       case get_modification_time sde of (_, _, _, _, _, _, mtime) \<Rightarrow>
       let first_clu = first_cluster sde in
       bindR (if VFile_is_dir v
         then bindR (count_claster_num fuel (fat m) first_clu s) (\<lambda>(cluster_num, s1). Inr (cluster_num * bytes_per_cluster m, s1))
         else Inr (fsize sde, s)) (\<lambda>(sz, s1).
       Inr (\<lparr>st_dev = 0, st_ino = ucast first_clu, st_mode = ucast (vattribute v), st_nlink = 1, st_uid = 1, st_gid = 1,
         st_rdev = 0, st_pad = 0, st_size = ucast sz, st_blksize = word_of_nat BLOCK_SZ, st_pad2 = 0, st_blocks = FAT_SIZE,
         st_atime_sec = atime, st_atime_nsec = 0, st_mtime_sec = mtime, st_mtime_nsec = 0,
         st_ctime_sec = ctime, st_ctime_nsec = 0, st_unused = (0, 0)\<rparr>, s1)))"

definition VFile_creation_time ::
  "VFile \<Rightarrow> FAT32Manager \<Rightarrow> 'd fs_state \<Rightarrow> ((u32 \<times> u32 \<times> u32 \<times> u32 \<times> u32 \<times> u32 \<times> u64) \<times> 'd fs_state) res" where
  "VFile_creation_time v m s = read_short_dirent v m s (\<lambda>sde s. Inr (get_creation_time sde, s))"

definition VFile_accessed_time ::
  "VFile \<Rightarrow> FAT32Manager \<Rightarrow> 'd fs_state \<Rightarrow> ((u32 \<times> u32 \<times> u32 \<times> u32 \<times> u32 \<times> u32 \<times> u64) \<times> 'd fs_state) res" where
  "VFile_accessed_time v m s = read_short_dirent v m s (\<lambda>sde s. Inr (get_accessed_time sde, s))"

definition VFile_modification_time ::
  "VFile \<Rightarrow> FAT32Manager \<Rightarrow> 'd fs_state \<Rightarrow> ((u32 \<times> u32 \<times> u32 \<times> u32 \<times> u32 \<times> u32 \<times> u64) \<times> 'd fs_state) res" where
  "VFile_modification_time v m s = read_short_dirent v m s (\<lambda>sde s. Inr (get_modification_time sde, s))"

primrec modify_long_all :: "nat list \<Rightarrow> VFile \<Rightarrow> (LongDirEntry \<Rightarrow> LongDirEntry) \<Rightarrow> 'd fs_state \<Rightarrow> 'd fs_state res" where
  "modify_long_all [] v f s = Inr s"
| "modify_long_all (i # js) v f s = bindR (modify_long_dirent v i f s) (modify_long_all js v f)"

definition VFile_clear :: "nat \<Rightarrow> VFile \<Rightarrow> FAT32Manager \<Rightarrow> 'd fs_state \<Rightarrow> (FAT32Manager \<times> 'd fs_state) res" where
  "VFile_clear fuel v m s =
     bindR (VFile_first_cluster v m s) (\<lambda>(first, s1).
     if VFile_is_dir v \<or> first = 0 then Inr (m, s1)
     else
       bindR (modify_long_all [0..<length (long_pos_vec v)] v LongDirEntry_clear s1) (\<lambda>s2.
       bindR (modify_short_dirent v m s2 (\<lambda>e s. Inr ((), ShortDirEntry_clear e, s))) (\<lambda>(_, m1, s3).
       bindR (get_all_cluster_of fuel (fat m1) first s3) (\<lambda>(all_clusters, s4).
       bindR (dealloc_cluster m1 all_clusters s4) (\<lambda>s5.
       Inr (m1, cache_write_back s5))))))"

definition VFile_remove :: "nat \<Rightarrow> VFile \<Rightarrow> FAT32Manager \<Rightarrow> 'd fs_state \<Rightarrow> (nat \<times> FAT32Manager \<times> 'd fs_state) res" where
  "VFile_remove fuel v m s =
     bindR (VFile_first_cluster v m s) (\<lambda>(first, s1).
     bindR (modify_long_all [0..<length (long_pos_vec v)] v LongDirEntry_delete s1) (\<lambda>s2.
     bindR (modify_short_dirent v m s2 (\<lambda>e s. Inr ((), ShortDirEntry_delete e, s))) (\<lambda>(_, m1, s3).
     bindR (get_all_cluster_of fuel (fat m1) first s3) (\<lambda>(all_clusters, s4).
     bindR (dealloc_cluster m1 all_clusters s4) (\<lambda>s5.
     Inr (length all_clusters, m1, s5))))))"

end
