(* ===== verification/Vfs_Lookup.thy ===== *)
theory Vfs_Lookup
  imports Vfs
begin

text \<open>
  What the operations on directory entries and the search of a directory do: the access to a file's
  entry, reading a directory entry by entry, and the lookup of a short name as a search in the list of
  the directory's entries.
\<close>

section \<open>The entry of a file\<close>

definition entry_at :: "VFile \<Rightarrow> FAT32Manager \<Rightarrow> (nat \<Rightarrow> u8 list) \<Rightarrow> ShortDirEntry" where
  "entry_at v m V = (if short_sector v = 0 then vroot_dirent m
     else ShortDirEntry_of_bytes (slice (short_offset v) 32 (V (short_sector v))))"

definition entry_placed :: "nat set \<Rightarrow> VFile \<Rightarrow> bool" where
  "entry_placed I v \<longleftrightarrow> short_sector v = 0 \<or> short_sector v \<in> I \<and> short_offset v + 32 \<le> 512"

lemma read_short_dirent_spec:
  assumes ok: "fs_ok I hs s" and room: "length hs < 9" and place: "entry_placed I v"
    and f: "\<And>hs' s1. fs_ok I hs' s1 \<Longrightarrow> length hs' \<le> Suc (length hs) \<Longrightarrow> disk_view s1 = disk_view s \<Longrightarrow>
      \<exists>s2. f (entry_at v m (disk_view s)) s1 = Inr (r, s2) \<and> fs_ok I hs' s2 \<and> disk_view s2 = disk_view s"
  shows "\<exists>s'. read_short_dirent v m s f = Inr (r, s') \<and> fs_ok I hs s' \<and> disk_view s' = disk_view s"
proof (cases "short_sector v = 0")
  case True
  then show ?thesis using f [OF ok] by (simp add: read_short_dirent_def entry_at_def)
next
  case False
  then have own: "owns I INFO (short_sector v)" and rng: "short_offset v + 32 \<le> BLOCK_SZ"
    using place by (auto simp: entry_placed_def owns_def BLOCK_SZ_def)
  obtain s1 c where s1: "get_cache INFO s (short_sector v) READ = Inr (short_sector v, s1)" "fs_ok I hs s1" "disk_view s1 = disk_view s"
    "map_of (queue (manager INFO s1)) (short_sector v) = Some c" "cache c = disk_view s (short_sector v)"
    by (rule get_cache_spec [OF ok own])
  have rd: "handle_read INFO s1 (short_sector v) DIRENT_SZ (short_offset v) ShortDirEntry_of_bytes = Inr (entry_at v m (disk_view s))"
    using s1(4,5) rng False disk_view_length [OF ok, of "short_sector v"]
    by (simp add: handle_read_def BlockCache_read_def BlockCache_get_ref_def addr_of_offset_def entry_at_def DIRENT_SZ_def)
  note h = hold_spec [OF s1(2,4) room]
  obtain s2 where s2: "f (entry_at v m (disk_view s)) (hold INFO (short_sector v) s1) = Inr (r, s2)"
    "fs_ok I (short_sector v # hs) s2" "disk_view s2 = disk_view s"
    using f [OF h(1)] h(2) s1(3) by auto
  show ?thesis using release_spec [OF s2(2)] s2(1,3) s1(1) rd False by (simp add: read_short_dirent_def)
qed

section \<open>A directory as a list of entries\<close>

text \<open>
  \<open>dir_on I m e cs V\<close>: on the disk \<open>V\<close> the entry \<open>e\<close> is a directory whose chain is \<open>cs\<close>; its sectors
  belong to the information cache.
\<close>

definition dir_on :: "nat set \<Rightarrow> FAT32Manager \<Rightarrow> ShortDirEntry \<Rightarrow> u32 list \<Rightarrow> (nat \<Rightarrow> u8 list) \<Rightarrow> bool" where
  "dir_on I m e cs V \<longleftrightarrow> is_dir e \<and> file_geom m \<and> fat_geom I (fat m) \<and> chain (fat m) V cs \<and> first_cluster e = hd cs \<and>
     distinct (sectors m cs) \<and> set (sectors m cs) \<subseteq> I \<and> set (sectors m cs) \<inter> fat_sectors (fat m) = {} \<and>
     512 * length (sectors m cs) < 2 ^ 31"

definition dir_entry :: "FAT32Manager \<Rightarrow> u32 list \<Rightarrow> (nat \<Rightarrow> u8 list) \<Rightarrow> nat \<Rightarrow> ShortDirEntry" where
  "dir_entry m cs V k = ShortDirEntry_of_bytes (slice (32 * k) 32 (content V (sectors m cs)))"

definition dir_entries :: "FAT32Manager \<Rightarrow> u32 list \<Rightarrow> (nat \<Rightarrow> u8 list) \<Rightarrow> ShortDirEntry list" where
  "dir_entries m cs V = map (dir_entry m cs V) [0..<16 * length (sectors m cs)]"

lemma dir_onD:
  assumes "dir_on I m e cs V"
  shows "file_geom m" "fat_geom I (fat m)" "chain (fat m) V cs" "first_cluster e = hd cs" "distinct (sectors m cs)"
    "set (sectors m cs) \<inter> fat_sectors (fat m) = {}" "\<forall>b \<in> set (sectors m cs). owns I (entry_cache e) b"
    "512 * length (sectors m cs) < 2 ^ 31" "is_dir e" "set (sectors m cs) \<subseteq> I"
  using assms by (auto simp: dir_on_def owns_def entry_cache_def)

lemma dir_io_end:
  assumes d: "dir_on I m e cs (disk_view s)" and ok: "fs_ok I hs s" and fuel: "length cs \<le> fuel"
  shows "\<exists>s'. io_end fuel e off 32 m s = Inr (off + 32, s') \<and> fs_ok I hs s' \<and> disk_view s' = disk_view s"
proof -
  obtain c ds where cs: "cs = c # ds" using dir_onD(3) [OF d] by (cases cs) auto
  have c: "first_cluster e = c" "c \<noteq> 0" using dir_onD(4) [OF d] chain_hd [of "fat m" "disk_view s" c ds] dir_onD(3) [OF d] cs by auto
  obtain s' where s': "count_loop fuel (fat m) c 0 s = Inr (word_of_nat (length cs), s')" "fs_ok I hs s'" "disk_view s' = disk_view s"
    using count_loop_spec [OF dir_onD(2) [OF d] ok, of c ds fuel 0] dir_onD(3) [OF d] cs fuel by auto
  define q where "q = unat (sectors_per_cluster m)"
  have q: "0 < q" "unat (bytes_per_cluster m) = 512 * q" using dir_onD(1) [OF d] by (auto simp: file_geom_def q_def)
  have "q * length cs < 4194304" using dir_onD(8) [OF d] by (simp add: length_sectors q_def mult.commute)
  moreover have "length cs \<le> q * length cs" using q(1) by (cases q) auto
  ultimately have "length cs < 4294967296" by linarith
  then have "unat (word_of_nat (length cs) :: u32) = length cs" by (simp add: unat_of_nat take_bit_eq_mod)
  moreover have "1 \<le> q * length cs" using q(1) cs by simp
  then have "32 \<le> 512 * (q * length cs)" by linarith
  ultimately have "min 32 (unat (bytes_per_cluster m) * unat (word_of_nat (length cs) :: u32)) = 32" using q(2) by (simp add: mult.assoc)
  then show ?thesis using s' c dir_onD(9) [OF d] by (simp add: io_end_def count_claster_num_def)
qed

lemma dir_pos:
  assumes d: "dir_on I m e cs (disk_view s)" and ok: "fs_ok I hs s" and k: "k < 16 * length (sectors m cs)"
  shows "\<exists>clu s'. get_pos e (32 * k) m s = Inr ((clu, sectors m cs ! (k div 16), 32 * k mod 512), s') \<and> fs_ok I hs s' \<and>
    disk_view s' = disk_view s \<and> at_pos m cs (32 * k) clu (sectors m cs ! (k div 16)) \<and> \<not> END_CLUSTER \<le> clu"
proof -
  have off: "32 * k < 512 * length (sectors m cs)" "32 * k < 2 ^ 32" using k dir_onD(8) [OF d] by simp_all
  have "32 * k div 512 = k div 16" using div_mult2_eq [of "32 * k" 32 16] by simp
  then show ?thesis
    using get_pos_spec [OF dir_onD(1,2) [OF d] ok dir_onD(3,4) [OF d] off] by (auto simp: at_pos_def)
qed

lemma sector_of_entry:
  assumes "k < 16 * length secs" and "\<forall>b \<in> set secs. length (V b) = 512"
  shows "slice (32 * k) 32 (content V secs) = slice (32 * k mod 512) 32 (V (secs ! (k div 16)))"
    and "32 * k mod 512 + 32 \<le> 512" and "k div 16 < length secs"
proof -
  have k: "32 * k = 512 * (k div 16) + 32 * (k mod 16)" using div_mult_mod_eq [of k 16] by linarith
  have m: "32 * k mod 512 = 32 * (k mod 16)" using mult_mod_right [of 32 k 16] by simp
  have "k mod 16 < 16" by simp
  then show le: "32 * k mod 512 + 32 \<le> 512" unfolding m by linarith
  show lt: "k div 16 < length secs" using assms(1) by (simp add: less_mult_imp_div_less mult.commute)
  show "slice (32 * k) 32 (content V secs) = slice (32 * k mod 512) 32 (V (secs ! (k div 16)))"
    using content_slice [OF assms(2) lt le] unfolding m k [symmetric] .
qed

lemma read_dir_spec:
  assumes d: "dir_on I m e cs (disk_view s)" and ok: "fs_ok I hs s" and fuel: "length cs \<le> fuel" "2 \<le> fuel"
    and k: "k < 16 * length (sectors m cs)" and buf: "length buf = 32"
  shows "\<exists>s'. read_at fuel e (32 * k) buf m s = Inr (32, slice (32 * k) 32 (content (disk_view s) (sectors m cs)), s') \<and>
    fs_ok I hs s' \<and> disk_view s' = disk_view s"
proof -
  let ?V = "disk_view s" and ?off = "32 * k"
  obtain s1 where s1: "io_end fuel e ?off 32 m s = Inr (?off + 32, s1)" "fs_ok I hs s1" "disk_view s1 = ?V"
    using dir_io_end [OF d ok fuel(1)] by blast
  have d1: "dir_on I m e cs (disk_view s1)" using d s1(3) by simp
  obtain clu sec s2 where s2: "get_pos e ?off m s1 = Inr ((clu, sec, ?off mod 512), s2)" "fs_ok I hs s2" "disk_view s2 = ?V"
    "at_pos m cs ?off clu sec" "\<not> END_CLUSTER \<le> clu"
    using dir_pos [OF d1 s1(2) k] s1(3) by auto
  have stop: "?off + 32 \<le> 512 * length (sectors m cs)" "0 + (?off + 32 - ?off) \<le> length buf" using k buf by simp_all
  have fl: "?off + 32 \<le> 512 * (?off div 512 + fuel)" using fuel(2) by (intro fuel_enough) simp_all
  obtain s3 where "read_at_loop fuel e m (?off + 32) ?off clu sec 0 buf s2 =
      Inr (0 + (?off + 32 - ?off), overwrite 0 (slice ?off (?off + 32 - ?off) (content ?V (sectors m cs))) buf, s3)"
    "fs_ok I hs s3" "disk_view s3 = ?V"
    using read_at_loop_spec [OF dir_onD(1,2,3,7) [OF d] s2(2,3,4) _ stop fl] by auto
  moreover have "length (slice ?off 32 (content ?V (sectors m cs))) = length buf"
    using length_content [of "sectors m cs" ?V] disk_view_length [OF ok] stop(1) buf by (simp add: BLOCK_SZ_def)
  ultimately show ?thesis using s1(1) s2(1,5) buf by (simp add: read_at_def overwrite_all)
qed

section \<open>Looking up a short name\<close>

text \<open>The search in the list of entries that the loop implements: it stops at an empty entry.\<close>

fun lookup_short :: "u8 list \<Rightarrow> ShortDirEntry list \<Rightarrow> nat option" where
  "lookup_short nm [] = None"
| "lookup_short nm (e # es) =
     (if is_empty e then None
      else if is_valid e \<and> nm = utf8 (get_name_uppercase e) then Some 0
      else map_option Suc (lookup_short nm es))"

definition vfile_of :: "FAT32Manager \<Rightarrow> u32 list \<Rightarrow> (nat \<Rightarrow> u8 list) \<Rightarrow> u8 list \<Rightarrow> nat \<Rightarrow> VFile" where
  "vfile_of m cs V name k =
     VFile_new name (sectors m cs ! (k div 16)) (32 * k mod 512) [] (attribute (dir_entry m cs V k)) (fsize (dir_entry m cs V k))"

lemma dir_entry_ok:
  assumes "k < 16 * length (sectors m cs)" and "\<forall>b \<in> set (sectors m cs). length (V b) = 512"
  shows "entry_ok (dir_entry m cs V k)"
proof -
  have "length (slice (32 * k) 32 (content V (sectors m cs))) = 32" using length_content [OF assms(2)] assms(1) by simp
  then show ?thesis unfolding dir_entry_def by (rule as_of_bytes(1))
qed

lemma VFile_get_pos_spec:
  assumes ok: "fs_ok I hs s" and room: "length hs < 9" and place: "entry_placed I v"
    and d: "dir_on I m (entry_at v m (disk_view s)) cs (disk_view s)" and k: "k < 16 * length (sectors m cs)"
  shows "\<exists>s'. VFile_get_pos v (32 * k) m s = Inr ((sectors m cs ! (k div 16), 32 * k mod 512), s') \<and> fs_ok I hs s' \<and> disk_view s' = disk_view s"
  unfolding VFile_get_pos_def
proof (rule read_short_dirent_spec [OF ok room place])
  fix hs' and s1 :: "'a fs_state"
  assume s1: "fs_ok I hs' s1" "disk_view s1 = disk_view s"
  show "\<exists>s2. bindR (get_pos (entry_at v m (disk_view s)) (32 * k) m s1) (\<lambda>((_, sec, off), s1). Inr ((sec, off), s1)) =
      Inr ((sectors m cs ! (k div 16), 32 * k mod 512), s2) \<and> fs_ok I hs' s2 \<and> disk_view s2 = disk_view s"
    using dir_pos [OF _ s1(1) k, of "entry_at v m (disk_view s)"] d unfolding s1(2) by auto
qed

lemma find_short_loop_spec:
  fixes s :: "'d fs_state"
  assumes place: "entry_placed I v" and e: "e = entry_at v m V" and d: "dir_on I m e cs V"
    and fuel: "length cs \<le> fuel" "2 \<le> fuel" and j: "j < 16 * length (sectors m cs)" "is_empty (dir_entry m cs V j)"
    and room: "length hs < 9"
  shows "fs_ok I hs s \<Longrightarrow> disk_view s = V \<Longrightarrow> k \<le> j \<Longrightarrow> j < k + n \<Longrightarrow> entry_ok se \<Longrightarrow>
    \<exists>s'. find_short_loop n fuel v m name nm e (32 * k) se s =
      Inr (map_option (\<lambda>i. vfile_of m cs V name (k + i)) (lookup_short nm (drop k (dir_entries m cs V))), s') \<and>
      fs_ok I hs s' \<and> disk_view s' = V"
proof (induction n arbitrary: s k se)
  case (Suc n)
  let ?E = "dir_entry m cs V k"
  have k: "k < 16 * length (sectors m cs)" using Suc.prems(3) j(1) by simp
  then have dr: "drop k (dir_entries m cs V) = ?E # drop (Suc k) (dir_entries m cs V)"
    using Cons_nth_drop_Suc [of k "dir_entries m cs V"] by (simp add: dir_entries_def)
  have len: "\<forall>b \<in> set (sectors m cs). length (V b) = 512"
    using disk_view_length [OF Suc.prems(1)] Suc.prems(2) by (simp add: BLOCK_SZ_def)
  have ds: "dir_on I m e cs (disk_view s)" using d Suc.prems(2) by simp
  obtain s1 where s1: "read_at fuel e (32 * k) (ShortDirEntry_as_bytes se) m s =
      Inr (32, slice (32 * k) 32 (content V (sectors m cs)), s1)" "fs_ok I hs s1" "disk_view s1 = V"
    using read_dir_spec [OF ds Suc.prems(1) fuel k length_as_bytes [OF Suc.prems(5)]] Suc.prems(2) by auto
  have step: "find_short_loop (Suc n) fuel v m name nm e (32 * k) se s =
      (if is_empty ?E then Inr (None, s1)
       else if is_valid ?E \<and> nm = utf8 (get_name_uppercase ?E) then
         bindR (VFile_get_pos v (32 * k) m s1) (\<lambda>((sector, off), s2).
           Inr (Some (VFile_new name sector off [] (attribute ?E) (fsize ?E)), s2))
       else find_short_loop n fuel v m name nm e (32 * k + 32) ?E s1)"
    using s1(1) by (simp add: DIRENT_SZ_def dir_entry_def Let_def)
  show ?case
  proof (cases "is_empty ?E")
    case True
    then show ?thesis using s1(2,3) unfolding step dr by simp
  next
    case nonempty: False
    then have "k \<noteq> j" using j(2) by auto
    then have k': "Suc k \<le> j" "j < Suc k + n" using Suc.prems(3,4) by simp_all
    show ?thesis
    proof (cases "is_valid ?E \<and> nm = utf8 (get_name_uppercase ?E)")
      case True
      have d1: "dir_on I m (entry_at v m (disk_view s1)) cs (disk_view s1)" using d e s1(3) by simp
      from VFile_get_pos_spec [OF s1(2) room place d1 k] s1(3)
      show ?thesis using True nonempty unfolding step dr by (auto simp: vfile_of_def)
    next
      case False
      have "lookup_short nm (drop k (dir_entries m cs V)) = map_option Suc (lookup_short nm (drop (Suc k) (dir_entries m cs V)))"
        using False nonempty unfolding dr by auto
      then show ?thesis
        using Suc.IH [OF s1(2,3) k' dir_entry_ok [OF k len]] False nonempty unfolding step
        by (auto simp: add.commute option.map_comp comp_def)
    qed
  qed
qed simp

lemma dir_entry_at_vfile:
  assumes "k < 16 * length (sectors m cs)" and "\<forall>b \<in> set (sectors m cs). length (V b) = 512" and "0 \<notin> set (sectors m cs)"
  shows "entry_at (vfile_of m cs V name k) m V = dir_entry m cs V k"
proof -
  note s = sector_of_entry [OF assms(1,2)]
  have "sectors m cs ! (k div 16) \<in> set (sectors m cs)" using s(3) by simp
  then have "sectors m cs ! (k div 16) \<noteq> 0" using assms(3) by metis
  then show ?thesis using s(1) by (simp add: entry_at_def vfile_of_def VFile_new_def dir_entry_def)
qed

lemma lookup_short_SomeD:
  "lookup_short nm es = Some i \<Longrightarrow> i < length es \<and> is_valid (es ! i) \<and> \<not> is_empty (es ! i) \<and> nm = utf8 (get_name_uppercase (es ! i))"
  by (induction nm es arbitrary: i rule: lookup_short.induct) (auto split: if_splits)

lemma find_byname_lookup:
  fixes s :: "'d fs_state"
  assumes ok: "fs_ok I hs s" and room: "length hs < 8" and place: "entry_placed I v" and dir: "VFile_is_dir v"
    and d: "dir_on I m (entry_at v m (disk_view s)) cs (disk_view s)" and root: "0 \<notin> set (sectors m cs)"
    and short: "split_name_ext name = (nm, ext)" "length nm \<le> 8" "length ext \<le> 3"
    and j: "j < 16 * length (sectors m cs)" "is_empty (dir_entries m cs (disk_view s) ! j)"
    and fuel: "j < fuel" "length cs \<le> fuel" "2 \<le> fuel"
  shows "\<exists>s'. find_vfile_byname fuel v m name s =
      Inr (map_option (vfile_of m cs (disk_view s) name)
        (lookup_short (map to_ascii_uppercase name) (dir_entries m cs (disk_view s))), s') \<and>
      fs_ok I hs s' \<and> disk_view s' = disk_view s \<and>
      (\<forall>i. lookup_short (map to_ascii_uppercase name) (dir_entries m cs (disk_view s)) = Some i \<longrightarrow>
        entry_at (vfile_of m cs (disk_view s) name i) m (disk_view s) = dir_entries m cs (disk_view s) ! i)"
proof -
  let ?V = "disk_view s" and ?nm = "map to_ascii_uppercase name"
  let ?r = "map_option (vfile_of m cs ?V name) (lookup_short ?nm (dir_entries m cs ?V))"
  let ?f = "\<lambda>short_ent s. if length nm > 8 \<or> length ext > 3 then find_long_name fuel v m name short_ent s
    else find_short_name fuel v m name short_ent s"
  have em: "is_empty (dir_entry m cs ?V j)" using j by (simp add: dir_entries_def)
  have "\<exists>s'. read_short_dirent v m s ?f = Inr (?r, s') \<and> fs_ok I hs s' \<and> disk_view s' = ?V"
  proof (rule read_short_dirent_spec [OF ok _ place])
    fix hs' and s1 :: "'d fs_state"
    assume s1: "fs_ok I hs' s1" "length hs' \<le> Suc (length hs)" "disk_view s1 = ?V"
    have "length hs' < 9" using s1(2) room by simp
    from find_short_loop_spec [OF place refl d fuel(2,3) j(1) em this s1(1,3), of 0 fuel ShortDirEntry_empty name ?nm] fuel(1) short
    show "\<exists>s2. ?f (entry_at v m ?V) s1 = Inr (?r, s2) \<and> fs_ok I hs' s2 \<and> disk_view s2 = ?V"
      by (simp add: find_short_name_def entry_ok_def ShortDirEntry_empty_def)
  qed (use room in simp)
  moreover have "entry_at (vfile_of m cs ?V name i) m ?V = dir_entries m cs ?V ! i" if i: "lookup_short ?nm (dir_entries m cs ?V) = Some i" for i
    using lookup_short_SomeD [OF i] dir_entry_at_vfile [OF _ _ root, of i ?V name] disk_view_length [OF ok]
    by (simp add: dir_entries_def BLOCK_SZ_def)
  ultimately show ?thesis using short(1) dir by (auto simp: find_vfile_byname_def)
qed

text \<open>
  (C19) Looking up a short name. In a directory that has an empty entry, with fuel for its entries
  and clusters, \<open>find_vfile_byname\<close> returns, without changing the disk, exactly what the search for
  the upper-case name in the directory's list of entries finds: nothing if no valid entry before the
  first empty one has that name, and otherwise a file whose recorded position is that of the first such
  entry, so that reading its entry later gives that entry.
\<close>

theorem find_vfile_byname_is_lookup:
  fixes s :: "'d fs_state"
  assumes "fs_ok I hs s" and "length hs < 8" and "entry_placed I v" and "VFile_is_dir v"
    and "dir_on I m (entry_at v m (disk_view s)) cs (disk_view s)" and "0 \<notin> set (sectors m cs)"
    and "split_name_ext name = (nm, ext)" "length nm \<le> 8" "length ext \<le> 3"
    and "j < 16 * length (sectors m cs)" "is_empty (dir_entries m cs (disk_view s) ! j)"
    and "j < fuel" "length cs \<le> fuel" "2 \<le> fuel"
  shows "\<exists>s'. find_vfile_byname fuel v m name s =
      Inr (map_option (vfile_of m cs (disk_view s) name)
        (lookup_short (map to_ascii_uppercase name) (dir_entries m cs (disk_view s))), s') \<and>
      fs_ok I hs s' \<and> disk_view s' = disk_view s \<and>
      (\<forall>i. lookup_short (map to_ascii_uppercase name) (dir_entries m cs (disk_view s)) = Some i \<longrightarrow>
        entry_at (vfile_of m cs (disk_view s) name i) m (disk_view s) = dir_entries m cs (disk_view s) ! i)"
  by (rule find_byname_lookup [OF assms])

section \<open>Witnesses\<close>

text \<open>A root directory in cluster 4 (sector 6) of the example disk with one entry, the file \<open>A\<close>.\<close>

definition example_ent :: ShortDirEntry where
  "example_ent = ShortDirEntry_empty\<lparr>sname := 65 # replicate 7 32, extension := replicate 3 32, fsize := 9\<rparr>"

definition example_dir_disk :: "nat \<Rightarrow> u8 list" where
  "example_dir_disk b = (if b = 6 then ShortDirEntry_as_bytes example_ent else example_disk b)"

definition example_root :: FAT32Manager where
  "example_root = example_manager\<lparr>vroot_dirent := ShortDirEntry_empty\<lparr>attribute := 0x10, cluster_low := 4\<rparr>\<rparr>"

lemma example_root_sectors: "sectors example_root [4] = [6]"
  by (simp add: sectors_def first_sector_of_cluster_def example_manager_def example_root_def)

lemma example_root_place: "entry_placed I get_root_vfile" "VFile_is_dir get_root_vfile" "short_sector get_root_vfile = 0"
  by (simp_all add: entry_placed_def get_root_vfile_def VFile_new_def VFile_is_dir_def ATTRIBUTE_DIRECTORY_def)

lemma example_root_dir:
  "dir_on {0, 1, 2, 3, 6} example_root (entry_at get_root_vfile example_root V) [4] (disk_view (example_fs example_dir_disk))"
proof -
  have fat: "fat example_root = example_fat" by (simp add: example_root_def example_manager_def)
  have secs: "fat_sectors example_fat = {2, 3}" by (auto simp: fat_sectors_def example_fat_def FAT_new_def)
  have "chain example_fat (disk_view (example_fs example_disk)) [4]" using example_chain by simp
  then have "chain example_fat (disk_view (example_fs example_dir_disk)) [4]"
    by (rule chain_cong [rotated]) (simp add: secs example_fs_view example_dir_disk_def)
  moreover have "fat_geom {0, 1, 2, 3, 6} example_fat" using example_geom(1) by (auto simp: fat_geom_def)
  moreover have "file_geom example_root" by (simp add: file_geom_def example_root_def example_manager_def)
  moreover have "entry_at get_root_vfile example_root V = ShortDirEntry_empty\<lparr>attribute := 0x10, cluster_low := 4\<rparr>"
    by (simp add: entry_at_def example_root_place example_root_def)
  ultimately show ?thesis
    by (simp add: dir_on_def fat secs example_root_sectors is_dir_def ShortDirEntry_empty_def first_cluster_def ATTRIBUTE_DIRECTORY_def)
qed

lemma le_bytes_0: "le_bytes n 0 = replicate n 0"
  by (induction n) simp_all

lemma zero_entry: "ShortDirEntry_of_bytes (replicate 32 0) = ShortDirEntry_empty"
proof -
  have "replicate 32 0 = ShortDirEntry_as_bytes ShortDirEntry_empty"
    by (simp add: ShortDirEntry_as_bytes_def ShortDirEntry_empty_def le16_def le32_def le_bytes_0)
      (simp add: numeral_eq_Suc)
  moreover have "entry_ok ShortDirEntry_empty" by (simp add: entry_ok_def ShortDirEntry_empty_def)
  ultimately show ?thesis using entry_of_as_bytes by simp
qed

lemma example_ent_ok: "entry_ok example_ent"
  by (simp add: example_ent_def entry_ok_def ShortDirEntry_empty_def)

lemma example_root_entries:
  "dir_entries example_root [4] (disk_view (example_fs example_dir_disk)) = example_ent # replicate 15 ShortDirEntry_empty"
proof -
  let ?V = "disk_view (example_fs example_dir_disk)"
  have "content ?V [6] = ShortDirEntry_as_bytes example_ent @ replicate 480 0"
    using length_as_bytes [OF example_ent_ok] by (simp add: content_def example_fs_view example_dir_disk_def)
  then have e: "dir_entry example_root [4] ?V k = (if k = 0 then example_ent else ShortDirEntry_empty)" if "k < 16" for k
  proof (cases k)
    case 0
    then show ?thesis using \<open>content ?V [6] = _\<close> length_as_bytes [OF example_ent_ok] entry_of_as_bytes [OF example_ent_ok]
      by (simp add: dir_entry_def example_root_sectors slice_def)
  next
    case (Suc i)
    then have "slice (32 * k) 32 (content ?V [6]) = replicate 32 0"
      using \<open>content ?V [6] = _\<close> length_as_bytes [OF example_ent_ok] that by (simp add: slice_def min_def)
    moreover have "ShortDirEntry_of_bytes (replicate 32 0) = ShortDirEntry_empty" by (rule zero_entry)
    ultimately show ?thesis using Suc by (simp add: dir_entry_def example_root_sectors)
  qed
  show ?thesis
  proof (rule nth_equalityI)
    fix i assume "i < length (dir_entries example_root [4] ?V)"
    then have i: "i < 16" by (simp add: dir_entries_def example_root_sectors del: upt_rec_numeral)
    then have "dir_entries example_root [4] ?V ! i = (if i = 0 then example_ent else ShortDirEntry_empty)"
      using e by (simp add: dir_entries_def example_root_sectors del: upt_rec_numeral)
    then show "dir_entries example_root [4] ?V ! i = (example_ent # replicate 15 ShortDirEntry_empty) ! i"
      using i by (simp add: nth_Cons')
  qed (simp add: dir_entries_def example_root_sectors del: upt_rec_numeral)
qed

lemma example_names: "split_name_ext [97] = ([97], [])" "map to_ascii_uppercase [97] = [65]" "utf8 (get_name_uppercase example_ent) = [65]"
  "\<not> is_empty example_ent" "is_valid example_ent" "is_empty ShortDirEntry_empty"
  by (simp_all add: split_name_ext_def to_ascii_uppercase_def utf8_def get_name_uppercase_def example_ent_def ShortDirEntry_empty_def
    is_empty_def is_valid_def)

theorem find_vfile_byname_is_lookup_witness:
  "\<exists>s'. find_vfile_byname 16 get_root_vfile example_root [97] (example_fs example_dir_disk) =
     Inr (Some (vfile_of example_root [4] (disk_view (example_fs example_dir_disk)) [97] 0), s') \<and>
     disk_view s' = disk_view (example_fs example_dir_disk)"
proof -
  have "lookup_short [65] (example_ent # replicate 15 ShortDirEntry_empty) = Some 0" by (simp add: example_names)
  then show ?thesis
    using find_vfile_byname_is_lookup [OF example_fs_ok _ example_root_place(1,2) example_root_dir _ example_names(1), of 1 16] example_names
    by (auto simp: example_root_entries example_root_sectors)
qed

end
