(* ===== verification/Vfs_Create.thy ===== *)
theory Vfs_Create
  imports Vfs_Lookup
begin

text \<open>
  Writing through a file's entry, and the creation of a file in a directory: the new entry takes the
  first empty place, and the directory finds it there.
\<close>

section \<open>Changing the entry of a file\<close>

lemma held_entry:
  assumes "fs_ok I (b # hs) s"
  obtains c where "map_of (queue (manager INFO s)) b = Some c"
proof -
  have "b \<in> fst ` set (queue (manager INFO s))"
    using manager_okD(6) [OF fs_okD(2) [OF assms, of INFO]] fs_okD(4) [OF assms, of INFO] by simp
  then show ?thesis using that by (cases "map_of (queue (manager INFO s)) b") (auto simp: map_of_eq_None_iff)
qed

definition entry_written :: "VFile \<Rightarrow> ShortDirEntry \<Rightarrow> (nat \<Rightarrow> u8 list) \<Rightarrow> nat \<Rightarrow> u8 list" where
  "entry_written v e V b = (if short_sector v \<noteq> 0 \<and> b = short_sector v
     then overwrite (short_offset v) (ShortDirEntry_as_bytes e) (V b) else V b)"

lemma modify_short_dirent_spec:
  assumes ok: "fs_ok I hs s" and room: "length hs < 9" and place: "entry_placed I v" and e': "entry_ok e'"
    and f: "\<And>hs' s1. fs_ok I hs' s1 \<Longrightarrow> length hs' \<le> Suc (length hs) \<Longrightarrow> disk_view s1 = disk_view s \<Longrightarrow>
      \<exists>s2. f (entry_at v m (disk_view s)) s1 = Inr (r, e', s2) \<and> fs_ok I hs' s2 \<and> P (disk_view s2)"
  shows "\<exists>s' V'. modify_short_dirent v m s f = Inr (r, if short_sector v = 0 then m\<lparr>vroot_dirent := e'\<rparr> else m, s') \<and>
    fs_ok I hs s' \<and> P V' \<and> disk_view s' = entry_written v e' V'"
proof (cases "short_sector v = 0")
  case True
  obtain s2 where "f (entry_at v m (disk_view s)) s = Inr (r, e', s2)" "fs_ok I hs s2" "P (disk_view s2)" using f [OF ok] by auto
  moreover have "entry_written v e' (disk_view s2) = disk_view s2" using True by (auto simp: entry_written_def)
  ultimately show ?thesis using True by (auto simp: modify_short_dirent_def entry_at_def)
next
  case False
  let ?b = "short_sector v" and ?o = "short_offset v"
  have own: "owns I INFO ?b" and rng: "?o + 32 \<le> BLOCK_SZ" "0 < (32 :: nat)"
    using place False by (auto simp: entry_placed_def owns_def BLOCK_SZ_def)
  obtain s1 c where s1: "get_cache INFO s ?b READ = Inr (?b, s1)" "fs_ok I hs s1" "disk_view s1 = disk_view s"
    "map_of (queue (manager INFO s1)) ?b = Some c" "cache c = disk_view s ?b"
    by (rule get_cache_spec [OF ok own])
  note h = hold_spec [OF s1(2,4) room]
  obtain c1 where c1: "map_of (queue (manager INFO (hold INFO ?b s1))) ?b = Some c1" by (rule held_entry [OF h(1)])
  obtain s2 where s2: "handle_modify INFO (hold INFO ?b s1) ?b 32 ?o (\<lambda>b. b) = Inr s2" "fs_ok I (?b # hs) s2" "disk_view s2 = disk_view s"
    using handle_modify_spec [OF h(1) own c1 rng, of "\<lambda>b. b"] disk_view_length [OF ok, of ?b] rng
    by (auto simp: h(2) s1(3) overwrite_slice_id)
  obtain c2 where c2: "map_of (queue (manager INFO s2)) ?b = Some c2" by (rule held_entry [OF s2(2)])
  have "disk_view s2 ?b = cache c2" using disk_view_owner [OF s2(2) own] c2 by (simp add: manager_view_def)
  then have rd: "handle_read INFO s2 ?b 32 ?o ShortDirEntry_of_bytes = Inr (entry_at v m (disk_view s))"
    using c2 s2(3) rng False disk_view_length [OF ok, of ?b]
    by (simp add: handle_read_def BlockCache_read_def BlockCache_get_ref_def addr_of_offset_def entry_at_def)
  obtain s3 where s3: "f (entry_at v m (disk_view s)) s2 = Inr (r, e', s3)" "fs_ok I (?b # hs) s3" "P (disk_view s3)"
    using f [OF s2(2) _ s2(3)] by auto
  obtain c3 where c3: "map_of (queue (manager INFO s3)) ?b = Some c3" by (rule held_entry [OF s3(2)])
  obtain s4 where s4: "handle_modify INFO s3 ?b 32 ?o (\<lambda>_. ShortDirEntry_as_bytes e') = Inr s4" "fs_ok I (?b # hs) s4"
    "disk_view s4 = (disk_view s3)(?b := overwrite ?o (ShortDirEntry_as_bytes e') (disk_view s3 ?b))"
    using handle_modify_spec [OF s3(2) own c3 rng, of "\<lambda>_. ShortDirEntry_as_bytes e'"] length_as_bytes [OF e'] by auto
  have "disk_view s4 = entry_written v e' (disk_view s3)" using False unfolding s4(3) by (auto simp: entry_written_def)
  then show ?thesis using release_spec [OF s4(2)] s4(1) s3(1,3) s2(1) s1(1) rd False
    by (auto simp: modify_short_dirent_def DIRENT_SZ_def)
qed

lemma VFile_first_cluster_spec:
  assumes "fs_ok I hs s" and "length hs < 9" and "entry_placed I v"
  shows "\<exists>s'. VFile_first_cluster v m s = Inr (first_cluster (entry_at v m (disk_view s)), s') \<and> fs_ok I hs s' \<and> disk_view s' = disk_view s"
  unfolding VFile_first_cluster_def by (rule read_short_dirent_spec [OF assms]) simp

lemma VFile_get_size_spec:
  assumes "fs_ok I hs s" and "length hs < 9" and "entry_placed I v"
  shows "\<exists>s'. VFile_get_size v m s = Inr (fsize (entry_at v m (disk_view s)), s') \<and> fs_ok I hs s' \<and> disk_view s' = disk_view s"
  unfolding VFile_get_size_def by (rule read_short_dirent_spec [OF assms]) simp

lemma entry_at_ok:
  assumes "fs_ok I hs s" and "entry_placed I v" and "entry_ok (vroot_dirent m)"
  shows "entry_ok (entry_at v m (disk_view s))"
  using assms disk_view_length [OF assms(1), of "short_sector v"]
  by (auto simp: entry_at_def entry_placed_def BLOCK_SZ_def intro!: as_of_bytes(1))

text \<open>Writing an entry back as it was read leaves the disk alone.\<close>

lemma entry_written_same:
  assumes "entry_placed I v" and "\<forall>b. length (V b) = 512" and "short_sector v \<noteq> 0 \<Longrightarrow> V' (short_sector v) = V (short_sector v)"
  shows "entry_written v (entry_at v m V) V' = V'"
proof
  fix b
  show "entry_written v (entry_at v m V) V' b = V' b"
  proof (cases "short_sector v \<noteq> 0 \<and> b = short_sector v")
    case True
    then have "short_offset v + 32 \<le> 512" using assms(1) by (auto simp: entry_placed_def)
    then have "ShortDirEntry_as_bytes (entry_at v m V) = slice (short_offset v) 32 (V b)" "short_offset v + 32 \<le> length (V b)"
      using True assms(2) as_of_bytes(2) [of "slice (short_offset v) 32 (V b)"] by (auto simp: entry_at_def)
    then show ?thesis using True assms(3) by (simp add: entry_written_def overwrite_slice_id)
  qed (auto simp: entry_written_def)
qed

section \<open>Writing a directory\<close>

lemma write_dir_spec:
  assumes d: "dir_on I m e cs (disk_view s)" and ok: "fs_ok I hs s" and fuel: "length cs \<le> fuel" "2 \<le> fuel"
    and k: "k < 16 * length (sectors m cs)" and buf: "length buf = 32"
  shows "\<exists>s'. write_at fuel e (32 * k) buf m s = Inr (32, s') \<and> fs_ok I hs s' \<and>
    content (disk_view s') (sectors m cs) = overwrite (32 * k) buf (content (disk_view s) (sectors m cs)) \<and>
    (\<forall>b. b \<notin> set (sectors m cs) \<longrightarrow> disk_view s' b = disk_view s b)"
proof -
  let ?V = "disk_view s" and ?off = "32 * k"
  obtain s1 where s1: "io_end fuel e ?off 32 m s = Inr (?off + 32, s1)" "fs_ok I hs s1" "disk_view s1 = ?V"
    using dir_io_end [OF d ok fuel(1)] by blast
  have d1: "dir_on I m e cs (disk_view s1)" using d s1(3) by simp
  obtain clu sec s2 where s2: "get_pos e ?off m s1 = Inr ((clu, sec, ?off mod 512), s2)" "fs_ok I hs s2" "disk_view s2 = ?V"
    "at_pos m cs ?off clu sec"
    using dir_pos [OF d1 s1(2) k] s1(3) by auto
  have stop: "?off + 32 \<le> 512 * length (sectors m cs)" "0 + (?off + 32 - ?off) \<le> length buf" using k buf by simp_all
  have fl: "?off + 32 \<le> 512 * (?off div 512 + fuel)" using fuel(2) by (intro fuel_enough) simp_all
  have ch: "chain (fat m) (disk_view s2) cs" using dir_onD(3) [OF d] s2(3) by simp
  have lt: "?off < ?off + 32" by simp
  from write_at_loop_spec [OF dir_onD(1,2,5,6,7) [OF d] s2(2) ch s2(4) lt stop fl]
  show ?thesis using s1(1) s2(1,3) buf by (auto simp: write_at_def slice_all)
qed

text \<open>
  A directory needs no new cluster for its entry \<open>k\<close> when the recorded size covers it or it lies in the
  last cluster of the chain.
\<close>

definition dir_room :: "FAT32Manager \<Rightarrow> u32 list \<Rightarrow> ShortDirEntry \<Rightarrow> nat \<Rightarrow> bool" where
  "dir_room m cs e k \<longleftrightarrow> 32 * k + 32 \<le> unat (fsize e) \<or> unat (bytes_per_cluster m) * (length cs - 1) < 32 * k + 32"

lemma unat_u32: "n < 2 ^ 32 \<Longrightarrow> unat (word_of_nat n :: u32) = n"
  by (simp add: unat_of_nat take_bit_eq_mod)

lemma clusters_of_dir:
  assumes geom: "file_geom m" and sz: "n \<le> unat (bytes_per_cluster m) * l" "unat (bytes_per_cluster m) * (l - 1) < n"
    and small: "unat (bytes_per_cluster m) * l < 2 ^ 31"
  shows "size_to_clusters m (word_of_nat n) = Inr (word_of_nat l)"
proof -
  define c where "c = unat (bytes_per_cluster m)"
  have c: "0 < c" "c \<le> 512 * 255" using geom by (auto simp: file_geom_def c_def)
  have l: "0 < l" using sz by (cases l) auto
  then have n: "0 < n" "n < 2 ^ 31" using sz small by auto
  let ?w = "word_of_nat n + bytes_per_cluster m - 1 :: u32"
  have "?w = word_of_nat (n + c - 1)" using n c by (simp add: c_def of_nat_diff)
  then have "unat ?w = n + c - 1" using n c by (simp only:) (rule unat_u32, simp)
  moreover have "(n + c - 1) div c = l"
  proof (rule div_nat_eqI)
    obtain l' where l': "l = Suc l'" using l by (cases l) auto
    show "c * l \<le> n + c - 1" using sz(2) n(1) unfolding l' by (simp flip: c_def)
    show "n + c - 1 < c * Suc l" using sz(1) n(1) c(1) by (simp flip: c_def)
  qed
  ultimately have "unat (?w div bytes_per_cluster m) = l" by (simp add: unat_div c_def)
  moreover have "word_of_nat (unat (?w div bytes_per_cluster m)) = ?w div bytes_per_cluster m" by simp
  ultimately have "?w div bytes_per_cluster m = word_of_nat l" by (simp only:)
  moreover have "bytes_per_cluster m \<noteq> 0" using c(1) by (auto simp: c_def)
  ultimately show ?thesis by (simp add: size_to_clusters_def)
qed

lemma increase_size_dir:
  assumes ok: "fs_ok I hs s" and room: "length hs < 9" and place: "entry_placed I v" and dir: "VFile_is_dir v"
    and d: "dir_on I m (entry_at v m (disk_view s)) cs (disk_view s)" and fuel: "length cs \<le> fuel"
    and k: "k < 16 * length (sectors m cs)" "dir_room m cs (entry_at v m (disk_view s)) k"
  shows "\<exists>s'. increase_size fuel v (word_of_nat (32 * k + 32)) m s = Inr (m, s') \<and> fs_ok I hs s' \<and> disk_view s' = disk_view s"
proof -
  let ?V = "disk_view s" and ?e = "entry_at v m (disk_view s)" and ?n = "word_of_nat (32 * k + 32) :: u32"
  obtain s1 where s1: "VFile_first_cluster v m s = Inr (first_cluster ?e, s1)" "fs_ok I hs s1" "disk_view s1 = ?V"
    using VFile_first_cluster_spec [OF ok room place] by blast
  obtain s2 where s2: "VFile_get_size v m s1 = Inr (fsize ?e, s2)" "fs_ok I hs s2" "disk_view s2 = ?V"
    using VFile_get_size_spec [OF s1(2) room place, of m] unfolding s1(3) by blast
  have bound: "32 * k + 32 \<le> 512 * length (sectors m cs)" using k(1) by simp
  then have n: "unat ?n = 32 * k + 32" using dir_onD(8) [OF d] by (intro unat_u32) simp
  show ?thesis
  proof (cases "?n \<le> fsize ?e")
    case True
    then show ?thesis using s1(1) s2 by (simp add: increase_size_def)
  next
    case False
    then have big: "unat (bytes_per_cluster m) * (length cs - 1) < 32 * k + 32"
      using k(2) n by (auto simp: dir_room_def word_le_nat_alt)
    have bpc: "unat (bytes_per_cluster m) * length cs = 512 * length (sectors m cs)"
      using dir_onD(1) [OF d] by (simp add: file_geom_def length_sectors)
    have sz: "size_to_clusters m ?n = Inr (word_of_nat (length cs))"
      using clusters_of_dir [OF dir_onD(1) [OF d] _ big] bound dir_onD(8) [OF d] unfolding bpc by simp
    obtain c ds where cs: "cs = c # ds" using dir_onD(3) [OF d] by (cases cs) auto
    have ch: "chain (fat m) (disk_view s2) (c # ds)" using dir_onD(3) [OF d] s2(3) cs by simp
    have c: "first_cluster ?e = c" "c \<noteq> 0" using dir_onD(4) [OF d] chain_hd [OF ch] cs by auto
    obtain s3 where s3: "count_loop fuel (fat m) c 0 s2 = Inr (word_of_nat (length cs), s3)" "fs_ok I hs s3" "disk_view s3 = ?V"
      using count_loop_spec [OF dir_onD(2) [OF d] s2(2) ch, of fuel 0] fuel cs s2(3) by auto
    have "cluster_num_needed fuel m (fsize ?e) ?n True c s2 = Inr (0, s3)"
      using False c s3(1) sz by (simp add: cluster_num_needed_def count_claster_num_def)
    then show ?thesis using False s1(1) s2(1) s3 c dir by (simp add: increase_size_def)
  qed
qed

text \<open>The sector of the directory's own entry is not one of its data sectors.\<close>

definition entry_apart :: "VFile \<Rightarrow> FAT32Manager \<Rightarrow> u32 list \<Rightarrow> bool" where
  "entry_apart v m cs \<longleftrightarrow> short_sector v \<notin> set (sectors m cs) \<and> short_sector v \<notin> fat_sectors (fat m)"

lemma dir_on_kept:
  assumes "dir_on I m e cs V" and "\<forall>b. b \<notin> set (sectors m cs) \<longrightarrow> V' b = V b"
  shows "dir_on I m e cs V'"
proof -
  have "chain (fat m) V' cs" by (rule chain_cong [OF _ dir_onD(3) [OF assms(1)]]) (use assms(2) dir_onD(6) [OF assms(1)] in auto)
  with assms(1) show ?thesis by (simp add: dir_on_def)
qed

lemma VFile_write_dir_spec:
  fixes s :: "'d fs_state"
  assumes ok: "fs_ok I hs s" and room: "length hs < 9" and place: "entry_placed I v" and dir: "VFile_is_dir v"
    and d: "dir_on I m (entry_at v m (disk_view s)) cs (disk_view s)" and fuel: "length cs \<le> fuel" "2 \<le> fuel"
    and k: "k < 16 * length (sectors m cs)" "dir_room m cs (entry_at v m (disk_view s)) k"
    and apart: "entry_apart v m cs" and root: "entry_ok (vroot_dirent m)" and buf: "length buf = 32"
  shows "\<exists>s'. VFile_write_at fuel v (32 * k) buf m s = Inr (32, m, s') \<and> fs_ok I hs s' \<and>
    content (disk_view s') (sectors m cs) = overwrite (32 * k) buf (content (disk_view s) (sectors m cs)) \<and>
    entry_at v m (disk_view s') = entry_at v m (disk_view s) \<and> (\<forall>b. b \<notin> set (sectors m cs) \<longrightarrow> disk_view s' b = disk_view s b)"
proof -
  let ?V = "disk_view s" and ?e = "entry_at v m (disk_view s)" and ?secs = "sectors m cs"
  let ?P = "\<lambda>V'. content V' ?secs = overwrite (32 * k) buf (content ?V ?secs) \<and> (\<forall>b. b \<notin> set ?secs \<longrightarrow> V' b = ?V b)"
  let ?f = "\<lambda>e s. bindR (write_at fuel e (32 * k) buf m s) (\<lambda>(n, s2). Inr (n, e, s2))"
  obtain s1 where s1: "increase_size fuel v (word_of_nat (32 * k + 32)) m s = Inr (m, s1)" "fs_ok I hs s1" "disk_view s1 = ?V"
    using increase_size_dir [OF ok room place dir d fuel(1) k] by blast
  have "\<exists>s' V'. modify_short_dirent v m s1 ?f = Inr (32, if short_sector v = 0 then m\<lparr>vroot_dirent := ?e\<rparr> else m, s') \<and>
      fs_ok I hs s' \<and> ?P V' \<and> disk_view s' = entry_written v ?e V'"
  proof (rule modify_short_dirent_spec [OF s1(2) room place entry_at_ok [OF ok place root]])
    fix hs' and s2 :: "'d fs_state" assume s2: "fs_ok I hs' s2" "disk_view s2 = disk_view s1"
    have d2: "dir_on I m ?e cs (disk_view s2)" using d s2(2) s1(3) by simp
    show "\<exists>s3. ?f (entry_at v m (disk_view s1)) s2 = Inr (32, ?e, s3) \<and> fs_ok I hs' s3 \<and> ?P (disk_view s3)"
      using write_dir_spec [OF d2 s2(1) fuel k(1) buf] unfolding s2(2) s1(3) by auto
  qed
  then obtain s' V' where s': "modify_short_dirent v m s1 ?f = Inr (32, if short_sector v = 0 then m\<lparr>vroot_dirent := ?e\<rparr> else m, s')"
    "fs_ok I hs s'" "?P V'" "disk_view s' = entry_written v ?e V'" by blast
  have "(if short_sector v = 0 then m\<lparr>vroot_dirent := ?e\<rparr> else m) = m" by (simp add: entry_at_def)
  moreover have V': "disk_view s' = V'"
    unfolding s'(4) using s'(3) apart disk_view_length [OF ok]
    by (intro entry_written_same [OF place]) (auto simp: entry_apart_def BLOCK_SZ_def)
  moreover have "entry_at v m V' = ?e" using s'(3) apart by (simp add: entry_at_def entry_apart_def)
  ultimately show ?thesis using s' s1(1) buf by (simp add: VFile_write_at_def)
qed

section \<open>The first empty place\<close>

lemma VFile_read_dir_spec:
  fixes s :: "'d fs_state"
  assumes ok: "fs_ok I hs s" and room: "length hs < 9" and place: "entry_placed I v"
    and d: "dir_on I m (entry_at v m (disk_view s)) cs (disk_view s)" and fuel: "length cs \<le> fuel" "2 \<le> fuel"
    and k: "k < 16 * length (sectors m cs)" and buf: "length buf = 32"
  shows "\<exists>s'. VFile_read_at fuel v (32 * k) buf m s =
      Inr ((32, slice (32 * k) 32 (content (disk_view s) (sectors m cs))), s') \<and> fs_ok I hs s' \<and> disk_view s' = disk_view s"
  unfolding VFile_read_at_def
proof (rule read_short_dirent_spec [OF ok room place])
  fix hs' and s1 :: "'d fs_state"
  assume s1: "fs_ok I hs' s1" "disk_view s1 = disk_view s"
  show "\<exists>s2. bindR (read_at fuel (entry_at v m (disk_view s)) (32 * k) buf m s1) (\<lambda>(n, b, s1). Inr ((n, b), s1)) =
      Inr ((32, slice (32 * k) 32 (content (disk_view s) (sectors m cs))), s2) \<and> fs_ok I hs' s2 \<and> disk_view s2 = disk_view s"
    using read_dir_spec [OF _ s1(1) fuel k buf, of "entry_at v m (disk_view s)"] d unfolding s1(2) by auto
qed

lemma find_free_loop_spec:
  fixes s :: "'d fs_state"
  assumes room: "length hs < 9" and place: "entry_placed I v" and d: "dir_on I m (entry_at v m V) cs V"
    and fuel: "length cs \<le> fuel" "2 \<le> fuel" and j: "j < 16 * length (sectors m cs)" "is_empty (dir_entry m cs V j)"
      "\<forall>i < j. \<not> is_empty (dir_entry m cs V i)"
  shows "fs_ok I hs s \<Longrightarrow> disk_view s = V \<Longrightarrow> k \<le> j \<Longrightarrow> j < k + n \<Longrightarrow>
    \<exists>s'. find_free_loop n fuel v m (32 * k) s = Inr (32 * j, s') \<and> fs_ok I hs s' \<and> disk_view s' = V"
proof (induction n arbitrary: s k)
  case (Suc n)
  have k: "k < 16 * length (sectors m cs)" using Suc.prems(3) j(1) by simp
  have ds: "dir_on I m (entry_at v m (disk_view s)) cs (disk_view s)" using d Suc.prems(2) by simp
  have "length (ShortDirEntry_as_bytes ShortDirEntry_empty) = 32"
    by (rule length_as_bytes) (simp add: entry_ok_def ShortDirEntry_empty_def)
  from VFile_read_dir_spec [OF Suc.prems(1) room place ds fuel k this] Suc.prems(2)
  obtain s1 where s1: "VFile_read_at fuel v (32 * k) (ShortDirEntry_as_bytes ShortDirEntry_empty) m s =
      Inr ((32, slice (32 * k) 32 (content V (sectors m cs))), s1)" "fs_ok I hs s1" "disk_view s1 = V" by auto
  show ?case
  proof (cases "k = j")
    case True
    then show ?thesis using s1 j(2) by (simp add: dir_entry_def)
  next
    case False
    then have k': "Suc k \<le> j" "j < Suc k + n" using Suc.prems(3,4) by simp_all
    have "\<not> is_empty (dir_entry m cs V k)" using j(3) k'(1) by simp
    then show ?thesis using Suc.IH [OF s1(2,3) k'] s1(1) by (simp add: dir_entry_def DIRENT_SZ_def add.commute)
  qed
qed simp

lemma find_free_dirent_spec:
  fixes s :: "'d fs_state"
  assumes "length hs < 9" and "entry_placed I v" and "dir_on I m (entry_at v m (disk_view s)) cs (disk_view s)" and "VFile_is_dir v"
    and "length cs \<le> fuel" "2 \<le> fuel" and "j < 16 * length (sectors m cs)" "is_empty (dir_entry m cs (disk_view s) j)"
      "\<forall>i < j. \<not> is_empty (dir_entry m cs (disk_view s) i)" and "fs_ok I hs s" and "j < fuel"
  shows "\<exists>s'. find_free_dirent fuel v m s = Inr (Some (32 * j), s') \<and> fs_ok I hs s' \<and> disk_view s' = disk_view s"
  using find_free_loop_spec [OF assms(1-3,5-10) refl, of 0 fuel] assms(4,11) by (auto simp: find_free_dirent_def)

section \<open>The name of a new entry\<close>

text \<open>A name of the short form: up to 8 characters, and up to 3 after a dot, none of them a blank or a dot.\<close>

definition plain_name :: "u8 list \<Rightarrow> u8 list \<Rightarrow> u8 list \<Rightarrow> bool" where
  "plain_name nm ext name \<longleftrightarrow> name = nm @ (if ext = [] then [] else 46 # ext) \<and> nm \<noteq> [] \<and> length nm \<le> 8 \<and> length ext \<le> 3 \<and>
     (\<forall>c \<in> set (nm @ ext). 0x20 < c \<and> c < 0x80 \<and> c \<noteq> 46)"

lemma split_dots_plain: "46 \<notin> set nm \<Longrightarrow> split_dots nm = [nm]"
  by (induction nm) auto

lemma split_dots_dot: "46 \<notin> set nm \<Longrightarrow> split_dots (nm @ 46 # ext) = nm # split_dots ext"
  by (induction nm) auto

lemma split_plain_name:
  assumes "plain_name nm ext name"
  shows "split_name_ext name = (nm, ext)"
proof -
  have "46 \<notin> set nm" "46 \<notin> set ext" using assms by (auto simp: plain_name_def)
  then show ?thesis using assms by (auto simp: plain_name_def split_name_ext_def split_dots_plain split_dots_dot Let_def)
qed

lemma upper_plain: "0x20 < c \<Longrightarrow> c < 0x80 \<Longrightarrow> 0x20 < to_ascii_uppercase c \<and> to_ascii_uppercase c < 0x80"
proof -
  assume c: "0x20 < c" "c < 0x80"
  show ?thesis
  proof (cases "97 \<le> c \<and> c \<le> 122")
    case True
    then have "unat (c - 32) = unat c - 32" using unat_sub [of 32 c] by (simp add: word_le_nat_alt)
    then show ?thesis using True c by (auto simp: to_ascii_uppercase_def word_less_nat_alt word_le_nat_alt)
  qed (use c in \<open>auto simp: to_ascii_uppercase_def\<close>)
qed

lemma pad_upper_eq: "length bs \<le> n \<Longrightarrow> pad_upper n bs = map to_ascii_uppercase bs @ replicate (n - length bs) 0x20"
  by (rule nth_equalityI) (auto simp: pad_upper_def nth_append)

lemma utf8_ascii: "\<forall>c \<in> set cs. c < 0x80 \<Longrightarrow> utf8 cs = cs"
  by (induction cs) (auto simp: utf8_def)

lemma takeWhile_pad:
  assumes "\<forall>c \<in> set bs. 0x20 < c \<and> c < (0x80 :: u8)"
  shows "takeWhile (\<lambda>c. c \<noteq> 0x20) (map to_ascii_uppercase bs @ replicate k 0x20) = map to_ascii_uppercase bs"
  using assms
proof (induction bs)
  case Nil
  then show ?case by (cases k) auto
next
  case (Cons c bs)
  then show ?case using upper_plain [of c] by auto
qed

lemma new_entry_name:
  assumes p: "plain_name nm ext name"
  shows "\<exists>e. ShortDirEntry_initialize se (fst (short_name_format name)) (snd (short_name_format name)) attr = Inr e \<and>
    entry_ok e \<and> \<not> is_empty e \<and> is_valid e \<and> utf8 (get_name_uppercase e) = map to_ascii_uppercase name \<and>
    attribute e = attr \<and> first_cluster e = 0 \<and> fsize e = 0"
proof -
  have chars: "\<forall>c \<in> set nm. 0x20 < c \<and> c < 0x80" "\<forall>c \<in> set ext. 0x20 < c \<and> c < 0x80" and len: "length nm \<le> 8" "length ext \<le> 3" "nm \<noteq> []"
    and name: "name = nm @ (if ext = [] then [] else 46 # ext)" and dots: "46 \<notin> set nm"
    using p by (auto simp: plain_name_def)
  have "nm ! 0 \<noteq> 46" using dots len(3) by (metis length_greater_0_conv nth_mem)
  then have "name ! 0 \<noteq> 46" using name len(3) by (auto simp: nth_append)
  then have "\<not> (name = [46] \<or> name = [46, 46])" by auto
  then have fmt: "short_name_format name = (pad_upper 8 nm, pad_upper 3 ext)"
    using split_plain_name [OF p] by (simp add: short_name_format_def)
  let ?n = "pad_upper 8 nm" and ?x = "pad_upper 3 ext"
  have l: "length ?n = 8" "length ?x = 3" by (simp_all add: pad_upper_def)
  let ?e = "\<lparr>sname = ?n, extension = ?x, attribute = attr, winnt_reserved = 0, creation_tenths = 0,
      creation_time = 0, creation_date = 0x529c, last_acc_date = 0, cluster_high = 0, modification_time = 0,
      modification_date = 0, cluster_low = 0, fsize = 0\<rparr>"
  have init: "ShortDirEntry_initialize se ?n ?x attr = Inr ?e"
    using l by (simp add: ShortDirEntry_initialize_def sliceR_def slice_all)
  have "get_name_uppercase ?e = map to_ascii_uppercase name"
    using l name takeWhile_pad [OF chars(1)] takeWhile_pad [OF chars(2)] pad_upper_eq [OF len(1)] pad_upper_eq [OF len(2)]
    by (simp add: get_name_uppercase_def Let_def to_ascii_uppercase_def)
  moreover have "\<forall>c \<in> set name. 0x20 < c \<and> c < 0x80" using chars unfolding name by auto
  then have "\<forall>c \<in> set (map to_ascii_uppercase name). c < 0x80" using upper_plain by auto
  ultimately have up: "utf8 (get_name_uppercase ?e) = map to_ascii_uppercase name" by (simp add: utf8_ascii)
  have "?n ! 0 = to_ascii_uppercase (nm ! 0)" using len by (simp add: pad_upper_def)
  moreover have "0x20 < nm ! 0 \<and> nm ! 0 < 0x80" using chars(1) len(3) by simp
  ultimately have "0x20 < ?n ! 0 \<and> ?n ! 0 < 0x80" using upper_plain by metis
  then have "?n ! 0 \<noteq> 0" "?n ! 0 \<noteq> 0xE5" by (auto simp: word_less_nat_alt)
  then show ?thesis using init up l fmt by (simp add: entry_ok_def is_empty_def is_valid_def first_cluster_def)
qed

section \<open>Creating a file\<close>

lemma dir_entry_written:
  assumes "content V' (sectors m cs) = overwrite (32 * j) buf (content V (sectors m cs))" and "length buf = 32"
    and "\<forall>b. length (V b) = 512" and "j < 16 * length (sectors m cs)" and "i < 16 * length (sectors m cs)"
  shows "dir_entry m cs V' i = (if i = j then ShortDirEntry_of_bytes buf else dir_entry m cs V i)"
proof -
  have len: "length (content V (sectors m cs)) = 512 * length (sectors m cs)" using assms(3) by (intro length_content) simp
  have "32 * i + 32 \<le> 32 * j \<or> 32 * j + 32 \<le> 32 * i" if "i \<noteq> j" using that by linarith
  then have "slice (32 * i) 32 (overwrite (32 * j) buf (content V (sectors m cs))) =
      (if i = j then buf else slice (32 * i) 32 (content V (sectors m cs)))"
    using assms(2,4,5) len by (auto simp: slice_overwrite_same slice_overwrite_disjoint)
  then show ?thesis using assms(1) by (simp add: dir_entry_def)
qed

lemma dir_entries_written:
  assumes "content V' (sectors m cs) = overwrite (32 * j) buf (content V (sectors m cs))" and "length buf = 32"
    and "\<forall>b. length (V b) = 512" and "j < 16 * length (sectors m cs)"
  shows "dir_entries m cs V' = (dir_entries m cs V)[j := ShortDirEntry_of_bytes buf]"
  using dir_entry_written [OF assms] by (intro nth_equalityI) (auto simp: dir_entries_def nth_list_update)

lemma lookup_short_new:
  "lookup_short nm es = None \<Longrightarrow> j < length es \<Longrightarrow> \<forall>i < j. \<not> is_empty (es ! i) \<Longrightarrow> \<not> is_empty e \<Longrightarrow> is_valid e \<Longrightarrow>
   utf8 (get_name_uppercase e) = nm \<Longrightarrow> lookup_short nm (es[j := e]) = Some j"
proof (induction nm es arbitrary: j rule: lookup_short.induct)
  case (2 nm x es)
  show ?case
  proof (cases j)
    case 0
    then show ?thesis using 2 by simp
  next
    case (Suc k)
    then have ne: "\<not> is_empty x" using 2(4) by auto
    then have x: "\<not> (is_valid x \<and> nm = utf8 (get_name_uppercase x))" "lookup_short nm es = None" using 2(2) by (auto split: if_splits)
    have "\<forall>i < k. \<not> is_empty (es ! i)" using 2(4) Suc by (metis Suc_mono nth_Cons_Suc)
    then have "lookup_short nm (es[k := e]) = Some k" using 2 ne x Suc by auto
    then show ?thesis using Suc ne x(1) by simp
  qed
qed simp

text \<open>
  (C8) Creating a file. In a directory with two empty entries at the end of its list and room in its
  last cluster, creating a file under a new short name succeeds: the new entry takes the first empty
  place, with the given attribute, size 0 and no cluster; every other entry and every block outside the
  directory is as before; the file returned is the one that looking the name up in the directory finds.
\<close>

theorem create_then_lookup:
  assumes ok: "fs_ok I hs s" and room: "length hs < 8" and place: "entry_placed I v" and dir: "VFile_is_dir v"
    and d: "dir_on I m (entry_at v m (disk_view s)) cs (disk_view s)" and apart: "entry_apart v m cs" "0 \<notin> set (sectors m cs)"
    and root: "entry_ok (vroot_dirent m)" and plain: "plain_name nm ext name" and attr: "attr AND ATTRIBUTE_DIRECTORY = 0"
    and j: "j + 1 < 16 * length (sectors m cs)" "\<forall>i < j. \<not> is_empty (dir_entries m cs (disk_view s) ! i)"
      "is_empty (dir_entries m cs (disk_view s) ! j)" "is_empty (dir_entries m cs (disk_view s) ! (j + 1))"
    and new: "lookup_short (map to_ascii_uppercase name) (dir_entries m cs (disk_view s)) = None"
    and space: "dir_room m cs (entry_at v m (disk_view s)) j" and fuel: "j + 1 < fuel" "length cs \<le> fuel"
  shows "\<exists>e s'. VFile_create fuel v name attr m s = Inr (Some (vfile_of m cs (disk_view s') name j), m, s') \<and>
    fs_ok I hs s' \<and> dir_entries m cs (disk_view s') = (dir_entries m cs (disk_view s))[j := e] \<and>
    attribute e = attr \<and> fsize e = 0 \<and> first_cluster e = 0 \<and>
    entry_at (vfile_of m cs (disk_view s') name j) m (disk_view s') = e \<and>
    lookup_short (map to_ascii_uppercase name) (dir_entries m cs (disk_view s')) = Some j \<and>
    (\<forall>b. b \<notin> set (sectors m cs) \<longrightarrow> disk_view s' b = disk_view s b)"
proof -
  let ?V = "disk_view s" and ?N = "16 * length (sectors m cs)"
  have f2: "2 \<le> fuel" and r9: "length hs < 9" using fuel(1) room by simp_all
  have len: "\<forall>b. length (?V b) = 512" using disk_view_length [OF ok] by (simp add: BLOCK_SZ_def)
  have ent: "dir_entries m cs V ! i = dir_entry m cs V i" "length (dir_entries m cs V) = ?N" if "i < ?N" for i V
    using that by (simp_all add: dir_entries_def)
  have em: "is_empty (dir_entry m cs ?V j)" "\<forall>i < j. \<not> is_empty (dir_entry m cs ?V i)" using j ent by auto
  note split = split_plain_name [OF plain]
  have short: "length nm \<le> 8" "length ext \<le> 3" using plain by (auto simp: plain_name_def)
  obtain e0 where e0: "ShortDirEntry_initialize ShortDirEntry_empty (fst (short_name_format name)) (snd (short_name_format name)) attr = Inr e0"
    "entry_ok e0" "\<not> is_empty e0" "is_valid e0" "utf8 (get_name_uppercase e0) = map to_ascii_uppercase name"
    "attribute e0 = attr" "first_cluster e0 = 0" "fsize e0 = 0"
    using new_entry_name [OF plain] by blast
  define e where "e = set_case ALL_LOWER_CASE e0"
  have e: "entry_ok e" "\<not> is_empty e" "is_valid e" "utf8 (get_name_uppercase e) = map to_ascii_uppercase name"
    "attribute e = attr" "first_cluster e = 0" "fsize e = 0"
    using e0 by (simp_all add: e_def set_case_def entry_ok_def is_empty_def is_valid_def get_name_uppercase_def first_cluster_def)
  obtain s1 where s1: "find_free_dirent fuel v m s = Inr (Some (32 * j), s1)" "fs_ok I hs s1" "disk_view s1 = ?V"
    using find_free_dirent_spec [OF r9 place d dir fuel(2) f2 _ em ok] j(1) fuel(1) by auto
  obtain s2 where s2: "VFile_write_at fuel v (32 * j) (ShortDirEntry_as_bytes e) m s1 = Inr (32, m, s2)" "fs_ok I hs s2"
    "content (disk_view s2) (sectors m cs) = overwrite (32 * j) (ShortDirEntry_as_bytes e) (content ?V (sectors m cs))"
    "entry_at v m (disk_view s2) = entry_at v m ?V" "\<forall>b. b \<notin> set (sectors m cs) \<longrightarrow> disk_view s2 b = ?V b"
    using VFile_write_dir_spec [OF s1(2) r9 place dir _ fuel(2) f2 _ _ apart(1) root length_as_bytes [OF e(1)], of j] d j(1) space
    unfolding s1(3) by auto
  let ?V2 = "disk_view s2"
  have d2: "dir_on I m (entry_at v m ?V2) cs ?V2" unfolding s2(4) by (rule dir_on_kept [OF d s2(5)])
  have es: "dir_entries m cs ?V2 = (dir_entries m cs ?V)[j := e]"
    using dir_entries_written [OF s2(3) length_as_bytes [OF e(1)] len] j(1) entry_of_as_bytes [OF e(1)] by simp
  have found: "lookup_short (map to_ascii_uppercase name) (dir_entries m cs ?V2) = Some j"
    unfolding es using lookup_short_new [OF new _ j(2) e(2,3,4)] j(1) ent(2) [of j] by simp
  have em2: "is_empty (dir_entries m cs ?V2 ! (j + 1))" unfolding es using j(1,4) by simp
  obtain s3 where s3: "find_vfile_byname fuel v m name s2 = Inr (Some (vfile_of m cs ?V2 name j), s3)" "fs_ok I hs s3"
    "disk_view s3 = ?V2" "entry_at (vfile_of m cs ?V2 name j) m ?V2 = dir_entries m cs ?V2 ! j"
    using find_byname_lookup [OF s2(2) room place dir d2 apart(2) split short j(1) em2 fuel(1,2) f2] found by auto
  have at: "entry_at (vfile_of m cs ?V2 name j) m ?V2 = e" using s3(4) es j(1) ent(2) [of j] by simp
  obtain nb xb where fmt: "short_name_format name = (nb, xb)" by fastforce
  have "VFile_create fuel v name attr m s = Inr (Some (vfile_of m cs ?V2 name j), m, s3)"
    using s1(1) s2(1) s3(1) e0(1) split short attr dir fmt by (simp add: VFile_create_def DIRENT_SZ_def flip: e_def)
  then show ?thesis using s3(2) es e found at s2(5) unfolding s3(3) [symmetric] by (intro exI [of _ e] exI [of _ s3]) simp
qed

section \<open>Witness\<close>

theorem create_then_lookup_witness:
  "\<exists>s'. VFile_create 16 get_root_vfile [98] 0 example_root (example_fs example_dir_disk) =
     Inr (Some (vfile_of example_root [4] (disk_view s') [98] 1), example_root, s') \<and>
     lookup_short [66] (dir_entries example_root [4] (disk_view s')) = Some 1"
proof -
  let ?V = "disk_view (example_fs example_dir_disk)"
  have plain: "plain_name [98] [] [98]" by (simp add: plain_name_def)
  have up: "map to_ascii_uppercase [98] = [66]" by (simp add: to_ascii_uppercase_def)
  have none: "lookup_short [66] (example_ent # replicate 15 ShortDirEntry_empty) = None"
    by (simp add: example_names numeral_eq_Suc)
  have apart: "entry_apart get_root_vfile example_root [4]"
    unfolding entry_apart_def example_root_sectors
    by (auto simp: example_root_place fat_sectors_def example_root_def example_manager_def example_fat_def FAT_new_def)
  have space: "dir_room example_root [4] (entry_at get_root_vfile example_root ?V) 1" by (simp add: dir_room_def)
  have ok: "entry_ok (vroot_dirent example_root)" by (simp add: example_root_def entry_ok_def ShortDirEntry_empty_def)
  show ?thesis
    using create_then_lookup [OF example_fs_ok _ example_root_place(1,2) example_root_dir apart _ ok plain _ _ _ _ _ _ space, of 0 16] none up
    by (auto simp: example_root_entries example_root_sectors example_names)
qed

end
