(* ===== verification/Elf.thy ===== *)
theory Elf
  imports Memory_Set
begin

text \<open>
  The parser of ELF files (dependencies/xmas-elf-0.9.1: header.rs, program.rs, lib.rs) as far as the
  kernel's loader uses it, with the sanity checks. The crate's errors are values (\<open>Inl\<close> of the message)
  inside the result of a call that may panic. A slice \<open>&[u8]\<close> is its address with its bytes, since the parser
  casts it to structures: \<open>zread\<close> stands for \<open>zero::read\<close> of the zero crate, the view of the first bytes of a
  slice as a structure of a given size and alignment, and \<open>zero_laws\<close> is its documented behaviour. It panics
  when the slice is too short and when its address is not aligned.
\<close>

section \<open>Parts of the header\<close>

datatype Class = ClassNone | ThirtyTwo | SixtyFour | ClassOther u8
datatype Data = DataNone | LittleEndian | BigEndian | DataOther u8
datatype Version = VersionNone | VersionCurrent | VersionOther u8
datatype OsAbi = SystemV | HpUx | NetBSD | Linux | Solaris | Aix | Irix | FreeBSD | OpenBSD | OpenVMS | OsAbiOther u8
datatype ElfType = ElfTypeNone | Relocatable | Executable | SharedObject | Core | ElfProcessorSpecific u16
datatype Machine = MachineNone | Sparc | X86 | Mips | PowerPC | Arm | SuperH | Ia64 | X86_64 | AArch64 | RISC_V | BPF | MachineOther u16

definition as_class :: "u8 \<Rightarrow> Class" where
  "as_class c = (if c = 0 then ClassNone else if c = 1 then ThirtyTwo else if c = 2 then SixtyFour else ClassOther c)"

definition as_data :: "u8 \<Rightarrow> Data" where
  "as_data d = (if d = 0 then DataNone else if d = 1 then LittleEndian else if d = 2 then BigEndian else DataOther d)"

definition as_version :: "u8 \<Rightarrow> Version" where
  "as_version v = (if v = 0 then VersionNone else if v = 1 then VersionCurrent else VersionOther v)"

definition as_os_abi :: "u8 \<Rightarrow> OsAbi" where
  "as_os_abi a =
     (if a = 0x00 then SystemV else if a = 0x01 then HpUx else if a = 0x02 then NetBSD else if a = 0x03 then Linux
      else if a = 0x06 then Solaris else if a = 0x07 then Aix else if a = 0x08 then Irix else if a = 0x09 then FreeBSD
      else if a = 0x0C then OpenBSD else if a = 0x0D then OpenVMS else OsAbiOther a)"

definition as_elf_type :: "u16 \<Rightarrow> ElfType" where
  "as_elf_type t =
     (if t = 0 then ElfTypeNone else if t = 1 then Relocatable else if t = 2 then Executable
      else if t = 3 then SharedObject else if t = 4 then Core else ElfProcessorSpecific t)"

definition as_machine :: "u16 \<Rightarrow> Machine" where
  "as_machine m =
     (if m = 0x00 then MachineNone else if m = 0x02 then Sparc else if m = 0x03 then X86 else if m = 0x08 then Mips
      else if m = 0x14 then PowerPC else if m = 0x28 then Arm else if m = 0x2A then SuperH else if m = 0x32 then Ia64
      else if m = 0x3E then X86_64 else if m = 0xB7 then AArch64 else if m = 0xF3 then RISC_V else if m = 0xF7 then BPF
      else MachineOther m)"

record HeaderPt1 =
  magic :: "u8 list"
  class_byte :: u8
  data_byte :: u8
  version_byte :: u8
  os_abi_byte :: u8
  abi_version :: u8
  padding :: "u8 list"

record 'p HeaderPt2_ =
  h_type :: u16
  h_machine :: u16
  h_version :: u32
  h_entry_point :: 'p
  h_ph_offset :: 'p
  h_sh_offset :: 'p
  h_flags :: u32
  h_header_size :: u16
  h_ph_entry_size :: u16
  h_ph_count :: u16
  h_sh_entry_size :: u16
  h_sh_count :: u16
  h_sh_str_index :: u16

datatype HeaderPt2 = Header32 "u32 HeaderPt2_" | Header64 "u64 HeaderPt2_"

record Header =
  pt1 :: HeaderPt1
  pt2 :: HeaderPt2

definition MAGIC :: "u8 list" where "MAGIC = [0x7f, 69, 76, 70]"

definition HeaderPt1_of :: "u8 list \<Rightarrow> HeaderPt1" where
  "HeaderPt1_of b =
     \<lparr>magic = slice 0 4 b, class_byte = b ! 4, data_byte = b ! 5, version_byte = b ! 6, os_abi_byte = b ! 7,
      abi_version = b ! 8, padding = slice 9 7 b\<rparr>"

definition HeaderPt2_32_of :: "u8 list \<Rightarrow> u32 HeaderPt2_" where
  "HeaderPt2_32_of b =
     \<lparr>h_type = de16 (slice 0 2 b), h_machine = de16 (slice 2 2 b), h_version = de32 (slice 4 4 b),
      h_entry_point = de32 (slice 8 4 b), h_ph_offset = de32 (slice 12 4 b), h_sh_offset = de32 (slice 16 4 b),
      h_flags = de32 (slice 20 4 b), h_header_size = de16 (slice 24 2 b), h_ph_entry_size = de16 (slice 26 2 b),
      h_ph_count = de16 (slice 28 2 b), h_sh_entry_size = de16 (slice 30 2 b), h_sh_count = de16 (slice 32 2 b),
      h_sh_str_index = de16 (slice 34 2 b)\<rparr>"

definition HeaderPt2_64_of :: "u8 list \<Rightarrow> u64 HeaderPt2_" where
  "HeaderPt2_64_of b =
     \<lparr>h_type = de16 (slice 0 2 b), h_machine = de16 (slice 2 2 b), h_version = de32 (slice 4 4 b),
      h_entry_point = de64 (slice 8 8 b), h_ph_offset = de64 (slice 16 8 b), h_sh_offset = de64 (slice 24 8 b),
      h_flags = de32 (slice 32 4 b), h_header_size = de16 (slice 36 2 b), h_ph_entry_size = de16 (slice 38 2 b),
      h_ph_count = de16 (slice 40 2 b), h_sh_entry_size = de16 (slice 42 2 b), h_sh_count = de16 (slice 44 2 b),
      h_sh_str_index = de16 (slice 46 2 b)\<rparr>"

definition HeaderPt1_class :: "HeaderPt1 \<Rightarrow> Class" where
  "HeaderPt1_class h = as_class (class_byte h)"



fun entry_point :: "HeaderPt2 \<Rightarrow> u64" where
  "entry_point (Header32 h) = ucast (h_entry_point h)"
| "entry_point (Header64 h) = h_entry_point h"

fun ph_offset :: "HeaderPt2 \<Rightarrow> u64" where
  "ph_offset (Header32 h) = ucast (h_ph_offset h)"
| "ph_offset (Header64 h) = h_ph_offset h"


fun ph_entry_size :: "HeaderPt2 \<Rightarrow> u16" where
  "ph_entry_size (Header32 h) = h_ph_entry_size h"
| "ph_entry_size (Header64 h) = h_ph_entry_size h"

fun ph_count :: "HeaderPt2 \<Rightarrow> u16" where
  "ph_count (Header32 h) = h_ph_count h"
| "ph_count (Header64 h) = h_ph_count h"



section \<open>Parsing\<close>

type_synonym u8_slice = "nat \<times> u8 list"

type_synonym zread = "nat \<Rightarrow> nat \<Rightarrow> u8_slice \<Rightarrow> u8 list res"

definition zero_laws :: "zread \<Rightarrow> bool" where
  "zero_laws zread \<longleftrightarrow> (\<forall>n al a b.
     if n \<le> length b \<and> al dvd a then zread n al (a, b) = Inr (take n b) else (\<exists>e. zread n al (a, b) = Inl e))"

text \<open>The sizes and alignments are those of the \<open>repr(C)\<close> structures.\<close>

definition parse_header :: "zread \<Rightarrow> u8_slice \<Rightarrow> (string + Header) res" where
  "parse_header zread inp =
     (let a = fst inp; input = snd inp in
      if length input < 16 then Inr (Inl ''File is shorter than the first ELF header part'')
      else
        bindR (zread 16 1 (a, slice 0 16 input)) (\<lambda>b1.
        let header_1 = HeaderPt1_of b1 in
        if magic header_1 \<noteq> MAGIC then Inr (Inl ''Did not find ELF magic number'')
        else
          case HeaderPt1_class header_1 of
            ClassNone \<Rightarrow> Inr (Inl ''Invalid ELF class'')
          | ClassOther _ \<Rightarrow> Inr (Inl ''Invalid ELF class'')
          | ThirtyTwo \<Rightarrow>
              if length input < 16 + 36 then Inr (Inl ''File is shorter than ELF headers'')
              else bindR (zread 36 4 (a + 16, slice 16 36 input)) (\<lambda>b2.
                Inr (Inr \<lparr>pt1 = header_1, pt2 = Header32 (HeaderPt2_32_of b2)\<rparr>))
          | SixtyFour \<Rightarrow>
              if length input < 16 + 48 then Inr (Inl ''File is shorter than ELF headers'')
              else bindR (zread 48 8 (a + 16, slice 16 48 input)) (\<lambda>b2.
                Inr (Inr \<lparr>pt1 = header_1, pt2 = Header64 (HeaderPt2_64_of b2)\<rparr>))))"

record ElfFile =
  input :: u8_slice
  header :: Header

definition ElfFile_new :: "zread \<Rightarrow> u8_slice \<Rightarrow> (string + ElfFile) res" where
  "ElfFile_new zread inp =
     bindR (parse_header zread inp) (\<lambda>r. case r of
       Inl e \<Rightarrow> Inr (Inl e)
     | Inr h \<Rightarrow> Inr (Inr \<lparr>input = inp, header = h\<rparr>))"


section \<open>Program headers\<close>

record ProgramHeader32 =
  p32_type :: u32
  p32_offset :: u32
  p32_virtual_addr :: u32
  p32_physical_addr :: u32
  p32_file_size :: u32
  p32_mem_size :: u32
  p32_flags :: u32
  p32_align :: u32

record ProgramHeader64 =
  p64_type :: u32
  p64_flags :: u32
  p64_offset :: u64
  p64_virtual_addr :: u64
  p64_physical_addr :: u64
  p64_file_size :: u64
  p64_mem_size :: u64
  p64_align :: u64

datatype ProgramHeader = Ph32 ProgramHeader32 | Ph64 ProgramHeader64

definition ProgramHeader32_of :: "u8 list \<Rightarrow> ProgramHeader32" where
  "ProgramHeader32_of b =
     \<lparr>p32_type = de32 (slice 0 4 b), p32_offset = de32 (slice 4 4 b), p32_virtual_addr = de32 (slice 8 4 b),
      p32_physical_addr = de32 (slice 12 4 b), p32_file_size = de32 (slice 16 4 b), p32_mem_size = de32 (slice 20 4 b),
      p32_flags = de32 (slice 24 4 b), p32_align = de32 (slice 28 4 b)\<rparr>"

definition ProgramHeader64_of :: "u8 list \<Rightarrow> ProgramHeader64" where
  "ProgramHeader64_of b =
     \<lparr>p64_type = de32 (slice 0 4 b), p64_flags = de32 (slice 4 4 b), p64_offset = de64 (slice 8 8 b),
      p64_virtual_addr = de64 (slice 16 8 b), p64_physical_addr = de64 (slice 24 8 b), p64_file_size = de64 (slice 32 8 b),
      p64_mem_size = de64 (slice 40 8 b), p64_align = de64 (slice 48 8 b)\<rparr>"

definition parse_program_header :: "zread \<Rightarrow> u8_slice \<Rightarrow> Header \<Rightarrow> u16 \<Rightarrow> (string + ProgramHeader) res" where
  "parse_program_header zread inp h index =
     (let p = pt2 h in
      if \<not> (index < ph_count p \<and> 0 < ph_offset p \<and> 0 < ph_entry_size p)
      then Inr (Inl ''There are no program headers in this file'')
      else
        let start = ph_offset p + ucast index * ucast (ph_entry_size p);
            stop = start + ucast (ph_entry_size p)
        in
        case HeaderPt1_class (pt1 h) of
          ThirtyTwo \<Rightarrow>
            bindR (sliceR (snd inp) (unat start) (unat stop)) (\<lambda>b.
            bindR (zread 32 4 (fst inp + unat start, b)) (\<lambda>b'. Inr (Inr (Ph32 (ProgramHeader32_of b')))))
        | SixtyFour \<Rightarrow>
            bindR (sliceR (snd inp) (unat start) (unat stop)) (\<lambda>b.
            bindR (zread 56 8 (fst inp + unat start, b)) (\<lambda>b'. Inr (Inr (Ph64 (ProgramHeader64_of b')))))
        | _ \<Rightarrow> Inl (ExplicitPanic ''unreachable''))"

definition program_header :: "zread \<Rightarrow> ElfFile \<Rightarrow> u16 \<Rightarrow> (string + ProgramHeader) res" where
  "program_header zread f index = parse_program_header zread (input f) (header f) index"

definition ProgramIter_next :: "zread \<Rightarrow> ElfFile \<Rightarrow> u16 \<Rightarrow> (ProgramHeader option \<times> u16) res" where
  "ProgramIter_next zread f next_index =
     (if next_index \<ge> ph_count (pt2 (header f)) then Inr (None, next_index)
      else bindR (program_header zread f next_index) (\<lambda>r.
        Inr (case r of Inl _ \<Rightarrow> None | Inr ph \<Rightarrow> Some ph, next_index + 1)))"

datatype PhType = PhNull | Load | Dynamic | Interp | Note | ShLib | Phdr | Tls | GnuRelro | OsSpecific u32 | ProcessorSpecific u32

definition TYPE_LOOS :: u32 where "TYPE_LOOS = 0x60000000"
definition TYPE_HIOS :: u32 where "TYPE_HIOS = 0x6fffffff"
definition TYPE_LOPROC :: u32 where "TYPE_LOPROC = 0x70000000"
definition TYPE_HIPROC :: u32 where "TYPE_HIPROC = 0x7fffffff"
definition TYPE_GNU_RELRO :: u32 where "TYPE_GNU_RELRO = TYPE_LOOS + 0x474e552"
definition FLAG_X :: u32 where "FLAG_X = 1"
definition FLAG_W :: u32 where "FLAG_W = 2"
definition FLAG_R :: u32 where "FLAG_R = 4"

definition as_type :: "u32 \<Rightarrow> string + PhType" where
  "as_type t =
     (if t = 0 then Inr PhNull else if t = 1 then Inr Load else if t = 2 then Inr Dynamic else if t = 3 then Inr Interp
      else if t = 4 then Inr Note else if t = 5 then Inr ShLib else if t = 6 then Inr Phdr else if t = 7 then Inr Tls
      else if t = TYPE_GNU_RELRO then Inr GnuRelro
      else if TYPE_LOOS \<le> t \<and> t \<le> TYPE_HIOS then Inr (OsSpecific t)
      else if TYPE_LOPROC \<le> t \<and> t \<le> TYPE_HIPROC then Inr (ProcessorSpecific t)
      else Inl ''Invalid type'')"

fun get_type :: "ProgramHeader \<Rightarrow> string + PhType" where
  "get_type (Ph32 ph) = as_type (p32_type ph)"
| "get_type (Ph64 ph) = as_type (p64_type ph)"

fun file_size :: "ProgramHeader \<Rightarrow> u64" where
  "file_size (Ph32 h) = ucast (p32_file_size h)"
| "file_size (Ph64 h) = p64_file_size h"

fun mem_size :: "ProgramHeader \<Rightarrow> u64" where
  "mem_size (Ph32 h) = ucast (p32_mem_size h)"
| "mem_size (Ph64 h) = p64_mem_size h"

fun ph_data_offset :: "ProgramHeader \<Rightarrow> u64" where
  "ph_data_offset (Ph32 h) = ucast (p32_offset h)"
| "ph_data_offset (Ph64 h) = p64_offset h"

fun virtual_addr :: "ProgramHeader \<Rightarrow> u64" where
  "virtual_addr (Ph32 h) = ucast (p32_virtual_addr h)"
| "virtual_addr (Ph64 h) = p64_virtual_addr h"

fun ph_flags :: "ProgramHeader \<Rightarrow> u32" where
  "ph_flags (Ph32 h) = p32_flags h"
| "ph_flags (Ph64 h) = p64_flags h"

fun ph_align :: "ProgramHeader \<Rightarrow> u64" where
  "ph_align (Ph32 h) = ucast (p32_align h)"
| "ph_align (Ph64 h) = p64_align h"

definition is_execute :: "u32 \<Rightarrow> bool" where "is_execute f \<longleftrightarrow> f AND FLAG_X = FLAG_X"
definition is_write :: "u32 \<Rightarrow> bool" where "is_write f \<longleftrightarrow> f AND FLAG_W = FLAG_W"
definition is_read :: "u32 \<Rightarrow> bool" where "is_read f \<longleftrightarrow> f AND FLAG_R = FLAG_R"

text \<open>The end of the segment's bytes in the file, added in the width of the field.\<close>

fun ph_data_end :: "ProgramHeader \<Rightarrow> u64" where
  "ph_data_end (Ph32 h) = ucast (p32_offset h + p32_file_size h)"
| "ph_data_end (Ph64 h) = p64_offset h + p64_file_size h"

definition raw_data :: "ProgramHeader \<Rightarrow> ElfFile \<Rightarrow> u8 list res" where
  "raw_data ph f =
     bindR (assertR (case get_type ph of Inr t \<Rightarrow> t \<noteq> PhNull | Inl _ \<Rightarrow> False)) (\<lambda>_.
     if file_size ph = 0 then Inr []
     else sliceR (snd (input f)) (unat (ph_data_offset ph)) (unat (ph_data_end ph)))"

definition program_sanity_check :: "ProgramHeader \<Rightarrow> ElfFile \<Rightarrow> string + unit" where
  "program_sanity_check ph f =
     (let sz = (case ph of Ph32 _ \<Rightarrow> 32 | Ph64 _ \<Rightarrow> 56);
          congruent = (ph_align ph > 1 \<longrightarrow> virtual_addr ph mod ph_align ph = ph_data_offset ph mod ph_align ph)
      in
      if sz \<noteq> unat (ph_entry_size (pt2 (header f))) then Inl ''program header size mismatch''
      else if \<not> unat (ph_data_end ph) < length (snd (input f)) then Inl ''entry point out of range''
      else case get_type ph of
        Inl e \<Rightarrow> Inl e
      | Inr t \<Rightarrow>
          if t = ShLib then Inl ''Shouldn't use ShLib''
          else if \<not> congruent then Inl ''Invalid combination of virtual_addr, offset, and align''
          else Inr ())"


section \<open>What the parser accepts\<close>

definition header_length :: "u8 \<Rightarrow> nat option" where
  "header_length c = (if c = 1 then Some 52 else if c = 2 then Some 64 else None)"

definition elf_accepted :: "u8 list \<Rightarrow> bool" where
  "elf_accepted b \<longleftrightarrow>
     16 \<le> length b \<and> take 4 b = MAGIC \<and> (case header_length (b ! 4) of None \<Rightarrow> False | Some n \<Rightarrow> n \<le> length b)"

definition elf_header :: "u8 list \<Rightarrow> Header" where
  "elf_header b =
     \<lparr>pt1 = HeaderPt1_of b,
      pt2 = (if b ! 4 = 1 then Header32 (HeaderPt2_32_of (drop 16 b)) else Header64 (HeaderPt2_64_of (drop 16 b)))\<rparr>"

text \<open>The alignment of the structures of a class.\<close>

definition class_align :: "u8 \<Rightarrow> nat" where
  "class_align c = (if c = 1 then 4 else 8)"

lemma zreadD:
  assumes "zero_laws zread"
  shows "n \<le> length b \<Longrightarrow> al dvd a \<Longrightarrow> zread n al (a, b) = Inr (take n b)"
    and "\<not> al dvd a \<Longrightarrow> \<exists>e. zread n al (a, b) = Inl e"
  using assms [unfolded zero_laws_def, rule_format, of n b al a] by auto

lemma slice_of_prefix: "i + j \<le> n \<Longrightarrow> slice i j (take n b) = slice i j b"
  by (simp add: slice_def drop_take)

lemma slice_inside: "i + j \<le> n \<Longrightarrow> slice i j (slice k n b) = slice i j (drop k b)"
  by (simp add: slice_def drop_take)

lemma HeaderPt1_of_prefix [simp]: "16 \<le> length b \<Longrightarrow> HeaderPt1_of (slice 0 16 b) = HeaderPt1_of b"
  by (simp add: HeaderPt1_of_def slice_inside) (simp add: slice_def)

lemma HeaderPt2_of_prefix [simp]:
  "HeaderPt2_32_of (slice k 36 b) = HeaderPt2_32_of (drop k b)"
  "HeaderPt2_64_of (slice k 48 b) = HeaderPt2_64_of (drop k b)"
  by (simp_all add: HeaderPt2_32_of_def HeaderPt2_64_of_def slice_inside)

lemma ProgramHeader_of_prefix [simp]:
  "ProgramHeader32_of (slice k 32 b) = ProgramHeader32_of (drop k b)"
  "ProgramHeader64_of (slice k 56 b) = ProgramHeader64_of (drop k b)"
  by (simp_all add: ProgramHeader32_of_def ProgramHeader64_of_def slice_inside)

lemma parse_header_spec:
  assumes z: "zero_laws zread"
  shows "if \<not> elf_accepted b then \<exists>e. parse_header zread (a, b) = Inr (Inl e)
    else if class_align (b ! 4) dvd a then parse_header zread (a, b) = Inr (Inr (elf_header b))
    else \<exists>e. parse_header zread (a, b) = Inl e"
proof (cases "16 \<le> length b")
  case True
  have 1: "zread 16 1 (a, slice 0 16 b) = Inr (slice 0 16 b)"
    using zreadD(1) [OF z, of 16 "slice 0 16 b" 1 a] True by (simp add: slice_def)
  have 2: "zread n al (a + 16, slice 16 n b) = Inr (slice 16 n b)" if "16 + n \<le> length b" "al dvd a" "al dvd 16" for n al
    using zreadD(1) [OF z, of n "slice 16 n b" al "a + 16"] that by (simp add: slice_def)
  have 3: "\<exists>e. zread n al (a + 16, slice 16 n b) = Inl e" if "\<not> al dvd a" "al dvd 16" for n al
    using zreadD(2) [OF z, of al "a + 16" n "slice 16 n b"] that by (simp add: dvd_add_left_iff)
  have m: "magic (HeaderPt1_of b) = take 4 b" "class_byte (HeaderPt1_of b) = b ! 4"
    by (simp_all add: HeaderPt1_of_def slice_def)
  show ?thesis
    using True 1 2 [of 36 4] 2 [of 48 8] 3 [of 4 36] 3 [of 8 48]
    by (auto simp: parse_header_def Let_def m HeaderPt1_class_def as_class_def elf_accepted_def header_length_def
        elf_header_def class_align_def)
qed (simp add: parse_header_def elf_accepted_def Let_def)

text \<open>
  (C38) Opening a file has three outcomes. A file without the magic number, a known class and enough bytes for the
  header of that class gives an error. Any other file is opened when its bytes lie at an address with the
  alignment of the class, 4 or 8, and the result decodes the two parts of the header from their places. At any
  other address the alignment test of \<open>zero::read\<close> panics.
\<close>

theorem ElfFile_new_outcome:
  assumes "zero_laws zread"
  shows "(\<not> elf_accepted b \<longrightarrow> (\<exists>e. ElfFile_new zread (a, b) = Inr (Inl e))) \<and>
    (elf_accepted b \<and> class_align (b ! 4) dvd a \<longrightarrow> ElfFile_new zread (a, b) = Inr (Inr \<lparr>input = (a, b), header = elf_header b\<rparr>)) \<and>
    (elf_accepted b \<and> \<not> class_align (b ! 4) dvd a \<longrightarrow> (\<exists>e. ElfFile_new zread (a, b) = Inl e))"
  using parse_header_spec [OF assms, of b a] by (auto simp: ElfFile_new_def)

definition example_zread :: zread where
  "example_zread n al s = (if n \<le> length (snd s) \<and> al dvd fst s then Inr (take n (snd s)) else Inl AssertFailed)"

text \<open>A 64-bit file with one loadable segment.\<close>

definition example_elf :: "u8 list" where
  "example_elf =
   [127, 69, 76, 70, 2, 1, 1, 0, 0, 0, 0, 0, 0, 0, 0, 0, 2, 0, 243, 0, 1, 0, 0, 0, 0, 0, 1, 0, 0, 0, 0, 0,
    64, 0, 0, 0, 0, 0, 0, 0, 0, 0, 0, 0, 0, 0, 0, 0, 0, 0, 0, 0, 64, 0, 56, 0, 1, 0, 0, 0, 0, 0, 0, 0, 1, 0,
    0, 0, 5, 0, 0, 0, 0, 0, 0, 0, 0, 0, 0, 0, 0, 0, 1, 0, 0, 0, 0, 0, 0, 0, 1, 0, 0, 0, 0, 0, 120, 0, 0, 0,
    0, 0, 0, 0, 120, 0, 0, 0, 0, 0, 0, 0, 0, 16, 0, 0, 0, 0, 0, 0]"

lemma example_zero_laws: "zero_laws example_zread"
  by (simp add: zero_laws_def example_zread_def)

lemma example_elf_accepted: "elf_accepted example_elf" "\<not> elf_accepted (take 63 example_elf)" "class_align (example_elf ! 4) = 8"
  by (simp_all add: elf_accepted_def example_elf_def header_length_def MAGIC_def class_align_def)

theorem ElfFile_new_outcome_witness:
  "zero_laws example_zread \<and>
   ElfFile_new example_zread (4096, example_elf) = Inr (Inr \<lparr>input = (4096, example_elf), header = elf_header example_elf\<rparr>) \<and>
   (\<exists>e. ElfFile_new example_zread (4100, example_elf) = Inl e) \<and>
   (\<exists>e. ElfFile_new example_zread (4096, take 63 example_elf) = Inr (Inl e))"
proof -
  have "(8 :: nat) dvd 4096" "\<not> (8 :: nat) dvd 4100" by simp_all
  then show ?thesis
    using ElfFile_new_outcome [OF example_zero_laws, of example_elf 4096] ElfFile_new_outcome [OF example_zero_laws, of example_elf 4100]
      ElfFile_new_outcome [OF example_zero_laws, of "take 63 example_elf" 4096] example_zero_laws example_elf_accepted by simp
qed

section \<open>Program headers of a checked file\<close>



lemma unat_ucast_u16 [simp]: "unat (ucast (w :: u16) :: u64) = unat w"
  using unsigned_less [of w, where 'a = nat] by (simp add: unsigned_ucast_eq take_bit_nat_eq_self)

lemma unat_u16_less: "unat (w :: u16) < 65536"
  using unsigned_less [of w, where 'a = nat] by simp


lemma unat_mult_small: "unat (a :: u64) * unat b < 18446744073709551616 \<Longrightarrow> unat (a * b) = unat a * unat b"
  by (subst unat_mult_lem [THEN iffD1]) simp_all

lemma unat_mult_u16 [simp]: "unat (ucast (v :: u16) * ucast (w :: u16) :: u64) = unat v * unat w"
proof -
  have "unat v * unat w \<le> 65536 * 65536"
    using unat_u16_less [of v] unat_u16_less [of w] by (intro mult_le_mono) simp_all
  then show ?thesis by (subst unat_mult_small) simp_all
qed











end
