(* ===== verification/Area_Resize.thy ===== *)
theory Area_Resize
  imports Address_Space "HOL-Library.Multiset"
begin

text \<open>
  Removing, shrinking and growing one area of an address space (\<open>remove_area_with_start_vpn\<close>,
  \<open>shrink_to\<close>, \<open>append_to\<close> of os/src/mm/memory_set.rs): what each does to the view of memory and
  to the frames.
\<close>

unbundle bit_operations_syntax

section \<open>Unmapping a list of pages\<close>

lemma btree_remove_middle:
  "k \<notin> fst ` set xs \<Longrightarrow> btree_remove k (xs @ (k, v) # ys) = (xs @ ys, Some v)"
  by (induction xs) auto

lemma frame_dealloc_live:
  assumes "falloc_inv (falloc s)" and "f \<in> falloc_live (falloc s)"
  obtains s' where "frame_dealloc s f = Inr s'" "mem s' = mem s" "falloc_inv (falloc s')"
    "falloc_live (falloc s') = falloc_live (falloc s) - {f}"
proof -
  obtain a where "StackFrameAllocator_dealloc (falloc s) f = Inr a" using assms(2) by (simp add: dealloc_iff)
  then have d: "frame_dealloc s f = Inr (s\<lparr>falloc := a\<rparr>)" by (simp add: frame_dealloc_def)
  from that [OF d] frame_dealloc_InrD [OF d assms(1)] show ?thesis by simp
qed

lemma PageTable_unmap_mapped:
  assumes "pt_wf s pt" and "unat (vpn0 v) < 2 ^ 27" and "pt_abs (mem s) pt v \<noteq> None"
  obtains s' where "PageTable_unmap s pt v = Inr s'" "pt_wf s' pt"
    "pt_abs (mem s') pt = (pt_abs (mem s) pt)(v := None)" "falloc s' = falloc s"
    "\<And>x. x \<notin> pt_pages pt \<Longrightarrow> mem s' x = mem s x"
  using PageTable_unmap_spec [OF assms(1,2)] assms(3) by (auto split: option.splits)

lemma unmap_one_framed:
  assumes wf: "pt_wf s pt" and ty: "map_type a = Framed" and df: "data_frames a = xs @ (v, f) # ys"
    and k: "v \<notin> fst ` set xs" and v: "unat (vpn0 v) < 2 ^ 27" "pt_abs (mem s) pt v \<noteq> None"
    and f: "f \<in> falloc_live (falloc s)" "f \<notin> set (pt_frames pt)"
  obtains s' where "unmap_one a v (pt, s) = Inr (a\<lparr>data_frames := xs @ ys\<rparr>, pt, s')" "pt_wf s' pt"
    "pt_abs (mem s') pt = (pt_abs (mem s) pt)(v := None)"
    "falloc_live (falloc s') = falloc_live (falloc s) - {f}"
    "\<And>x. x \<notin> pt_pages pt \<Longrightarrow> mem s' x = mem s x"
proof -
  obtain s1 where s1: "frame_dealloc s f = Inr s1" "mem s1 = mem s" "falloc_inv (falloc s1)"
    "falloc_live (falloc s1) = falloc_live (falloc s) - {f}"
    by (rule frame_dealloc_live [OF pt_wfD(1) [OF wf] f(1)])
  have "pt_wf s1 pt" using wf s1 f(2) by (auto simp: pt_wf_def pt_state_def)
  then obtain s' where s': "PageTable_unmap s1 pt v = Inr s'" "pt_wf s' pt"
    "pt_abs (mem s') pt = (pt_abs (mem s1) pt)(v := None)" "falloc s' = falloc s1"
    "\<And>x. x \<notin> pt_pages pt \<Longrightarrow> mem s' x = mem s1 x"
    using v s1(2) by (metis PageTable_unmap_mapped)
  have "unmap_one a v (pt, s) = Inr (a\<lparr>data_frames := xs @ ys\<rparr>, pt, s')"
    using ty s1(1) s'(1) by (simp add: unmap_one_def df btree_remove_middle [OF k] drop_option_def)
  with s' s1 show ?thesis by (intro that [of s']) simp_all
qed

lemma unmap_list_framed:
  assumes "pt_wf s pt" and "map_type a = Framed" and "data_frames a = xs @ zip vs fs @ ys"
    and "length fs = length vs" and "distinct (map fst xs @ vs)" and "distinct fs"
    and "set fs \<subseteq> falloc_live (falloc s)" and "set fs \<inter> set (pt_frames pt) = {}"
    and "\<forall>v \<in> set vs. unat (vpn0 v) < 2 ^ 27 \<and> pt_abs (mem s) pt v \<noteq> None"
  shows "\<exists>s'. unmap_list a vs (pt, s) = Inr (a\<lparr>data_frames := xs @ ys\<rparr>, pt, s') \<and> pt_wf s' pt \<and>
    pt_abs (mem s') pt = pt_abs (mem s) pt |` (- set vs) \<and>
    falloc_live (falloc s') = falloc_live (falloc s) - set fs \<and>
    (\<forall>x. x \<notin> pt_pages pt \<longrightarrow> mem s' x = mem s x)"
  using assms
proof (induction vs arbitrary: a s fs)
  case Nil
  then show ?case by (cases a) simp
next
  case (Cons v vs)
  then obtain f fs' where fs: "fs = f # fs'" by (cases fs) auto
  have df: "data_frames a = xs @ (v, f) # zip vs fs' @ ys" using Cons.prems(3) fs by simp
  obtain s1 where s1: "unmap_one a v (pt, s) = Inr (a\<lparr>data_frames := xs @ zip vs fs' @ ys\<rparr>, pt, s1)"
    "pt_wf s1 pt" "pt_abs (mem s1) pt = (pt_abs (mem s) pt)(v := None)"
    "falloc_live (falloc s1) = falloc_live (falloc s) - {f}"
    "\<And>x. x \<notin> pt_pages pt \<Longrightarrow> mem s1 x = mem s x"
    by (rule unmap_one_framed [OF Cons.prems(1,2) df]) (use Cons.prems fs in auto)
  let ?a = "a\<lparr>data_frames := xs @ zip vs fs' @ ys\<rparr>"
  have "\<exists>s'. unmap_list ?a vs (pt, s1) = Inr (?a\<lparr>data_frames := xs @ ys\<rparr>, pt, s') \<and> pt_wf s' pt \<and>
    pt_abs (mem s') pt = pt_abs (mem s1) pt |` (- set vs) \<and>
    falloc_live (falloc s') = falloc_live (falloc s1) - set fs' \<and>
    (\<forall>x. x \<notin> pt_pages pt \<longrightarrow> mem s' x = mem s1 x)"
    using Cons.prems fs s1(3,4) by (intro Cons.IH [OF s1(2)]) auto
  then obtain s' where s': "unmap_list ?a vs (pt, s1) = Inr (?a\<lparr>data_frames := xs @ ys\<rparr>, pt, s')"
    "pt_wf s' pt" "pt_abs (mem s') pt = pt_abs (mem s1) pt |` (- set vs)"
    "falloc_live (falloc s') = falloc_live (falloc s1) - set fs'"
    "\<forall>x. x \<notin> pt_pages pt \<longrightarrow> mem s' x = mem s1 x" by blast
  have "(pt_abs (mem s) pt)(v := None) |` (- set vs) = pt_abs (mem s) pt |` (- set (v # vs))"
    by (auto simp: restrict_map_def)
  moreover have "falloc_live (falloc s) - {f} - set fs' = falloc_live (falloc s) - set fs"
    by (auto simp: fs)
  ultimately show ?case using s1 s' by simp
qed

section \<open>Removing an area\<close>

lemma areas_split:
  assumes "find_index P xs = Some i"
  shows "xs = take i xs @ xs ! i # drop (Suc i) xs" and "P (xs ! i)" and "i < length xs"
  using find_index_SomeD [OF assms] by (simp_all add: id_take_nth_drop)

lemma area_ok_frames:
  assumes "area_ok m pt a" and "map_type a = Framed"
  shows "data_frames a = zip (vpns_of (vpn_range a)) (map snd (data_frames a))"
    and "\<forall>v \<in> set (vpns_of (vpn_range a)). unat (vpn0 v) < 2 ^ 27 \<and> pt_abs m pt v \<noteq> None"
    and "distinct (vpns_of (vpn_range a))"
proof -
  have k: "map fst (data_frames a) = vpns_of (vpn_range a)" and r: "range_ok (vpn_range a)"
    using assms by (auto simp: area_ok_def)
  show "data_frames a = zip (vpns_of (vpn_range a)) (map snd (data_frames a))"
    by (simp add: zip_map_fst_snd flip: k)
  show "distinct (vpns_of (vpn_range a))"
    using sorted_vpns_of [OF r] by (simp add: strict_sorted_iff)
  show "\<forall>v \<in> set (vpns_of (vpn_range a)). unat (vpn0 v) < 2 ^ 27 \<and> pt_abs m pt v \<noteq> None"
    using vpns_of_less [OF r] area_ok_framed_page [OF assms] by (metis option.distinct(1))
qed

lemma areas_disjoint_middle:
  assumes "areas_disjoint (xs @ a # ys)" and "b \<in> set (xs @ ys)"
  shows "set (vpns_of (vpn_range a)) \<inter> set (vpns_of (vpn_range b)) = {}"
  using assms by (auto simp: areas_disjoint_def sorted_wrt_append)

lemma remove_area_spec:
  assumes ms: "ms_wf s ms" and ar: "areas ms = xs @ a # ys" and ty: "map_type a = Framed"
    and dj: "areas_disjoint (areas ms)"
  obtains s' where
    "MapArea_unmap a (page_table ms, s) = Inr (a\<lparr>data_frames := []\<rparr>, page_table ms, s')"
    "ms_wf s' (ms\<lparr>areas := xs @ ys\<rparr>)"
    "falloc_live (falloc s') = falloc_live (falloc s) - set (map snd (data_frames a))"
    "pt_abs (mem s') (page_table ms) =
       pt_abs (mem s) (page_table ms) |` (- set (vpns_of (vpn_range a)))"
    "\<forall>x. x \<notin> pt_pages (page_table ms) \<longrightarrow> mem s' x = mem s x"
proof -
  let ?vs = "vpns_of (vpn_range a)" and ?fs = "map snd (data_frames a)" and ?pt = "page_table ms"
  have ok: "area_ok (mem s) ?pt a" using ms by (simp add: ms_wf_def ar)
  note fr = area_ok_frames [OF ok ty]
  have own: "distinct (area_frames (areas ms))" "set (area_frames (areas ms)) \<subseteq> falloc_live (falloc s)"
    "set (area_frames (areas ms)) \<inter> set (pt_frames ?pt) = {}" using ms by (auto simp: ms_wf_def)
  have frs: "area_frames (areas ms) = area_frames xs @ ?fs @ area_frames ys"
    by (simp add: ar area_frames_Cons)
  have "map fst (data_frames a) = ?vs" using ok ty by (simp add: area_ok_def)
  from arg_cong [OF this, of length] have len: "length ?fs = length ?vs" by simp
  obtain s' where s': "unmap_list a ?vs (?pt, s) = Inr (a\<lparr>data_frames := []\<rparr>, ?pt, s')" "pt_wf s' ?pt"
    "pt_abs (mem s') ?pt = pt_abs (mem s) ?pt |` (- set ?vs)"
    "falloc_live (falloc s') = falloc_live (falloc s) - set ?fs"
    "\<forall>x. x \<notin> pt_pages ?pt \<longrightarrow> mem s' x = mem s x"
    using unmap_list_framed [OF ms_wfD(1) [OF ms] ty, of "[]" ?vs ?fs "[]"] fr len own frs by auto
  have "area_ok (mem s') ?pt b" if "b \<in> set (xs @ ys)" for b
  proof (rule area_ok_mono)
    show "area_ok (mem s) ?pt b" using ms that by (auto simp: ms_wf_def ar)
    fix v e assume "v \<in> set (vpns_of (vpn_range b))" "pt_abs (mem s) ?pt v = Some e"
    then show "pt_abs (mem s') ?pt v = Some e"
      using areas_disjoint_middle [OF dj [unfolded ar] that] by (auto simp: s'(3) restrict_map_def)
  qed
  then have "ms_wf s' (ms\<lparr>areas := xs @ ys\<rparr>)"
    using s'(2,4) own frs by (auto simp: ms_wf_def)
  with s' show ?thesis by (intro that [of s']) (simp_all add: MapArea_unmap_def)
qed

text \<open>
  (C24) Removing an area, as a kernel stack is removed when its task is dropped: the frames of the
  area go back to the allocator, exactly its pages disappear from the page table, the rest stays
  well formed, and no byte outside the tables changes. An unknown start page changes nothing.
\<close>

theorem remove_area_frees_area:
  assumes "ms_wf s ms" and "areas_disjoint (areas ms)" and "\<forall>a \<in> set (areas ms).
      range_l (vpn_range a) = start \<longrightarrow> map_type a = Framed"
  shows "case find_index (\<lambda>a. range_l (vpn_range a) = start) (areas ms) of
      None \<Rightarrow> remove_area_with_start_vpn ms start s = Inr (ms, s)
    | Some i \<Rightarrow> \<exists>s'. remove_area_with_start_vpn ms start s =
          Inr (ms\<lparr>areas := take i (areas ms) @ drop (Suc i) (areas ms)\<rparr>, s') \<and>
        ms_wf s' (ms\<lparr>areas := take i (areas ms) @ drop (Suc i) (areas ms)\<rparr>) \<and>
        falloc_live (falloc s') = falloc_live (falloc s) - set (map snd (data_frames (areas ms ! i))) \<and>
        pt_abs (mem s') (page_table ms) =
          pt_abs (mem s) (page_table ms) |` (- set (vpns_of (vpn_range (areas ms ! i)))) \<and>
        (\<forall>x. x \<notin> pt_pages (page_table ms) \<longrightarrow> mem s' x = mem s x)"
proof (cases "find_index (\<lambda>a. range_l (vpn_range a) = start) (areas ms)")
  case None
  then show ?thesis unfolding remove_area_with_start_vpn_def None by simp
next
  case (Some i)
  note sp = areas_split [OF Some]
  have "map_type (areas ms ! i) = Framed" using assms(3) sp(2,3) by auto
  then obtain s' where s': "MapArea_unmap (areas ms ! i) (page_table ms, s) =
      Inr ((areas ms ! i)\<lparr>data_frames := []\<rparr>, page_table ms, s')"
    "ms_wf s' (ms\<lparr>areas := take i (areas ms) @ drop (Suc i) (areas ms)\<rparr>)"
    "falloc_live (falloc s') = falloc_live (falloc s) - set (map snd (data_frames (areas ms ! i)))"
    "pt_abs (mem s') (page_table ms) =
       pt_abs (mem s) (page_table ms) |` (- set (vpns_of (vpn_range (areas ms ! i))))"
    "\<forall>x. x \<notin> pt_pages (page_table ms) \<longrightarrow> mem s' x = mem s x"
    by (rule remove_area_spec [OF assms(1) sp(1) _ assms(2)])
  then have "remove_area_with_start_vpn ms start s =
      Inr (ms\<lparr>areas := take i (areas ms) @ drop (Suc i) (areas ms)\<rparr>, s')"
    by (simp add: remove_area_with_start_vpn_def Some)
  with s'(2-) show ?thesis unfolding Some option.case by (intro exI conjI)
qed

section \<open>Shrinking and growing an area\<close>

lemma range_iter_append:
  assumes "l \<le> m" and "m \<le> r"
  shows "range_iter l r = range_iter l m @ range_iter m r"
proof -
  have "unat (vpn0 l) \<le> unat (vpn0 m)" "unat (vpn0 m) \<le> unat (vpn0 r)"
    using assms by (simp_all add: less_eq_VirtPageNum_def word_le_nat_alt)
  then have "[unat (vpn0 l)..<unat (vpn0 r)] = [unat (vpn0 l)..<unat (vpn0 m)] @ [unat (vpn0 m)..<unat (vpn0 r)]"
    by (metis le_add_diff_inverse upt_add_eq_append)
  then show ?thesis using assms by (simp add: range_iter_words)
qed

lemma area_ok_cong:
  assumes "area_ok m pt a" and "\<And>v. v \<in> set (vpns_of (vpn_range a)) \<Longrightarrow> pt_abs m' pt' v = pt_abs m pt v"
  shows "area_ok m' pt' a"
  by (rule area_ok_mono [OF assms(1)]) (simp add: assms(2))

lemma find_index_middle:
  "\<forall>b \<in> set xs. \<not> P b \<Longrightarrow> P a \<Longrightarrow> find_index P (xs @ a # ys) = Some (length xs)"
  by (induction xs) auto

lemma ms_wf_replace:
  assumes ms: "ms_wf s ms" and ar: "areas ms = xs @ a # ys"
    and pt: "pt_wf s' pt'" and ok: "area_ok (mem s') pt' a'"
    and rest: "\<And>b v. b \<in> set (xs @ ys) \<Longrightarrow> v \<in> set (vpns_of (vpn_range b)) \<Longrightarrow>
      pt_abs (mem s') pt' v = pt_abs (mem s) (page_table ms) v"
    and live: "set (area_frames (xs @ a' # ys)) \<subseteq> falloc_live (falloc s')"
    and dist: "distinct (area_frames (xs @ a' # ys))"
    and tab: "set (area_frames (xs @ a' # ys)) \<inter> set (pt_frames pt') = {}"
  shows "ms_wf s' (ms\<lparr>page_table := pt', areas := xs @ a' # ys\<rparr>)"
proof -
  have "area_ok (mem s') pt' b" if "b \<in> set (xs @ ys)" for b
  proof (rule area_ok_cong)
    show "area_ok (mem s) (page_table ms) b" using ms that by (auto simp: ms_wf_def ar)
  qed (rule rest [OF that])
  with pt ok live dist tab show ?thesis by (auto simp: ms_wf_def)
qed

text \<open>
  (C25) Shrinking an area to a new end inside its range: the pages from the new end on are
  unmapped and their frames given back, the pages before it keep their frames, and the address
  space stays well formed.
\<close>

theorem shrink_to_releases_tail:
  assumes ms: "ms_wf s ms" and ar: "areas ms = xs @ a # ys" and ty: "map_type a = Framed"
    and first: "\<forall>b \<in> set xs. range_l (vpn_range b) \<noteq> va_floor start" "range_l (vpn_range a) = va_floor start"
    and dj: "areas_disjoint (areas ms)"
    and rng: "range_l (vpn_range a) \<le> va_ceil new_end" "va_ceil new_end \<le> range_r (vpn_range a)"
  defines "kept \<equiv> \<lparr>range_l = range_l (vpn_range a), range_r = va_ceil new_end\<rparr>"
    and "gone \<equiv> \<lparr>range_l = va_ceil new_end, range_r = range_r (vpn_range a)\<rparr>"
  shows "\<exists>a' s'. MemorySet_shrink_to ms start new_end s = Inr (True, ms\<lparr>areas := xs @ a' # ys\<rparr>, s') \<and>
    vpn_range a' = kept \<and> data_frames a' = take (length (vpns_of kept)) (data_frames a) \<and>
    ms_wf s' (ms\<lparr>areas := xs @ a' # ys\<rparr>) \<and>
    falloc_live (falloc s') = falloc_live (falloc s) -
      set (map snd (drop (length (vpns_of kept)) (data_frames a))) \<and>
    pt_abs (mem s') (page_table ms) = pt_abs (mem s) (page_table ms) |` (- set (vpns_of gone))"
proof -
  let ?n = "length (vpns_of kept)" and ?pt = "page_table ms"
  let ?d1 = "take ?n (data_frames a)" and ?d2 = "drop ?n (data_frames a)"
  have ok: "area_ok (mem s) ?pt a" using ms by (simp add: ms_wf_def ar)
  note fr = area_ok_frames [OF ok ty]
  have keys: "map fst (data_frames a) = vpns_of (vpn_range a)" using ok ty by (simp add: area_ok_def)
  have vs: "vpns_of (vpn_range a) = vpns_of kept @ vpns_of gone"
    using range_iter_append [OF rng] by (simp add: vpns_of_def kept_def gone_def)
  have k1: "map fst ?d1 = vpns_of kept" and k2: "map fst ?d2 = vpns_of gone"
    using keys vs by (metis append_eq_conv_conj take_map, metis append_eq_conv_conj drop_map)
  have d2: "data_frames a = ?d1 @ zip (vpns_of gone) (map snd ?d2) @ []"
    by (simp add: zip_map_fst_snd flip: k2)
  have len: "length (map snd ?d2) = length (vpns_of gone)" using arg_cong [OF k2, of length] by simp
  have own: "distinct (area_frames (areas ms))" "set (area_frames (areas ms)) \<subseteq> falloc_live (falloc s)"
    "set (area_frames (areas ms)) \<inter> set (pt_frames ?pt) = {}" using ms by (auto simp: ms_wf_def)
  have "map snd (data_frames a) = map snd ?d1 @ map snd ?d2"
    by (metis append_take_drop_id map_append)
  then have frs: "area_frames (areas ms) = area_frames xs @ map snd ?d1 @ map snd ?d2 @ area_frames ys"
    unfolding ar area_frames_append area_frames_Cons by simp
  obtain s' where s': "unmap_list a (vpns_of gone) (?pt, s) = Inr (a\<lparr>data_frames := ?d1\<rparr>, ?pt, s')"
    "pt_wf s' ?pt" "pt_abs (mem s') ?pt = pt_abs (mem s) ?pt |` (- set (vpns_of gone))"
    "falloc_live (falloc s') = falloc_live (falloc s) - set (map snd ?d2)"
    using unmap_list_framed [OF ms_wfD(1) [OF ms] ty d2 len] fr own frs k1 vs by auto
  let ?a = "a\<lparr>data_frames := ?d1, vpn_range := kept\<rparr>"
  have "(v, f) \<in> set (data_frames a) \<and> v \<notin> set (vpns_of gone)" if "(v, f) \<in> set ?d1" for v f
  proof -
    have "v \<in> set (map fst ?d1)" using that by force
    then show ?thesis using fr(3) vs k1 that by (auto dest: in_set_takeD)
  qed
  moreover have "range_ok kept"
    using ok rng by (auto simp: area_ok_def range_ok_def kept_def less_eq_VirtPageNum_def word_le_nat_alt)
  ultimately have aok: "area_ok (mem s') ?pt ?a"
    using ok ty k1 by (fastforce simp: area_ok_def s'(3) area_pte_def)
  have run: "MemorySet_shrink_to ms start new_end s = Inr (True, ms\<lparr>page_table := ?pt, areas := xs @ ?a # ys\<rparr>, s')"
    using s'(1) rng find_index_middle [OF first] unfolding gone_def kept_def
    by (simp add: MemorySet_shrink_to_def MapArea_shrink_to_def VPNRange_new_def ar)
  have "ms_wf s' (ms\<lparr>page_table := ?pt, areas := xs @ ?a # ys\<rparr>)"
  proof (rule ms_wf_replace [OF ms ar s'(2) aok])
    fix b v assume "b \<in> set (xs @ ys)" "v \<in> set (vpns_of (vpn_range b))"
    then have "v \<notin> set (vpns_of gone)" using areas_disjoint_middle [OF dj [unfolded ar]] vs by auto
    then show "pt_abs (mem s') ?pt v = pt_abs (mem s) ?pt v" by (simp add: s'(3))
  qed (use own frs s'(4) in \<open>auto simp: area_frames_Cons\<close>)
  with run s'(3,4) show ?thesis by (intro exI [of _ ?a] exI [of _ s']) simp
qed

lemma area_ok_mapped:
  assumes "area_ok m pt b" and "v \<in> set (vpns_of (vpn_range b))"
  shows "pt_abs m pt v \<noteq> None"
proof (cases "map_type b")
  case Framed
  with area_ok_framed_page [OF assms(1) _ assms(2)] show ?thesis by (metis option.distinct(1))
qed (use assms in \<open>auto simp: area_ok_def\<close>)

lemma area_append_ok:
  assumes wf: "pt_wf s pt" and ok: "area_ok (mem s) pt a" and ty: "map_type a = Framed"
    and rng: "range_r (vpn_range a) \<le> stop" "unat (vpn0 stop) \<le> 2 ^ 27"
  defines "new \<equiv> vpns_of \<lparr>range_l = range_r (vpn_range a), range_r = stop\<rparr>"
    and "whole \<equiv> \<lparr>range_l = range_l (vpn_range a), range_r = stop\<rparr>"
  assumes free: "\<forall>v \<in> set new. pt_abs (mem s) pt v = None" and n: "3 * length new \<le> falloc_free (falloc s)"
  obtains fs pt' s' where "length fs = length new"
    "map_list a new (pt, s) = Inr (a\<lparr>data_frames := data_frames a @ zip new fs\<rparr>, pt', s')"
    "vm_ext (pt, s) (pt', s') (set fs)" "distinct fs"
    "\<forall>f \<in> set fs. get_bytes_array (mem s') f = replicate 4096 0"
    "area_ok (mem s') pt' (a\<lparr>data_frames := data_frames a @ zip new fs, vpn_range := whole\<rparr>)"
    "\<forall>v. v \<notin> set new \<longrightarrow> pt_abs (mem s') pt' v = pt_abs (mem s) pt v" "range_ok whole"
proof -
  have keys: "map fst (data_frames a) = vpns_of (vpn_range a)" and ra: "range_ok (vpn_range a)"
    using ok ty by (auto simp: area_ok_def)
  have rall: "range_ok whole" using ra rng by (auto simp: range_ok_def whole_def)
  have vs: "vpns_of whole = vpns_of (vpn_range a) @ new"
    using ra rng range_iter_append [of "range_l (vpn_range a)" "range_r (vpn_range a)" stop]
    by (auto simp: vpns_of_def new_def whole_def range_ok_def)
  have srt: "sorted_wrt (<) (map fst (data_frames a) @ new)" using sorted_vpns_of [OF rall] by (simp add: keys vs)
  have lo: "\<forall>v \<in> set new. unat (vpn0 v) < 2 ^ 27 \<and> pt_abs (mem s) pt v = None"
    using free vpns_of_less [OF rall] by (simp add: vs)
  obtain fs pt' s' where m: "length fs = length new"
    "map_list a new (pt, s) = Inr (a\<lparr>data_frames := data_frames a @ zip new fs\<rparr>, pt', s')"
    "vm_ext (pt, s) (pt', s') (set fs)" "distinct fs"
    "pt_abs (mem s') pt' = pt_abs (mem s) pt ++ map_of (zip new (map (area_pte a) fs))"
    "\<forall>f \<in> set fs. get_bytes_array (mem s') f = replicate 4096 0"
    using map_list_framed [OF wf ty n lo srt] by blast
  have old: "\<forall>v. v \<notin> set new \<longrightarrow> pt_abs (mem s') pt' v = pt_abs (mem s) pt v"
    by (auto simp: m(5) map_add_def split: option.splits dest: map_of_SomeD set_zip_leftD)
  have dn: "distinct new" and dis: "set (vpns_of (vpn_range a)) \<inter> set new = {}"
    using sorted_vpns_of [OF rall] by (auto simp: strict_sorted_iff vs)
  have "pt_abs (mem s') pt' v = Some (area_pte a f)" if "(v, f) \<in> set (data_frames a)" for v f
  proof -
    have "v \<in> set (map fst (data_frames a))" using that by force
    then have "v \<notin> set new" using dis keys by auto
    then show ?thesis using old ok ty that by (auto simp: area_ok_def)
  qed
  moreover have "pt_abs (mem s') pt' v = Some (area_pte a f)" if "(v, f) \<in> set (zip new fs)" for v f
    using that m(1) dn by (simp add: m(5) map_add_Some_iff map_of_zip_map2)
  ultimately have "area_ok (mem s') pt' (a\<lparr>data_frames := data_frames a @ zip new fs, vpn_range := whole\<rparr>)"
    using ty rall keys m(1) vs by (auto simp: area_ok_def area_pte_def)
  with that [OF m(1-4,6)] old rall show ?thesis by blast
qed

text \<open>
  (C26) Growing an area: with enough frames, \<open>append_to\<close> maps each page between the old and the
  new end to a zeroed frame that was free, keeps every page that was mapped, and leaves a
  well-formed address space.
\<close>

theorem append_to_adds_zeroed_pages:
  assumes ms: "ms_wf s ms" and ar: "areas ms = xs @ a # ys" and ty: "map_type a = Framed"
    and first: "\<forall>b \<in> set xs. range_l (vpn_range b) \<noteq> va_floor start" "range_l (vpn_range a) = va_floor start"
    and rng: "range_r (vpn_range a) \<le> va_ceil new_end" "unat (vpn0 (va_ceil new_end)) \<le> 2 ^ 27"
  defines "new \<equiv> vpns_of \<lparr>range_l = range_r (vpn_range a), range_r = va_ceil new_end\<rparr>"
  assumes free: "\<forall>v \<in> set new. pt_abs (mem s) (page_table ms) v = None"
    and n: "3 * length new \<le> falloc_free (falloc s)"
  shows "\<exists>a' fs pt' s'.
    MemorySet_append_to ms start new_end s = Inr (True, ms\<lparr>page_table := pt', areas := xs @ a' # ys\<rparr>, s') \<and>
    ms_wf s' (ms\<lparr>page_table := pt', areas := xs @ a' # ys\<rparr>) \<and>
    vpn_range a' = \<lparr>range_l = range_l (vpn_range a), range_r = va_ceil new_end\<rparr> \<and>
    data_frames a' = data_frames a @ zip new fs \<and> length fs = length new \<and>
    set fs \<inter> falloc_live (falloc s) = {} \<and>
    (\<forall>f \<in> set fs. get_bytes_array (mem s') f = replicate 4096 0) \<and>
    (\<forall>v. v \<notin> set new \<longrightarrow> pt_abs (mem s') pt' v = pt_abs (mem s) (page_table ms) v)"
proof -
  let ?pt = "page_table ms" and ?all = "\<lparr>range_l = range_l (vpn_range a), range_r = va_ceil new_end\<rparr>"
  have ok: "area_ok (mem s) ?pt a" using ms by (simp add: ms_wf_def ar)
  obtain fs pt' s' where m: "length fs = length new"
    "map_list a new (?pt, s) = Inr (a\<lparr>data_frames := data_frames a @ zip new fs\<rparr>, pt', s')"
    "vm_ext (?pt, s) (pt', s') (set fs)" "distinct fs"
    "\<forall>f \<in> set fs. get_bytes_array (mem s') f = replicate 4096 0"
    "area_ok (mem s') pt' (a\<lparr>data_frames := data_frames a @ zip new fs, vpn_range := ?all\<rparr>)"
    "\<forall>v. v \<notin> set new \<longrightarrow> pt_abs (mem s') pt' v = pt_abs (mem s) ?pt v" "range_ok ?all"
    using area_append_ok [OF ms_wfD(1) [OF ms] ok ty rng] free n unfolding new_def by blast
  let ?a = "a\<lparr>data_frames := data_frames a @ zip new fs, vpn_range := ?all\<rparr>"
  have run: "MemorySet_append_to ms start new_end s = Inr (True, ms\<lparr>page_table := pt', areas := xs @ ?a # ys\<rparr>, s')"
    using m(2,8) rng(1) find_index_middle [OF first] unfolding new_def range_ok_def
    by (simp add: MemorySet_append_to_def MapArea_append_to_def VPNRange_new_def ar)
  have own: "distinct (area_frames (areas ms))" "set (area_frames (areas ms)) \<subseteq> falloc_live (falloc s)"
    "set (area_frames (areas ms)) \<inter> set (pt_frames ?pt) = {}" using ms by (auto simp: ms_wf_def)
  have e: "set fs \<inter> falloc_live (falloc s) = {}" "set fs \<inter> set (pt_frames pt') = {}" "pt_wf s' pt'"
    "falloc_live (falloc s') = falloc_live (falloc s) \<union> set (pt_frames pt') \<union> set fs"
    "set (pt_frames pt') \<inter> falloc_live (falloc s) = set (pt_frames ?pt)"
    using m(3) by (auto simp: vm_ext_def)
  have frs: "mset (area_frames (xs @ ?a # ys)) = mset (area_frames (areas ms)) + mset fs"
    using m(1) by (simp add: ar area_frames_Cons)
  have fset: "set (area_frames (xs @ ?a # ys)) = set (area_frames (areas ms)) \<union> set fs"
    using arg_cong [OF frs, of set_mset] by simp
  have "distinct (area_frames (areas ms) @ fs)" using own(1,2) m(4) e(1) by auto
  then have "distinct (area_frames (xs @ ?a # ys))"
    using frs mset_eq_imp_distinct_iff [of "area_frames (xs @ ?a # ys)" "area_frames (areas ms) @ fs"] by simp
  moreover have "set (area_frames (areas ms)) \<inter> set (pt_frames pt') = {}" using own(2,3) e(5) by blast
  ultimately have "ms_wf s' (ms\<lparr>page_table := pt', areas := xs @ ?a # ys\<rparr>)"
  proof (intro ms_wf_replace [OF ms ar e(3) m(6)])
    fix b v assume b: "b \<in> set (xs @ ys)" "v \<in> set (vpns_of (vpn_range b))"
    then have "area_ok (mem s) ?pt b" using ms by (auto simp: ms_wf_def ar)
    from area_ok_mapped [OF this b(2)] have "v \<notin> set new" using free by auto
    then show "pt_abs (mem s') pt' v = pt_abs (mem s) ?pt v" using m(7) by simp
  qed (use own(2) e(2,4) fset in auto)
  then show ?thesis
    using run m e(1) by (intro exI [of _ ?a] exI [of _ fs] exI [of _ pt'] exI [of _ s']) simp
qed

section \<open>A concrete address space, resized\<close>

lemma example_area:
  obtains ms s a where "example_space = Inr (ms, s)" "ms_wf s ms" "20 \<le> falloc_free (falloc s)"
    "areas ms = [] @ a # []" "map_type a = Framed" "vpn_range a = \<lparr>range_l = VirtPageNum 2, range_r = VirtPageNum 3\<rparr>"
    "pt_abs (mem s) (page_table ms) (VirtPageNum 3) = None"
    "areas_disjoint (areas ms)"
proof -
  obtain ms s fs where ms: "example_space = Inr (ms, s)" "ms_wf s ms" "20 \<le> falloc_free (falloc s)"
    "areas ms = [\<lparr>vpn_range = \<lparr>range_l = VirtPageNum 2, range_r = VirtPageNum 3\<rparr>,
       data_frames = zip [VirtPageNum 2] fs, map_type = Framed, map_perm = MapPermission_R OR MapPermission_U\<rparr>]"
    "length fs = 1" "pt_abs (mem s) (page_table ms) (VirtPageNum 3) = None"
    by (rule example_space_wf)
  then show ?thesis
    by (intro that [OF ms(1-3)]) (auto simp: length_Suc_conv areas_disjoint_def)
qed

theorem remove_area_frees_area_witness:
  "\<exists>ms s s'. example_space = Inr (ms, s) \<and>
     remove_area_with_start_vpn ms (VirtPageNum 2) s = Inr (ms\<lparr>areas := []\<rparr>, s') \<and>
     pt_abs (mem s') (page_table ms) (VirtPageNum 2) = None"
proof -
  obtain ms s a where ex: "example_space = Inr (ms, s)" "ms_wf s ms" "areas ms = [] @ a # []"
    "map_type a = Framed" "vpn_range a = \<lparr>range_l = VirtPageNum 2, range_r = VirtPageNum 3\<rparr>"
    "areas_disjoint (areas ms)"
    by (rule example_area)
  have "VirtPageNum 2 \<in> set (vpns_of (vpn_range a))"
    by (simp add: ex(5) vpns_of_def range_iter_words less_eq_VirtPageNum_def)
  with remove_area_frees_area [OF ex(2,6), of "VirtPageNum 2"] ex show ?thesis
    by - (rule exI [of _ ms], rule exI [of _ s], auto simp: restrict_map_def)
qed

theorem shrink_to_releases_tail_witness:
  "\<exists>ms s ms' s'. example_space = Inr (ms, s) \<and>
     MemorySet_shrink_to ms (VirtAddr 8192) (VirtAddr 8192) s = Inr (True, ms', s') \<and>
     pt_abs (mem s') (page_table ms) (VirtPageNum 2) = None"
proof -
  obtain ms s a where ex: "example_space = Inr (ms, s)" "ms_wf s ms" "areas ms = [] @ a # []"
    "map_type a = Framed" "vpn_range a = \<lparr>range_l = VirtPageNum 2, range_r = VirtPageNum 3\<rparr>"
    "areas_disjoint (areas ms)"
    by (rule example_area)
  have va: "va_floor (VirtAddr 8192) = VirtPageNum 2" "va_ceil (VirtAddr 8192) = VirtPageNum 2"
    by (simp_all add: va_floor_def va_ceil_def config_defs)
  have "VirtPageNum 2 \<in> set (vpns_of \<lparr>range_l = VirtPageNum 2, range_r = VirtPageNum 3\<rparr>)"
    by (simp add: vpns_of_def range_iter_words less_eq_VirtPageNum_def)
  with shrink_to_releases_tail [OF ex(2-4), of "VirtAddr 8192" "VirtAddr 8192"] ex show ?thesis
    by - (rule exI [of _ ms], rule exI [of _ s], auto simp: va less_eq_VirtPageNum_def restrict_map_def)
qed

theorem append_to_adds_zeroed_pages_witness:
  "\<exists>ms s ms' s'. example_space = Inr (ms, s) \<and>
     MemorySet_append_to ms (VirtAddr 8192) (VirtAddr 16000) s = Inr (True, ms', s') \<and> ms_wf s' ms'"
proof -
  obtain ms s a where ex: "example_space = Inr (ms, s)" "ms_wf s ms" "areas ms = [] @ a # []"
    "map_type a = Framed" "vpn_range a = \<lparr>range_l = VirtPageNum 2, range_r = VirtPageNum 3\<rparr>"
    and free: "20 \<le> falloc_free (falloc s)" "pt_abs (mem s) (page_table ms) (VirtPageNum 3) = None"
    by (rule example_area)
  have va: "va_floor (VirtAddr 8192) = VirtPageNum 2" "va_ceil (VirtAddr 16000) = VirtPageNum 4"
    by (simp_all add: va_floor_def va_ceil_def config_defs)
  have "vpns_of \<lparr>range_l = VirtPageNum 3, range_r = VirtPageNum 4\<rparr> = [VirtPageNum 3]"
    by (simp add: vpns_of_def range_iter_words less_eq_VirtPageNum_def)
  with append_to_adds_zeroed_pages [OF ex(2-4), of "VirtAddr 8192" "VirtAddr 16000"] ex free show ?thesis
    by (fastforce simp: va less_eq_VirtPageNum_def)
qed

end
