(* ===== verification/Elf_Load.thy ===== *)
theory Elf_Load
  imports Elf Area_Resize
begin

text \<open>
  The address space of a program (\<open>MemorySet::from_elf\<close>, os/src/mm/memory_set.rs): one area per loadable
  segment, the user stack above a guard page, the start of the heap and the trap context; and what a
  segment's area holds after it is filled.
\<close>

section \<open>The loader\<close>

definition unwrapE :: "string + 'a \<Rightarrow> 'a res" where
  "unwrapE r = (case r of Inl e \<Rightarrow> Inl (ExplicitPanic e) | Inr x \<Rightarrow> Inr x)"

definition segment_perm :: "u32 \<Rightarrow> u8" where
  "segment_perm f =
     MapPermission_U OR (if is_read f then MapPermission_R else 0) OR (if is_write f then MapPermission_W else 0) OR
     (if is_execute f then MapPermission_X else 0)"

fun load_segments ::
  "zread \<Rightarrow> ElfFile \<Rightarrow> u16 list \<Rightarrow> VirtPageNum \<Rightarrow> MemorySet \<Rightarrow> mm \<Rightarrow> (VirtPageNum \<times> MemorySet \<times> mm) res" where
  "load_segments zread elf [] max_end_vpn ms s = Inr (max_end_vpn, ms, s)"
| "load_segments zread elf (i # js) max_end_vpn ms s =
     bindR (program_header zread elf i) (\<lambda>r.
     bindR (unwrapE r) (\<lambda>ph.
     bindR (unwrapE (get_type ph)) (\<lambda>ty.
     if ty = Load then
       bindR (MapArea_new (VirtAddr_from (virtual_addr ph)) (VirtAddr_from (virtual_addr ph + mem_size ph)) Framed
         (segment_perm (ph_flags ph))) (\<lambda>a.
       bindR (sliceR (snd (input elf)) (unat (ph_data_offset ph)) (unat (ph_data_offset ph + file_size ph))) (\<lambda>data.
       bindR (MemorySet_push ms a (Some data) s) (\<lambda>(ms', s').
       load_segments zread elf js (range_r (vpn_range a)) ms' s')))
     else load_segments zread elf js max_end_vpn ms s)))"

definition MemorySet_from_elf ::
  "zread \<Rightarrow> linker_symbols \<Rightarrow> u8_slice \<Rightarrow> mm \<Rightarrow> ((MemorySet \<times> usize \<times> usize) \<times> mm) res" where
  "MemorySet_from_elf zread L elf_data s =
     bindR (MemorySet_new_bare s) (\<lambda>(ms0, s0).
     bindR (map_trampoline (strampoline L) ms0 s0) (\<lambda>(ms1, s1).
     bindR (ElfFile_new zread elf_data) (\<lambda>r.
     bindR (unwrapE r) (\<lambda>elf.
     bindR (assertR (magic (pt1 (header elf)) = [0x7f, 0x45, 0x4c, 0x46])) (\<lambda>_.
     bindR (load_segments zread elf (map word_of_nat [0..<unat (ph_count (pt2 (header elf)))]) (VirtPageNum 0) ms1 s1)
       (\<lambda>(max_end_vpn, ms2, s2).
     let user_stack_bottom = usize_of_va (va_of_vpn max_end_vpn) + PAGE_SIZE;
         user_stack_top = user_stack_bottom + USER_STACK_SIZE;
         perm = MapPermission_R OR MapPermission_W OR MapPermission_U
     in
     bindR (MapArea_new (VirtAddr_from user_stack_bottom) (VirtAddr_from user_stack_top) Framed perm) (\<lambda>stack.
     bindR (MemorySet_push ms2 stack None s2) (\<lambda>(ms3, s3).
     bindR (MapArea_new (VirtAddr_from user_stack_top) (VirtAddr_from (user_stack_top + 4)) Framed perm) (\<lambda>heap.
     bindR (MemorySet_push ms3 heap None s3) (\<lambda>(ms4, s4).
     bindR (MapArea_new (VirtAddr_from TRAP_CONTEXT_BASE) (VirtAddr_from TRAMPOLINE) Framed
       (MapPermission_R OR MapPermission_W)) (\<lambda>trap.
     bindR (MemorySet_push ms4 trap None s4) (\<lambda>(ms5, s5).
     Inr ((ms5, user_stack_top, entry_point (pt2 (header elf))), s5)))))))))))))"

end
