(* ===== verification/Task_Id.thy ===== *)
theory Task_Id
  imports Id_Pool Area_Resize
begin

text \<open>
  Identifiers of tasks and kernel stacks (os/src/task/id.rs): the recycling allocator behind
  PIDs and kernel-stack numbers, the place of a kernel stack below the trampoline, and the
  allocation and release of a kernel stack in the kernel's address space.
\<close>

unbundle bit_operations_syntax

section \<open>The recycling allocator\<close>

record RecycleAllocator =
  ra_current :: usize
  ra_recycled :: "usize list"

definition RecycleAllocator_new :: RecycleAllocator where
  "RecycleAllocator_new = \<lparr>ra_current = 1, ra_recycled = []\<rparr>"

definition RecycleAllocator_alloc :: "RecycleAllocator \<Rightarrow> usize \<times> RecycleAllocator" where
  "RecycleAllocator_alloc a =
     (if ra_recycled a \<noteq> [] then
        (last (ra_recycled a), a\<lparr>ra_recycled := butlast (ra_recycled a)\<rparr>)
      else (ra_current a + 1 - 1, a\<lparr>ra_current := ra_current a + 1\<rparr>))"

definition RecycleAllocator_dealloc :: "RecycleAllocator \<Rightarrow> usize \<Rightarrow> RecycleAllocator res" where
  "RecycleAllocator_dealloc a i =
     bindR (assertR (i < ra_current a)) (\<lambda>_.
     bindR (assertR (i \<notin> set (ra_recycled a))) (\<lambda>_.
     Inr (a\<lparr>ra_recycled := ra_recycled a @ [i]\<rparr>)))"

text \<open>
  The counter wraps only after \<open>2^64\<close> allocations without a release; \<open>alloc_room\<close> is the
  allocation as long as there is room.
\<close>

definition alloc_room :: "RecycleAllocator \<Rightarrow> (usize \<times> RecycleAllocator) option" where
  "alloc_room a =
     (if ra_recycled a = [] \<and> ra_current a = - 1 then None else Some (RecycleAllocator_alloc a))"

definition ra_inv :: "RecycleAllocator \<Rightarrow> bool" where
  "ra_inv a \<longleftrightarrow> distinct (ra_recycled a) \<and> (\<forall>i \<in> set (ra_recycled a). i < ra_current a)"

definition ra_live :: "RecycleAllocator \<Rightarrow> usize set" where
  "ra_live a = {i. i < ra_current a \<and> i \<notin> set (ra_recycled a)}"

lemma alloc_room_cases:
  assumes "alloc_room a = Some (i, a')"
  obtains (recycled) "ra_recycled a \<noteq> []" "i = last (ra_recycled a)"
      "a' = a\<lparr>ra_recycled := butlast (ra_recycled a)\<rparr>"
    | (fresh) "ra_recycled a = []" "i = ra_current a" "a' = a\<lparr>ra_current := ra_current a + 1\<rparr>"
      "ra_current a < - 1"
proof (cases "ra_recycled a = []")
  case True
  then have "ra_current a \<noteq> - 1" using assms by (auto simp: alloc_room_def)
  then have "ra_current a < - 1" using word_order.not_eq_extremum by blast
  with True assms show ?thesis by (intro fresh) (auto simp: alloc_room_def RecycleAllocator_alloc_def split: if_splits)
next
  case False
  with assms show ?thesis by (intro recycled) (auto simp: alloc_room_def RecycleAllocator_alloc_def)
qed

lemma alloc_room_inv:
  assumes "ra_inv a" and "alloc_room a = Some (i, a')"
  shows "ra_inv a'"
  using assms(2)
proof (cases rule: alloc_room_cases)
  case recycled
  with assms(1) show ?thesis by (auto simp: ra_inv_def distinct_butlast dest: in_set_butlastD)
next
  case fresh
  with assms(1) show ?thesis by (simp add: ra_inv_def)
qed

lemma alloc_room_fresh:
  assumes "alloc_room a = Some (i, a')"
  shows "i \<notin> ra_live a"
  using assms by (cases rule: alloc_room_cases) (simp_all add: ra_live_def)

lemma alloc_room_live:
  assumes "ra_inv a" and "alloc_room a = Some (i, a')"
  shows "ra_live a' = insert i (ra_live a)"
  using assms(2)
proof (cases rule: alloc_room_cases)
  case recycled
  then have "i \<in> set (ra_recycled a)" "i < ra_current a" using assms(1) by (simp_all add: ra_inv_def)
  moreover have "x \<in> set (butlast (ra_recycled a)) \<longleftrightarrow> x \<in> set (ra_recycled a) \<and> x \<noteq> i" for x
    using recycled(1,2) assms(1) by (simp add: in_butlast_distinct ra_inv_def)
  ultimately show ?thesis unfolding recycled(3) ra_live_def by auto
next
  case fresh
  have "x < ra_current a + 1 \<longleftrightarrow> x = i \<or> x < ra_current a" for x
    using word_less_inc [OF fresh(4), of x] fresh(2) by (simp only: order.order_iff_strict) auto
  with fresh(1) show ?thesis unfolding fresh(3) ra_live_def by auto
qed

lemma RecycleAllocator_dealloc_iff:
  "RecycleAllocator_dealloc a i = Inr a' \<longleftrightarrow>
     i \<in> ra_live a \<and> a' = a\<lparr>ra_recycled := ra_recycled a @ [i]\<rparr>"
  by (auto simp: RecycleAllocator_dealloc_def ra_live_def bindR_eq_Inr)

interpretation ids: id_pool alloc_room RecycleAllocator_dealloc ra_inv ra_live
proof (unfold_locales, goal_cases)
  case 1
  then show ?case by (rule alloc_room_inv)
next
  case 2
  then show ?case by (rule_tac alloc_room_fresh)
next
  case 3
  then show ?case by (rule alloc_room_live)
next
  case 4
  then show ?case by (simp add: RecycleAllocator_dealloc_iff)
next
  case (5 a i a')
  then show ?case by (simp add: RecycleAllocator_dealloc_iff ra_inv_def ra_live_def)
next
  case (6 a i a')
  then show ?case by (simp add: RecycleAllocator_dealloc_iff) (auto simp: ra_live_def)
qed

text \<open>
  (C27) PIDs are unique: over any history of allocations and releases starting from the initial
  allocator, the next PID is not held by a live task, is never 0, and every held PID can be
  released without a panic.
\<close>

theorem pids_are_unique:
  assumes "pool_reach alloc_room RecycleAllocator_dealloc RecycleAllocator_new a H"
    and "alloc_room a = Some (i, a')"
  shows "i \<notin> H \<and> i \<noteq> 0 \<and> (\<forall>j \<in> H. \<exists>a''. RecycleAllocator_dealloc a j = Inr a'')"
proof -
  have inv: "ra_inv RecycleAllocator_new" by (simp add: ra_inv_def RecycleAllocator_new_def)
  have "0 \<in> ra_live RecycleAllocator_new" by (simp add: ra_live_def RecycleAllocator_new_def)
  with ids.never_handed_out_twice [OF assms(1) inv assms(2)] ids.held_can_be_released [OF assms(1) inv]
  show ?thesis by blast
qed

theorem pids_are_unique_witness:
  "pool_reach alloc_room RecycleAllocator_dealloc RecycleAllocator_new \<lparr>ra_current = 2, ra_recycled = []\<rparr> {1} \<and>
   (2 :: usize) \<notin> {1} \<and> (\<exists>a. RecycleAllocator_dealloc \<lparr>ra_current = 2, ra_recycled = []\<rparr> 1 = Inr a)"
proof -
  let ?r = "pool_reach alloc_room RecycleAllocator_dealloc RecycleAllocator_new"
  have "?r \<lparr>ra_current = 2, ra_recycled = []\<rparr> (insert 1 {})"
    by (rule reach_alloc [OF reach_start])
      (simp add: alloc_room_def RecycleAllocator_alloc_def RecycleAllocator_new_def)
  moreover have "alloc_room \<lparr>ra_current = 2, ra_recycled = []\<rparr> = Some (2, \<lparr>ra_current = 3, ra_recycled = []\<rparr>)"
    by (simp add: alloc_room_def RecycleAllocator_alloc_def)
  ultimately show ?thesis using pids_are_unique by blast
qed

section \<open>Kernel stacks\<close>

definition kernel_stack_position :: "usize \<Rightarrow> usize \<times> usize" where
  "kernel_stack_position app_id =
     (let ktop = TRAMPOLINE - app_id * (KERNEL_STACK_SIZE + PAGE_SIZE); kbottom = ktop - KERNEL_STACK_SIZE
      in (kbottom, ktop))"

definition kernel_stack_top :: "usize \<Rightarrow> usize" where
  "kernel_stack_top kstack = snd (kernel_stack_position kstack)"

definition kstack_alloc ::
  "RecycleAllocator \<Rightarrow> MemorySet \<Rightarrow> mm \<Rightarrow> (usize \<times> RecycleAllocator \<times> MemorySet \<times> mm) res" where
  "kstack_alloc ra kernel_space s =
     (case RecycleAllocator_alloc ra of (kstack_id, ra') \<Rightarrow>
      case kernel_stack_position kstack_id of (kbottom, ktop) \<Rightarrow>
        bindR (insert_framed_area kernel_space (VirtAddr_from kbottom) (VirtAddr_from ktop)
                 (MapPermission_R OR MapPermission_W) s) (\<lambda>(ks, s').
        Inr (kstack_id, ra', ks, s')))"

definition KernelStack_drop ::
  "usize \<Rightarrow> RecycleAllocator \<Rightarrow> MemorySet \<Rightarrow> mm \<Rightarrow> (RecycleAllocator \<times> MemorySet \<times> mm) res" where
  "KernelStack_drop kstack ra kernel_space s =
     bindR (vpn_of_va (VirtAddr_from (fst (kernel_stack_position kstack)))) (\<lambda>vpn.
     bindR (remove_area_with_start_vpn kernel_space vpn s) (\<lambda>(ks, s').
     bindR (RecycleAllocator_dealloc ra kstack) (\<lambda>ra'. Inr (ra', ks, s'))))"

definition max_kstack :: nat where
  "max_kstack = 2 ^ 24"

lemma unat_kernel_stack:
  assumes "unat i < max_kstack"
  shows "unat (snd (kernel_stack_position i)) = 2 ^ 64 - 4096 - unat i * 12288"
    and "unat (fst (kernel_stack_position i)) = 2 ^ 64 - 4096 - unat i * 12288 - 8192"
proof -
  have m: "unat (i * 12288) = unat i * 12288"
    using assms by (simp add: max_kstack_def unat_mult_lem [THEN iffD1])
  have t: "unat (TRAMPOLINE :: usize) = 2 ^ 64 - 4096" by (simp add: config_defs)
  have le: "i * 12288 \<le> TRAMPOLINE"
    using assms by (simp add: word_le_nat_alt m t max_kstack_def)
  show top: "unat (snd (kernel_stack_position i)) = 2 ^ 64 - 4096 - unat i * 12288"
    using unat_sub [OF le] by (simp add: kernel_stack_position_def Let_def KERNEL_STACK_SIZE_def PAGE_SIZE_def m t)
  have le2: "8192 \<le> snd (kernel_stack_position i)"
    using assms by (simp add: word_le_nat_alt top max_kstack_def)
  have "fst (kernel_stack_position i) = snd (kernel_stack_position i) - 8192"
    by (simp add: kernel_stack_position_def Let_def KERNEL_STACK_SIZE_def)
  with unat_sub [OF le2] top show "unat (fst (kernel_stack_position i)) = 2 ^ 64 - 4096 - unat i * 12288 - 8192"
    by simp
qed

text \<open>
  (C28) Kernel stacks do not overlap: for two different numbers below \<open>2^24\<close> the stacks are two
  pages long, lie below the trampoline, and are separated by an unmapped guard page.
\<close>

theorem kernel_stacks_disjoint:
  assumes "unat i < unat j" and "unat j < max_kstack"
  shows "unat (snd (kernel_stack_position j)) + 4096 \<le> unat (fst (kernel_stack_position i)) \<and>
    unat (snd (kernel_stack_position i)) = unat (fst (kernel_stack_position i)) + 2 * 4096 \<and>
    unat (snd (kernel_stack_position i)) \<le> unat TRAMPOLINE"
proof -
  have i: "unat i < max_kstack" using assms by simp
  have t: "unat (TRAMPOLINE :: usize) = 2 ^ 64 - 4096" by (simp add: config_defs)
  have "unat i * 12288 + 12288 \<le> unat j * 12288" using assms(1) by simp
  moreover have "unat j * 12288 < 2 ^ 38 - 12288" using assms(2) by (simp add: max_kstack_def)
  ultimately show ?thesis
    unfolding unat_kernel_stack [OF i] unat_kernel_stack [OF assms(2)] t by simp
qed

theorem kernel_stacks_disjoint_witness:
  "unat (snd (kernel_stack_position 5)) + 4096 \<le> unat (fst (kernel_stack_position 4))"
  using kernel_stacks_disjoint [of 4 5] by (simp add: max_kstack_def)

definition kstack_range :: "usize \<Rightarrow> VPNRange" where
  "kstack_range i =
     \<lparr>range_l = va_floor (VirtAddr_from (fst (kernel_stack_position i))),
      range_r = va_ceil (VirtAddr_from (snd (kernel_stack_position i)))\<rparr>"

lemma unat_kstack_range:
  assumes "unat i < max_kstack"
  shows "unat (vpn0 (range_l (kstack_range i))) = 2 ^ 27 - 3 - unat i * 3"
    and "unat (vpn0 (range_r (kstack_range i))) = 2 ^ 27 - 1 - unat i * 3"
    and "va_page_offset (VirtAddr_from (fst (kernel_stack_position i))) = 0"
proof -
  let ?n = "unat i * 3"
  have n: "?n < 2 ^ 26" using assms by (simp add: max_kstack_def)
  have low: "(2 ^ 64 - 4096 - unat i * 12288 :: nat) = (2 ^ 25 - 1) * 2 ^ 39 + (2 ^ 27 - 1 - ?n) * 4096"
    "(2 ^ 64 - 4096 - unat i * 12288 - 8192 :: nat) = (2 ^ 25 - 1) * 2 ^ 39 + (2 ^ 27 - 3 - ?n) * 4096"
    using n by simp_all
  have t: "unat (va0 (VirtAddr_from (snd (kernel_stack_position i)))) = (2 ^ 27 - 1 - ?n) * 4096"
    unfolding unat_VirtAddr_from unat_kernel_stack [OF assms] low(1) mod_mult_self3 using n by simp
  have b: "unat (va0 (VirtAddr_from (fst (kernel_stack_position i)))) = (2 ^ 27 - 3 - ?n) * 4096"
    unfolding unat_VirtAddr_from unat_kernel_stack [OF assms] low(2) mod_mult_self3 using n by simp
  show "unat (vpn0 (range_l (kstack_range i))) = 2 ^ 27 - 3 - ?n"
    by (simp add: kstack_range_def unat_va_floor b)
  show "unat (vpn0 (range_r (kstack_range i))) = 2 ^ 27 - 1 - ?n"
    using n by (simp add: kstack_range_def unat_va_ceil t)
  have "unat (va_page_offset (VirtAddr_from (fst (kernel_stack_position i)))) = 0"
    by (simp add: unat_va_page_offset b)
  then show "va_page_offset (VirtAddr_from (fst (kernel_stack_position i))) = 0"
    by (simp add: unat_eq_zero)
qed

lemma kstack_range_ok:
  assumes "unat i < max_kstack"
  shows "range_ok (kstack_range i)" and "length (vpns_of (kstack_range i)) = 2"
proof -
  note u = unat_kstack_range [OF assms]
  show ok: "range_ok (kstack_range i)"
    using u assms by (simp add: range_ok_def less_eq_VirtPageNum_def word_le_nat_alt) linarith
  then show "length (vpns_of (kstack_range i)) = 2"
    using u assms by (simp add: range_ok_def vpns_of_def range_iter_words max_kstack_def)
qed

lemma kstack_alloc_spec:
  assumes ks: "ms_wf s ks" and i: "RecycleAllocator_alloc ra = (i, ra')" "unat i < max_kstack"
    and new: "\<forall>v \<in> set (vpns_of (kstack_range i)). pt_abs (mem s) (page_table ks) v = None"
    and n: "6 \<le> falloc_free (falloc s)"
  obtains ks' s' a fs where "kstack_alloc ra ks s = Inr (i, ra', ks', s')" "ms_wf s' ks'"
    "areas ks' = areas ks @ [a]" "map_type a = Framed" "vpn_range a = kstack_range i"
    "map snd (data_frames a) = fs" "vm_ext (page_table ks, s) (page_table ks', s') (set fs)"
    "\<forall>v. v \<notin> set (vpns_of (kstack_range i)) \<longrightarrow>
       pt_abs (mem s') (page_table ks') v = pt_abs (mem s) (page_table ks) v"
proof -
  let ?r = "kstack_range i"
  let ?a = "\<lparr>vpn_range = ?r, data_frames = [], map_type = Framed, map_perm = MapPermission_R OR MapPermission_W\<rparr>"
  note ok = kstack_range_ok [OF i(2)]
  have mk: "MapArea_new (VirtAddr_from (fst (kernel_stack_position i))) (VirtAddr_from (snd (kernel_stack_position i)))
      Framed (MapPermission_R OR MapPermission_W) = Inr ?a"
    using ok(1) by (simp add: MapArea_new_def VPNRange_new_def range_ok_def kstack_range_def)
  obtain fs ks' s' where p: "MemorySet_push ks ?a None s = Inr (ks', s')" "length fs = length (vpns_of ?r)"
    "areas ks' = areas ks @ [?a\<lparr>data_frames := zip (vpns_of ?r) fs\<rparr>]"
    "vm_ext (page_table ks, s) (page_table ks', s') (set fs)" "ms_wf s' ks'"
    "pt_abs (mem s') (page_table ks') = pt_abs (mem s) (page_table ks) ++
       map_of (zip (vpns_of ?r) (map (area_pte ?a) fs))"
    by (rule MemorySet_push_framed [OF ks, of ?a]) (use ok new n in auto)
  have "\<forall>v. v \<notin> set (vpns_of ?r) \<longrightarrow>
      pt_abs (mem s') (page_table ks') v = pt_abs (mem s) (page_table ks) v"
    by (auto simp: p(6) map_add_def split: option.splits dest: map_of_SomeD set_zip_leftD)
  moreover have "kstack_alloc ra ks s = Inr (i, ra', ks', s')"
    using i(1) mk p(1)
    by (cases "kernel_stack_position i") (simp add: kstack_alloc_def insert_framed_area_def)
  ultimately show ?thesis
    using p by (intro that [of ks' s' "?a\<lparr>data_frames := zip (vpns_of ?r) fs\<rparr>" fs]) simp_all
qed

text \<open>
  (C29) A kernel stack lives and dies without a trace: allocating one on free pages maps its two
  pages, and dropping it unmaps exactly these, gives the frames and the number back and restores
  the areas and the mappings of the kernel's address space.
\<close>

theorem kernel_stack_round_trip:
  assumes ks: "ms_wf s ks" and dj: "areas_disjoint (areas ks)" and inv: "ra_inv ra"
    and i: "alloc_room ra = Some (i, ra')" "unat i < max_kstack"
    and new: "\<forall>v \<in> set (vpns_of (kstack_range i)). pt_abs (mem s) (page_table ks) v = None"
    and first: "\<forall>a \<in> set (areas ks). range_l (vpn_range a) \<noteq> range_l (kstack_range i)"
    and n: "6 \<le> falloc_free (falloc s)"
  shows "\<exists>ks' s' ra'' ks'' s''. kstack_alloc ra ks s = Inr (i, ra', ks', s') \<and> ms_wf s' ks' \<and>
    (\<forall>v \<in> set (vpns_of (kstack_range i)). pt_abs (mem s') (page_table ks') v \<noteq> None) \<and>
    KernelStack_drop i ra' ks' s' = Inr (ra'', ks'', s'') \<and> ms_wf s'' ks'' \<and>
    areas ks'' = areas ks \<and> ra_live ra'' = ra_live ra \<and>
    pt_abs (mem s'') (page_table ks'') = pt_abs (mem s) (page_table ks) \<and>
    falloc_live (falloc s'') = falloc_live (falloc s) \<union> set (pt_frames (page_table ks''))"
proof -
  have al: "RecycleAllocator_alloc ra = (i, ra')"
    using i(1) by (simp add: alloc_room_def split: if_splits)
  obtain ks' s' a fs where k: "kstack_alloc ra ks s = Inr (i, ra', ks', s')" "ms_wf s' ks'"
    "areas ks' = areas ks @ [a]" "map_type a = Framed" "vpn_range a = kstack_range i"
    "map snd (data_frames a) = fs" "vm_ext (page_table ks, s) (page_table ks', s') (set fs)"
    "\<forall>v. v \<notin> set (vpns_of (kstack_range i)) \<longrightarrow>
       pt_abs (mem s') (page_table ks') v = pt_abs (mem s) (page_table ks) v"
    by (rule kstack_alloc_spec [OF ks al i(2) new n])
  have ok: "area_ok (mem s') (page_table ks') b" if "b \<in> set (areas ks')" for b
    using k(2) that by (simp add: ms_wf_def)
  have "set (vpns_of (vpn_range b)) \<inter> set (vpns_of (vpn_range a)) = {}" if "b \<in> set (areas ks)" for b
    using area_ok_mapped [of "mem s" "page_table ks" b] new ks that unfolding k(5) ms_wf_def by fastforce
  then have dj': "areas_disjoint (areas ks')" using dj by (simp add: k(3) areas_disjoint_def sorted_wrt_append)
  obtain s'' where r: "MapArea_unmap a (page_table ks', s') = Inr (a\<lparr>data_frames := []\<rparr>, page_table ks', s'')"
    "ms_wf s'' (ks'\<lparr>areas := areas ks @ []\<rparr>)" "falloc_live (falloc s'') = falloc_live (falloc s') - set (map snd (data_frames a))"
    "pt_abs (mem s'') (page_table ks') = pt_abs (mem s') (page_table ks') |` (- set (vpns_of (vpn_range a)))"
    by (rule remove_area_spec [OF k(2,3,4) dj'])
  have rm: "remove_area_with_start_vpn ks' (range_l (kstack_range i)) s' = Inr (ks'\<lparr>areas := areas ks\<rparr>, s'')"
    using r(1) find_index_middle [of "areas ks" "\<lambda>a. range_l (vpn_range a) = range_l (kstack_range i)" a "[]"] first k(5)
    by (simp add: remove_area_with_start_vpn_def k(3))
  have "i \<in> ra_live ra'" using alloc_room_live [OF inv i(1)] by simp
  then obtain ra'' where d: "RecycleAllocator_dealloc ra' i = Inr ra''"
    using alloc_room_inv [OF inv i(1)] ids.dealloc_ok by blast
  then have "ra_live ra'' = ra_live ra"
    using ids.dealloc_live [OF alloc_room_inv [OF inv i(1)]] alloc_room_live [OF inv i(1)] alloc_room_fresh [OF i(1)] by auto
  moreover have "KernelStack_drop i ra' ks' s' = Inr (ra'', ks'\<lparr>areas := areas ks\<rparr>, s'')"
    using rm d unat_kstack_range(3) [OF i(2)] by (simp add: KernelStack_drop_def vpn_of_va_def kstack_range_def)
  moreover have "pt_abs (mem s'') (page_table ks') = pt_abs (mem s) (page_table ks)"
    using k(8) new unfolding r(4) k(5) by (auto simp: fun_eq_iff restrict_map_def)
  moreover have "falloc_live (falloc s'') = falloc_live (falloc s) \<union> set (pt_frames (page_table ks'))"
    using k(7) unfolding r(3) k(6) vm_ext_def by auto
  moreover have "\<forall>v \<in> set (vpns_of (kstack_range i)). pt_abs (mem s') (page_table ks') v \<noteq> None"
    using area_ok_mapped [OF ok, of a] k(3,5) by auto
  ultimately show ?thesis
    using k(1,2) r(2) by (intro exI [of _ ks'] exI [of _ s'] exI [of _ ra''] exI [of _ "ks'\<lparr>areas := areas ks\<rparr>"] exI [of _ s'']) simp
qed

theorem kernel_stack_round_trip_witness:
  "\<exists>ks s ks' s' ra'' ks'' s''. MemorySet_new_bare example_big = Inr (ks, s) \<and>
     kstack_alloc RecycleAllocator_new ks s = Inr (1, \<lparr>ra_current = 2, ra_recycled = []\<rparr>, ks', s') \<and>
     KernelStack_drop 1 \<lparr>ra_current = 2, ra_recycled = []\<rparr> ks' s' = Inr (ra'', ks'', s'') \<and> areas ks'' = []"
proof -
  have inv: "falloc_inv (falloc example_big)" "falloc_free (falloc example_big) = 95"
    by (simp_all add: falloc_inv_def example_big_def StackFrameAllocator_init_def
        StackFrameAllocator_new_def falloc_free_def)
  obtain f s1 where nb: "MemorySet_new_bare example_big =
      Inr (\<lparr>page_table = \<lparr>root_ppn = f, pt_frames = [f]\<rparr>, areas = []\<rparr>, s1)"
    and wf: "pt_wf s1 \<lparr>root_ppn = f, pt_frames = [f]\<rparr>"
    and ab: "pt_abs (mem s1) \<lparr>root_ppn = f, pt_frames = [f]\<rparr> = Map.empty"
    and n: "falloc_free (falloc example_big) = Suc (falloc_free (falloc s1))"
    by (rule MemorySet_new_bare_spec [OF inv(1)]) (use inv(2) in auto)
  let ?ms = "\<lparr>page_table = \<lparr>root_ppn = f, pt_frames = [f]\<rparr>, areas = []\<rparr>"
  have ms: "ms_wf s1 ?ms" using wf by (simp add: ms_wf_def)
  have "alloc_room RecycleAllocator_new = Some (1, \<lparr>ra_current = 2, ra_recycled = []\<rparr>)"
    "ra_inv RecycleAllocator_new"
    by (simp_all add: alloc_room_def RecycleAllocator_alloc_def RecycleAllocator_new_def ra_inv_def)
  with kernel_stack_round_trip [OF ms, of RecycleAllocator_new 1] nb ab n inv(2) show ?thesis
    by (fastforce simp: areas_disjoint_def max_kstack_def)
qed

end
