(* ===== verification/Process.thy ===== *)
theory Process
  imports Elf_Load Task_Id Pipe "HOL-Library.Signed_Division"
begin

text \<open>
  Processes (os/src/task/task.rs, context.rs, os/src/trap/context.rs): trap contexts in memory, task
  control blocks, creation from an ELF file, \<open>exec\<close>, \<open>fork\<close>, \<open>spawn\<close>, the program break, and the end of
  a task control block. The reference-counted blocks live in a store addressed by PID; every place that
  holds a reference (the ready queue, the processor, the lists of children, the static \<open>INITPROC\<close>) holds
  the PID. A cell that is borrowed twice panics. \<open>now\<close> is the value of the time register.
\<close>

section \<open>Contexts\<close>

record TaskContext =
  cx_ra :: usize
  cx_sp :: usize
  cx_s :: "usize list"

definition TaskContext_zero_init :: TaskContext where
  "TaskContext_zero_init = \<lparr>cx_ra = 0, cx_sp = 0, cx_s = replicate 12 0\<rparr>"

definition goto_trap_return :: "usize \<Rightarrow> usize \<Rightarrow> TaskContext" where
  "goto_trap_return trap_return kstack_ptr = \<lparr>cx_ra = trap_return, cx_sp = kstack_ptr, cx_s = replicate 12 0\<rparr>"

record TrapContext =
  cx_x :: "usize list"
  sstatus :: usize
  sepc :: usize
  kernel_satp :: usize
  kernel_sp :: usize
  cx_trap_handler :: usize

definition set_sp :: "usize \<Rightarrow> TrapContext \<Rightarrow> TrapContext" where
  "set_sp sp cx = cx\<lparr>cx_x := (cx_x cx)[2 := sp]\<rparr>"

text \<open>
  \<open>user_sstatus\<close> is the status register with the previous privilege set to user mode, as the riscv crate
  returns it.
\<close>

definition app_init_context :: "usize \<Rightarrow> usize \<Rightarrow> usize \<Rightarrow> usize \<Rightarrow> usize \<Rightarrow> usize \<Rightarrow> TrapContext" where
  "app_init_context user_sstatus entry sp ksatp ksp handler =
     set_sp sp \<lparr>cx_x = replicate 32 0, sstatus = user_sstatus, sepc = entry, kernel_satp = ksatp, kernel_sp = ksp,
       cx_trap_handler = handler\<rparr>"

definition TrapContext_bytes :: "TrapContext \<Rightarrow> u8 list" where
  "TrapContext_bytes cx =
     concat (map le64 (cx_x cx @ [sstatus cx, sepc cx, kernel_satp cx, kernel_sp cx, cx_trap_handler cx]))"

text \<open>The words of a trap context at an address: registers 0 to 31, then the other fields.\<close>

definition cx_word :: "pmem \<Rightarrow> nat \<Rightarrow> nat \<Rightarrow> usize" where
  "cx_word m a i = de64 (read_bytes m (a + 8 * i) 8)"

definition set_cx_word :: "nat \<Rightarrow> nat \<Rightarrow> usize \<Rightarrow> mm \<Rightarrow> mm" where
  "set_cx_word a i w s = s\<lparr>mem := write_bytes (mem s) (a + 8 * i) (le64 w)\<rparr>"

definition write_cx :: "nat \<Rightarrow> TrapContext \<Rightarrow> mm \<Rightarrow> mm" where
  "write_cx a cx s = s\<lparr>mem := write_bytes (mem s) a (TrapContext_bytes cx)\<rparr>"

section \<open>Task control blocks\<close>

record TaskInfo =
  ti_start :: u64
  ti_all :: u64
  ti_stime :: u64
  ti_cutime :: u64
  ti_cstime :: u64

definition TaskInfo_new :: "usize \<Rightarrow> TaskInfo" where
  "TaskInfo_new now = \<lparr>ti_start = now, ti_all = 0, ti_stime = 0, ti_cutime = 0, ti_cstime = 0\<rparr>"

text \<open>These take the record by value: they change a copy that is then dropped.\<close>

definition update_sys :: "TaskInfo \<Rightarrow> usize \<Rightarrow> TaskInfo" where
  "update_sys self ms = self\<lparr>ti_stime := ti_stime self + ms\<rparr>"

definition update_cu :: "TaskInfo \<Rightarrow> usize \<Rightarrow> TaskInfo" where
  "update_cu self time = self\<lparr>ti_cutime := time\<rparr>"

definition update_cs :: "TaskInfo \<Rightarrow> usize \<Rightarrow> TaskInfo" where
  "update_cs self time = self\<lparr>ti_cstime := time\<rparr>"

datatype TaskStatus = UnInit | Ready | Running | Zombie

text \<open>The files a descriptor can name; pipes and inodes are shared objects with a number.\<close>

datatype File = Stdin | Stdout | PipeRead nat | PipeWrite nat | Inode nat

record TaskControlBlock =
  pid :: usize
  ppid :: usize
  kernel_stack :: usize
  trap_cx_ppn :: PhysPageNum
  base_size :: usize
  task_cx :: TaskContext
  task_status :: TaskStatus
  memory_set :: MemorySet
  parent :: "usize option"
  children :: "usize list"
  exit_code :: u32
  fd_table :: "File option list"
  heap_bottom :: usize
  program_brk :: usize
  task_info :: TaskInfo
  stride :: usize
  pri :: usize
  pwd :: "u8 list"

record kernel =
  kmm :: mm
  KERNEL_SPACE :: MemorySet
  PID_ALLOCATOR :: RecycleAllocator
  KSTACK_ALLOCATOR :: RecycleAllocator
  tasks :: "(usize \<times> TaskControlBlock) list"
  ready_queue :: "usize list"
  processor_current :: "usize option"
  idle_task_cx :: TaskContext
  cpu :: TaskContext
  INITPROC :: usize

text \<open>
  \<open>cpu\<close> holds the registers that \<open>__switch\<close> saves and loads: the return address, the stack pointer and
  the saved registers. What the linker, the compiler and the riscv crate fix: section addresses, code addresses, status.\<close>

record platform =
  symbols :: linker_symbols
  trap_return_addr :: usize
  trap_handler_addr :: usize
  user_sstatus :: usize

definition get_task :: "usize \<Rightarrow> kernel \<Rightarrow> TaskControlBlock res" where
  "get_task p k = unwrapR (map_of (tasks k) p)"

definition put_task :: "usize \<Rightarrow> TaskControlBlock \<Rightarrow> kernel \<Rightarrow> kernel" where
  "put_task p t k = k\<lparr>tasks := (p, t) # filter (\<lambda>(q, _). q \<noteq> p) (tasks k)\<rparr>"

definition strong_count :: "usize \<Rightarrow> kernel \<Rightarrow> nat" where
  "strong_count p k =
     count_list (ready_queue k) p + (if processor_current k = Some p then 1 else 0) + (if INITPROC k = p then 1 else 0) +
     sum_list (map (\<lambda>(_, t). count_list (children t) p) (tasks k))"

definition get_trap_cx :: "TaskControlBlock \<Rightarrow> nat res" where
  "get_trap_cx t = get_mut (pa_of_ppn (trap_cx_ppn t))"

definition get_user_token :: "TaskControlBlock \<Rightarrow> usize" where
  "get_user_token t = MemorySet_token (memory_set t)"

definition is_zombie :: "TaskControlBlock \<Rightarrow> bool" where
  "is_zombie t \<longleftrightarrow> task_status t = Zombie"

definition alloc_fd :: "TaskControlBlock \<Rightarrow> nat \<times> TaskControlBlock" where
  "alloc_fd t =
     (case find_index (\<lambda>f. f = None) (fd_table t) of
        Some fd \<Rightarrow> (fd, t)
      | None \<Rightarrow> (let t' = t\<lparr>fd_table := fd_table t @ [None]\<rparr> in (length (fd_table t') - 1, t')))"

definition set_pwd :: "u8 list \<Rightarrow> TaskControlBlock \<Rightarrow> TaskControlBlock" where
  "set_pwd new_pwd t = t\<lparr>pwd := new_pwd\<rparr>"

section \<open>Creation\<close>

definition trap_cx_page :: "MemorySet \<Rightarrow> mm \<Rightarrow> PhysPageNum res" where
  "trap_cx_page ms s =
     bindR (vpn_of_va (VirtAddr_from TRAP_CONTEXT_BASE)) (\<lambda>vpn.
     bindR (unwrapR (MemorySet_translate (mem s) ms vpn)) (\<lambda>e. Inr (pte_ppn e)))"

text \<open>\<open>pid_alloc\<close> and \<open>kstack_alloc\<close> on the kernel's global allocators.\<close>

definition pid_alloc :: "kernel \<Rightarrow> usize \<times> kernel" where
  "pid_alloc k = (let (p, a) = RecycleAllocator_alloc (PID_ALLOCATOR k) in (p, k\<lparr>PID_ALLOCATOR := a\<rparr>))"

definition new_kstack :: "kernel \<Rightarrow> (usize \<times> kernel) res" where
  "new_kstack k =
     bindR (kstack_alloc (KSTACK_ALLOCATOR k) (KERNEL_SPACE k) (kmm k)) (\<lambda>(ks, a, space, s).
     Inr (ks, k\<lparr>KSTACK_ALLOCATOR := a, KERNEL_SPACE := space, kmm := s\<rparr>))"

definition std_fds :: "File option list" where
  "std_fds = [Some Stdin, Some Stdout, Some Stdout]"

definition init_cx :: "platform \<Rightarrow> usize \<Rightarrow> usize \<Rightarrow> usize \<Rightarrow> kernel \<Rightarrow> TrapContext" where
  "init_cx P entry sp kstack_top k =
     app_init_context (user_sstatus P) entry sp (MemorySet_token (KERNEL_SPACE k)) kstack_top (trap_handler_addr P)"

definition TaskControlBlock_new ::
  "zread \<Rightarrow> platform \<Rightarrow> usize \<Rightarrow> u8_slice \<Rightarrow> kernel \<Rightarrow> (TaskControlBlock \<times> kernel) res" where
  "TaskControlBlock_new zread P now elf_data k =
     bindR (MemorySet_from_elf zread (symbols P) elf_data (kmm k)) (\<lambda>((ms, user_sp, entry), s1).
     bindR (trap_cx_page ms s1) (\<lambda>ppn.
     let (p, k1) = pid_alloc (k\<lparr>kmm := s1\<rparr>) in
     bindR (new_kstack k1) (\<lambda>(ks, k2).
     let top = kernel_stack_top ks;
         t = \<lparr>pid = p, ppid = 0, kernel_stack = ks, trap_cx_ppn = ppn, base_size = user_sp,
              task_cx = goto_trap_return (trap_return_addr P) top, task_status = Ready, memory_set = ms,
              parent = None, children = [], exit_code = 0, fd_table = std_fds, heap_bottom = user_sp,
              program_brk = user_sp + PAGE_SIZE, task_info = TaskInfo_new now, stride = 0, pri = 16, pwd = [47]\<rparr>
     in
     bindR (get_trap_cx t) (\<lambda>a.
     Inr (t, k2\<lparr>kmm := write_cx a (init_cx P entry user_sp top k2) (kmm k2)\<rparr>)))))"

text \<open>\<open>exec\<close>: the assignment of the new address space drops the old one.\<close>

definition TaskControlBlock_exec ::
  "zread \<Rightarrow> platform \<Rightarrow> usize \<Rightarrow> u8_slice \<Rightarrow> kernel \<Rightarrow> kernel res" where
  "TaskControlBlock_exec zread P self elf_data k =
     bindR (MemorySet_from_elf zread (symbols P) elf_data (kmm k)) (\<lambda>((ms, user_sp, entry), s1).
     bindR (trap_cx_page ms s1) (\<lambda>ppn.
     bindR (get_task self k) (\<lambda>inner.
     bindR (MemorySet_drop (memory_set inner) s1) (\<lambda>s2.
     let t = inner\<lparr>memory_set := ms, trap_cx_ppn := ppn\<rparr>;
         cx = init_cx P entry user_sp (kernel_stack_top (kernel_stack t)) k
     in
     bindR (get_trap_cx t) (\<lambda>a. Inr (put_task self t (k\<lparr>kmm := write_cx a cx s2\<rparr>)))))))"

definition TaskControlBlock_fork :: "platform \<Rightarrow> usize \<Rightarrow> usize \<Rightarrow> kernel \<Rightarrow> (usize \<times> kernel) res" where
  "TaskControlBlock_fork P now self k =
     bindR (get_task self k) (\<lambda>parent_inner.
     bindR (MemorySet_from_existed_user (symbols P) (memory_set parent_inner) (kmm k)) (\<lambda>(ms, s1).
     bindR (trap_cx_page ms s1) (\<lambda>ppn.
     let (p, k1) = pid_alloc (k\<lparr>kmm := s1\<rparr>) in
     bindR (new_kstack k1) (\<lambda>(ks, k2).
     let top = kernel_stack_top ks;
         t = \<lparr>pid = p, ppid = pid parent_inner, kernel_stack = ks, trap_cx_ppn = ppn, base_size = base_size parent_inner,
              task_cx = goto_trap_return (trap_return_addr P) top, task_status = Ready, memory_set = ms,
              parent = Some self, children = [], exit_code = 0, fd_table = fd_table parent_inner,
              heap_bottom = heap_bottom parent_inner, program_brk = program_brk parent_inner,
              task_info = TaskInfo_new now, stride = 0, pri = 16, pwd = pwd parent_inner\<rparr>
     in
     bindR (get_trap_cx t) (\<lambda>a.
     Inr (p, (put_task self (parent_inner\<lparr>children := children parent_inner @ [p]\<rparr>) (put_task p t k2))
       \<lparr>kmm := set_cx_word a 35 top (kmm k2)\<rparr>))))))"

definition TaskControlBlock_spawn ::
  "zread \<Rightarrow> platform \<Rightarrow> usize \<Rightarrow> usize \<Rightarrow> u8_slice \<Rightarrow> kernel \<Rightarrow> (usize \<times> kernel) res" where
  "TaskControlBlock_spawn zread P now self elf_data k =
     bindR (get_task self k) (\<lambda>parent_inner.
     bindR (MemorySet_from_elf zread (symbols P) elf_data (kmm k)) (\<lambda>((ms, user_sp, entry), s1).
     bindR (trap_cx_page ms s1) (\<lambda>ppn.
     let (p, k1) = pid_alloc (k\<lparr>kmm := s1\<rparr>) in
     bindR (new_kstack k1) (\<lambda>(ks, k2).
     let top = kernel_stack_top ks;
         t = \<lparr>pid = p, ppid = pid parent_inner, kernel_stack = ks, trap_cx_ppn = ppn, base_size = user_sp,
              task_cx = goto_trap_return (trap_return_addr P) top, task_status = Ready, memory_set = ms,
              parent = Some self, children = [], exit_code = 0, fd_table = std_fds,
              heap_bottom = heap_bottom parent_inner, program_brk = program_brk parent_inner,
              task_info = TaskInfo_new now, stride = 0, pri = 16, pwd = pwd parent_inner\<rparr>
     in
     bindR (get_trap_cx t) (\<lambda>a.
     Inr (p, (put_task self (parent_inner\<lparr>children := children parent_inner @ [p]\<rparr>) (put_task p t k2))
       \<lparr>kmm := write_cx a (init_cx P entry user_sp top k2) (kmm k2)\<rparr>))))))"

section \<open>Priority, program break, mappings\<close>

text \<open>\<open>stride\<close> and \<open>pri\<close> are signed 64-bit values; division panics on 0 and on overflow.\<close>

definition BIGSTRIDE :: usize where "BIGSTRIDE = 2550"

definition isize_div :: "usize \<Rightarrow> usize \<Rightarrow> usize res" where
  "isize_div a b =
     (if b = 0 then Inl DivideByZero
      else if sint a = - (2 ^ 63) \<and> sint b = - 1 then Inl (ExplicitPanic ''attempt to divide with overflow'')
      else Inr (word_of_int (sint a sdiv sint b)))"

definition set_priority :: "usize \<Rightarrow> TaskControlBlock \<Rightarrow> TaskControlBlock" where
  "set_priority prio t = t\<lparr>pri := prio\<rparr>"

definition update_stri :: "TaskControlBlock \<Rightarrow> TaskControlBlock res" where
  "update_stri t = bindR (isize_div BIGSTRIDE (pri t)) (\<lambda>d. Inr (t\<lparr>stride := stride t + d\<rparr>))"

definition change_program_brk :: "usize \<Rightarrow> TaskControlBlock \<Rightarrow> mm \<Rightarrow> (usize option \<times> TaskControlBlock \<times> mm) res" where
  "change_program_brk new_add t s =
     (let bottom = heap_bottom t; old_break = program_brk t in
      if new_add = 0 then Inr (Some old_break, t, s)
      else
        let size = new_add - old_break; new_brk = program_brk t + size in
        if sint new_brk < sint bottom then Inr (None, t, s)
        else if sint size > sint PAGE_SIZE then
          bindR (if sint size < 0 then MemorySet_shrink_to (memory_set t) (VirtAddr bottom) (VirtAddr new_brk) s
                 else MemorySet_append_to (memory_set t) (VirtAddr bottom) (VirtAddr new_brk) s)
            (\<lambda>(result, ms, s').
             let t' = t\<lparr>memory_set := ms\<rparr> in
             if result then Inr (Some old_break, t'\<lparr>program_brk := new_brk\<rparr>, s') else Inr (None, t', s'))
        else Inr (Some new_brk, t\<lparr>program_brk := new_brk\<rparr>, s))"

definition show_info :: "TaskControlBlock \<Rightarrow> TaskInfo" where
  "show_info t = task_info t"

definition TaskControlBlock_map ::
  "VirtPageNum \<Rightarrow> PhysPageNum \<Rightarrow> u8 \<Rightarrow> TaskControlBlock \<Rightarrow> mm \<Rightarrow> (usize \<times> TaskControlBlock \<times> mm) res" where
  "TaskControlBlock_map vpn ppn flags t s =
     bindR (MemorySet_map (memory_set t) vpn ppn flags s) (\<lambda>(ms, s'). Inr (0, t\<lparr>memory_set := ms\<rparr>, s'))"

definition TaskControlBlock_unmap ::
  "VirtPageNum \<Rightarrow> TaskControlBlock \<Rightarrow> mm \<Rightarrow> (usize \<times> TaskControlBlock \<times> mm) res" where
  "TaskControlBlock_unmap vpn t s =
     bindR (MemorySet_unmap (memory_set t) vpn s) (\<lambda>(ms, s'). Inr (0, t\<lparr>memory_set := ms\<rparr>, s'))"

section \<open>The end of a task control block\<close>

text \<open>
  Dropping the last reference drops the fields in order: the PID handle, the kernel stack and the inner
  structure with its address space. The block then leaves the store.
\<close>

definition drop_task :: "usize \<Rightarrow> kernel \<Rightarrow> kernel res" where
  "drop_task p k =
     bindR (get_task p k) (\<lambda>t.
     bindR (RecycleAllocator_dealloc (PID_ALLOCATOR k) (pid t)) (\<lambda>pa.
     bindR (KernelStack_drop (kernel_stack t) (KSTACK_ALLOCATOR k) (KERNEL_SPACE k) (kmm k)) (\<lambda>(ka, space, s1).
     bindR (MemorySet_drop (memory_set t) s1) (\<lambda>s2.
     Inr (k\<lparr>PID_ALLOCATOR := pa, KSTACK_ALLOCATOR := ka, KERNEL_SPACE := space, kmm := s2,
            tasks := filter (\<lambda>(q, _). q \<noteq> p) (tasks k)\<rparr>)))))"

end
