(* ===== verification/Scheduler.thy ===== *)
theory Scheduler
  imports Process
begin

text \<open>
  The scheduler (os/src/task/manager.rs, processor.rs, switch.S, mod.rs): the ready queue with the choice
  of the smallest stride, the processor's current task, the switch of contexts, and how the current task
  leaves the processor by suspending itself or by exiting.
\<close>

section \<open>The ready queue\<close>

definition add_task :: "usize \<Rightarrow> kernel \<Rightarrow> kernel" where
  "add_task p k = k\<lparr>ready_queue := ready_queue k @ [p]\<rparr>"

fun fetch_scan :: "kernel \<Rightarrow> nat \<Rightarrow> usize list \<Rightarrow> nat \<Rightarrow> usize \<Rightarrow> nat res" where
  "fetch_scan k i [] best strd = Inr best"
| "fetch_scan k i (p # ps) best strd =
     bindR (get_task p k) (\<lambda>inner.
     if sint (stride inner) \<le> sint strd then fetch_scan k (Suc i) ps i (stride inner)
     else fetch_scan k (Suc i) ps best strd)"

definition fetch_task :: "kernel \<Rightarrow> (usize option \<times> kernel) res" where
  "fetch_task k =
     (let q = ready_queue k in
      bindR (unwrapR (if q = [] then None else Some (hd q))) (\<lambda>p0.
      bindR (get_task p0 k) (\<lambda>inner1.
      bindR (fetch_scan k 0 q 0 (stride inner1)) (\<lambda>id.
      Inr (if id < length q then (Some (q ! id), k\<lparr>ready_queue := take id q @ drop (Suc id) q\<rparr>) else (None, k))))))"

section \<open>The processor\<close>

definition take_current_task :: "kernel \<Rightarrow> usize option \<times> kernel" where
  "take_current_task k = (processor_current k, k\<lparr>processor_current := None\<rparr>)"

definition current_task :: "kernel \<Rightarrow> usize res" where
  "current_task k = unwrapR (processor_current k)"

definition current_user_token :: "kernel \<Rightarrow> usize res" where
  "current_user_token k = bindR (current_task k) (\<lambda>p. bindR (get_task p k) (\<lambda>t. Inr (get_user_token t)))"

definition current_trap_cx :: "kernel \<Rightarrow> nat res" where
  "current_trap_cx k = bindR (current_task k) (\<lambda>p. bindR (get_task p k) get_trap_cx)"

text \<open>\<open>update_time\<close> calls \<open>update_sys\<close> on a copy: the task keeps its record.\<close>

definition update_time :: "usize \<Rightarrow> kernel \<Rightarrow> kernel res" where
  "update_time ms k =
     bindR (current_task k) (\<lambda>p. bindR (get_task p k) (\<lambda>t. let copy = update_sys (task_info t) ms in Inr k))"

definition current_map_one :: "VirtPageNum \<Rightarrow> PhysPageNum \<Rightarrow> u8 \<Rightarrow> kernel \<Rightarrow> (usize \<times> kernel) res" where
  "current_map_one vpn ppn flags k =
     bindR (current_task k) (\<lambda>p. bindR (get_task p k) (\<lambda>t.
     bindR (TaskControlBlock_map vpn ppn flags t (kmm k)) (\<lambda>(r, t', s). Inr (r, put_task p t' (k\<lparr>kmm := s\<rparr>)))))"

definition current_unmap_one :: "VirtPageNum \<Rightarrow> kernel \<Rightarrow> (usize \<times> kernel) res" where
  "current_unmap_one vpn k =
     bindR (current_task k) (\<lambda>p. bindR (get_task p k) (\<lambda>t.
     bindR (TaskControlBlock_unmap vpn t (kmm k)) (\<lambda>(r, t', s). Inr (r, put_task p t' (k\<lparr>kmm := s\<rparr>)))))"

text \<open>\<open>__switch\<close> stores the registers in the first context and loads them from the second.\<close>

definition switch_cx :: "TaskContext \<Rightarrow> TaskContext \<Rightarrow> TaskContext \<times> TaskContext" where
  "switch_cx regs next_cx =
     (\<lparr>cx_ra = cx_ra regs, cx_sp = cx_sp regs, cx_s = cx_s regs\<rparr>,
      \<lparr>cx_ra = cx_ra next_cx, cx_sp = cx_sp next_cx, cx_s = cx_s next_cx\<rparr>)"

text \<open>One pass of the loop of \<open>run_tasks\<close>, up to the switch to the task.\<close>

definition run_tasks_pass :: "usize \<Rightarrow> kernel \<Rightarrow> kernel res" where
  "run_tasks_pass now k =
     bindR (fetch_task k) (\<lambda>(next_task, k1). case next_task of
       None \<Rightarrow> Inr k1
     | Some p \<Rightarrow>
         bindR (get_task p k1) (\<lambda>inner.
         let t1 = inner\<lparr>task_status := Running, task_info := (task_info inner)\<lparr>ti_start := now\<rparr>\<rparr> in
         bindR (update_stri t1) (\<lambda>t2.
         let (idle, regs) = switch_cx (cpu k1) (task_cx t2) in
         Inr ((put_task p t2 k1)\<lparr>processor_current := Some p, idle_task_cx := idle, cpu := regs\<rparr>))))"

text \<open>\<open>schedule\<close> switches to the idle loop; the context of the caller is given to \<open>save\<close>.\<close>

definition schedule :: "(TaskContext \<Rightarrow> kernel \<Rightarrow> kernel res) \<Rightarrow> kernel \<Rightarrow> kernel res" where
  "schedule save k = (let (cx, regs) = switch_cx (cpu k) (idle_task_cx k) in save cx (k\<lparr>cpu := regs\<rparr>))"

definition save_task_cx :: "usize \<Rightarrow> TaskContext \<Rightarrow> kernel \<Rightarrow> kernel res" where
  "save_task_cx p cx k = bindR (get_task p k) (\<lambda>t. Inr (put_task p (t\<lparr>task_cx := cx\<rparr>) k))"

section \<open>Leaving the processor\<close>

definition add_run_time :: "usize \<Rightarrow> TaskInfo \<Rightarrow> TaskInfo" where
  "add_run_time ms ti = ti\<lparr>ti_all := ti_all ti + (ms - ti_start ti)\<rparr>"

definition suspend_current_and_run_next :: "usize \<Rightarrow> kernel \<Rightarrow> kernel res" where
  "suspend_current_and_run_next now k =
     (let (cur, k1) = take_current_task k in
      bindR (unwrapR cur) (\<lambda>p.
      bindR (get_task p k1) (\<lambda>inner.
      let t = inner\<lparr>task_status := Ready, task_info := add_run_time now (task_info inner)\<rparr> in
      schedule (save_task_cx p) (add_task p (put_task p t k1)))))"

definition IDLE_PID :: usize where "IDLE_PID = 0"

text \<open>
  The children move to \<open>INITPROC\<close>. Its cell is borrowed during the loop, so a second borrow panics; so
  does the borrow of the exiting task's own cell.
\<close>

fun move_children :: "usize \<Rightarrow> usize list \<Rightarrow> kernel \<Rightarrow> kernel res" where
  "move_children self [] k = Inr k"
| "move_children self (c # cs) k =
     (if c = INITPROC k \<or> c = self then Inl (ExplicitPanic ''already borrowed'')
      else
        bindR (get_task c k) (\<lambda>child.
        let k1 = put_task c (child\<lparr>parent := Some (INITPROC k)\<rparr>) k in
        bindR (get_task (INITPROC k) k1) (\<lambda>init.
        move_children self cs (put_task (INITPROC k) (init\<lparr>children := children init @ [c]\<rparr>) k1))))"

text \<open>A task whose last reference goes away is dropped; its list of children is empty by then.\<close>

definition release_task :: "usize \<Rightarrow> kernel \<Rightarrow> kernel res" where
  "release_task p k = (if strong_count p k = 0 then drop_task p k else Inr k)"

definition exit_current_and_run_next :: "usize \<Rightarrow> u32 \<Rightarrow> kernel \<Rightarrow> kernel res" where
  "exit_current_and_run_next now code k =
     (let (cur, k1) = take_current_task k in
      bindR (unwrapR cur) (\<lambda>p.
      bindR (get_task p k1) (\<lambda>inner0.
      if pid inner0 = IDLE_PID then Inl (ExplicitPanic ''all applications completed'')
      else
        let inner = inner0\<lparr>task_info := add_run_time now (task_info inner0), task_status := Zombie, exit_code := code\<rparr> in
        if p = INITPROC k1 then Inl (ExplicitPanic ''already borrowed'')
        else
          bindR (move_children p (children inner) k1) (\<lambda>k2.
          bindR (recycle_data_pages (memory_set inner) (kmm k2)) (\<lambda>(ms, s).
          let k3 = put_task p (inner\<lparr>children := [], memory_set := ms, fd_table := []\<rparr>) (k2\<lparr>kmm := s\<rparr>) in
          bindR (release_task p k3) (schedule (\<lambda>cx k'. Inr k')))))))"

text \<open>The static \<open>INITPROC\<close> is made from the shell program on its first use.\<close>

definition create_initproc :: "zread \<Rightarrow> platform \<Rightarrow> usize \<Rightarrow> u8_slice \<Rightarrow> kernel \<Rightarrow> kernel res" where
  "create_initproc zread P now elf_data k =
     bindR (TaskControlBlock_new zread P now elf_data k) (\<lambda>(t, k1). Inr (put_task (pid t) t (k1\<lparr>INITPROC := pid t\<rparr>)))"

definition add_initproc :: "kernel \<Rightarrow> kernel" where
  "add_initproc k = add_task (INITPROC k) k"

section \<open>The task store\<close>

lemma get_put_same [simp]: "get_task p (put_task p t k) = Inr t"
  by (simp add: get_task_def put_task_def)

lemma map_of_filter_other: "q \<noteq> p \<Longrightarrow> map_of (filter (\<lambda>(r, _). r \<noteq> p) ts) q = map_of ts q"
  by (induction ts) auto

lemma get_put_other [simp]: "q \<noteq> p \<Longrightarrow> get_task q (put_task p t k) = get_task q k"
  by (simp add: get_task_def put_task_def map_of_filter_other)

lemma get_task_update [simp]:
  "get_task p (k\<lparr>ready_queue := x1\<rparr>) = get_task p k" "get_task p (k\<lparr>processor_current := x2\<rparr>) = get_task p k"
  "get_task p (k\<lparr>idle_task_cx := x3\<rparr>) = get_task p k" "get_task p (k\<lparr>cpu := x4\<rparr>) = get_task p k"
  "get_task p (k\<lparr>kmm := x5\<rparr>) = get_task p k" "get_task p (k\<lparr>PID_ALLOCATOR := x6\<rparr>) = get_task p k"
  "get_task p (k\<lparr>KSTACK_ALLOCATOR := x7\<rparr>) = get_task p k" "get_task p (k\<lparr>KERNEL_SPACE := x8\<rparr>) = get_task p k"
  by (simp_all add: get_task_def)

lemma put_task_simps [simp]:
  "ready_queue (put_task p t k) = ready_queue k" "processor_current (put_task p t k) = processor_current k"
  "idle_task_cx (put_task p t k) = idle_task_cx k" "cpu (put_task p t k) = cpu k" "kmm (put_task p t k) = kmm k"
  "INITPROC (put_task p t k) = INITPROC k" "PID_ALLOCATOR (put_task p t k) = PID_ALLOCATOR k"
  "KSTACK_ALLOCATOR (put_task p t k) = KSTACK_ALLOCATOR k" "KERNEL_SPACE (put_task p t k) = KERNEL_SPACE k"
  by (simp_all add: put_task_def)

lemma get_task_add_task [simp]: "get_task p (add_task q k) = get_task p k"
  by (simp add: add_task_def)

lemma switch_cx_simp [simp]: "switch_cx regs cx = (regs, cx)"
  by (simp add: switch_cx_def)

definition task_of :: "kernel \<Rightarrow> usize \<Rightarrow> TaskControlBlock" where
  "task_of k p = the (map_of (tasks k) p)"

definition has_task :: "kernel \<Rightarrow> usize \<Rightarrow> bool" where
  "has_task k p \<longleftrightarrow> map_of (tasks k) p \<noteq> None"

lemma get_task_of: "has_task k p \<Longrightarrow> get_task p k = Inr (task_of k p)"
  by (auto simp: get_task_def has_task_def task_of_def)

lemma get_task_InrD: "get_task p k = Inr t \<Longrightarrow> has_task k p \<and> task_of k p = t"
  by (auto simp: get_task_def has_task_def task_of_def unwrapR_def split: option.splits)

lemma task_of_eqI: "get_task p k = get_task p k' \<Longrightarrow> has_task k p \<Longrightarrow> has_task k' p \<and> task_of k' p = task_of k p"
  using get_task_of get_task_InrD by metis

end
