(* ===== verification/Syscall_Process.thy ===== *)
theory Syscall_Process
  imports Scheduler
begin

text \<open>
  The process system calls (os/src/syscall/process.rs) and the time conversions (os/src/timer.rs), except
  those that open a file. A call that blocks is given by one pass of its loop: the result \<open>None\<close> says that
  the task has given up the processor and repeats the pass when it runs again. Results are the machine
  words of the signed values.
\<close>

unbundle bit_operations_syntax

section \<open>Time\<close>

definition CLOCK_FREQ :: usize where "CLOCK_FREQ = 12500000"
definition TICKS_PER_SEC :: usize where "TICKS_PER_SEC = 100"
definition MSEC_PER_SEC :: usize where "MSEC_PER_SEC = 1000"
definition MICRO_PER_SEC :: usize where "MICRO_PER_SEC = 1000000"

definition get_time_ms :: "usize \<Rightarrow> usize" where
  "get_time_ms now = now * MSEC_PER_SEC div CLOCK_FREQ"

definition get_time_us :: "usize \<Rightarrow> usize" where
  "get_time_us now = now * MICRO_PER_SEC div CLOCK_FREQ"

text \<open>The time at which \<open>set_next_trigger\<close> asks the firmware for the next timer interrupt.\<close>

definition next_trigger :: "usize \<Rightarrow> usize" where
  "next_trigger now = now + CLOCK_FREQ div TICKS_PER_SEC"

section \<open>Life of a process\<close>

definition sys_exit :: "usize \<Rightarrow> u32 \<Rightarrow> kernel \<Rightarrow> kernel res" where
  "sys_exit now code k = bindR (current_task k) (\<lambda>_. exit_current_and_run_next now code k)"

definition sys_yield :: "usize \<Rightarrow> kernel \<Rightarrow> (usize \<times> kernel) res" where
  "sys_yield now k = bindR (suspend_current_and_run_next now k) (\<lambda>k'. Inr (0, k'))"

definition sys_getpid :: "kernel \<Rightarrow> usize res" where
  "sys_getpid k = bindR (current_task k) (\<lambda>p. bindR (get_task p k) (\<lambda>t. Inr (pid t)))"

definition sys_getppid :: "kernel \<Rightarrow> usize res" where
  "sys_getppid k = bindR (current_task k) (\<lambda>p. bindR (get_task p k) (\<lambda>t. Inr (ppid t)))"

definition sys_fork :: "platform \<Rightarrow> usize \<Rightarrow> usize \<Rightarrow> kernel \<Rightarrow> (usize \<times> kernel) res" where
  "sys_fork P now stack k =
     bindR (current_task k) (\<lambda>self.
     bindR (TaskControlBlock_fork P now self k) (\<lambda>(new_pid, k1).
     bindR (get_task new_pid k1) (\<lambda>new_task.
     bindR (get_trap_cx new_task) (\<lambda>a.
     let s1 = set_cx_word a 10 0 (kmm k1);
         s2 = (if stack \<noteq> 0 then set_cx_word a 2 stack s1 else s1)
     in Inr (new_pid, add_task new_pid (k1\<lparr>kmm := s2\<rparr>))))))"

fun find_zombie :: "kernel \<Rightarrow> usize \<Rightarrow> usize \<Rightarrow> nat \<Rightarrow> usize list \<Rightarrow> nat option res" where
  "find_zombie k self q i [] = Inr None"
| "find_zombie k self q i (c # cs) =
     (if c = self then Inl (ExplicitPanic ''already borrowed'')
      else bindR (get_task c k) (\<lambda>t.
        if is_zombie t \<and> (q = - 1 \<or> q = c) then Inr (Some i) else find_zombie k self q (Suc i) cs))"

definition waitpid :: "usize \<Rightarrow> usize \<Rightarrow> kernel \<Rightarrow> (usize \<times> kernel) res" where
  "waitpid q exit_code_ptr k =
     bindR (current_task k) (\<lambda>self.
     bindR (get_task self k) (\<lambda>inner.
     if \<not> list_ex (\<lambda>c. q = - 1 \<or> q = c) (children inner) then Inr (- 1, k)
     else
       bindR (find_zombie k self q 0 (children inner)) (\<lambda>pair. case pair of
         None \<Rightarrow> Inr (- 2, k)
       | Some idx \<Rightarrow>
           let child = children inner ! idx;
               k1 = put_task self (inner\<lparr>children := take idx (children inner) @ drop (Suc idx) (children inner)\<rparr>) k
           in
           bindR (assertR (strong_count child k1 + 1 = 1)) (\<lambda>_.
           bindR (get_task child k1) (\<lambda>t.
           bindR (if exit_code_ptr \<noteq> 0 then
                    bindR (translated_refmut (mem (kmm k1)) (get_user_token inner) exit_code_ptr) (\<lambda>a.
                    Inr (k1\<lparr>kmm := (kmm k1)\<lparr>mem := write_bytes (mem (kmm k1)) a (le32 (push_bit 8 (exit_code t)))\<rparr>\<rparr>))
                  else Inr k1) (\<lambda>k2.
           bindR (drop_task child k2) (\<lambda>k3. Inr (child, k3))))))))"

definition sys_waitpid_pass :: "usize \<Rightarrow> usize \<Rightarrow> usize \<Rightarrow> kernel \<Rightarrow> (usize option \<times> kernel) res" where
  "sys_waitpid_pass now q exit_code_ptr k =
     bindR (waitpid q exit_code_ptr k) (\<lambda>(n, k1).
     if n = - 2 then bindR (sys_yield now k1) (\<lambda>(_, k2). Inr (None, k2)) else Inr (Some n, k1))"

definition sys_set_priority :: "usize \<Rightarrow> kernel \<Rightarrow> (usize \<times> kernel) res" where
  "sys_set_priority prio k =
     (if sint prio \<le> 1 then Inr (- 1, k)
      else
        bindR (current_task k) (\<lambda>p. bindR (get_task p k) (\<lambda>t. Inr (prio, put_task p (set_priority prio t) k))))"

section \<open>Memory\<close>

definition sys_brk :: "usize \<Rightarrow> kernel \<Rightarrow> (usize \<times> kernel) res" where
  "sys_brk brk k =
     bindR (current_task k) (\<lambda>p.
     bindR (get_task p k) (\<lambda>t.
     bindR (change_program_brk brk t (kmm k)) (\<lambda>(r, t', s).
     let k' = put_task p t' (k\<lparr>kmm := s\<rparr>) in
     Inr (case r of Some new_brk \<Rightarrow> (new_brk, k') | None \<Rightarrow> (- 1, k')))))"

text \<open>
  The loop of \<open>sys_mmap\<close>: the frame of a page is dropped at the end of its iteration, in either case. The
  result is \<open>False\<close> for the early return on a page that is mapped already.
\<close>

fun mmap_pages :: "usize \<Rightarrow> u8 \<Rightarrow> VirtPageNum list \<Rightarrow> kernel \<Rightarrow> (bool \<times> kernel) res" where
  "mmap_pages token flag [] k = Inr (True, k)"
| "mmap_pages token flag (v # vs) k =
     bindR (unwrapR (frame_alloc (kmm k))) (\<lambda>(f, s).
     let k1 = k\<lparr>kmm := s\<rparr>;
         go = bindR (current_map_one v f flag k1) (\<lambda>(_, k2).
                bindR (frame_dealloc (kmm k2) f) (\<lambda>s2. mmap_pages token flag vs (k2\<lparr>kmm := s2\<rparr>)))
     in
     case PageTable_translate (mem s) (PageTable_from_token token) v of
       Some e \<Rightarrow>
         if \<not> pte_is_valid e then go
         else bindR (frame_dealloc s f) (\<lambda>s2. Inr (False, k1\<lparr>kmm := s2\<rparr>))
     | None \<Rightarrow> go)"

fun munmap_pages :: "VirtPageNum list \<Rightarrow> kernel \<Rightarrow> (usize \<times> kernel) res" where
  "munmap_pages [] k = Inr (0, k)"
| "munmap_pages (v # vs) k =
     bindR (current_user_token k) (\<lambda>token.
     case PageTable_translate (mem (kmm k)) (PageTable_from_token token) v of
       Some e \<Rightarrow>
         if \<not> pte_is_valid e then Inr (- 1, k)
         else bindR (current_unmap_one v k) (\<lambda>(_, k1). munmap_pages vs k1)
     | None \<Rightarrow> Inr (- 1, k))"

definition sys_munmap :: "usize \<Rightarrow> usize \<Rightarrow> kernel \<Rightarrow> (usize \<times> kernel) res" where
  "sys_munmap start len k =
     (if start mod 4096 \<noteq> 0 then Inr (- 1, k)
      else
        bindR (VPNRange_new (va_floor (VirtAddr_from start)) (va_ceil (VirtAddr_from (start + len)))) (\<lambda>r.
        munmap_pages (vpns_of r) k))"

section \<open>Clocks\<close>

definition sys_get_time :: "nat \<Rightarrow> usize \<Rightarrow> usize \<Rightarrow> kernel \<Rightarrow> (usize \<times> kernel) res" where
  "sys_get_time fuel now ts k =
     (let us = get_time_us now; tv_sec = us div 1000000; tv_usec = us mod 1000000 in
      bindR (current_user_token k) (\<lambda>token.
      bindR (translated_byte_buffer fuel (mem (kmm k)) token ts 16) (\<lambda>bufs.
      bindR (indexR bufs 0) (\<lambda>(f, i, j).
      let a = page_base f + i; m = mem (kmm k);
          m' = write_bytes (write_bytes m a (le64 tv_sec)) (a + 8) (le64 tv_usec)
      in Inr (0, k\<lparr>kmm := (kmm k)\<lparr>mem := m'\<rparr>\<rparr>)))))"

text \<open>\<open>sys_nanosleep\<close>: the start reads the wanted time, a pass compares the clock.\<close>

definition nanosleep_target :: "usize \<Rightarrow> kernel \<Rightarrow> usize res" where
  "nanosleep_target ti k =
     bindR (current_user_token k) (\<lambda>token.
     bindR (translated_ref (mem (kmm k)) token ti) (\<lambda>a.
     let sec = de64 (read_bytes (mem (kmm k)) a 8); usec = de64 (read_bytes (mem (kmm k)) (a + 8) 8)
     in Inr (sec * 1000000 + usec)))"

definition nanosleep_pass :: "usize \<Rightarrow> usize \<Rightarrow> usize \<Rightarrow> kernel \<Rightarrow> (usize option \<times> kernel) res" where
  "nanosleep_pass us t_us now k =
     (if get_time_us now - us < t_us then bindR (suspend_current_and_run_next now k) (\<lambda>k'. Inr (None, k'))
      else Inr (Some 0, k))"

fun children_times :: "kernel \<Rightarrow> usize list \<Rightarrow> u64 \<times> u64 \<Rightarrow> (u64 \<times> u64) res" where
  "children_times k [] acc = Inr acc"
| "children_times k (c # cs) (cutime, cstime) =
     bindR (get_task c k) (\<lambda>little.
     children_times k cs
       (if is_zombie little then (cutime + ti_cutime (task_info little), cstime + ti_cstime (task_info little))
        else (cutime, cstime)))"

fun write_times :: "usize \<Rightarrow> usize \<Rightarrow> u64 list \<Rightarrow> pmem \<Rightarrow> pmem res" where
  "write_times token ptr [] m = Inr m"
| "write_times token ptr (w # ws) m =
     bindR (translated_refmut m token ptr) (\<lambda>a. write_times token (ptr + 8) ws (write_bytes m a (le64 w)))"

definition sys_times :: "usize \<Rightarrow> usize \<Rightarrow> usize \<Rightarrow> kernel \<Rightarrow> (usize \<times> kernel) res" where
  "sys_times now time ms k =
     bindR (current_user_token k) (\<lambda>token.
     bindR (current_task k) (\<lambda>p.
     bindR (get_task p k) (\<lambda>inner.
     let ti = task_info inner; utime = ti_all ti - ti_stime ti in
     bindR (children_times k (children inner) (0, 0)) (\<lambda>(cutime, cstime).
     bindR (write_times token time [utime + now - ti_start ti, ti_stime ti + now - ms, cutime, cstime] (mem (kmm k))) (\<lambda>m.
     Inr (ti_all ti, k\<lparr>kmm := (kmm k)\<lparr>mem := m\<rparr>\<rparr>))))))"

end
