(* ===== verification/Stride.thy ===== *)
theory Stride
  imports Scheduler "HOL-Library.Multiset"
begin

text \<open>
  Properties of the stride scheduler of os/src/task/manager.rs: the choice of the smallest stride, the
  proportional share of the processor that follows from it, and when a task may starve.
\<close>

section \<open>The smallest stride\<close>

definition stride_of :: "kernel \<Rightarrow> usize \<Rightarrow> int" where
  "stride_of k p = sint (stride (task_of k p))"

definition pass_of :: "kernel \<Rightarrow> usize \<Rightarrow> int" where
  "pass_of k p = 2550 div sint (pri (task_of k p))"

lemma fetch_scan_spec:
  assumes "\<forall>p \<in> set ps. has_task k p"
  shows "\<exists>r. fetch_scan k i ps best strd = Inr r \<and>
    (r = best \<and> (\<forall>p \<in> set ps. sint strd < stride_of k p) \<or>
     (\<exists>j < length ps. r = i + j \<and> stride_of k (ps ! j) \<le> sint strd \<and> (\<forall>p \<in> set ps. stride_of k (ps ! j) \<le> stride_of k p)))"
  using assms
proof (induction ps arbitrary: i best strd)
  case (Cons p ps)
  note g = get_task_of [of k p]
  show ?case
  proof (cases "stride_of k p \<le> sint strd")
    case True
    let ?s = "stride (task_of k p)"
    from Cons.IH [of "Suc i" i ?s] Cons.prems obtain r where r: "fetch_scan k (Suc i) ps i ?s = Inr r"
      and c: "r = i \<and> (\<forall>p \<in> set ps. sint ?s < stride_of k p) \<or>
        (\<exists>j < length ps. r = Suc i + j \<and> stride_of k (ps ! j) \<le> sint ?s \<and> (\<forall>p \<in> set ps. stride_of k (ps ! j) \<le> stride_of k p))"
      by auto
    have run: "fetch_scan k i (p # ps) best strd = Inr r"
      using True r Cons.prems by (simp add: g stride_of_def)
    from c show ?thesis
    proof
      assume "r = i \<and> (\<forall>p \<in> set ps. sint ?s < stride_of k p)"
      then show ?thesis using run True by (intro exI [of _ r]) (auto simp: stride_of_def intro!: exI [of _ 0])
    next
      assume "\<exists>j < length ps. r = Suc i + j \<and> stride_of k (ps ! j) \<le> sint ?s \<and> (\<forall>p \<in> set ps. stride_of k (ps ! j) \<le> stride_of k p)"
      then obtain j where "j < length ps" "r = Suc i + j" "stride_of k (ps ! j) \<le> sint ?s"
        "\<forall>p \<in> set ps. stride_of k (ps ! j) \<le> stride_of k p" by blast
      then show ?thesis using run True
        by (intro exI [of _ r]) (auto simp: stride_of_def intro!: exI [of _ "Suc j"])
    qed
  next
    case False
    from Cons.IH [of "Suc i" best strd] Cons.prems obtain r where r: "fetch_scan k (Suc i) ps best strd = Inr r"
      and c: "r = best \<and> (\<forall>p \<in> set ps. sint strd < stride_of k p) \<or>
        (\<exists>j < length ps. r = Suc i + j \<and> stride_of k (ps ! j) \<le> sint strd \<and> (\<forall>p \<in> set ps. stride_of k (ps ! j) \<le> stride_of k p))"
      by auto
    have run: "fetch_scan k i (p # ps) best strd = Inr r"
      using False r Cons.prems by (simp add: g stride_of_def)
    from c show ?thesis
    proof
      assume "r = best \<and> (\<forall>p \<in> set ps. sint strd < stride_of k p)"
      then show ?thesis using run False by auto
    next
      assume "\<exists>j < length ps. r = Suc i + j \<and> stride_of k (ps ! j) \<le> sint strd \<and> (\<forall>p \<in> set ps. stride_of k (ps ! j) \<le> stride_of k p)"
      then obtain j where "j < length ps" "r = Suc i + j" "stride_of k (ps ! j) \<le> sint strd"
        "\<forall>p \<in> set ps. stride_of k (ps ! j) \<le> stride_of k p" by blast
      then show ?thesis using run False
        by (intro exI [of _ r]) (auto intro!: exI [of _ "Suc j"])
    qed
  qed
qed simp

lemma fetch_task_spec:
  assumes "ready_queue k \<noteq> []" and "\<forall>p \<in> set (ready_queue k). has_task k p"
  shows "\<exists>i < length (ready_queue k).
    fetch_task k = Inr (Some (ready_queue k ! i), k\<lparr>ready_queue := take i (ready_queue k) @ drop (Suc i) (ready_queue k)\<rparr>) \<and>
    (\<forall>p \<in> set (ready_queue k). stride_of k (ready_queue k ! i) \<le> stride_of k p)"
proof -
  let ?q = "ready_queue k"
  have h: "get_task (hd ?q) k = Inr (task_of k (hd ?q))" using assms by (intro get_task_of) simp
  from fetch_scan_spec [OF assms(2), of 0 0 "stride (task_of k (hd ?q))"]
  obtain r where r: "fetch_scan k 0 ?q 0 (stride (task_of k (hd ?q))) = Inr r"
    and c: "r = 0 \<and> (\<forall>p \<in> set ?q. sint (stride (task_of k (hd ?q))) < stride_of k p) \<or>
     (\<exists>j < length ?q. r = 0 + j \<and> stride_of k (?q ! j) \<le> sint (stride (task_of k (hd ?q))) \<and>
       (\<forall>p \<in> set ?q. stride_of k (?q ! j) \<le> stride_of k p))" by blast
  have "\<not> (\<forall>p \<in> set ?q. sint (stride (task_of k (hd ?q))) < stride_of k p)"
    using assms(1) by (auto simp: stride_of_def intro!: bexI [of _ "hd ?q"])
  with c r h assms(1) show ?thesis by (auto simp: fetch_task_def Let_def)
qed

section \<open>Rounds\<close>

text \<open>
  A round: the idle loop picks a task, the task runs and gives the processor back, by \<open>sys_yield\<close> or by the
  timer. The two numbers are the times of the switches.
\<close>

definition sched_round :: "usize \<times> usize \<Rightarrow> kernel \<Rightarrow> (usize \<times> kernel) res" where
  "sched_round t k =
     bindR (run_tasks_pass (fst t) k) (\<lambda>k1.
     bindR (current_task k1) (\<lambda>p.
     bindR (suspend_current_and_run_next (snd t) k1) (\<lambda>k2. Inr (p, k2))))"

primrec sched_rounds :: "(usize \<times> usize) list \<Rightarrow> kernel \<Rightarrow> (usize list \<times> kernel) res" where
  "sched_rounds [] k = Inr ([], k)"
| "sched_rounds (t # ts) k =
     bindR (sched_round t k) (\<lambda>(p, k1). bindR (sched_rounds ts k1) (\<lambda>(ps, k2). Inr (p # ps, k2)))"

text \<open>
  The ready queue as the kernel keeps it: a new task has priority 16, and \<open>sys_set_priority\<close> takes every priority
  from 2 on. Strides may be any distance apart, since a new task starts at 0.
\<close>

definition queue_ok :: "kernel \<Rightarrow> bool" where
  "queue_ok k \<longleftrightarrow> ready_queue k \<noteq> [] \<and> distinct (ready_queue k) \<and>
     (\<forall>p \<in> set (ready_queue k). has_task k p \<and> 2 \<le> sint (pri (task_of k p)))"

definition strides_within :: "int \<Rightarrow> kernel \<Rightarrow> bool" where
  "strides_within D k \<longleftrightarrow>
     (\<forall>p \<in> set (ready_queue k). \<forall>r \<in> set (ready_queue k). stride_of k p \<le> stride_of k r + D)"

definition stride_spread :: "kernel \<Rightarrow> int" where
  "stride_spread k = Max (stride_of k ` set (ready_queue k)) - Min (stride_of k ` set (ready_queue k))"

lemma strides_within_spread: "strides_within (stride_spread k) k"
proof -
  let ?S = "stride_of k ` set (ready_queue k)"
  have "stride_of k p \<le> Max ?S" "Min ?S \<le> stride_of k p" if "p \<in> set (ready_queue k)" for p using that by simp_all
  then show ?thesis unfolding strides_within_def stride_spread_def by (smt (verit))
qed

lemma strides_within_mono: "strides_within D k \<Longrightarrow> D \<le> E \<Longrightarrow> strides_within E k"
  unfolding strides_within_def by force

lemma pass_bounds:
  assumes "2 \<le> (x :: int)"
  shows "0 \<le> 2550 div x \<and> 2550 div x \<le> 1275"
proof
  show "0 \<le> 2550 div x" using assms by (simp add: pos_imp_zdiv_nonneg_iff)
  have "2550 div x \<le> 2550 div 2" using assms by (intro zdiv_mono2) simp_all
  then show "2550 div x \<le> 1275" by simp
qed

lemma pass_of_bounds: "queue_ok k \<Longrightarrow> p \<in> set (ready_queue k) \<Longrightarrow> 0 \<le> pass_of k p \<and> pass_of k p \<le> 1275"
  unfolding pass_of_def by (rule pass_bounds) (auto simp: queue_ok_def)

lemma sint_add_small:
  fixes a b :: usize
  assumes "- (2 ^ 63) \<le> sint a + sint b" and "sint a + sint b < 2 ^ 63"
  shows "sint (a + b) = sint a + sint b"
  using assms by (simp add: sint_word_ariths signed_take_bit_int_eq_self)

lemma update_stri_spec:
  assumes "2 \<le> sint (pri t)" and "sint (stride t) + 1275 < 2 ^ 63"
  shows "\<exists>w. update_stri t = Inr (t\<lparr>stride := w\<rparr>) \<and> sint w = sint (stride t) + 2550 div sint (pri t)"
proof -
  let ?d = "2550 div sint (pri t)"
  note b = pass_bounds [OF assms(1)]
  have nz: "pri t \<noteq> 0" "sint (pri t) \<noteq> - 1" using assms(1) by auto
  have "sint (2550 :: usize) = 2550" by simp
  moreover have "2550 sdiv sint (pri t) = ?d" using assms(1) by (simp add: signed_divide_int_def)
  ultimately have u: "update_stri t = Inr (t\<lparr>stride := stride t + word_of_int ?d\<rparr>)"
    using nz by (simp add: update_stri_def isize_div_def BIGSTRIDE_def)
  have d: "sint (word_of_int ?d :: usize) = ?d"
    using b by (simp add: signed_take_bit_int_eq_self sint_sbintrunc')
  have "sint (stride t) \<ge> - (2 ^ 63)" using sint_ge [of "stride t"] by simp
  then have "sint (stride t + word_of_int ?d) = sint (stride t) + ?d"
    using b assms(2) d by (subst sint_add_small) simp_all
  with u show ?thesis by blast
qed

text \<open>Only the task that runs changes: its stride grows by its pass, and it goes to the end of the queue.\<close>

lemma sched_round_run:
  assumes ok: "queue_ok k" and i: "i < length (ready_queue k)" and room: "stride_of k (ready_queue k ! i) + 1275 < 2 ^ 63"
    and f: "fetch_task k = Inr (Some (ready_queue k ! i), k\<lparr>ready_queue := take i (ready_queue k) @ drop (Suc i) (ready_queue k)\<rparr>)"
    and p: "p = ready_queue k ! i"
  shows "\<exists>k'. sched_round t k = Inr (p, k') \<and> ready_queue k' = remove1 p (ready_queue k) @ [p] \<and>
    has_task k' p \<and> pri (task_of k' p) = pri (task_of k p) \<and> stride_of k' p = stride_of k p + pass_of k p \<and>
    (\<forall>r. r \<noteq> p \<longrightarrow> get_task r k' = get_task r k)"
proof -
  let ?q = "ready_queue k"
  have q: "distinct ?q" "\<forall>p \<in> set ?q. has_task k p" "p \<in> set ?q" using ok i p by (auto simp: queue_ok_def)
  have "?q = take i ?q @ p # drop (Suc i) ?q" using i by (simp add: p id_take_nth_drop)
  moreover from this have "p \<notin> set (take i ?q)" using q(1) by (metis distinct_append disjoint_insert(1) list.simps(15))
  ultimately have rem: "take i ?q @ drop (Suc i) ?q = remove1 p ?q" by (metis remove1_append remove1.simps(2))
  let ?t = "task_of k p"
  have g: "get_task p k = Inr ?t" using q(2,3) by (simp add: get_task_of)
  let ?t1 = "?t\<lparr>task_status := Running, task_info := (task_info ?t)\<lparr>ti_start := fst t\<rparr>\<rparr>"
  have "2 \<le> sint (pri ?t)" "sint (stride ?t) + 1275 < 2 ^ 63"
    using ok room q(3) by (auto simp: queue_ok_def stride_of_def p)
  then obtain w where w: "update_stri ?t1 = Inr (?t1\<lparr>stride := w\<rparr>)" "sint w = sint (stride ?t) + 2550 div sint (pri ?t)"
    using update_stri_spec [of ?t1] by auto
  let ?k1 = "(put_task p (?t1\<lparr>stride := w\<rparr>) (k\<lparr>ready_queue := remove1 p ?q\<rparr>))
    \<lparr>processor_current := Some p, idle_task_cx := cpu k, cpu := task_cx ?t\<rparr>"
  have k1: "run_tasks_pass (fst t) k = Inr ?k1"
    using f g w(1) rem by (simp add: run_tasks_pass_def p [symmetric])
  define t2 where "t2 = ?t1\<lparr>stride := w, task_status := Ready, task_info := add_run_time (snd t) (task_info ?t1), task_cx := task_cx ?t\<rparr>"
  define k' where "k' = snd (projr (sched_round t k))"
  have r: "sched_round t k = Inr (p, k')" "ready_queue k' = remove1 p ?q @ [p]" "get_task p k' = Inr t2"
    "\<forall>r. r \<noteq> p \<longrightarrow> get_task r k' = get_task r k"
    using k1 by (auto simp: k'_def sched_round_def current_task_def suspend_current_and_run_next_def take_current_task_def
        schedule_def save_task_cx_def add_task_def t2_def Let_def)
  have "pri t2 = pri ?t" "sint (stride t2) = stride_of k p + pass_of k p"
    using w(2) by (simp_all add: t2_def stride_of_def pass_of_def)
  with r get_task_InrD [OF r(3)] show ?thesis by (auto simp: stride_of_def)
qed

lemma sched_round_spec:
  assumes ok: "queue_ok k" and room: "\<forall>p \<in> set (ready_queue k). stride_of k p + 1275 < 2 ^ 63"
  shows "\<exists>p k'. sched_round t k = Inr (p, k') \<and> p \<in> set (ready_queue k) \<and>
    (\<forall>r \<in> set (ready_queue k). stride_of k p \<le> stride_of k r) \<and>
    ready_queue k' = remove1 p (ready_queue k) @ [p] \<and>
    has_task k' p \<and> pri (task_of k' p) = pri (task_of k p) \<and> stride_of k' p = stride_of k p + pass_of k p \<and>
    (\<forall>r. r \<noteq> p \<longrightarrow> get_task r k' = get_task r k)"
proof -
  have "ready_queue k \<noteq> []" "\<forall>p \<in> set (ready_queue k). has_task k p" using ok by (auto simp: queue_ok_def)
  from fetch_task_spec [OF this] obtain i where i: "i < length (ready_queue k)"
    and f: "fetch_task k = Inr (Some (ready_queue k ! i), k\<lparr>ready_queue := take i (ready_queue k) @ drop (Suc i) (ready_queue k)\<rparr>)"
    and m: "\<forall>p \<in> set (ready_queue k). stride_of k (ready_queue k ! i) \<le> stride_of k p" by blast
  have p: "ready_queue k ! i \<in> set (ready_queue k)" using i by simp
  then show ?thesis using sched_round_run [OF ok i _ f refl, of t] room m by blast
qed

lemma sched_round_keeps:
  assumes ok: "queue_ok k" and cl: "strides_within D k" "1275 \<le> D" and room: "\<forall>p \<in> set (ready_queue k). stride_of k p + 1275 < 2 ^ 63"
  shows "\<exists>p k'. sched_round t k = Inr (p, k') \<and> p \<in> set (ready_queue k) \<and> queue_ok k' \<and> strides_within D k' \<and>
    mset (ready_queue k') = mset (ready_queue k) \<and>
    (\<forall>r \<in> set (ready_queue k). pass_of k' r = pass_of k r \<and>
       stride_of k' r = stride_of k r + (if r = p then pass_of k p else 0))"
proof -
  from sched_round_spec [OF ok room, of t] obtain p k' where run: "sched_round t k = Inr (p, k')"
    and p: "p \<in> set (ready_queue k)" and m: "\<forall>r \<in> set (ready_queue k). stride_of k p \<le> stride_of k r"
    and q: "ready_queue k' = remove1 p (ready_queue k) @ [p]"
    and t: "has_task k' p" "pri (task_of k' p) = pri (task_of k p)" "stride_of k' p = stride_of k p + pass_of k p"
    and o: "\<forall>r. r \<noteq> p \<longrightarrow> get_task r k' = get_task r k" by blast
  have d: "distinct (ready_queue k)" using ok by (simp add: queue_ok_def)
  have ms: "mset (ready_queue k') = mset (ready_queue k)" using p q by simp
  then have s: "set (ready_queue k') = set (ready_queue k)" by (rule mset_eq_setD)
  have other: "has_task k' r \<and> task_of k' r = task_of k r" if "r \<noteq> p" "r \<in> set (ready_queue k)" for r
    using task_of_eqI [of r k k'] o that ok by (simp add: queue_ok_def)
  have ht: "has_task k' r \<and> pri (task_of k' r) = pri (task_of k r)" if "r \<in> set (ready_queue k)" for r
    using other t that by (cases "r = p") auto
  have ok': "queue_ok k'"
    using ok ht s q d by (auto simp: queue_ok_def)
  have st: "pass_of k' r = pass_of k r \<and> stride_of k' r = stride_of k r + (if r = p then pass_of k p else 0)"
    if "r \<in> set (ready_queue k)" for r
    using other [of r] t that ht by (cases "r = p") (auto simp: pass_of_def stride_of_def)
  have "strides_within D k'"
    using cl m pass_of_bounds [OF ok p] st by (force simp: strides_within_def s)
  with run p ok' ms st show ?thesis by blast
qed

lemma sched_rounds_spec:
  assumes "queue_ok k" and "strides_within D k" "1275 \<le> D"
    and "\<forall>p \<in> set (ready_queue k). stride_of k p + 1275 * int (length ts) < 2 ^ 63"
  shows "\<exists>tr k'. sched_rounds ts k = Inr (tr, k') \<and> length tr = length ts \<and> set tr \<subseteq> set (ready_queue k) \<and>
    mset (ready_queue k') = mset (ready_queue k) \<and> strides_within D k' \<and>
    (\<forall>p \<in> set (ready_queue k). stride_of k' p = stride_of k p + int (count_list tr p) * pass_of k p)"
  using assms
proof (induction ts arbitrary: k)
  case (Cons t ts)
  have "\<forall>p \<in> set (ready_queue k). stride_of k p + 1275 < 2 ^ 63" using Cons.prems(4) by force
  from sched_round_keeps [OF Cons.prems(1-3) this, of t] obtain p k1 where r: "sched_round t k = Inr (p, k1)"
    "p \<in> set (ready_queue k)" "queue_ok k1" "strides_within D k1" "mset (ready_queue k1) = mset (ready_queue k)"
    and st: "\<forall>r \<in> set (ready_queue k). pass_of k1 r = pass_of k r \<and>
       stride_of k1 r = stride_of k r + (if r = p then pass_of k p else 0)" by blast
  have s: "set (ready_queue k1) = set (ready_queue k)" using r(5) by (rule mset_eq_setD)
  have "\<forall>p \<in> set (ready_queue k1). stride_of k1 p + 1275 * int (length ts) < 2 ^ 63"
    using Cons.prems(4) st pass_of_bounds [OF Cons.prems(1) r(2)] by (force simp: s)
  from Cons.IH [OF r(3,4) Cons.prems(3) this] r(1,2,5) st show ?case by (auto simp: s algebra_simps)
qed simp

lemma length_le_counts:
  assumes "set tr \<subseteq> set q" and "distinct q" and "\<forall>p \<in> set q. count_list tr p \<le> n"
  shows "length tr \<le> n * length q"
proof -
  have "length tr = (\<Sum>p \<in> set tr. count_list tr p)" by (simp add: sum_count_set)
  also have "\<dots> \<le> (\<Sum>p \<in> set q. count_list tr p)" using assms(1) by (intro sum_mono2) auto
  also have "\<dots> \<le> (\<Sum>p \<in> set q. n)" using assms(3) by (intro sum_mono) auto
  also have "\<dots> = n * length q" using assms(2) by (simp add: distinct_card)
  finally show ?thesis .
qed

lemma pass_positive: "2 \<le> x \<Longrightarrow> x \<le> 2550 \<Longrightarrow> 1 \<le> 2550 div (x :: int)"
  by (simp add: pos_imp_zdiv_pos_iff int_one_le_iff_zero_less)

lemma all_run:
  assumes bound: "\<And>r. r \<in> set q \<Longrightarrow> int (count_list tr r) * c r \<le> D" and pos: "\<And>r. r \<in> set q \<Longrightarrow> 1 \<le> c r"
    and tr: "set tr \<subseteq> set q" and q: "distinct q" "0 \<le> D"
  shows "int (length tr) \<le> D * int (length q)"
proof -
  have "count_list tr r \<le> nat D" if r: "r \<in> set q" for r
  proof -
    have "int (count_list tr r) * 1 \<le> int (count_list tr r) * c r" using pos [OF r] by (intro mult_left_mono) auto
    then show ?thesis using bound [OF r] by simp
  qed
  then have "length tr \<le> nat D * length q" using tr q(1) by (intro length_le_counts) auto
  then show ?thesis using q(2) by (metis int_nat_eq of_nat_le_iff of_nat_mult)
qed

text \<open>
  (C15) A fixed set of ready tasks that run and give the processor back, with any priorities the kernel accepts
  (from 2 on) and any strides at the start that do not overflow during the rounds, shares the processor by
  priority: after any number of rounds no task has left the queue, and the numbers of runs of any two tasks,
  weighted with their passes (2550 divided by the priority), differ by at most the distance of the strides at the
  start plus the larger of that distance and 1275. If moreover no priority is above 2550, then every task has run
  after more rounds than that bound times the number of tasks. Without that condition a task may starve.
\<close>

theorem stride_shares_processor:
  assumes "queue_ok k" and "\<forall>p \<in> set (ready_queue k). stride_of k p + 1275 * int (length ts) < 2 ^ 63"
  shows "\<exists>tr k'. sched_rounds ts k = Inr (tr, k') \<and> mset (ready_queue k') = mset (ready_queue k) \<and>
    (\<forall>p \<in> set (ready_queue k). \<forall>r \<in> set (ready_queue k).
       \<bar>int (count_list tr p) * pass_of k p - int (count_list tr r) * pass_of k r\<bar>
         \<le> stride_spread k + max 1275 (stride_spread k)) \<and>
    ((\<forall>p \<in> set (ready_queue k). sint (pri (task_of k p)) \<le> 2550) \<and>
     (stride_spread k + max 1275 (stride_spread k)) * int (length (ready_queue k)) < int (length ts) \<longrightarrow>
       set (ready_queue k) \<subseteq> set tr)"
proof -
  let ?q = "ready_queue k" and ?S = "stride_spread k" and ?D = "max 1275 (stride_spread k)"
  note w = strides_within_spread [of k]
  have "strides_within ?D k" by (rule strides_within_mono [OF w]) simp
  from sched_rounds_spec [OF assms(1) this _ assms(2)] obtain tr k' where run: "sched_rounds ts k = Inr (tr, k')"
    "length tr = length ts" "set tr \<subseteq> set ?q" "mset (ready_queue k') = mset ?q" "strides_within ?D k'"
    and st: "\<forall>p \<in> set ?q. stride_of k' p = stride_of k p + int (count_list tr p) * pass_of k p" by auto
  have s: "set (ready_queue k') = set ?q" using run(4) by (rule mset_eq_setD)
  have half: "int (count_list tr p) * pass_of k p - int (count_list tr r) * pass_of k r \<le> ?S + ?D"
    if "p \<in> set ?q" "r \<in> set ?q" for p r
  proof -
    have "stride_of k r \<le> stride_of k p + ?S" "stride_of k' p \<le> stride_of k' r + ?D"
      using w run(5) that by (simp_all only: strides_within_def s)
    then show ?thesis using st that by simp
  qed
  have S: "0 \<le> ?S" using w assms(1) by (force simp: strides_within_def queue_ok_def neq_Nil_conv)
  have "p \<in> set tr" if p: "p \<in> set ?q" and pr: "\<forall>p \<in> set ?q. sint (pri (task_of k p)) \<le> 2550"
    and long: "(?S + ?D) * int (length ?q) < int (length ts)" for p
  proof (rule ccontr)
    assume "p \<notin> set tr"
    then have "count_list tr p = 0" by (simp add: count_list_0_iff)
    then have "int (count_list tr r) * pass_of k r \<le> ?S + ?D" if "r \<in> set ?q" for r using half [OF that p] by simp
    moreover have "1 \<le> pass_of k r" if "r \<in> set ?q" for r
      unfolding pass_of_def using assms(1) pr that by (intro pass_positive) (auto simp: queue_ok_def)
    ultimately have "int (length tr) \<le> (?S + ?D) * int (length ?q)"
      using run(3) assms(1) S by (intro all_run [where c = "pass_of k"]) (auto simp: queue_ok_def)
    then show False using long run(2) by simp
  qed
  moreover have "\<bar>int (count_list tr p) * pass_of k p - int (count_list tr r) * pass_of k r\<bar> \<le> ?S + ?D"
    if "p \<in> set ?q" "r \<in> set ?q" for p r
    using half [OF that] half [OF that(2,1)] by linarith
  ultimately show ?thesis using run(1,4) by blast
qed

section \<open>Starvation\<close>

lemma fetch_scan_last:
  assumes "\<forall>r \<in> set (ps @ [p]). has_task k r" and "\<forall>r \<in> set ps. stride_of k p \<le> stride_of k r" and "stride_of k p \<le> sint strd"
  shows "fetch_scan k i (ps @ [p]) best strd = Inr (i + length ps)"
  using assms
proof (induction ps arbitrary: i best strd)
  case Nil
  then show ?case by (simp add: get_task_of stride_of_def)
next
  case (Cons r ps)
  then show ?case by (simp add: get_task_of stride_of_def)
qed

lemma starving_round:
  assumes ok: "queue_ok k" and q: "ready_queue k = ps @ [p]" and z: "pass_of k p = 0"
    and m: "\<forall>r \<in> set ps. stride_of k p \<le> stride_of k r" and room: "stride_of k p + 1275 < 2 ^ 63"
  shows "\<exists>k'. sched_round t k = Inr (p, k') \<and> ready_queue k' = ps @ [p] \<and> queue_ok k' \<and> pass_of k' p = 0 \<and>
    stride_of k' p = stride_of k p \<and> (\<forall>r \<in> set ps. stride_of k' r = stride_of k r)"
proof -
  have ht: "\<forall>r \<in> set (ps @ [p]). has_task k r" "distinct (ps @ [p])" using ok q by (auto simp: queue_ok_def)
  have "stride_of k p \<le> sint (stride (task_of k (hd (ps @ [p]))))" using m by (cases ps) (simp_all add: stride_of_def)
  from fetch_scan_last [OF ht(1) m this, of 0 0]
  have f: "fetch_task k = Inr (Some (ready_queue k ! length ps),
      k\<lparr>ready_queue := take (length ps) (ready_queue k) @ drop (Suc (length ps)) (ready_queue k)\<rparr>)"
    using ht(1) by (cases ps) (simp_all add: fetch_task_def q Let_def get_task_of)
  have i: "length ps < length (ready_queue k)" "p = ready_queue k ! length ps" using q by simp_all
  then have "stride_of k (ready_queue k ! length ps) + 1275 < 2 ^ 63" using room by (simp only:)
  from sched_round_run [OF ok i(1) this f i(2), of t] obtain k' where k': "sched_round t k = Inr (p, k')"
    "ready_queue k' = remove1 p (ps @ [p]) @ [p]" "has_task k' p" "pri (task_of k' p) = pri (task_of k p)"
    "stride_of k' p = stride_of k p + pass_of k p" "\<forall>r. r \<noteq> p \<longrightarrow> get_task r k' = get_task r k" unfolding q by blast
  have other: "has_task k' r \<and> task_of k' r = task_of k r" if "r \<in> set ps" for r
  proof -
    have "r \<noteq> p" "has_task k r" using ht that by auto
    then show ?thesis using task_of_eqI [of r k k'] k'(6) by simp
  qed
  have q': "ready_queue k' = ps @ [p]" using k'(2) ht(2) by (simp add: remove1_append)
  have "queue_ok k'" using ok other k'(3,4) q q' by (auto simp: queue_ok_def)
  then show ?thesis using k'(1,4,5) q' z other by (auto simp: pass_of_def stride_of_def)
qed

text \<open>
  (C16) The bound on the priorities is needed: when the last task of the ready queue has a priority above 2550,
  which \<open>sys_set_priority\<close> accepts, and no stride is smaller than its own, then it runs in every round, however
  many there are, and no other task of the queue ever runs.
\<close>

theorem high_priority_starves:
  assumes "queue_ok k" and "ready_queue k = ps @ [p]" and "2550 < sint (pri (task_of k p))"
    and "\<forall>r \<in> set ps. stride_of k p \<le> stride_of k r" and "stride_of k p + 1275 < 2 ^ 63"
  shows "\<exists>k'. sched_rounds ts k = Inr (replicate (length ts) p, k') \<and> ready_queue k' = ready_queue k"
proof -
  have "\<exists>k'. sched_rounds ts k = Inr (replicate (length ts) p, k') \<and> ready_queue k' = ps @ [p]"
    if "queue_ok k" "ready_queue k = ps @ [p]" "pass_of k p = 0" "\<forall>r \<in> set ps. stride_of k p \<le> stride_of k r"
      "stride_of k p + 1275 < 2 ^ 63" for k ts
    using that
  proof (induction ts arbitrary: k)
    case (Cons t ts)
    from starving_round [OF Cons.prems, of t] obtain k1 where k1: "sched_round t k = Inr (p, k1)" "ready_queue k1 = ps @ [p]"
      "queue_ok k1" "pass_of k1 p = 0" "stride_of k1 p = stride_of k p" "\<forall>r \<in> set ps. stride_of k1 r = stride_of k r" by blast
    then show ?case using Cons.IH [OF k1(3,2,4)] Cons.prems(4,5) by auto
  qed simp
  moreover have "pass_of k p = 0" using assms(3) by (simp add: pass_of_def)
  ultimately show ?thesis using assms(1,2,4,5) by simp
qed

definition example_task :: "usize \<Rightarrow> usize \<Rightarrow> TaskControlBlock" where
  "example_task p prio =
     \<lparr>pid = p, ppid = 0, kernel_stack = p, trap_cx_ppn = PhysPageNum 0, base_size = 0, task_cx = TaskContext_zero_init,
      task_status = Ready, memory_set = \<lparr>page_table = \<lparr>root_ppn = PhysPageNum 0, pt_frames = []\<rparr>, areas = []\<rparr>,
      parent = None, children = [], exit_code = 0, fd_table = std_fds, heap_bottom = 0, program_brk = 0,
      task_info = TaskInfo_new 0, stride = 0, pri = prio, pwd = [47]\<rparr>"

definition example_kernel :: kernel where
  "example_kernel =
     \<lparr>kmm = example_big, KERNEL_SPACE = \<lparr>page_table = \<lparr>root_ppn = PhysPageNum 0, pt_frames = []\<rparr>, areas = []\<rparr>,
      PID_ALLOCATOR = \<lparr>ra_current = 3, ra_recycled = []\<rparr>, KSTACK_ALLOCATOR = \<lparr>ra_current = 3, ra_recycled = []\<rparr>,
      tasks = [(1, example_task 1 16), (2, example_task 2 32)], ready_queue = [1, 2], processor_current = None,
      idle_task_cx = TaskContext_zero_init, cpu = TaskContext_zero_init, INITPROC = 1\<rparr>"

lemma example_kernel_queue:
  "ready_queue example_kernel = [1, 2]" "queue_ok example_kernel" "stride_spread example_kernel = 0"
  "pass_of example_kernel 1 = 159" "pass_of example_kernel 2 = 79"
  by (simp_all add: queue_ok_def stride_spread_def pass_of_def example_kernel_def stride_of_def has_task_def task_of_def example_task_def)

theorem stride_shares_processor_witness:
  "\<exists>tr k'. sched_rounds [(0, 5), (6, 9), (10, 12)] example_kernel = Inr (tr, k') \<and>
     mset (ready_queue k') = mset [1, 2] \<and>
     \<bar>int (count_list tr 1) * 159 - int (count_list tr 2) * 79\<bar> \<le> 1275"
proof -
  have "\<forall>p \<in> set (ready_queue example_kernel). stride_of example_kernel p + 1275 * int (length [(0 :: usize, 5 :: usize), (6, 9), (10, 12)]) < 2 ^ 63"
    by (simp add: example_kernel_def stride_of_def task_of_def example_task_def)
  from stride_shares_processor [OF example_kernel_queue(2) this] obtain tr k' where
    "sched_rounds [(0, 5), (6, 9), (10, 12)] example_kernel = Inr (tr, k')"
    "mset (ready_queue k') = mset (ready_queue example_kernel)"
    "\<bar>int (count_list tr 1) * pass_of example_kernel 1 - int (count_list tr 2) * pass_of example_kernel 2\<bar> \<le> 1275"
    by (auto simp: example_kernel_queue(1,3))
  then show ?thesis by (simp add: example_kernel_queue)
qed

text \<open>Two tasks, the second with priority 2551.\<close>

definition greedy_kernel :: kernel where
  "greedy_kernel = example_kernel\<lparr>tasks := [(1, example_task 1 16), (2, example_task 2 2551)]\<rparr>"

theorem high_priority_starves_witness:
  "\<exists>k'. sched_rounds [(0, 5), (6, 9), (10, 12)] greedy_kernel = Inr ([2, 2, 2], k') \<and> ready_queue k' = [1, 2]"
proof -
  have g: "ready_queue greedy_kernel = [1] @ [2]" "queue_ok greedy_kernel" "2550 < sint (pri (task_of greedy_kernel 2))"
    "\<forall>r \<in> set [1]. stride_of greedy_kernel 2 \<le> stride_of greedy_kernel r" "stride_of greedy_kernel 2 + 1275 < 2 ^ 63"
    by (simp_all add: queue_ok_def greedy_kernel_def example_kernel_def stride_of_def has_task_def task_of_def example_task_def)
  show ?thesis
    using high_priority_starves [OF g(2,1,3,4,5), of "[(0, 5), (6, 9), (10, 12)]"] g(1) by (simp add: numeral_eq_Suc)
qed

end
