(* ===== verification/Fork.thy ===== *)
theory Fork
  imports Syscall_Process Stride
begin

text \<open>
  \<open>fork\<close> as a whole (os/src/task/task.rs and syscall/process.rs): the copy of the address space, the kernel
  stack, the trap context of the child and the place of both processes in the kernel's tables.
\<close>

unbundle bit_operations_syntax

section \<open>Words of a trap context\<close>

lemma cx_word_set_same [simp]: "cx_word (mem (set_cx_word a i w s)) a i = w"
  by (simp add: cx_word_def set_cx_word_def)

lemma cx_word_set_other [simp]: "i \<noteq> j \<Longrightarrow> cx_word (mem (set_cx_word a i w s)) a j = cx_word (mem s) a j"
  unfolding cx_word_def set_cx_word_def
  by (auto intro!: arg_cong [where f = de64] read_bytes_cong write_bytes_other)

lemma set_cx_word_falloc [simp]: "falloc (set_cx_word a i w s) = falloc s"
  by (simp add: set_cx_word_def)

lemma set_cx_word_outside: "i < 512 \<Longrightarrow> x \<notin> page_addrs f \<Longrightarrow> mem (set_cx_word (page_base f) i w s) x = mem s x"
  by (auto simp: set_cx_word_def page_addrs_def intro!: write_bytes_other)

lemma cx_word_page:
  assumes "i < 512" and "get_bytes_array m' f' = get_bytes_array m f"
  shows "cx_word m' (page_base f') i = cx_word m (page_base f) i"
proof -
  have "read_bytes m (page_base f + 8 * i) 8 = slice (8 * i) 8 (get_bytes_array m f)" for m f
    using assms(1) by (simp add: get_bytes_array_eq read_bytes_def slice_def drop_map take_map)
  then show ?thesis using assms(2) by (simp add: cx_word_def)
qed

section \<open>Writing into a page of one address space\<close>

definition page_written :: "PhysPageNum \<Rightarrow> mm \<Rightarrow> mm \<Rightarrow> bool" where
  "page_written f s s' \<longleftrightarrow> falloc s' = falloc s \<and> (\<forall>x. x \<notin> page_addrs f \<longrightarrow> mem s' x = mem s x)"

lemma page_written_trans: "page_written f s s1 \<Longrightarrow> page_written f s1 s2 \<Longrightarrow> page_written f s s2"
  by (simp add: page_written_def)

lemma page_written_set_cx [intro]: "i < 512 \<Longrightarrow> page_written f s (set_cx_word (page_base f) i w s)"
  by (simp add: page_written_def set_cx_word_outside)

lemma page_written_page:
  assumes "page_written f s s'" and "small_ppn f" and "small_ppn g" and "g \<noteq> f"
  shows "get_bytes_array (mem s') g = get_bytes_array (mem s) g"
  using assms page_addrs_disjoint [of g f] by (intro get_bytes_array_cong) (auto simp: page_written_def)

lemma page_written_wf:
  assumes u: "ms_wf s u" and w: "page_written f s s'" and f: "small_ppn f" "f \<notin> set (pt_frames (page_table u))"
  shows "ms_wf s' u" and "pt_abs (mem s') (page_table u) = pt_abs (mem s) (page_table u)"
proof -
  have m: "mem s' x = mem s x" if "x \<in> pt_pages (page_table u)" for x
  proof -
    from that obtain g where g: "g \<in> set (pt_frames (page_table u))" "x \<in> page_addrs g" by (auto simp: pt_pages_def)
    then have "small_ppn g" using falloc_live_small [OF ms_wfD(3) [OF u]] ms_wfD(2) [OF u] by (auto simp: ms_frames_def)
    then show ?thesis using page_addrs_disjoint [of g f] f g w by (auto simp: page_written_def)
  qed
  have "s' = s\<lparr>mem := mem s'\<rparr>" using w by (cases s, cases s') (simp add: page_written_def)
  then show "ms_wf s' u" using ms_wf_mem(1) [OF u m] by simp
  show "pt_abs (mem s') (page_table u) = pt_abs (mem s) (page_table u)" by (rule ms_wf_mem(2) [OF u m])
qed

text \<open>An address space that does not hold the frame sees nothing of the write.\<close>

lemma page_written_other:
  assumes u: "ms_wf s u" and w: "page_written f s s'" and f: "small_ppn f" "f \<notin> ms_frames u"
    and fr: "\<forall>a \<in> set (areas u). map_type a = Framed" and v: "v \<in> area_pages (areas u)"
  shows "vm_view (mem s') (page_table u) v = vm_view (mem s) (page_table u) v"
proof (rule vm_view_cong [OF u fr v])
  show "pt_abs (mem s') (page_table u) = pt_abs (mem s) (page_table u)"
    using f by (intro page_written_wf(2) [OF u w]) (auto simp: ms_frames_def)
  fix g assume "g \<in> ms_frames u"
  then show "get_bytes_array (mem s') g = get_bytes_array (mem s) g"
    using f falloc_live_small [OF ms_wfD(3) [OF u]] ms_wfD(2) [OF u] by (intro page_written_page [OF w f(1)]) auto
qed

text \<open>Different pages of framed areas have different frames.\<close>

lemma area_frames_map: "area_frames as = map snd (concat (map data_frames as))"
  by (simp add: area_frames_def map_concat comp_def)

lemma ms_wf_frame_inj:
  assumes "ms_wf s ms" and "a \<in> set (areas ms)" and "(v, f) \<in> set (data_frames a)"
    and "b \<in> set (areas ms)" and "(w, f) \<in> set (data_frames b)"
  shows "v = w"
proof -
  let ?xs = "concat (map data_frames (areas ms))"
  have "inj_on snd (set ?xs)" using assms(1) by (simp add: ms_wf_def area_frames_map distinct_map)
  moreover have "(v, f) \<in> set ?xs" "(w, f) \<in> set ?xs" using assms(2-5) by auto
  ultimately have "(v, f) = (w, f)" by (intro inj_onD [of snd "set ?xs"]) simp_all
  then show ?thesis by simp
qed

lemma page_written_view:
  assumes u: "ms_wf s u" and w: "page_written f s s'" and fr: "\<forall>a \<in> set (areas u). map_type a = Framed"
    and b: "b \<in> set (areas u)" "(t, f) \<in> set (data_frames b)" and v: "v \<in> area_pages (areas u)" "v \<noteq> t"
  shows "vm_view (mem s') (page_table u) v = vm_view (mem s) (page_table u) v"
proof -
  from v(1) obtain a where a: "a \<in> set (areas u)" "v \<in> set (vpns_of (vpn_range a))" by (auto simp: area_pages_def)
  from ms_wf_data_page [OF u a(1) _ a(2)] fr a(1) obtain g where g: "(v, g) \<in> set (data_frames a)"
    "pt_abs (mem s) (page_table u) v = Some (area_pte a g)" "small_ppn g" by metis
  have f: "f \<in> falloc_live (falloc s)" "f \<notin> set (pt_frames (page_table u))"
    using u area_frames_mem [OF b] by (auto simp: ms_wf_def)
  then have sf: "small_ppn f" using falloc_live_small [OF ms_wfD(3) [OF u]] by blast
  have "g \<noteq> f" using ms_wf_frame_inj [OF u a(1) g(1) b(1)] b(2) v(2) by blast
  then have "get_bytes_array (mem s') g = get_bytes_array (mem s) g"
    by (rule page_written_page [OF w sf g(3)])
  with g(2,3) show ?thesis by (simp add: vm_view_def page_written_wf(2) [OF u w sf f(2)])
qed

section \<open>The child's address space\<close>

definition trap_vpn :: VirtPageNum where
  "trap_vpn = VirtPageNum 134217726"

lemma vpn_of_trap_cx: "vpn_of_va (VirtAddr_from TRAP_CONTEXT_BASE) = Inr trap_vpn"
  by (simp add: vpn_of_va_def VirtAddr_from_def config_defs va_page_offset_def va_floor_def trap_vpn_def)

lemma area_shapes_eq:
  assumes "map area_shape as = map area_shape bs"
  shows "area_pages as = area_pages bs" and "(\<forall>a \<in> set as. map_type a = Framed) \<longleftrightarrow> (\<forall>a \<in> set bs. map_type a = Framed)"
proof -
  have "area_pages cs = \<Union> ((\<lambda>(r, _, _). set (vpns_of r)) ` set (map area_shape cs))" for cs
    by (auto simp: area_pages_def area_shape_def)
  then show "area_pages as = area_pages bs" using assms by metis
  have "(\<forall>a \<in> set cs. map_type a = Framed) \<longleftrightarrow> (\<forall>(_, t, _) \<in> set (map area_shape cs). t = Framed)" for cs
    by (auto simp: area_shape_def)
  then show "(\<forall>a \<in> set as. map_type a = Framed) \<longleftrightarrow> (\<forall>a \<in> set bs. map_type a = Framed)" using assms by metis
qed

lemma trap_page:
  assumes ms: "ms_wf s ms" and fr: "\<forall>a \<in> set (areas ms). map_type a = Framed" and t: "trap_vpn \<in> area_pages (areas ms)"
  obtains a f where "a \<in> set (areas ms)" "(trap_vpn, f) \<in> set (data_frames a)" "trap_cx_page ms s = Inr f"
    "pt_abs (mem s) (page_table ms) trap_vpn = Some (area_pte a f)" "small_ppn f" "f \<in> set (area_frames (areas ms))"
    "f \<notin> set (pt_frames (page_table ms))" "f \<in> falloc_live (falloc s)"
proof -
  from t obtain a where a: "a \<in> set (areas ms)" "trap_vpn \<in> set (vpns_of (vpn_range a))" by (auto simp: area_pages_def)
  have "map_type a = Framed" using fr a(1) by blast
  from ms_wf_data_page [OF ms a(1) this a(2)] obtain f where f: "(trap_vpn, f) \<in> set (data_frames a)"
    "pt_abs (mem s) (page_table ms) trap_vpn = Some (area_pte a f)" "f \<in> falloc_live (falloc s)"
    "f \<notin> set (pt_frames (page_table ms))" "small_ppn f" "f \<in> set (area_frames (areas ms))" by metis
  have "trap_cx_page ms s = Inr f"
    using pt_abs_SomeD(1) [OF f(2)] f(5) by (simp add: trap_cx_page_def vpn_of_trap_cx MemorySet_translate_def)
  with a f that show ?thesis by blast
qed

lemma get_mut_frame:
  assumes "small_ppn f" and "f \<noteq> PhysPageNum 0"
  shows "get_mut (pa_of_ppn f) = Inr (page_base f)"
proof -
  have "unat (ppn0 f) \<noteq> 0" using assms(2) by (cases f) (auto simp: unat_eq_zero)
  then have "page_base f \<noteq> 0" using page_base_eq [OF assms(1)] by simp
  then show ?thesis by (auto simp: get_mut_def page_base_def)
qed

text \<open>
  When a process can fork: its address space and the kernel's are well formed and share no frame, the trap
  context is the page the task control block says, frame 0 is not the allocator's, there are frames for the
  copy and for a kernel stack, and the PID allocator has a PID that no task holds.
\<close>

definition fork_ready :: "platform \<Rightarrow> usize \<Rightarrow> TaskControlBlock \<Rightarrow> kernel \<Rightarrow> bool" where
  "fork_ready P self t k \<longleftrightarrow>
     get_task self k = Inr t \<and> ms_wf (kmm k) (memory_set t) \<and> (\<forall>a \<in> set (areas (memory_set t)). map_type a = Framed) \<and>
     trampoline_vpn \<notin> area_pages (areas (memory_set t)) \<and> trap_vpn \<in> area_pages (areas (memory_set t)) \<and>
     trap_cx_page (memory_set t) (kmm k) = Inr (trap_cx_ppn t) \<and>
     ms_wf (kmm k) (KERNEL_SPACE k) \<and> ms_frames (memory_set t) \<inter> ms_frames (KERNEL_SPACE k) = {} \<and>
     pa_page_offset (PhysAddr_from (strampoline (symbols P))) = 0 \<and> PhysPageNum 0 \<in> falloc_live (falloc (kmm k)) \<and>
     unat (fst (RecycleAllocator_alloc (KSTACK_ALLOCATOR k))) < max_kstack \<and>
     (\<forall>v \<in> set (vpns_of (kstack_range (fst (RecycleAllocator_alloc (KSTACK_ALLOCATOR k))))).
        pt_abs (mem (kmm k)) (page_table (KERNEL_SPACE k)) v = None) \<and>
     9 + 3 * area_count (areas (memory_set t)) \<le> falloc_free (falloc (kmm k)) \<and>
     ra_inv (PID_ALLOCATOR k) \<and> alloc_room (PID_ALLOCATOR k) \<noteq> None \<and> fst ` set (tasks k) \<subseteq> ra_live (PID_ALLOCATOR k)"

text \<open>The memory after the copy, the kernel stack and a write into the child's trap context.\<close>

lemma fork_memory:
  assumes u: "ms_wf s u" and fr: "\<forall>a \<in> set (areas u). map_type a = Framed"
    and tr: "trampoline_vpn \<notin> area_pages (areas u)" and tv: "trap_vpn \<in> area_pages (areas u)"
    and al: "pa_page_offset (PhysAddr_from (strampoline L)) = 0" and z: "PhysPageNum 0 \<in> falloc_live (falloc s)"
    and n: "9 + 3 * area_count (areas u) \<le> falloc_free (falloc s)"
    and ks: "ms_wf s ks" "ms_frames u \<inter> ms_frames ks = {}"
    and i: "RecycleAllocator_alloc ra = (i, ra')" "unat i < max_kstack"
    and new: "\<forall>v \<in> set (vpns_of (kstack_range i)). pt_abs (mem s) (page_table ks) v = None"
  obtains ms s1 ks' s2 f where "MemorySet_from_existed_user L u s = Inr (ms, s1)" "trap_cx_page ms s1 = Inr f"
    "small_ppn f" "f \<noteq> PhysPageNum 0" "kstack_alloc ra ks s1 = Inr (i, ra', ks', s2)"
    "get_bytes_array (mem s2) f = get_bytes_array (mem s) (projr (trap_cx_page u s))"
    "\<And>s3. page_written f s2 s3 \<Longrightarrow> ms_wf s3 ms \<and> ms_wf s3 u \<and> ms_wf s3 ks' \<and>
       ms_frames ms \<inter> ms_frames u = {} \<and> map area_shape (areas ms) = map area_shape (areas u) \<and>
       (\<forall>v \<in> area_pages (areas u). vm_view (mem s3) (page_table u) v = vm_view (mem s) (page_table u) v \<and>
          (v \<noteq> trap_vpn \<longrightarrow> vm_view (mem s3) (page_table ms) v = vm_view (mem s) (page_table u) v))"
proof -
  have n3: "3 + 3 * area_count (areas u) \<le> falloc_free (falloc s)" using n by simp
  from from_existed_user_spec [OF u fr tr al n3] obtain ms s1 where run: "MemorySet_from_existed_user L u s = Inr (ms, s1)"
    and ms: "ms_wf s1 ms" and d: "ms_frames ms \<inter> falloc_live (falloc s) = {}"
    and sh: "map area_shape (areas ms) = map area_shape (areas u)"
    and vw: "\<forall>v \<in> area_pages (areas u). vm_view (mem s1) (page_table ms) v = vm_view (mem s) (page_table u) v \<and>
       vm_view (mem s1) (page_table u) v = vm_view (mem s) (page_table u) v"
    and k: "mem_kept s s1" and f1: "falloc_free (falloc s) \<le> falloc_free (falloc s1) + 3 + 3 * area_count (areas u)" by blast
  note u1 = ms_wf_kept [OF u k] and ks1 = ms_wf_kept [OF ks(1) k]
  have pages: "area_pages (areas ms) = area_pages (areas u)" and frm: "\<forall>a \<in> set (areas ms). map_type a = Framed"
    using area_shapes_eq [OF sh] fr by simp_all
  from trap_page [OF ms frm] tv pages obtain b f where b: "b \<in> set (areas ms)" "(trap_vpn, f) \<in> set (data_frames b)"
    "trap_cx_page ms s1 = Inr f" "pt_abs (mem s1) (page_table ms) trap_vpn = Some (area_pte b f)" "small_ppn f"
    "f \<in> set (area_frames (areas ms))" "f \<notin> set (pt_frames (page_table ms))" "f \<in> falloc_live (falloc s1)" by metis
  from trap_page [OF u fr tv] obtain c g where c: "trap_cx_page u s = Inr g"
    "pt_abs (mem s) (page_table u) trap_vpn = Some (area_pte c g)" "small_ppn g" by metis
  have bytes: "get_bytes_array (mem s1) f = get_bytes_array (mem s) g"
    using vw tv b(4,5) c(2,3) by (auto simp: vm_view_def)
  have fms: "f \<in> ms_frames ms" using b(6) by (simp add: ms_frames_def)
  have fu: "f \<notin> ms_frames u" "f \<notin> ms_frames ks" "f \<noteq> PhysPageNum 0"
    using d fms z ms_wfD(2) [OF u] ms_wfD(2) [OF ks(1)] by auto
  have "6 \<le> falloc_free (falloc s1)" using f1 n by simp
  from kstack_alloc_spec [OF ks1(1) i, unfolded ks1(2), OF new this]
  obtain ks' s2 fs where st: "kstack_alloc ra ks s1 = Inr (i, ra', ks', s2)" "ms_wf s2 ks'"
    "vm_ext (page_table ks, s1) (page_table ks', s2) (set fs)" by metis
  have fk: "f \<notin> set (pt_frames (page_table ks'))"
    using st(3) b(8) fu(2) by (auto simp: vm_ext_def ms_frames_def)
  have dk: "ms_frames ms \<inter> set (pt_frames (page_table ks)) = {}" "ms_frames u \<inter> set (pt_frames (page_table ks)) = {}"
    using d ms_wfD(2) [OF ks(1)] ks(2) by (auto simp: ms_frames_def)
  note ms2 = ms_wf_other [OF ms st(3) dk(1)] and u2 = ms_wf_other [OF u1(1) st(3) dk(2)]
  have "get_bytes_array (mem s2) f = get_bytes_array (mem s) (projr (trap_cx_page u s))"
    using ms2(3) [OF fms] bytes c(1) by simp
  moreover have "ms_wf s3 ms \<and> ms_wf s3 u \<and> ms_wf s3 ks' \<and>
       ms_frames ms \<inter> ms_frames u = {} \<and> map area_shape (areas ms) = map area_shape (areas u) \<and>
       (\<forall>v \<in> area_pages (areas u). vm_view (mem s3) (page_table u) v = vm_view (mem s) (page_table u) v \<and>
          (v \<noteq> trap_vpn \<longrightarrow> vm_view (mem s3) (page_table ms) v = vm_view (mem s) (page_table u) v))"
    if w: "page_written f s2 s3" for s3
  proof -
    have "vm_view (mem s3) (page_table u) v = vm_view (mem s) (page_table u) v" if "v \<in> area_pages (areas u)" for v
      using page_written_other [OF u2(1) w b(5) fu(1) fr that] vm_view_cong [OF u1(1) fr that u2(2,3)] vw that by simp
    moreover have "vm_view (mem s3) (page_table ms) v = vm_view (mem s) (page_table u) v"
      if "v \<in> area_pages (areas u)" "v \<noteq> trap_vpn" for v
      using page_written_view [OF ms2(1) w frm b(1,2), unfolded pages, OF that]
        vm_view_cong [OF ms frm, unfolded pages, OF that(1) ms2(2,3)] vw that(1) by simp
    moreover have "ms_frames ms \<inter> ms_frames u = {}" using d ms_wfD(2) [OF u] by blast
    ultimately show ?thesis
      using page_written_wf(1) [OF ms2(1) w b(5,7)] page_written_wf(1) [OF st(2) w b(5) fk] fu(1)
        page_written_wf(1) [OF u2(1) w b(5)] sh by (auto simp: ms_frames_def)
  qed
  ultimately show ?thesis using that [OF run b(3,5) fu(3) st(1)] by blast
qed

text \<open>What the child's trap context differs in: the result of the call, its kernel stack, and its stack if given.\<close>

definition child_cx :: "usize \<Rightarrow> usize \<Rightarrow> (nat \<Rightarrow> usize) \<Rightarrow> nat \<Rightarrow> usize" where
  "child_cx stack kstack_top cx =
     (if stack \<noteq> 0 then (cx(35 := kstack_top, 10 := 0))(2 := stack) else cx(35 := kstack_top, 10 := 0))"

text \<open>
  (C2) \<open>sys_fork\<close>: with enough frames the call returns the PID of a new process that no task had. The child
  has the parent's files, directory and program break, is a child of the parent and waits in the ready
  queue. Its address space is well formed, shares no frame with the parent's and shows the same memory on
  every page of the parent's areas but the trap context, where it has the parent's registers with the result 0, its own kernel
  stack and, if one is given, its own user stack. The parent's memory is as before. Pages that \<open>mmap\<close> adds outside the areas are not
  copied.
\<close>

theorem sys_fork_copies_process:
  assumes ready: "fork_ready P self t k" and cur: "processor_current k = Some self"
  shows "\<exists>p c k'. sys_fork P now stack k = Inr (p, k') \<and> map_of (tasks k) p = None \<and> get_task p k' = Inr c \<and>
    pid c = p \<and> ppid c = pid t \<and> parent c = Some self \<and> children c = [] \<and> task_status c = Ready \<and>
    fd_table c = fd_table t \<and> pwd c = pwd t \<and> program_brk c = program_brk t \<and>
    get_task self k' = Inr (t\<lparr>children := children t @ [p]\<rparr>) \<and> ready_queue k' = ready_queue k @ [p] \<and>
    ra_inv (PID_ALLOCATOR k') \<and> fst ` set (tasks k') \<subseteq> ra_live (PID_ALLOCATOR k') \<and>
    ms_wf (kmm k') (memory_set c) \<and> ms_wf (kmm k') (memory_set t) \<and> ms_wf (kmm k') (KERNEL_SPACE k') \<and>
    ms_frames (memory_set c) \<inter> ms_frames (memory_set t) = {} \<and>
    (\<forall>v \<in> area_pages (areas (memory_set t)).
       vm_view (mem (kmm k')) (page_table (memory_set t)) v = vm_view (mem (kmm k)) (page_table (memory_set t)) v \<and>
       (v \<noteq> trap_vpn \<longrightarrow> vm_view (mem (kmm k')) (page_table (memory_set c)) v =
          vm_view (mem (kmm k)) (page_table (memory_set t)) v)) \<and>
    (\<forall>i < 37. cx_word (mem (kmm k')) (page_base (trap_cx_ppn c)) i =
       child_cx stack (kernel_stack_top (kernel_stack c)) (cx_word (mem (kmm k)) (page_base (trap_cx_ppn t))) i)"
proof -
  let ?u = "memory_set t" and ?s = "kmm k"
  note r = ready [unfolded fork_ready_def]
  obtain ki ka where ki: "RecycleAllocator_alloc (KSTACK_ALLOCATOR k) = (ki, ka)" by fastforce
  obtain p pa where p: "alloc_room (PID_ALLOCATOR k) = Some (p, pa)" using r by auto
  then have pal: "RecycleAllocator_alloc (PID_ALLOCATOR k) = (p, pa)" by (simp add: alloc_room_def split: if_splits)
  obtain ms s1 ks' s2 f where m: "MemorySet_from_existed_user (symbols P) ?u ?s = Inr (ms, s1)" "trap_cx_page ms s1 = Inr f"
    "small_ppn f" "f \<noteq> PhysPageNum 0" "kstack_alloc (KSTACK_ALLOCATOR k) (KERNEL_SPACE k) s1 = Inr (ki, ka, ks', s2)"
    "get_bytes_array (mem s2) f = get_bytes_array (mem ?s) (projr (trap_cx_page ?u ?s))"
    and w: "\<And>s3. page_written f s2 s3 \<Longrightarrow> ms_wf s3 ms \<and> ms_wf s3 ?u \<and> ms_wf s3 ks' \<and>
       ms_frames ms \<inter> ms_frames ?u = {} \<and> map area_shape (areas ms) = map area_shape (areas ?u) \<and>
       (\<forall>v \<in> area_pages (areas ?u). vm_view (mem s3) (page_table ?u) v = vm_view (mem ?s) (page_table ?u) v \<and>
          (v \<noteq> trap_vpn \<longrightarrow> vm_view (mem s3) (page_table ms) v = vm_view (mem ?s) (page_table ?u) v))"
    by (rule fork_memory [of ?s ?u "symbols P" "KERNEL_SPACE k" "KSTACK_ALLOCATOR k" ki ka]) (use r ki in auto)
  let ?top = "kernel_stack_top ki"
  define s3 where "s3 = set_cx_word (page_base f) 10 0 (set_cx_word (page_base f) 35 ?top s2)"
  define s4 where "s4 = (if stack \<noteq> 0 then set_cx_word (page_base f) 2 stack s3 else s3)"
  have "page_written f s2 s3" unfolding s3_def by (rule page_written_trans) auto
  then have w4: "page_written f s2 s4" unfolding s4_def by (auto intro: page_written_trans [OF _ page_written_set_cx])
  have "p \<notin> ra_live (PID_ALLOCATOR k)" by (rule alloc_room_fresh [OF p])
  then have free: "p \<notin> fst ` set (tasks k)" using r by blast
  then have none: "map_of (tasks k) p = None" by (simp add: map_of_eq_None_iff)
  have self: "get_task self k = Inr t" using r by simp
  then have ps: "p \<noteq> self" using none by (auto simp: get_task_def)
  define c where "c = \<lparr>pid = p, ppid = pid t, kernel_stack = ki, trap_cx_ppn = f, base_size = base_size t,
      task_cx = goto_trap_return (trap_return_addr P) ?top, task_status = Ready, memory_set = ms,
      parent = Some self, children = [], exit_code = 0, fd_table = fd_table t, heap_bottom = heap_bottom t,
      program_brk = program_brk t, task_info = TaskInfo_new now, stride = 0, pri = 16, pwd = pwd t\<rparr>"
  define k' where "k' = snd (projr (sys_fork P now stack k))"
  note gm = get_mut_frame [OF m(3,4)]
  have run: "sys_fork P now stack k = Inr (p, k')" and kmm: "kmm k' = s4" and gp: "get_task p k' = Inr c"
    and gs: "get_task self k' = Inr (t\<lparr>children := children t @ [p]\<rparr>)" and q: "ready_queue k' = ready_queue k @ [p]"
    and pak: "PID_ALLOCATOR k' = pa" and ksp: "KERNEL_SPACE k' = ks'"
    and dom: "fst ` set (tasks k') \<subseteq> insert p (insert self (fst ` set (tasks k)))"
    using self cur m(1,2,5) gm pal ps
    by (auto simp: k'_def sys_fork_def current_task_def TaskControlBlock_fork_def pid_alloc_def new_kstack_def
        get_trap_cx_def add_task_def c_def s3_def s4_def Let_def put_task_def get_task_def map_of_filter_other)
  have "self \<in> fst ` set (tasks k)" using self by (metis get_task_InrD has_task_def map_of_eq_None_iff)
  moreover have live: "fst ` set (tasks k) \<subseteq> ra_live (PID_ALLOCATOR k)" "ra_inv (PID_ALLOCATOR k)" using r by simp_all
  ultimately have pids: "ra_inv pa" "fst ` set (tasks k') \<subseteq> ra_live pa"
    using alloc_room_inv [OF live(2) p] alloc_room_live [OF live(2) p] dom by blast+
  have g: "projr (trap_cx_page ?u ?s) = trap_cx_ppn t" using r by simp
  have "cx_word (mem s4) (page_base f) i =
       child_cx stack ?top (cx_word (mem ?s) (page_base (trap_cx_ppn t))) i" if "i < 37" for i
    using that cx_word_page [of i, OF _ m(6) [unfolded g]] by (auto simp: s4_def s3_def child_cx_def)
  then show ?thesis
    using run none gp gs q pids w [OF w4] by (intro exI [of _ p] exI [of _ c] exI [of _ k']) (simp add: c_def kmm pak ksp)
qed

section \<open>A process that forks\<close>

text \<open>An address space with a trap context and an empty kernel space beside it.\<close>

lemma example_user_space:
  obtains u ks s where "ms_wf s u" "ms_wf s ks" "areas ks = []" "ms_frames u \<inter> ms_frames ks = {}"
    "pt_abs (mem s) (page_table ks) = Map.empty" "\<forall>a \<in> set (areas u). map_type a = Framed"
    "area_pages (areas u) = {trap_vpn}" "area_count (areas u) = 1" "80 \<le> falloc_free (falloc s)"
    "PhysPageNum 0 \<in> falloc_live (falloc s)"
proof -
  let ?r = "\<lparr>range_l = trap_vpn, range_r = trampoline_vpn\<rparr>"
  let ?a = "\<lparr>vpn_range = ?r, data_frames = [], map_type = Framed, map_perm = MapPermission_R OR MapPermission_W\<rparr>"
  have vs: "vpns_of ?r = [trap_vpn]"
    by (simp add: vpns_of_def range_iter_words less_eq_VirtPageNum_def trap_vpn_def trampoline_vpn_def)
  have inv: "falloc_inv (falloc example_big)" "falloc_free (falloc example_big) = 95" "PhysPageNum 0 \<in> falloc_live (falloc example_big)"
    by (simp_all add: falloc_inv_def example_big_def StackFrameAllocator_init_def
        StackFrameAllocator_new_def falloc_free_def falloc_live_def)
  obtain f s1 where fa: "frame_alloc example_big = Some (f, s1)" and wf: "pt_wf s1 \<lparr>root_ppn = f, pt_frames = [f]\<rparr>"
    and ab: "pt_abs (mem s1) \<lparr>root_ppn = f, pt_frames = [f]\<rparr> = Map.empty"
    and n: "falloc_free (falloc example_big) = Suc (falloc_free (falloc s1))"
    by (rule MemorySet_new_bare_spec [OF inv(1)]) (use inv(2) in auto)
  let ?u = "\<lparr>page_table = \<lparr>root_ppn = f, pt_frames = [f]\<rparr>, areas = []\<rparr>"
  have u0: "ms_wf s1 ?u" using wf by (simp add: ms_wf_def)
  obtain fs u s2 where u: "areas u = [?a\<lparr>data_frames := zip [trap_vpn] fs\<rparr>]" "ms_wf s2 u"
    "falloc_free (falloc s1) \<le> falloc_free (falloc s2) + 3" "vm_ext (page_table ?u, s1) (page_table u, s2) (set fs)"
    by (rule MemorySet_push_framed [OF u0, of ?a])
      (use vs ab n inv(2) in \<open>auto simp: range_ok_def less_eq_VirtPageNum_def trap_vpn_def trampoline_vpn_def\<close>)
  have "0 < falloc_free (falloc s2)" using u(3) n inv(2) by simp
  from MemorySet_new_bare_spec [OF ms_wfD(3) [OF u(2)] this] obtain g s3 where
    ga: "frame_alloc s2 = Some (g, s3)" and kw: "pt_wf s3 \<lparr>root_ppn = g, pt_frames = [g]\<rparr>"
    and kab: "pt_abs (mem s3) \<lparr>root_ppn = g, pt_frames = [g]\<rparr> = Map.empty"
    and n3: "falloc_free (falloc s2) = Suc (falloc_free (falloc s3))" by metis
  let ?k = "\<lparr>page_table = \<lparr>root_ppn = g, pt_frames = [g]\<rparr>, areas = []\<rparr>"
  note u3 = ms_wf_frame_alloc [OF u(2) ga]
  have "PhysPageNum 0 \<in> falloc_live (falloc s3)"
    using frame_alloc_SomeD(4) [OF fa inv(1)] frame_alloc_SomeD(4) [OF ga ms_wfD(3) [OF u(2)]] u(4) inv(3)
    by (auto simp: vm_ext_def)
  moreover have "ms_wf s3 ?k" using kw by (simp add: ms_wf_def)
  ultimately show ?thesis
    using u3(1,3) u(1,3) n n3 inv(2) kab
    by (intro that [of s3 u ?k]) (auto simp: ms_frames_def area_pages_def area_count_def vs)
qed

definition example_platform :: platform where
  "example_platform = \<lparr>symbols = example_symbols, trap_return_addr = 0x80200000, trap_handler_addr = 0x80201000,
     user_sstatus = 0\<rparr>"

theorem sys_fork_copies_process_witness:
  "\<exists>t k p c k'. fork_ready example_platform 1 t k \<and> processor_current k = Some 1 \<and>
     sys_fork example_platform 7 0x5000 k = Inr (p, k') \<and> get_task p k' = Inr c \<and> parent c = Some 1 \<and>
     cx_word (mem (kmm k')) (page_base (trap_cx_ppn c)) 2 = 0x5000"
proof -
  obtain u ks s where u: "ms_wf s u" "ms_wf s ks" "areas ks = []" "ms_frames u \<inter> ms_frames ks = {}"
    "pt_abs (mem s) (page_table ks) = Map.empty" "\<forall>a \<in> set (areas u). map_type a = Framed"
    "area_pages (areas u) = {trap_vpn}" "area_count (areas u) = 1" "80 \<le> falloc_free (falloc s)"
    "PhysPageNum 0 \<in> falloc_live (falloc s)" by (rule example_user_space)
  have "trap_vpn \<in> area_pages (areas u)" using u(7) by simp
  from trap_page [OF u(1,6) this] obtain f where f: "trap_cx_page u s = Inr f" by metis
  define t where "t = (example_task 1 16)\<lparr>memory_set := u, trap_cx_ppn := f\<rparr>"
  define k where "k = example_kernel\<lparr>kmm := s, KERNEL_SPACE := ks, processor_current := Some 1, ready_queue := [2],
     tasks := [(1, t), (2, example_task 2 32)]\<rparr>"
  have al: "pa_page_offset (PhysAddr_from (strampoline (symbols example_platform))) = 0"
    by (simp add: example_platform_def example_symbols_def pa_page_offset_def PhysAddr_from_def config_defs)
  have "fork_ready example_platform 1 t k"
    using u f al by (simp add: fork_ready_def k_def t_def get_task_def example_kernel_def RecycleAllocator_alloc_def
        alloc_room_def ra_inv_def ra_live_def max_kstack_def trap_vpn_def trampoline_vpn_def)
  moreover have c: "processor_current k = Some 1" by (simp add: k_def)
  ultimately obtain p c k' where "fork_ready example_platform 1 t k" "sys_fork example_platform 7 0x5000 k = Inr (p, k')"
    "get_task p k' = Inr c" "parent c = Some 1"
    "\<forall>i < 37. cx_word (mem (kmm k')) (page_base (trap_cx_ppn c)) i =
       child_cx 0x5000 (kernel_stack_top (kernel_stack c)) (cx_word (mem (kmm k)) (page_base (trap_cx_ppn t))) i"
    using sys_fork_copies_process [of example_platform 1 t k 7 "0x5000"] by blast
  moreover from this(5) have "cx_word (mem (kmm k')) (page_base (trap_cx_ppn c)) 2 = 0x5000"
    by (simp add: child_cx_def)
  ultimately show ?thesis using c by blast
qed

end
