(* ===== verification/Process_Inv.thy ===== *)
theory Process_Inv
  imports Fork
begin

text \<open>
  The process tables as a whole: a step relation of everything that changes them (the scheduler, \<open>fork\<close>,
  \<open>spawn\<close>, \<open>exec\<close>, exit, \<open>waitpid\<close>, the priority and the program break), and the invariant that ties
  together the task store, the ready queue, the processor and the tree of children.
\<close>

section \<open>The store and the lists of children\<close>

definition pids :: "kernel \<Rightarrow> usize set" where
  "pids k = fst ` set (tasks k)"

definition store_ok :: "kernel \<Rightarrow> bool" where
  "store_ok k \<longleftrightarrow> distinct (map fst (tasks k))"

definition all_children :: "kernel \<Rightarrow> usize multiset" where
  "all_children k = (\<Sum>(_, t) \<leftarrow> tasks k. mset (children t))"

lemma strong_count_eq:
  "strong_count p k =
     count_list (ready_queue k) p + (if processor_current k = Some p then 1 else 0) + (if INITPROC k = p then 1 else 0) +
     count (all_children k) p"
proof -
  have "sum_list (map (\<lambda>(_, t). count_list (children t) p) ts) = count (\<Sum>(_, t) \<leftarrow> ts. mset (children t)) p"
    for ts :: "(usize \<times> TaskControlBlock) list"
    by (induction ts) (auto simp: count_mset)
  then show ?thesis by (simp add: strong_count_def all_children_def)
qed

lemma pids_has_task: "p \<in> pids k \<longleftrightarrow> has_task k p"
  by (simp add: pids_def has_task_def map_of_eq_None_iff)

lemma get_task_pids: "get_task p k = Inr t \<Longrightarrow> p \<in> pids k"
  using get_task_InrD pids_has_task by blast

lemma pids_put_task [simp]: "pids (put_task p t k) = insert p (pids k)"
  by (force simp: pids_def put_task_def)

lemma store_ok_put_task [simp]: "store_ok k \<Longrightarrow> store_ok (put_task p t k)"
  by (auto simp: store_ok_def put_task_def distinct_map inj_on_def filter_empty_conv)

lemma kernel_field_simps [simp]:
  "pids (k\<lparr>ready_queue := q\<rparr>) = pids k" "pids (k\<lparr>processor_current := c\<rparr>) = pids k" "pids (k\<lparr>kmm := s\<rparr>) = pids k"
  "pids (k\<lparr>idle_task_cx := x\<rparr>) = pids k" "pids (k\<lparr>cpu := x\<rparr>) = pids k" "pids (k\<lparr>PID_ALLOCATOR := a\<rparr>) = pids k"
  "pids (k\<lparr>KSTACK_ALLOCATOR := a\<rparr>) = pids k" "pids (k\<lparr>KERNEL_SPACE := ms\<rparr>) = pids k"
  "store_ok (k\<lparr>ready_queue := q\<rparr>) = store_ok k" "store_ok (k\<lparr>processor_current := c\<rparr>) = store_ok k"
  "store_ok (k\<lparr>kmm := s\<rparr>) = store_ok k" "store_ok (k\<lparr>idle_task_cx := x\<rparr>) = store_ok k" "store_ok (k\<lparr>cpu := x\<rparr>) = store_ok k"
  "store_ok (k\<lparr>PID_ALLOCATOR := a\<rparr>) = store_ok k" "store_ok (k\<lparr>KSTACK_ALLOCATOR := a\<rparr>) = store_ok k"
  "store_ok (k\<lparr>KERNEL_SPACE := ms\<rparr>) = store_ok k"
  "all_children (k\<lparr>ready_queue := q\<rparr>) = all_children k" "all_children (k\<lparr>processor_current := c\<rparr>) = all_children k"
  "all_children (k\<lparr>kmm := s\<rparr>) = all_children k" "all_children (k\<lparr>idle_task_cx := x\<rparr>) = all_children k"
  "all_children (k\<lparr>cpu := x\<rparr>) = all_children k" "all_children (k\<lparr>PID_ALLOCATOR := a\<rparr>) = all_children k"
  "all_children (k\<lparr>KSTACK_ALLOCATOR := a\<rparr>) = all_children k" "all_children (k\<lparr>KERNEL_SPACE := ms\<rparr>) = all_children k"
  by (simp_all add: pids_def store_ok_def all_children_def)

lemma filter_other_keys:
  assumes "distinct (map fst ts)" and "map_of ts p = Some t"
  shows "(\<Sum>(_, t) \<leftarrow> ts. mset (children t)) =
    mset (children t) + (\<Sum>(_, t) \<leftarrow> filter (\<lambda>(q, _). q \<noteq> p) ts. mset (children t))"
  using assms
proof (induction ts)
  case (Cons x ts)
  obtain q u where x: "x = (q, u)" by fastforce
  show ?case
  proof (cases "q = p")
    case True
    with Cons.prems x have "p \<notin> fst ` set ts" by auto
    then have "filter (\<lambda>(q, _). q \<noteq> p) ts = ts" by (force simp: filter_id_conv)
    with True Cons.prems x show ?thesis by simp
  next
    case False
    with Cons x show ?thesis by (simp add: ac_simps)
  qed
qed simp

lemma all_children_put:
  assumes "store_ok k" and "get_task p k = Inr t"
  shows "all_children (put_task p t' k) + mset (children t) = all_children k + mset (children t')"
proof -
  have "map_of (tasks k) p = Some t" using assms(2) by (auto simp: get_task_def unwrapR_def split: option.splits)
  from filter_other_keys [OF _ this] assms(1) show ?thesis
    by (simp add: all_children_def put_task_def store_ok_def ac_simps)
qed

lemma all_children_put_new:
  assumes "p \<notin> pids k"
  shows "all_children (put_task p t k) = all_children k + mset (children t)"
proof -
  have "filter (\<lambda>(q, _). q \<noteq> p) (tasks k) = tasks k" using assms by (force simp: filter_id_conv pids_def)
  then show ?thesis by (simp add: all_children_def put_task_def ac_simps)
qed

lemma all_children_same:
  "store_ok k \<Longrightarrow> get_task p k = Inr t \<Longrightarrow> children t' = children t \<Longrightarrow> all_children (put_task p t' k) = all_children k"
  using all_children_put [of k p t t'] by simp

section \<open>The invariant\<close>

text \<open>
  \<open>tree_inv\<close>: the lists of children hold every task but \<open>INITPROC\<close> exactly once, children know their parent,
  no task is its own child, and a zombie has no children. \<open>sched_inv\<close>: the queue holds ready tasks, once each, and the processor a
  running one. \<open>pid_inv\<close>: every PID in use is held by the allocator.
\<close>

definition tree_inv :: "kernel \<Rightarrow> bool" where
  "tree_inv k \<longleftrightarrow>
     store_ok k \<and> INITPROC k \<in> pids k \<and> all_children k = mset_set (pids k - {INITPROC k}) \<and>
     (\<forall>p t. get_task p k = Inr t \<longrightarrow> pid t = p \<and> p \<notin> set (children t) \<and> (task_status t = Zombie \<longrightarrow> children t = [] \<and> p \<noteq> INITPROC k)) \<and>
     (\<forall>p t c u. get_task p k = Inr t \<longrightarrow> c \<in> set (children t) \<longrightarrow> get_task c k = Inr u \<longrightarrow> parent u = Some p)"

definition sched_inv :: "kernel \<Rightarrow> bool" where
  "sched_inv k \<longleftrightarrow>
     distinct (ready_queue k) \<and> (\<forall>p \<in> set (ready_queue k). \<exists>t. get_task p k = Inr t \<and> task_status t = Ready) \<and>
     (\<forall>p. processor_current k = Some p \<longrightarrow> (\<exists>t. get_task p k = Inr t \<and> task_status t = Running))"

definition pid_inv :: "kernel \<Rightarrow> bool" where
  "pid_inv k \<longleftrightarrow> ra_inv (PID_ALLOCATOR k) \<and> pids k \<subseteq> ra_live (PID_ALLOCATOR k)"

definition proc_inv :: "kernel \<Rightarrow> bool" where
  "proc_inv k \<longleftrightarrow> tree_inv k \<and> sched_inv k \<and> pid_inv k"

lemma get_task_tasks_cong: "tasks k' = tasks k \<Longrightarrow> get_task p k' = get_task p k"
  by (simp add: get_task_def)

lemma tree_inv_cong:
  assumes "tasks k' = tasks k" and "INITPROC k' = INITPROC k"
  shows "tree_inv k' = tree_inv k"
  using get_task_tasks_cong [OF assms(1)] assms by (simp add: tree_inv_def store_ok_def pids_def all_children_def)

lemma inv_field_simps [simp]:
  "tree_inv (k\<lparr>ready_queue := q\<rparr>) = tree_inv k" "tree_inv (k\<lparr>processor_current := c\<rparr>) = tree_inv k"
  "tree_inv (k\<lparr>kmm := s\<rparr>) = tree_inv k" "tree_inv (k\<lparr>idle_task_cx := x\<rparr>) = tree_inv k" "tree_inv (k\<lparr>cpu := x\<rparr>) = tree_inv k"
  "tree_inv (k\<lparr>PID_ALLOCATOR := a\<rparr>) = tree_inv k" "tree_inv (k\<lparr>KSTACK_ALLOCATOR := a\<rparr>) = tree_inv k"
  "tree_inv (k\<lparr>KERNEL_SPACE := ms\<rparr>) = tree_inv k"
  "sched_inv (k\<lparr>kmm := s\<rparr>) = sched_inv k" "sched_inv (k\<lparr>idle_task_cx := x\<rparr>) = sched_inv k" "sched_inv (k\<lparr>cpu := x\<rparr>) = sched_inv k"
  "sched_inv (k\<lparr>PID_ALLOCATOR := a\<rparr>) = sched_inv k" "sched_inv (k\<lparr>KSTACK_ALLOCATOR := a\<rparr>) = sched_inv k"
  "sched_inv (k\<lparr>KERNEL_SPACE := ms\<rparr>) = sched_inv k"
  "pid_inv (k\<lparr>ready_queue := q\<rparr>) = pid_inv k" "pid_inv (k\<lparr>processor_current := c\<rparr>) = pid_inv k"
  "pid_inv (k\<lparr>kmm := s\<rparr>) = pid_inv k" "pid_inv (k\<lparr>idle_task_cx := x\<rparr>) = pid_inv k" "pid_inv (k\<lparr>cpu := x\<rparr>) = pid_inv k"
  "pid_inv (k\<lparr>KSTACK_ALLOCATOR := a\<rparr>) = pid_inv k" "pid_inv (k\<lparr>KERNEL_SPACE := ms\<rparr>) = pid_inv k"
  by (auto intro!: tree_inv_cong simp: sched_inv_def pid_inv_def)

lemma get_put: "get_task q (put_task p t k) = (if q = p then Inr t else get_task q k)"
  by simp

lemma tree_inv_put:
  assumes "tree_inv k" and "get_task p k = Inr t" and "pid t' = pid t" and "children t' = children t"
    and "parent t' = parent t" and "task_status t' = Zombie \<Longrightarrow> task_status t = Zombie"
  shows "tree_inv (put_task p t' k)"
proof -
  have "insert p (pids k) = pids k" using get_task_pids [OF assms(2)] by auto
  moreover have "all_children (put_task p t' k) = all_children k"
    using assms(1,2,4) by (intro all_children_same) (auto simp: tree_inv_def)
  ultimately show ?thesis
    using assms unfolding tree_inv_def get_put by (auto split: if_splits)
qed

lemma pid_inv_put: "pid_inv k \<Longrightarrow> get_task p k = Inr t \<Longrightarrow> pid_inv (put_task p t' k)"
  using get_task_pids [of p k t] by (auto simp: pid_inv_def)

lemma sched_inv_put:
  assumes "sched_inv k" and "get_task p k = Inr t" and "task_status t' = task_status t"
  shows "sched_inv (put_task p t' k)"
  using assms unfolding sched_inv_def get_put by fastforce

lemma proc_inv_put:
  assumes "proc_inv k" and "get_task p k = Inr t" and "pid t' = pid t" and "children t' = children t"
    and "parent t' = parent t" and "task_status t' = task_status t"
  shows "proc_inv (put_task p t' k)"
  using assms by (auto simp: proc_inv_def intro: tree_inv_put pid_inv_put sched_inv_put)

section \<open>The scheduler keeps the invariant\<close>

lemma sched_inv_queueD: "sched_inv k \<Longrightarrow> p \<in> set (ready_queue k) \<Longrightarrow> \<exists>t. get_task p k = Inr t \<and> task_status t = Ready"
  by (simp add: sched_inv_def)

lemma sched_inv_currentD: "sched_inv k \<Longrightarrow> processor_current k = Some p \<Longrightarrow> \<exists>t. get_task p k = Inr t \<and> task_status t = Running"
  by (simp add: sched_inv_def)

lemma sched_inv_current_not_queued:
  "sched_inv k \<Longrightarrow> processor_current k = Some p \<Longrightarrow> p \<notin> set (ready_queue k)"
  using sched_inv_queueD [of k p] sched_inv_currentD [of k p] by auto

lemma update_stri_stride: "update_stri t = Inr t' \<Longrightarrow> \<exists>w. t' = t\<lparr>stride := w\<rparr>"
  by (auto simp: update_stri_def bindR_eq_Inr)

lemma fetch_task_inv:
  assumes "sched_inv k" and "fetch_task k = Inr (r, k1)"
  shows "\<exists>p xs ys. r = Some p \<and> ready_queue k = xs @ p # ys \<and> k1 = k\<lparr>ready_queue := xs @ ys\<rparr>"
proof -
  have ne: "ready_queue k \<noteq> []" using assms(2) by (auto simp: fetch_task_def)
  have "\<forall>p \<in> set (ready_queue k). has_task k p"
    using sched_inv_queueD [OF assms(1)] get_task_InrD by blast
  from fetch_task_spec [OF ne this] obtain i where i: "i < length (ready_queue k)"
    "fetch_task k = Inr (Some (ready_queue k ! i), k\<lparr>ready_queue := take i (ready_queue k) @ drop (Suc i) (ready_queue k)\<rparr>)"
    by blast
  then show ?thesis using assms(2) id_take_nth_drop [OF i(1)] by auto
qed

lemma run_tasks_pass_inv:
  assumes inv: "proc_inv k" and run: "run_tasks_pass now k = Inr k'"
  shows "proc_inv k'"
proof -
  have si: "sched_inv k" using inv by (simp add: proc_inv_def)
  from run obtain r k1 where f: "fetch_task k = Inr (r, k1)"
    by (auto simp: run_tasks_pass_def bindR_eq_Inr)
  from fetch_task_inv [OF si f] obtain p xs ys where p: "r = Some p" "ready_queue k = xs @ p # ys"
    "k1 = k\<lparr>ready_queue := xs @ ys\<rparr>" by blast
  obtain t where t: "get_task p k = Inr t" "task_status t = Ready" using sched_inv_queueD [OF si] p(2) by force
  let ?t = "t\<lparr>task_status := Running, task_info := (task_info t)\<lparr>ti_start := now\<rparr>\<rparr>"
  obtain w where k': "k' = (put_task p (?t\<lparr>stride := w\<rparr>) k1)\<lparr>processor_current := Some p, idle_task_cx := cpu k1, cpu := task_cx t\<rparr>"
    using run f p t by (auto simp: run_tasks_pass_def bindR_eq_Inr dest!: update_stri_stride)
  have "tree_inv (put_task p (?t\<lparr>stride := w\<rparr>) k1)" "pid_inv (put_task p (?t\<lparr>stride := w\<rparr>) k1)"
    using inv t p(3) by (auto simp: proc_inv_def intro!: tree_inv_put [of _ _ t] pid_inv_put [of _ _ t])
  moreover have "sched_inv k'"
    using si p(2) unfolding sched_inv_def k' p(3) by (auto simp: get_put)
  ultimately show ?thesis by (simp add: proc_inv_def k')
qed

lemma suspend_inv:
  assumes inv: "proc_inv k" and run: "suspend_current_and_run_next now k = Inr k'"
  shows "proc_inv k'"
proof -
  have si: "sched_inv k" using inv by (simp add: proc_inv_def)
  obtain p where p: "processor_current k = Some p"
    using run by (auto simp: suspend_current_and_run_next_def take_current_task_def bindR_eq_Inr unwrapR_def split: option.splits)
  obtain t where t: "get_task p k = Inr t" "task_status t = Running" using sched_inv_currentD [OF si p] by blast
  let ?t = "t\<lparr>task_status := Ready, task_info := add_run_time now (task_info t)\<rparr>"
  let ?k = "put_task p ?t (k\<lparr>processor_current := None\<rparr>)"
  have k': "k' = put_task p (?t\<lparr>task_cx := cpu k\<rparr>) (?k\<lparr>ready_queue := ready_queue k @ [p], cpu := idle_task_cx k\<rparr>)"
    using run p t by (simp add: suspend_current_and_run_next_def take_current_task_def schedule_def save_task_cx_def
        add_task_def Let_def)
  have "tree_inv ?k" "pid_inv ?k"
    using inv t by (auto simp: proc_inv_def intro!: tree_inv_put [of _ _ t] pid_inv_put [of _ _ t])
  then have "tree_inv k'" "pid_inv k'"
    unfolding k' by (auto intro!: tree_inv_put [of _ _ ?t] pid_inv_put [of _ _ ?t])
  moreover have "sched_inv k'"
    using si sched_inv_current_not_queued [OF si p] unfolding sched_inv_def k' by (auto simp: get_put)
  ultimately show ?thesis by (simp add: proc_inv_def)
qed

section \<open>Exit\<close>

lemma put_task_tasks: "put_task p t k = k\<lparr>tasks := tasks (put_task p t k)\<rparr>"
  by (simp add: put_task_def)

lemma move_children_spec:
  assumes "move_children self cs k = Inr k'" and "store_ok k" and "self \<noteq> INITPROC k"
  shows "k' = k\<lparr>tasks := tasks k'\<rparr> \<and> store_ok k' \<and> pids k' = pids k \<and>
    all_children k' = all_children k + mset cs \<and> get_task self k' = get_task self k \<and>
    (\<forall>q u. get_task q k' = Inr u \<longrightarrow> (\<exists>u0. get_task q k = Inr u0 \<and> pid u = pid u0 \<and> task_status u = task_status u0 \<and>
      parent u = (if q \<in> set cs then Some (INITPROC k) else parent u0) \<and>
      children u = (if q = INITPROC k then children u0 @ cs else children u0)))"
  using assms
proof (induction cs arbitrary: k)
  case (Cons c cs)
  let ?i = "INITPROC k"
  from Cons.prems(1) have c: "c \<noteq> ?i" "c \<noteq> self" by (auto split: if_splits)
  from Cons.prems(1) c obtain child init where ch: "get_task c k = Inr child" and init: "get_task ?i k = Inr init"
    and run: "move_children self cs (put_task ?i (init\<lparr>children := children init @ [c]\<rparr>)
        (put_task c (child\<lparr>parent := Some ?i\<rparr>) k)) = Inr k'"
    by (auto simp: bindR_eq_Inr Let_def)
  define k1 where "k1 = put_task c (child\<lparr>parent := Some ?i\<rparr>) k"
  define k2 where "k2 = put_task ?i (init\<lparr>children := children init @ [c]\<rparr>) k1"
  have k2t: "k2 = k\<lparr>tasks := tasks k2\<rparr>" by (simp add: k2_def k1_def put_task_def)
  have st: "store_ok k1" "store_ok k2" using Cons.prems(2) by (simp_all add: k1_def k2_def)
  have a1: "all_children k1 = all_children k"
    unfolding k1_def by (rule all_children_same [OF Cons.prems(2) ch]) simp
  have gi: "get_task ?i k1 = Inr init" using init c by (simp add: k1_def)
  have a2: "all_children k2 = all_children k + {#c#}"
    using all_children_put [OF st(1) gi, of "init\<lparr>children := children init @ [c]\<rparr>"] by (simp add: k2_def a1 ac_simps)
  have p2: "pids k2 = pids k" using get_task_pids [OF ch] get_task_pids [OF init] by (auto simp: k2_def k1_def)
  have "move_children self cs k2 = Inr k'" "self \<noteq> INITPROC k2" using run Cons.prems(3) by (simp_all add: k2_def k1_def)
  note IH = Cons.IH [OF this(1) st(2) this(2)]
  have i2: "INITPROC k2 = ?i" by (simp add: k2_def k1_def)
  have g2: "\<exists>u0. get_task q k = Inr u0 \<and> pid u = pid u0 \<and> task_status u = task_status u0 \<and>
      parent u = (if q = c then Some ?i else parent u0) \<and>
      children u = (if q = ?i then children u0 @ [c] else children u0)" if "get_task q k2 = Inr u" for q u
    using that ch init c by (auto simp: k2_def k1_def get_put split: if_splits)
  have "get_task self k2 = get_task self k" using c Cons.prems(3) by (simp add: k2_def k1_def)
  moreover have "k' = k\<lparr>tasks := tasks k'\<rparr>" using IH k2t by (metis kernel.surjective kernel.update_convs(5))
  ultimately show ?case
    using IH g2 p2 a2 by (fastforce simp: i2)
qed simp

lemma children_in_tree:
  assumes "tree_inv k" and "get_task self k = Inr t" and "c \<in> set (children t)"
  shows "c \<in> pids k" and "c \<noteq> INITPROC k" and "count (all_children k) c = 1"
proof -
  have "c \<in># all_children k"
    using assms(2,3) by (auto simp: all_children_def get_task_def unwrapR_def split: option.splits dest!: map_of_SomeD intro!: bexI)
  moreover have "all_children k = mset_set (pids k - {INITPROC k})" using assms(1) by (simp add: tree_inv_def)
  ultimately show "c \<in> pids k" "c \<noteq> INITPROC k" "count (all_children k) c = 1" by auto
qed

lemma move_children_self: "move_children self cs k = Inr k' \<Longrightarrow> self \<notin> set cs"
  by (induction cs arbitrary: k) (auto simp: bindR_eq_Inr Let_def split: if_splits)

lemma finite_pids [simp]: "finite (pids k)"
  by (simp add: pids_def)

text \<open>The tree after an exit, with the task still referenced by its parent.\<close>

lemma exit_tree:
  assumes tr: "tree_inv k" and t: "get_task p k = Inr t" and pi: "p \<noteq> INITPROC k"
    and mv: "move_children p (children t) k = Inr k2" and tz: "pid tz = pid t" "parent tz = parent t" "children tz = []"
  shows "tree_inv (put_task p tz k2)" and "count (all_children (put_task p tz k2)) p = 1"
    and "\<And>q u. q \<noteq> p \<Longrightarrow> get_task q k = Inr u \<Longrightarrow> \<exists>u'. get_task q (put_task p tz k2) = Inr u' \<and> task_status u' = task_status u"
proof -
  let ?k = "put_task p tz k2" and ?i = "INITPROC k"
  have st: "store_ok k" using tr by (simp add: tree_inv_def)
  note m = move_children_spec [OF mv st pi]
  have k2: "k2 = k\<lparr>tasks := tasks k2\<rparr>" "store_ok k2" "pids k2 = pids k" "all_children k2 = all_children k + mset (children t)"
    "get_task p k2 = Inr t" using m t by auto
  have i: "INITPROC k2 = ?i" by (subst k2(1)) simp
  have pp: "p \<in> pids k" by (rule get_task_pids [OF t])
  have ac: "all_children ?k = mset_set (pids k - {?i})"
    using all_children_put [OF k2(2,5), of tz] tr by (simp add: tz k2(4) tree_inv_def)
  then show "count (all_children ?k) p = 1" using pp pi by simp
  have prev: "\<exists>u0. get_task q k = Inr u0 \<and> pid u = pid u0 \<and> task_status u = task_status u0 \<and>
      parent u = (if q \<in> set (children t) then Some ?i else parent u0) \<and>
      children u = (if q = ?i then children u0 @ children t else children u0)"
    if "q \<noteq> p" "get_task q ?k = Inr u" for q u using m that by simp
  have fam: "parent u = Some q" if "get_task q ?k = Inr v" "c \<in> set (children v)" "get_task c ?k = Inr u" for q v c u
  proof -
    have old: "parent u0 = Some q0" if "get_task q0 k = Inr v0" "c \<in> set (children v0)" "get_task c k = Inr u0" for q0 v0 u0
      using tr that unfolding tree_inv_def by blast
    have qp: "q \<noteq> p" using that tz by auto
    from prev [OF qp that(1)] obtain v0 where v0: "get_task q k = Inr v0"
      "children v = (if q = ?i then children v0 @ children t else children v0)" by blast
    show ?thesis
    proof (cases "c = p")
      case True
      then have "c \<in> set (children v0)" using that(2) v0(2) move_children_self [OF mv] by (auto split: if_splits)
      then show ?thesis using old [OF v0(1)] True t tz(2) that(3) by simp
    next
      case False
      from prev [OF False that(3)] obtain u0 where u0: "get_task c k = Inr u0"
        "parent u = (if c \<in> set (children t) then Some ?i else parent u0)" by blast
      show ?thesis
      proof (cases "c \<in> set (children t)")
        case True
        with old [OF t True u0(1)] old [OF v0(1) _ u0(1)] that(2) v0(2) u0(2) qp show ?thesis by (auto split: if_splits)
      next
        case False
        with old [OF v0(1) _ u0(1)] that(2) v0(2) u0(2) show ?thesis by (auto split: if_splits)
      qed
    qed
  qed
  have ni: "?i \<notin> set (children t)" using children_in_tree(2) [OF tr t] by blast
  have one: "pid u = q \<and> q \<notin> set (children u) \<and> (task_status u = Zombie \<longrightarrow> children u = [] \<and> q \<noteq> ?i)"
    if "get_task q ?k = Inr u" for q u
  proof (cases "q = p")
    case True
    with that t tz pi tr show ?thesis by (auto simp: tree_inv_def)
  next
    case False
    from prev [OF False that] obtain u0 where u0: "get_task q k = Inr u0" "pid u = pid u0" "task_status u = task_status u0"
      "children u = (if q = ?i then children u0 @ children t else children u0)" by blast
    then show ?thesis using tr ni by (auto simp: tree_inv_def)
  qed
  show "tree_inv ?k"
    using k2(2,3) ac one fam pp tr unfolding tree_inv_def by (auto simp: i insert_absorb)
  fix q u assume q: "q \<noteq> p" "get_task q k = Inr u"
  then have "has_task ?k q" using k2(3) get_task_pids [OF q(2)] by (simp flip: pids_has_task)
  from get_task_of [OF this] prev [OF q(1)] q(2)
  show "\<exists>u'. get_task q ?k = Inr u' \<and> task_status u' = task_status u" by fastforce
qed

lemma exit_inv:
  assumes inv: "proc_inv k" and run: "exit_current_and_run_next now code k = Inr k'"
  shows "proc_inv k'"
proof -
  have si: "sched_inv k" using inv by (simp add: proc_inv_def)
  let ?k1 = "k\<lparr>processor_current := None\<rparr>"
  obtain p where p: "processor_current k = Some p"
    using run by (auto simp: exit_current_and_run_next_def take_current_task_def bindR_eq_Inr unwrapR_def split: option.splits)
  obtain t where t: "get_task p k = Inr t" "task_status t = Running" using sched_inv_currentD [OF si p] by blast
  let ?t = "t\<lparr>task_info := add_run_time now (task_info t), task_status := Zombie, exit_code := code\<rparr>"
  from run p t obtain k2 ms s k4 where pi: "p \<noteq> INITPROC k" and mv: "move_children p (children t) ?k1 = Inr k2"
    and rel: "release_task p (put_task p (?t\<lparr>children := [], memory_set := ms, fd_table := []\<rparr>) (k2\<lparr>kmm := s\<rparr>)) = Inr k4"
    and k': "k' = k4\<lparr>cpu := idle_task_cx k4\<rparr>"
    by (auto simp: exit_current_and_run_next_def take_current_task_def bindR_eq_Inr Let_def schedule_def split: if_splits)
  let ?tz = "?t\<lparr>children := [], memory_set := ms, fd_table := []\<rparr>"
  have tr1: "tree_inv ?k1" using inv by (simp add: proc_inv_def)
  have t1: "get_task p ?k1 = Inr t" and pi1: "p \<noteq> INITPROC ?k1" using t pi by simp_all
  have z: "pid ?tz = pid t" "parent ?tz = parent t" "children ?tz = []" by simp_all
  note e = exit_tree [OF tr1 t1 pi1 mv z]
  define k3 where "k3 = put_task p ?tz k2"
  have put: "put_task p ?tz (k2\<lparr>kmm := s\<rparr>) = k3\<lparr>kmm := s\<rparr>" by (simp add: k3_def put_task_def)
  have c3: "tree_inv k3" "count (all_children k3) p = 1"
    "\<And>q u. q \<noteq> p \<Longrightarrow> get_task q k = Inr u \<Longrightarrow> \<exists>u'. get_task q k3 = Inr u' \<and> task_status u' = task_status u"
    using e unfolding k3_def by simp_all
  then have "strong_count p (k3\<lparr>kmm := s\<rparr>) \<noteq> 0" by (simp add: strong_count_eq)
  then have k4: "k4 = k3\<lparr>kmm := s\<rparr>" using rel put by (simp add: release_task_def)
  have "store_ok ?k1" using tr1 by (simp add: tree_inv_def)
  from move_children_spec [OF mv this pi1] have k2: "k2 = k\<lparr>processor_current := None, tasks := tasks k2\<rparr>" "pids k2 = pids k" by simp_all
  have f: "ready_queue k2 = ready_queue k" "processor_current k2 = None" "PID_ALLOCATOR k2 = PID_ALLOCATOR k"
    by (subst k2(1); simp)+
  have q3: "ready_queue k3 = ready_queue k" "processor_current k3 = None" "PID_ALLOCATOR k3 = PID_ALLOCATOR k" "pids k3 = pids k"
    using get_task_pids [OF t(1)] by (simp_all add: k3_def f k2(2) insert_absorb)
  have "\<exists>u. get_task q k3 = Inr u \<and> task_status u = Ready" if "q \<in> set (ready_queue k)" for q
  proof -
    have "q \<noteq> p" using sched_inv_current_not_queued [OF si p] that by auto
    then show ?thesis using sched_inv_queueD [OF si that] c3(3) by metis
  qed
  then have "sched_inv k3" using si by (simp add: sched_inv_def q3)
  moreover have "pid_inv k3" using inv by (simp add: pid_inv_def proc_inv_def q3)
  ultimately show ?thesis using c3(1) by (simp add: k' k4 proc_inv_def)
qed

section \<open>New children\<close>

lemma new_child_tree:
  assumes tr: "tree_inv k" and t: "get_task self k = Inr t" and p: "p \<notin> pids k"
    and c: "pid c = p" "parent c = Some self" "children c = []" "task_status c = Ready" and z: "task_status t \<noteq> Zombie"
  shows "tree_inv (put_task self (t\<lparr>children := children t @ [p]\<rparr>) (put_task p c k))"
proof -
  let ?t = "t\<lparr>children := children t @ [p]\<rparr>" and ?k1 = "put_task p c k" and ?i = "INITPROC k"
  have st: "store_ok k" and i: "?i \<in> pids k" and ac: "all_children k = mset_set (pids k - {?i})"
    and one: "\<And>q u. get_task q k = Inr u \<Longrightarrow> pid u = q \<and> q \<notin> set (children u) \<and> (task_status u = Zombie \<longrightarrow> children u = [] \<and> q \<noteq> ?i)"
    and fam: "\<And>q v e u. get_task q k = Inr v \<Longrightarrow> e \<in> set (children v) \<Longrightarrow> get_task e k = Inr u \<Longrightarrow> parent u = Some q"
    using tr unfolding tree_inv_def by blast+
  have sp: "self \<in> pids k" by (rule get_task_pids [OF t])
  have self: "self \<noteq> p" "?i \<noteq> p" using p sp i by auto
  have gone: "p \<notin> set (children v)" if "get_task q k = Inr v" for q v
  proof
    assume "p \<in> set (children v)"
    then have "p \<in># all_children k"
      using that by (auto simp: all_children_def get_task_def unwrapR_def split: option.splits dest!: map_of_SomeD intro!: bexI)
    then show False using p by (simp add: ac)
  qed
  have t1: "get_task self ?k1 = Inr t" using t self by simp
  have st1: "store_ok ?k1" using st by simp
  have "all_children (put_task self ?t ?k1) = all_children k + {#p#}"
    using all_children_put [OF st1 t1, of ?t] all_children_put_new [OF p, of c] c(3) by (simp add: ac_simps)
  also have "\<dots> = mset_set (insert p (pids k - {?i}))" using p by (simp add: ac)
  also have "insert p (pids k - {?i}) = insert p (pids k) - {?i}" using self by auto
  finally have ch: "all_children (put_task self ?t ?k1) = mset_set (insert p (pids k) - {?i})" .
  show ?thesis
    unfolding tree_inv_def get_put
    using st1 ch i sp one fam t c gone z self by (auto simp: insert_absorb insert_commute split: if_splits)
qed

lemma new_child_inv:
  assumes inv: "proc_inv k" and t: "get_task self k = Inr t" and cur: "processor_current k = Some self"
    and p: "alloc_room (PID_ALLOCATOR k) = Some (p, pa)"
    and c: "pid c = p" "parent c = Some self" "children c = []" "task_status c = Ready"
    and k': "tasks k' = tasks (put_task self (t\<lparr>children := children t @ [p]\<rparr>) (put_task p c k))"
      "ready_queue k' = ready_queue k @ [p]" "processor_current k' = Some self" "INITPROC k' = INITPROC k" "PID_ALLOCATOR k' = pa"
  shows "proc_inv k'"
proof -
  let ?k = "put_task self (t\<lparr>children := children t @ [p]\<rparr>) (put_task p c k)"
  have tr: "tree_inv k" and si: "sched_inv k" and pi: "ra_inv (PID_ALLOCATOR k)" "pids k \<subseteq> ra_live (PID_ALLOCATOR k)"
    using inv by (auto simp: proc_inv_def pid_inv_def)
  have new: "p \<notin> pids k" using alloc_room_fresh [OF p] pi by blast
  have run: "task_status t = Running" using sched_inv_currentD [OF si cur] t by auto
  have sp: "self \<in> pids k" by (rule get_task_pids [OF t])
  then have ne: "self \<noteq> p" using new by auto
  have g: "get_task q k' = get_task q ?k" for q by (rule get_task_tasks_cong [OF k'(1)])
  have "tree_inv k' = tree_inv ?k" using k' by (intro tree_inv_cong) simp_all
  moreover have "tree_inv ?k" using run by (intro new_child_tree [OF tr t new c]) simp
  moreover have "p \<notin> set (ready_queue k)" using sched_inv_queueD [OF si] get_task_pids new by blast
  then have "sched_inv k'"
    using si c(4) run ne sched_inv_current_not_queued [OF si cur] unfolding sched_inv_def k' g get_put by auto
  moreover have "pids k' = insert p (pids k)" using k'(1) sp by (auto simp: pids_def put_task_def)
  then have "pid_inv k'"
    using alloc_room_inv [OF pi(1) p] alloc_room_live [OF pi(1) p] pi(2) by (auto simp: pid_inv_def k')
  ultimately show ?thesis by (simp add: proc_inv_def)
qed

lemma pid_alloc_room: "alloc_room (PID_ALLOCATOR k) \<noteq> None \<Longrightarrow> pid_alloc k = (p, k1) \<Longrightarrow>
  \<exists>pa. alloc_room (PID_ALLOCATOR k) = Some (p, pa) \<and> k1 = k\<lparr>PID_ALLOCATOR := pa\<rparr>"
  by (auto simp: pid_alloc_def alloc_room_def split: if_splits prod.splits)

lemma new_kstack_fields: "new_kstack k = Inr (ks, k1) \<Longrightarrow> \<exists>a sp s. k1 = k\<lparr>KSTACK_ALLOCATOR := a, KERNEL_SPACE := sp, kmm := s\<rparr>"
  by (auto simp: new_kstack_def bindR_eq_Inr)

lemma fork_effect:
  assumes "TaskControlBlock_fork P now self k = Inr (p, k')" and "alloc_room (PID_ALLOCATOR k) \<noteq> None"
  shows "\<exists>t pa c. get_task self k = Inr t \<and> alloc_room (PID_ALLOCATOR k) = Some (p, pa) \<and> pid c = p \<and> parent c = Some self \<and>
    children c = [] \<and> task_status c = Ready \<and> tasks k' = tasks (put_task self (t\<lparr>children := children t @ [p]\<rparr>) (put_task p c k)) \<and>
    ready_queue k' = ready_queue k \<and> processor_current k' = processor_current k \<and> INITPROC k' = INITPROC k \<and> PID_ALLOCATOR k' = pa"
proof -
  from assms(1) obtain t ms s1 ppn where t: "get_task self k = Inr t"
    and m: "MemorySet_from_existed_user (symbols P) (memory_set t) (kmm k) = Inr (ms, s1)" "trap_cx_page ms s1 = Inr ppn"
    by (auto simp: TaskControlBlock_fork_def bindR_eq_Inr)
  obtain q k1 where pal: "pid_alloc (k\<lparr>kmm := s1\<rparr>) = (q, k1)" by fastforce
  then obtain pa where pa: "alloc_room (PID_ALLOCATOR k) = Some (q, pa)" "k1 = k\<lparr>kmm := s1, PID_ALLOCATOR := pa\<rparr>"
    using pid_alloc_room [of "k\<lparr>kmm := s1\<rparr>"] assms(2) by auto
  from assms(1) t m pal obtain ks k2 where ks: "new_kstack k1 = Inr (ks, k2)" by (auto simp: TaskControlBlock_fork_def bindR_eq_Inr Let_def)
  define c where "c = \<lparr>pid = q, ppid = pid t, kernel_stack = ks, trap_cx_ppn = ppn, base_size = base_size t,
      task_cx = goto_trap_return (trap_return_addr P) (kernel_stack_top ks), task_status = Ready, memory_set = ms,
      parent = Some self, children = [], exit_code = 0, fd_table = fd_table t, heap_bottom = heap_bottom t,
      program_brk = program_brk t,
      task_info = TaskInfo_new now, stride = 0, pri = 16, pwd = pwd t\<rparr>"
  from new_kstack_fields [OF ks] obtain a sp' s where k2: "k2 = k1\<lparr>KSTACK_ALLOCATOR := a, KERNEL_SPACE := sp', kmm := s\<rparr>" by blast
  from assms(1) t m pal ks obtain m' where "p = q"
    "k' = (put_task self (t\<lparr>children := children t @ [q]\<rparr>) (put_task q c k2))\<lparr>kmm := m'\<rparr>"
    by (auto simp: TaskControlBlock_fork_def bindR_eq_Inr Let_def c_def)
  then show ?thesis
    using t by (intro exI [of _ t] exI [of _ pa] exI [of _ c]) (simp add: pa k2 c_def put_task_def)
qed

lemma spawn_effect:
  assumes "TaskControlBlock_spawn zread P now self elf k = Inr (p, k')" and "alloc_room (PID_ALLOCATOR k) \<noteq> None"
  shows "\<exists>t pa c. get_task self k = Inr t \<and> alloc_room (PID_ALLOCATOR k) = Some (p, pa) \<and> pid c = p \<and> parent c = Some self \<and>
    children c = [] \<and> task_status c = Ready \<and> tasks k' = tasks (put_task self (t\<lparr>children := children t @ [p]\<rparr>) (put_task p c k)) \<and>
    ready_queue k' = ready_queue k \<and> processor_current k' = processor_current k \<and> INITPROC k' = INITPROC k \<and> PID_ALLOCATOR k' = pa"
proof -
  from assms(1) obtain t ms sp e s1 ppn where t: "get_task self k = Inr t"
    and m: "MemorySet_from_elf zread (symbols P) elf (kmm k) = Inr ((ms, sp, e), s1)" "trap_cx_page ms s1 = Inr ppn"
    by (auto simp: TaskControlBlock_spawn_def bindR_eq_Inr)
  obtain q k1 where pal: "pid_alloc (k\<lparr>kmm := s1\<rparr>) = (q, k1)" by fastforce
  then obtain pa where pa: "alloc_room (PID_ALLOCATOR k) = Some (q, pa)" "k1 = k\<lparr>kmm := s1, PID_ALLOCATOR := pa\<rparr>"
    using pid_alloc_room [of "k\<lparr>kmm := s1\<rparr>"] assms(2) by auto
  from assms(1) t m pal obtain ks k2 where ks: "new_kstack k1 = Inr (ks, k2)" by (auto simp: TaskControlBlock_spawn_def bindR_eq_Inr Let_def)
  define c where "c = \<lparr>pid = q, ppid = pid t, kernel_stack = ks, trap_cx_ppn = ppn, base_size = sp,
      task_cx = goto_trap_return (trap_return_addr P) (kernel_stack_top ks), task_status = Ready, memory_set = ms,
      parent = Some self, children = [], exit_code = 0, fd_table = std_fds, heap_bottom = heap_bottom t,
      program_brk = program_brk t,
      task_info = TaskInfo_new now, stride = 0, pri = 16, pwd = pwd t\<rparr>"
  from new_kstack_fields [OF ks] obtain a sp' s where k2: "k2 = k1\<lparr>KSTACK_ALLOCATOR := a, KERNEL_SPACE := sp', kmm := s\<rparr>" by blast
  from assms(1) t m pal ks obtain m' where "p = q"
    "k' = (put_task self (t\<lparr>children := children t @ [q]\<rparr>) (put_task q c k2))\<lparr>kmm := m'\<rparr>"
    by (auto simp: TaskControlBlock_spawn_def bindR_eq_Inr Let_def c_def)
  then show ?thesis
    using t by (intro exI [of _ t] exI [of _ pa] exI [of _ c]) (simp add: pa k2 c_def put_task_def)
qed

lemma sys_fork_inv:
  assumes inv: "proc_inv k" and room: "alloc_room (PID_ALLOCATOR k) \<noteq> None" and run: "sys_fork P now stack k = Inr (p, k')"
  shows "proc_inv k'"
proof -
  from run obtain self where cur: "processor_current k = Some self"
    by (auto simp: sys_fork_def current_task_def bindR_eq_Inr unwrapR_def split: option.splits)
  with run obtain k1 s where f: "TaskControlBlock_fork P now self k = Inr (p, k1)" and k': "k' = add_task p (k1\<lparr>kmm := s\<rparr>)"
    by (auto simp: sys_fork_def current_task_def bindR_eq_Inr Let_def)
  from fork_effect [OF f room] obtain t pa c where e: "get_task self k = Inr t" "alloc_room (PID_ALLOCATOR k) = Some (p, pa)"
    "pid c = p" "parent c = Some self" "children c = []" "task_status c = Ready"
    "tasks k1 = tasks (put_task self (t\<lparr>children := children t @ [p]\<rparr>) (put_task p c k))" "ready_queue k1 = ready_queue k"
    "processor_current k1 = processor_current k" "INITPROC k1 = INITPROC k" "PID_ALLOCATOR k1 = pa" by blast
  show ?thesis
    by (rule new_child_inv [OF inv e(1) cur e(2-6)]) (simp_all add: k' add_task_def e cur)
qed

lemma spawn_inv:
  assumes inv: "proc_inv k" and room: "alloc_room (PID_ALLOCATOR k) \<noteq> None" and cur: "processor_current k = Some self"
    and run: "TaskControlBlock_spawn zread P now self elf k = Inr (p, k1)"
  shows "proc_inv (add_task p k1)"
proof -
  from spawn_effect [OF run room] obtain t pa c where e: "get_task self k = Inr t" "alloc_room (PID_ALLOCATOR k) = Some (p, pa)"
    "pid c = p" "parent c = Some self" "children c = []" "task_status c = Ready"
    "tasks k1 = tasks (put_task self (t\<lparr>children := children t @ [p]\<rparr>) (put_task p c k))" "ready_queue k1 = ready_queue k"
    "processor_current k1 = processor_current k" "INITPROC k1 = INITPROC k" "PID_ALLOCATOR k1 = pa" by blast
  show ?thesis
    by (rule new_child_inv [OF inv e(1) cur e(2-6)]) (simp_all add: add_task_def e cur)
qed

lemma exec_inv:
  assumes "proc_inv k" and "TaskControlBlock_exec zread P self elf k = Inr k'"
  shows "proc_inv k'"
  using assms
  by (auto simp: TaskControlBlock_exec_def bindR_eq_Inr Let_def intro!: proc_inv_put) (auto simp: proc_inv_def)

end
