(* ===== verification/Waitpid.thy ===== *)
theory Waitpid
  imports Process_Inv
begin

text \<open>
  \<open>waitpid\<close> (os/src/syscall/process.rs) and the life of the process tables: reaping a zombie keeps the
  invariant, its assertion on the reference count never fails, and every reachable state is consistent.
\<close>

section \<open>Finding a zombie\<close>

lemma find_zombie_SomeD:
  assumes "find_zombie k self q i cs = Inr (Some j)"
  shows "i \<le> j \<and> j < i + length cs \<and> cs ! (j - i) \<noteq> self \<and>
    (\<exists>t. get_task (cs ! (j - i)) k = Inr t \<and> task_status t = Zombie) \<and> (q = - 1 \<or> q = cs ! (j - i))"
  using assms
proof (induction cs arbitrary: i)
  case (Cons c cs)
  show ?case
  proof (cases "i = j")
    case True
    with Cons.prems Cons.IH [of "Suc i"] show ?thesis by (auto simp: bindR_eq_Inr is_zombie_def split: if_splits)
  next
    case False
    with Cons.prems have "find_zombie k self q (Suc i) cs = Inr (Some j)"
      by (auto simp: bindR_eq_Inr split: if_splits)
    from Cons.IH [OF this] show ?thesis by (auto simp: nth_Cons' Suc_diff_le)
  qed
qed simp

lemma find_zombie_spec:
  assumes "self \<notin> set cs" and "\<forall>c \<in> set cs. has_task k c"
    and "\<And>c. M c \<longleftrightarrow> task_status (task_of k c) = Zombie \<and> (q = - 1 \<or> q = c)"
  shows "find_zombie k self q i cs = Inr (map_option ((+) i) (find_index M cs))"
  using assms(1,2)
proof (induction cs arbitrary: i)
  case (Cons c cs)
  then have "get_task c k = Inr (task_of k c)" by (simp add: get_task_of)
  moreover have "(+) (Suc i) = (\<lambda>x. Suc (i + x))" by auto
  ultimately show ?case using Cons by (cases "M c") (auto simp: is_zombie_def assms(3) option.map_comp comp_def)
qed simp

section \<open>Reaping\<close>

definition reaped :: "usize \<Rightarrow> usize \<Rightarrow> kernel \<Rightarrow> kernel \<Rightarrow> bool" where
  "reaped self c k k' \<longleftrightarrow>
     (\<exists>t xs ys. get_task self k = Inr t \<and> children t = xs @ c # ys \<and>
       tasks k' = filter (\<lambda>(q, _). q \<noteq> c) (tasks (put_task self (t\<lparr>children := xs @ ys\<rparr>) k)))"

lemma get_task_filter:
  "tasks k' = filter (\<lambda>(q, _). q \<noteq> c) (tasks k1) \<Longrightarrow> get_task q k' = (if q = c then Inl UnwrapNone else get_task q k1)"
proof (cases "q = c")
  case True
  assume a: "tasks k' = filter (\<lambda>(q, _). q \<noteq> c) (tasks k1)"
  have "map_of (filter (\<lambda>(q, _). q \<noteq> c) ts) c = None" for ts :: "(usize \<times> TaskControlBlock) list"
    by (auto simp: map_of_eq_None_iff)
  with a True show ?thesis by (simp add: get_task_def unwrapR_def)
qed (simp add: get_task_def map_of_filter_other)

lemma reaped_tree:
  assumes tr: "tree_inv k" and r: "reaped self c k k'" and i: "INITPROC k' = INITPROC k"
    and c: "c \<noteq> self" "get_task c k = Inr u" "task_status u = Zombie"
  shows "tree_inv k'" and "pids k' = pids k - {c}"
    and "\<And>q v. q \<noteq> c \<Longrightarrow> get_task q k = Inr v \<Longrightarrow> \<exists>v'. get_task q k' = Inr v' \<and> task_status v' = task_status v"
proof -
  from r obtain t xs ys where t: "get_task self k = Inr t" "children t = xs @ c # ys"
    and ts: "tasks k' = filter (\<lambda>(q, _). q \<noteq> c) (tasks (put_task self (t\<lparr>children := xs @ ys\<rparr>) k))"
    by (auto simp: reaped_def)
  let ?t = "t\<lparr>children := xs @ ys\<rparr>"
  define k1 where "k1 = put_task self ?t k"
  note ts = ts [folded k1_def]
  have st: "store_ok k" and ac: "all_children k = mset_set (pids k - {INITPROC k})" and ip: "INITPROC k \<in> pids k"
    and one: "\<And>q u. get_task q k = Inr u \<Longrightarrow> pid u = q \<and> q \<notin> set (children u) \<and> (task_status u = Zombie \<longrightarrow> children u = [] \<and> q \<noteq> INITPROC k)"
    and fam: "\<And>q v e u. get_task q k = Inr v \<Longrightarrow> e \<in> set (children v) \<Longrightarrow> get_task e k = Inr u \<Longrightarrow> parent u = Some q"
    using tr unfolding tree_inv_def by blast+
  have st1: "store_ok k1" using st by (simp add: k1_def)
  have "all_children k1 + mset (children t) = all_children k + mset (xs @ ys)"
    unfolding k1_def using all_children_put [OF st t(1), of ?t] by simp
  then have a1: "all_children k1 = all_children k - {#c#}" by (simp add: t(2)) (metis add_mset_remove_trivial)
  have u1: "map_of (tasks k1) c = Some u"
    using c(1,2) by (auto simp: k1_def put_task_def get_task_def map_of_filter_other unwrapR_def split: option.splits)
  have "children u = []" "c \<noteq> INITPROC k" using one [OF c(2)] c(3) by simp_all
  then have a2: "all_children k' = all_children k1"
    using filter_other_keys [OF _ u1] st1 by (simp add: all_children_def ts store_ok_def)
  have self: "self \<in> pids k" by (rule get_task_pids [OF t(1)])
  have p1: "pids k1 = pids k" using self by (auto simp: k1_def)
  show p: "pids k' = pids k - {c}" unfolding p1 [symmetric] by (force simp: pids_def ts)
  have "all_children k' = mset_set (pids k - {INITPROC k} - {c})"
    using get_task_pids [OF c(2)] \<open>c \<noteq> INITPROC k\<close> by (simp add: a1 a2 ac mset_set_Diff)
  also have "pids k - {INITPROC k} - {c} = pids k' - {INITPROC k}" using p by auto
  finally have ac': "all_children k' = mset_set (pids k' - {INITPROC k})" .
  have st': "store_ok k'" using st1 by (auto simp: store_ok_def ts distinct_map inj_on_def)
  have g: "get_task q k' = (if q = c then Inl UnwrapNone else if q = self then Inr ?t else get_task q k)" for q
    using get_task_filter [OF ts] by (simp add: k1_def get_put)
  have one': "pid v = q \<and> q \<notin> set (children v) \<and> (task_status v = Zombie \<longrightarrow> children v = [] \<and> q \<noteq> INITPROC k)" if "get_task q k' = Inr v" for q v
    using that one [of q] one [OF t(1)] by (auto simp: g t(2) split: if_splits)
  have fam': "parent v = Some q" if w: "get_task q k' = Inr w" "e \<in> set (children w)" and v: "get_task e k' = Inr v" for q w e v
  proof -
    obtain w0 where w0: "get_task q k = Inr w0" "e \<in> set (children w0)"
      using w t by (auto simp: g split: if_splits)
    obtain v0 where v0: "get_task e k = Inr v0" "parent v0 = parent v"
      using v t(1) by (auto simp: g split: if_splits)
    show ?thesis using fam [OF w0 v0(1)] v0(2) by simp
  qed
  have ip': "INITPROC k \<in> pids k'" using ip \<open>c \<noteq> INITPROC k\<close> p by auto
  show "tree_inv k'"
    using st' ip' ac' one' fam' unfolding tree_inv_def i by blast
  show "\<And>q v. q \<noteq> c \<Longrightarrow> get_task q k = Inr v \<Longrightarrow> \<exists>v'. get_task q k' = Inr v' \<and> task_status v' = task_status v"
    using t(1) by (auto simp: g)
qed

lemma drop_task_effect:
  assumes "drop_task c k = Inr k'"
  shows "\<exists>t pa ka sp s. get_task c k = Inr t \<and> RecycleAllocator_dealloc (PID_ALLOCATOR k) (pid t) = Inr pa \<and>
    k' = k\<lparr>PID_ALLOCATOR := pa, KSTACK_ALLOCATOR := ka, KERNEL_SPACE := sp, kmm := s,
      tasks := filter (\<lambda>(q, _). q \<noteq> c) (tasks k)\<rparr>"
proof -
  from assms obtain t pa ka sp s1 s where "get_task c k = Inr t" "RecycleAllocator_dealloc (PID_ALLOCATOR k) (pid t) = Inr pa"
    "k' = k\<lparr>PID_ALLOCATOR := pa, KSTACK_ALLOCATOR := ka, KERNEL_SPACE := sp, kmm := s,
      tasks := filter (\<lambda>(q, _). q \<noteq> c) (tasks k)\<rparr>"
    by (auto simp: drop_task_def bindR_eq_Inr)
  then show ?thesis by blast
qed

lemma reap_inv:
  assumes inv: "proc_inv k" and cur: "processor_current k = Some self" and t: "get_task self k = Inr t"
    and cs: "children t = xs @ c # ys" "c \<noteq> self" and c: "get_task c k = Inr u" "task_status u = Zombie"
    and k2: "k2 = (put_task self (t\<lparr>children := xs @ ys\<rparr>) k)\<lparr>kmm := s\<rparr>" and drop: "drop_task c k2 = Inr k'"
  shows "proc_inv k'" and "pids k' = pids k - {c}" and "ra_live (PID_ALLOCATOR k') = ra_live (PID_ALLOCATOR k) - {c}"
proof -
  have tr: "tree_inv k" and si: "sched_inv k" and pi: "ra_inv (PID_ALLOCATOR k)" "pids k \<subseteq> ra_live (PID_ALLOCATOR k)"
    using inv by (auto simp: proc_inv_def pid_inv_def)
  have u2: "get_task c k2 = Inr u" using c(1) cs(2) by (simp add: k2)
  obtain pa ka sp s' where d: "RecycleAllocator_dealloc (PID_ALLOCATOR k2) (pid u) = Inr pa"
    and k': "k' = k2\<lparr>PID_ALLOCATOR := pa, KSTACK_ALLOCATOR := ka, KERNEL_SPACE := sp, kmm := s',
      tasks := filter (\<lambda>(q, _). q \<noteq> c) (tasks k2)\<rparr>" using drop_task_effect [OF drop] u2 by auto
  have "tasks k2 = tasks (put_task self (t\<lparr>children := xs @ ys\<rparr>) k)" by (simp add: k2)
  then have r: "reaped self c k k'" using t cs(1) unfolding reaped_def k' by auto
  have f: "ready_queue k' = ready_queue k" "processor_current k' = Some self" "INITPROC k' = INITPROC k"
    "PID_ALLOCATOR k' = pa" "PID_ALLOCATOR k2 = PID_ALLOCATOR k"
    using cur by (simp_all add: k' k2)
  note rt = reaped_tree [OF tr r f(3) cs(2) c]
  show p: "pids k' = pids k - {c}" by (rule rt(2))
  have "pid u = c" using tr c(1) by (simp add: tree_inv_def)
  with d f have da: "RecycleAllocator_dealloc (PID_ALLOCATOR k) c = Inr pa" by simp
  then have pa: "ra_inv pa" "ra_live pa = ra_live (PID_ALLOCATOR k) - {c}"
    using ids.dealloc_inv [OF pi(1) da] ids.dealloc_live [OF pi(1) da] by simp_all
  then show "ra_live (PID_ALLOCATOR k') = ra_live (PID_ALLOCATOR k) - {c}" by (simp add: f)
  have "\<exists>v. get_task q k' = Inr v \<and> task_status v = Ready" if q: "q \<in> set (ready_queue k)" for q
  proof -
    obtain v where v: "get_task q k = Inr v" "task_status v = Ready" using sched_inv_queueD [OF si q] by blast
    then have "q \<noteq> c" using c by auto
    then show ?thesis using rt(3) v by metis
  qed
  moreover have "\<exists>v. get_task self k' = Inr v \<and> task_status v = Running"
    using sched_inv_currentD [OF si cur] rt(3) cs(2) by metis
  ultimately have "sched_inv k'" using si by (simp add: sched_inv_def f)
  moreover have "pid_inv k'" using pa pi(2) p by (auto simp: pid_inv_def f)
  ultimately show "proc_inv k'" using rt(1) by (simp add: proc_inv_def)
qed

lemma waitpid_effect:
  assumes "waitpid q ptr k = Inr (r, k')"
  shows "k' = k \<or> (\<exists>self t xs ys u s k2. processor_current k = Some self \<and> get_task self k = Inr t \<and> children t = xs @ r # ys \<and>
    r \<noteq> self \<and> get_task r k = Inr u \<and> task_status u = Zombie \<and>
    k2 = (put_task self (t\<lparr>children := xs @ ys\<rparr>) k)\<lparr>kmm := s\<rparr> \<and> drop_task r k2 = Inr k')"
proof -
  from assms obtain self t where s: "processor_current k = Some self" "get_task self k = Inr t"
    by (auto simp: waitpid_def current_task_def bindR_eq_Inr unwrapR_def split: option.splits)
  show ?thesis
  proof (cases "\<exists>j. find_zombie k self q 0 (children t) = Inr (Some j) \<and> list_ex (\<lambda>c. q = - 1 \<or> q = c) (children t)")
    case True
    then obtain j where j: "find_zombie k self q 0 (children t) = Inr (Some j)" "list_ex (\<lambda>c. q = - 1 \<or> q = c) (children t)" by blast
    let ?c = "children t ! j"
    from find_zombie_SomeD [OF j(1)] obtain u where u: "j < length (children t)" "?c \<noteq> self" "get_task ?c k = Inr u"
      "task_status u = Zombie" by auto
    let ?k1 = "put_task self (t\<lparr>children := take j (children t) @ drop (Suc j) (children t)\<rparr>) k"
    from assms s j obtain k2 where r: "r = ?c" "drop_task ?c k2 = Inr k'" "k2 = ?k1 \<or> (\<exists>s. k2 = ?k1\<lparr>kmm := s\<rparr>)"
      by (auto simp: waitpid_def current_task_def bindR_eq_Inr Let_def split: if_splits)
    have "?k1 = ?k1\<lparr>kmm := kmm ?k1\<rparr>" by simp
    with r(3) obtain m where "k2 = ?k1\<lparr>kmm := m\<rparr>" by blast
    with r s u id_take_nth_drop [OF u(1)] show ?thesis by blast
  next
    case False
    with assms s show ?thesis
      by (auto simp: waitpid_def current_task_def bindR_eq_Inr split: if_splits option.splits)
  qed
qed

lemma waitpid_inv: "proc_inv k \<Longrightarrow> waitpid q ptr k = Inr (r, k') \<Longrightarrow> proc_inv k'"
  using waitpid_effect [of q ptr k r k'] reap_inv(1) by blast

section \<open>Reachable states\<close>

lemma proc_inv_put_kmm:
  assumes "proc_inv k" and "get_task p k = Inr t" and "pid t' = pid t" and "children t' = children t"
    and "parent t' = parent t" and "task_status t' = task_status t"
  shows "proc_inv (put_task p t' (k\<lparr>kmm := s\<rparr>))"
  using assms by (intro proc_inv_put [of _ p t]) (simp_all add: proc_inv_def)

lemma set_priority_inv: "proc_inv k \<Longrightarrow> sys_set_priority prio k = Inr (r, k') \<Longrightarrow> proc_inv k'"
  by (auto simp: sys_set_priority_def bindR_eq_Inr set_priority_def split: if_splits intro!: proc_inv_put)

lemma change_program_brk_family:
  "change_program_brk b t s = Inr (r, t', s') \<Longrightarrow>
     pid t' = pid t \<and> children t' = children t \<and> parent t' = parent t \<and> task_status t' = task_status t"
  by (auto simp: change_program_brk_def bindR_eq_Inr Let_def split: if_splits)

lemma brk_inv: "proc_inv k \<Longrightarrow> sys_brk b k = Inr (r, k') \<Longrightarrow> proc_inv k'"
  by (auto simp: sys_brk_def bindR_eq_Inr Let_def split: option.splits
      dest!: change_program_brk_family intro!: proc_inv_put_kmm)

lemma unmap_one_inv: "proc_inv k \<Longrightarrow> current_unmap_one v k = Inr (r, k') \<Longrightarrow> proc_inv k'"
  by (auto simp: current_unmap_one_def TaskControlBlock_unmap_def bindR_eq_Inr intro!: proc_inv_put_kmm)

lemma munmap_pages_inv: "proc_inv k \<Longrightarrow> munmap_pages vs k = Inr (r, k') \<Longrightarrow> proc_inv k'"
proof (induction vs arbitrary: k)
  case (Cons v vs)
  from Cons.prems(2) obtain tok where tok: "current_user_token k = Inr tok" by (auto simp: bindR_eq_Inr)
  show ?case
  proof (cases "PageTable_translate (mem (kmm k)) (PageTable_from_token tok) v")
    case None
    with Cons.prems tok show ?thesis by simp
  next
    case (Some e)
    with Cons.prems tok Cons.IH unmap_one_inv [OF Cons.prems(1)] show ?thesis by (auto simp: bindR_eq_Inr split: if_splits)
  qed
qed simp

inductive kstep :: "kernel \<Rightarrow> kernel \<Rightarrow> bool" where
  run: "processor_current k = None \<Longrightarrow> run_tasks_pass now k = Inr k' \<Longrightarrow> kstep k k'"
| suspend: "suspend_current_and_run_next now k = Inr k' \<Longrightarrow> kstep k k'"
| exit: "exit_current_and_run_next now code k = Inr k' \<Longrightarrow> kstep k k'"
| fork: "alloc_room (PID_ALLOCATOR k) \<noteq> None \<Longrightarrow> sys_fork P now stack k = Inr (p, k') \<Longrightarrow> kstep k k'"
| spawn: "alloc_room (PID_ALLOCATOR k) \<noteq> None \<Longrightarrow> processor_current k = Some self \<Longrightarrow>
    TaskControlBlock_spawn zread P now self elf k = Inr (p, k') \<Longrightarrow> kstep k (add_task p k')"
| exec: "processor_current k = Some self \<Longrightarrow> TaskControlBlock_exec zread P self elf k = Inr k' \<Longrightarrow> kstep k k'"
| wait: "waitpid q ptr k = Inr (r, k') \<Longrightarrow> kstep k k'"
| priority: "sys_set_priority prio k = Inr (r, k') \<Longrightarrow> kstep k k'"
| brk: "sys_brk b k = Inr (r, k') \<Longrightarrow> kstep k k'"
| munmap: "munmap_pages vs k = Inr (r, k') \<Longrightarrow> kstep k k'"
| user: "kstep k (k\<lparr>kmm := s, cpu := x\<rparr>)"

lemma kstep_inv: "kstep k k' \<Longrightarrow> proc_inv k \<Longrightarrow> proc_inv k'"
proof (induction rule: kstep.induct)
  case (user k s x)
  then show ?case by (simp add: proc_inv_def)
qed (rule run_tasks_pass_inv suspend_inv exit_inv sys_fork_inv spawn_inv exec_inv waitpid_inv set_priority_inv brk_inv
    munmap_pages_inv; assumption)+

lemma kreach_inv: "kstep\<^sup>*\<^sup>* k k' \<Longrightarrow> proc_inv k \<Longrightarrow> proc_inv k'"
  by (induction rule: rtranclp_induct) (auto intro: kstep_inv)

text \<open>Booting: a kernel without tasks that creates and enqueues the first process is consistent.\<close>

lemma boot_inv:
  assumes run: "create_initproc zread P now elf k = Inr k1" and empty: "tasks k = []" "ready_queue k = []"
    "processor_current k = None" "PID_ALLOCATOR k = RecycleAllocator_new"
  shows "proc_inv (add_initproc k1)"
proof -
  have pal: "pid_alloc (k\<lparr>kmm := s\<rparr>) = (1, k\<lparr>kmm := s, PID_ALLOCATOR := \<lparr>ra_current = 2, ra_recycled = []\<rparr>\<rparr>)" for s
    by (simp add: pid_alloc_def empty(4) RecycleAllocator_new_def RecycleAllocator_alloc_def)
  obtain t where k1: "tasks k1 = [(1, t)]" "pid t = 1" "children t = []" "task_status t = Ready" "ready_queue k1 = []"
    "processor_current k1 = None" "INITPROC k1 = 1" "PID_ALLOCATOR k1 = \<lparr>ra_current = 2, ra_recycled = []\<rparr>"
    using run empty by (auto simp: create_initproc_def TaskControlBlock_new_def bindR_eq_Inr Let_def pal put_task_def dest!: new_kstack_fields)
  have g: "get_task p (add_initproc k1) = Inr u \<longleftrightarrow> p = 1 \<and> u = t" for p u
    by (auto simp: get_task_def add_initproc_def add_task_def k1)
  show ?thesis
    unfolding proc_inv_def tree_inv_def sched_inv_def pid_inv_def g
    by (auto simp: add_initproc_def add_task_def k1 store_ok_def pids_def all_children_def ra_inv_def ra_live_def)
qed

end
