(* ===== verification/Reap.thy ===== *)
theory Reap
  imports Waitpid
begin

text \<open>
  The end of a process as a whole: the tables stay consistent in every reachable state, and \<open>waitpid\<close> gives
  the exit code to the parent and the PID, the kernel stack and the frames of the child back to the kernel.
\<close>

section \<open>References to a zombie\<close>

lemma zombie_strong_count:
  assumes inv: "proc_inv k" and t: "get_task self k = Inr t" "c \<in> set (children t)"
    and c: "get_task c k = Inr u" "task_status u = Zombie"
  shows "strong_count c k = 1"
proof -
  have tr: "tree_inv k" and si: "sched_inv k" using inv by (simp_all add: proc_inv_def)
  have "c \<notin> set (ready_queue k)" using sched_inv_queueD [OF si, of c] c by auto
  then have "count_list (ready_queue k) c = 0" by (simp add: count_list_0_iff)
  moreover have "processor_current k \<noteq> Some c" using sched_inv_currentD [OF si, of c] c by auto
  ultimately show ?thesis using children_in_tree [OF tr t] by (auto simp: strong_count_eq)
qed

lemma child_not_self:
  assumes inv: "proc_inv k" and cur: "processor_current k = Some self" and t: "get_task self k = Inr t"
    and r: "get_task c k = Inr u" "task_status u = Zombie"
  shows "c \<noteq> self"
  using sched_inv_currentD [of k self] assms by (auto simp: proc_inv_def)

text \<open>
  (C1) The process tables stay consistent: from a consistent state every sequence of scheduling, \<open>fork\<close>,
  \<open>spawn\<close>, \<open>exec\<close>, exit, \<open>waitpid\<close>, the priority and the memory calls \<open>brk\<close> and \<open>munmap\<close> leads to a state where every task but
  the first is in exactly one list of children, the ready queue holds ready tasks once, the processor a running
  one, and the PIDs are held; and a zombie is referenced only by its parent, as \<open>waitpid\<close> asserts. The calls
  that work on files (with \<open>mmap\<close>) are not steps of this relation.
\<close>

theorem processes_stay_consistent:
  assumes "proc_inv k" and "kstep\<^sup>*\<^sup>* k k'"
  shows "proc_inv k' \<and>
    (\<forall>self t c u. get_task self k' = Inr t \<and> c \<in> set (children t) \<and> get_task c k' = Inr u \<and> task_status u = Zombie \<longrightarrow>
       strong_count c k' = 1)"
  using kreach_inv [OF assms(2,1)] zombie_strong_count by blast

section \<open>A kernel with a parent and a zombie\<close>

definition example_family :: kernel where
  "example_family = example_kernel\<lparr>ready_queue := [], processor_current := Some 1,
     tasks := [(1, (example_task 1 16)\<lparr>task_status := Running, children := [2]\<rparr>),
               (2, (example_task 2 16)\<lparr>task_status := Zombie, parent := Some 1, exit_code := 3\<rparr>)]\<rparr>"

lemma example_family_inv: "proc_inv example_family"
proof -
  have t: "get_task p example_family = Inr t \<longleftrightarrow>
      p = 1 \<and> t = (example_task 1 16)\<lparr>task_status := Running, children := [2]\<rparr> \<or>
      p = 2 \<and> t = (example_task 2 16)\<lparr>task_status := Zombie, parent := Some 1, exit_code := 3\<rparr>" for p t
    by (auto simp: get_task_def example_family_def)
  have "pids example_family = {1, 2}" by (auto simp: pids_def example_family_def)
  moreover have "all_children example_family = {#2#}" by (simp add: all_children_def example_family_def example_task_def)
  moreover have "INITPROC example_family = 1" by (simp add: example_family_def example_kernel_def)
  moreover have "({1, 2} - {1} :: usize set) = {2}" by auto
  moreover have "store_ok example_family" by (simp add: store_ok_def example_family_def)
  ultimately have "tree_inv example_family" by (auto simp: tree_inv_def t example_task_def)
  moreover have "sched_inv example_family" unfolding sched_inv_def t by (simp add: example_family_def)
  moreover have "pid_inv example_family"
    using \<open>pids example_family = {1, 2}\<close>
    by (simp add: pid_inv_def ra_inv_def ra_live_def) (simp add: example_family_def example_kernel_def)
  ultimately show ?thesis by (simp add: proc_inv_def)
qed

theorem processes_stay_consistent_witness:
  "\<exists>k'. kstep example_family k' \<and> proc_inv k' \<and> strong_count 2 k' = 1"
proof -
  let ?t = "set_priority 5 ((example_task 1 16)\<lparr>task_status := Running, children := [2]\<rparr>)"
  define k' where "k' = put_task 1 ?t example_family"
  have s: "kstep example_family k'"
    unfolding k'_def
    by (rule kstep.priority [of 5 _ 5]) (simp add: sys_set_priority_def current_task_def get_task_def example_family_def)
  have g: "get_task 1 k' = Inr ?t" "get_task 2 k' = Inr ((example_task 2 16)\<lparr>task_status := Zombie, parent := Some 1, exit_code := 3\<rparr>)"
    by (simp add: k'_def, simp add: k'_def get_task_def example_family_def put_task_def)
  have "2 \<in> set (children ?t)" by (simp add: set_priority_def)
  with g processes_stay_consistent [OF example_family_inv r_into_rtranclp [of kstep, OF s]] s
  show ?thesis by fastforce
qed

section \<open>What reaping gives back\<close>

text \<open>
  The resources of a zombie are in order: its kernel stack is the one framed area of its number in the
  kernel's address space, its own address space has distinct frames in use, and nothing is shared.
\<close>

definition reclaimable :: "TaskControlBlock \<Rightarrow> MapArea \<Rightarrow> kernel \<Rightarrow> bool" where
  "reclaimable u a k \<longleftrightarrow>
     ms_wf (kmm k) (KERNEL_SPACE k) \<and> areas_disjoint (areas (KERNEL_SPACE k)) \<and> map_type a = Framed \<and>
     vpn_range a = kstack_range (kernel_stack u) \<and> unat (kernel_stack u) < max_kstack \<and>
     (\<exists>xs ys. areas (KERNEL_SPACE k) = xs @ a # ys \<and> (\<forall>b \<in> set xs. range_l (vpn_range b) \<noteq> range_l (kstack_range (kernel_stack u)))) \<and>
     ra_inv (KSTACK_ALLOCATOR k) \<and> kernel_stack u \<in> ra_live (KSTACK_ALLOCATOR k) \<and>
     distinct (pt_frames (page_table (memory_set u)) @ area_frames (areas (memory_set u))) \<and>
     ms_frames (memory_set u) \<subseteq> falloc_live (falloc (kmm k)) \<and> ms_frames (memory_set u) \<inter> ms_frames (KERNEL_SPACE k) = {}"

lemma KernelStack_drop_spec:
  assumes r: "reclaimable u a k"
  obtains ka sp s where "KernelStack_drop (kernel_stack u) (KSTACK_ALLOCATOR k) (KERNEL_SPACE k) (kmm k) = Inr (ka, sp, s)"
    "ra_live ka = ra_live (KSTACK_ALLOCATOR k) - {kernel_stack u}" "falloc_inv (falloc s)"
    "falloc_live (falloc s) = falloc_live (falloc (kmm k)) - set (map snd (data_frames a))"
    "\<forall>x. x \<notin> pt_pages (page_table (KERNEL_SPACE k)) \<longrightarrow> mem s x = mem (kmm k) x" "ms_wf s sp"
proof -
  let ?K = "KERNEL_SPACE k" and ?i = "kernel_stack u"
  from r obtain xs ys where ar: "areas ?K = xs @ a # ys" and first: "\<forall>b \<in> set xs. range_l (vpn_range b) \<noteq> range_l (kstack_range ?i)"
    and wf: "ms_wf (kmm k) ?K" "map_type a = Framed" "areas_disjoint (areas ?K)"
    and v: "vpn_range a = kstack_range ?i" "unat ?i < max_kstack"
    and ra: "ra_inv (KSTACK_ALLOCATOR k)" "?i \<in> ra_live (KSTACK_ALLOCATOR k)" unfolding reclaimable_def by blast
  obtain s where s: "MapArea_unmap a (page_table ?K, kmm k) = Inr (a\<lparr>data_frames := []\<rparr>, page_table ?K, s)"
    "ms_wf s (?K\<lparr>areas := xs @ ys\<rparr>)" "falloc_live (falloc s) = falloc_live (falloc (kmm k)) - set (map snd (data_frames a))"
    "\<forall>x. x \<notin> pt_pages (page_table ?K) \<longrightarrow> mem s x = mem (kmm k) x"
    by (rule remove_area_spec [OF wf(1) ar wf(2,3)])
  have "remove_area_with_start_vpn ?K (range_l (kstack_range ?i)) (kmm k) = Inr (?K\<lparr>areas := xs @ ys\<rparr>, s)"
    using s(1) first v(1) find_index_middle [of xs "\<lambda>a. range_l (vpn_range a) = range_l (kstack_range ?i)" a ys]
    by (simp add: remove_area_with_start_vpn_def ar)
  moreover obtain ka where "RecycleAllocator_dealloc (KSTACK_ALLOCATOR k) ?i = Inr ka" using ids.dealloc_ok [OF ra] by blast
  ultimately show ?thesis
    using that [of ka "?K\<lparr>areas := xs @ ys\<rparr>" s] s unat_kstack_range(3) [OF v(2)] ms_wfD(3) [OF s(2)]
      ids.dealloc_live [OF ra(1)]
    by (simp add: KernelStack_drop_def vpn_of_va_def kstack_range_def)
qed

lemma drop_task_spec:
  assumes u: "get_task c k = Inr u" "pid u \<in> ra_live (PID_ALLOCATOR k)" "ra_inv (PID_ALLOCATOR k)" and r: "reclaimable u a k"
  obtains k' where "drop_task c k = Inr k'"
    "ra_live (KSTACK_ALLOCATOR k') = ra_live (KSTACK_ALLOCATOR k) - {kernel_stack u}"
    "falloc_live (falloc (kmm k')) = falloc_live (falloc (kmm k)) - set (map snd (data_frames a)) - ms_frames (memory_set u)"
    "\<forall>x. x \<notin> pt_pages (page_table (KERNEL_SPACE k)) \<longrightarrow> mem (kmm k') x = mem (kmm k) x"
proof -
  obtain pa where pa: "RecycleAllocator_dealloc (PID_ALLOCATOR k) (pid u) = Inr pa" using ids.dealloc_ok [OF u(3,2)] by blast
  obtain ka sp s where s: "KernelStack_drop (kernel_stack u) (KSTACK_ALLOCATOR k) (KERNEL_SPACE k) (kmm k) = Inr (ka, sp, s)"
    "ra_live ka = ra_live (KSTACK_ALLOCATOR k) - {kernel_stack u}" "falloc_inv (falloc s)"
    "falloc_live (falloc s) = falloc_live (falloc (kmm k)) - set (map snd (data_frames a))"
    "\<forall>x. x \<notin> pt_pages (page_table (KERNEL_SPACE k)) \<longrightarrow> mem s x = mem (kmm k) x"
    by (rule KernelStack_drop_spec [OF r])
  have "a \<in> set (areas (KERNEL_SPACE k))" using r by (auto simp: reclaimable_def)
  then have "set (map snd (data_frames a)) \<subseteq> ms_frames (KERNEL_SPACE k)"
    by (force simp: ms_frames_def area_frames_def)
  then have "ms_frames (memory_set u) \<subseteq> falloc_live (falloc s)"
    and "distinct (pt_frames (page_table (memory_set u)) @ area_frames (areas (memory_set u)))"
    using r s(4) by (auto simp: reclaimable_def)
  from MemorySet_drop_frames [OF s(3) this(2,1)] obtain s' where "MemorySet_drop (memory_set u) s = Inr s'" "mem s' = mem s"
    "falloc_live (falloc s') = falloc_live (falloc s) - ms_frames (memory_set u)" by blast
  with u(1) pa s show ?thesis by (intro that) (auto simp: drop_task_def)
qed

text \<open>Where the exit code goes: nowhere for a null pointer, else to four bytes of one frame that is no kernel table.\<close>

definition code_place :: "kernel \<Rightarrow> TaskControlBlock \<Rightarrow> usize \<Rightarrow> nat \<Rightarrow> bool" where
  "code_place k t ptr b \<longleftrightarrow> ptr = 0 \<or>
     translated_refmut (mem (kmm k)) (get_user_token t) ptr = Inr b \<and>
     (\<exists>f. small_ppn f \<and> f \<notin> set (pt_frames (page_table (KERNEL_SPACE k))) \<and> {b..<b + 4} \<subseteq> page_addrs f)"

definition give_code :: "usize \<Rightarrow> nat \<Rightarrow> u32 \<Rightarrow> mm \<Rightarrow> mm" where
  "give_code ptr b code s = (if ptr \<noteq> 0 then s\<lparr>mem := write_bytes (mem s) b (le32 (push_bit 8 code))\<rparr> else s)"

lemma reclaimable_written:
  assumes "reclaimable u a k" and "page_written f (kmm k) s" and "small_ppn f"
    and "f \<notin> set (pt_frames (page_table (KERNEL_SPACE k)))"
  shows "reclaimable u a (k\<lparr>kmm := s\<rparr>)"
proof -
  have "ms_wf (kmm k) (KERNEL_SPACE k)" using assms(1) by (simp add: reclaimable_def)
  from page_written_wf(1) [OF this assms(2-4)] have "ms_wf s (KERNEL_SPACE k)" .
  then show ?thesis using assms(1,2) unfolding reclaimable_def page_written_def by simp
qed

lemma reclaimable_put [simp]: "reclaimable u a ((put_task p t k)\<lparr>kmm := s\<rparr>) = reclaimable u a (k\<lparr>kmm := s\<rparr>)"
  by (simp add: reclaimable_def)

lemma put_kmm_same: "(put_task p t k)\<lparr>kmm := kmm k\<rparr> = put_task p t k"
  by (simp add: put_task_def)

lemma give_code_place:
  assumes "code_place k t ptr b" and r: "reclaimable u a k"
  shows "reclaimable u a (k\<lparr>kmm := give_code ptr b code (kmm k)\<rparr>)"
    and "ptr \<noteq> 0 \<Longrightarrow> {b..<b + 4} \<inter> pt_pages (page_table (KERNEL_SPACE k)) = {}"
proof -
  have wf: "ms_wf (kmm k) (KERNEL_SPACE k)" using r by (simp add: reclaimable_def)
  show "{b..<b + 4} \<inter> pt_pages (page_table (KERNEL_SPACE k)) = {}" if p: "ptr \<noteq> 0"
  proof -
    obtain f where f: "small_ppn f" "f \<notin> set (pt_frames (page_table (KERNEL_SPACE k)))" "{b..<b + 4} \<subseteq> page_addrs f"
      using assms(1) p by (auto simp: code_place_def)
    have "small_ppn g" if "g \<in> set (pt_frames (page_table (KERNEL_SPACE k)))" for g
      using falloc_live_small [OF ms_wfD(3) [OF wf]] ms_wfD(2) [OF wf] that by (auto simp: ms_frames_def)
    then have "page_addrs f \<inter> page_addrs g = {}" if "g \<in> set (pt_frames (page_table (KERNEL_SPACE k)))" for g
      using page_addrs_disjoint [OF f(1), of g] f(2) that by auto
    then show ?thesis using f(3) by (auto simp: pt_pages_def)
  qed
  show "reclaimable u a (k\<lparr>kmm := give_code ptr b code (kmm k)\<rparr>)"
  proof (cases "ptr = 0")
    case False
    then obtain f where f: "small_ppn f" "f \<notin> set (pt_frames (page_table (KERNEL_SPACE k)))" "{b..<b + 4} \<subseteq> page_addrs f"
      using assms(1) by (auto simp: code_place_def)
    have "page_written f (kmm k) (give_code ptr b code (kmm k))"
      using f(3) False by (auto simp: page_written_def give_code_def intro!: write_bytes_other) (meson atLeastLessThan_iff linorder_not_le subsetD)
    then show ?thesis using reclaimable_written [OF r] f by blast
  qed (use r in \<open>simp add: give_code_def\<close>)
qed

text \<open>
  (C9) \<open>waitpid\<close> reaps the first child that is a zombie and was asked for: the call returns its PID, the exit code
  is stored shifted by eight at the given address, the child leaves the parent's list and the task store,
  its PID and kernel-stack number can be given out again, its frames and those of its kernel stack are
  free, and the tables are consistent.
\<close>

theorem waitpid_reaps_zombie:
  assumes inv: "proc_inv k" and cur: "processor_current k = Some self" and t: "get_task self k = Inr t"
    and cs: "children t = xs @ c # ys" and first: "\<forall>x \<in> set xs. \<not> (task_status (task_of k x) = Zombie \<and> (q = - 1 \<or> q = x))"
    and c: "get_task c k = Inr u" "task_status u = Zombie" "q = - 1 \<or> q = c"
    and r: "reclaimable u a k" and pl: "code_place k t ptr b"
  shows "\<exists>k'. waitpid q ptr k = Inr (c, k') \<and> proc_inv k' \<and> pids k' = pids k - {c} \<and>
    ra_live (PID_ALLOCATOR k') = ra_live (PID_ALLOCATOR k) - {c} \<and>
    ra_live (KSTACK_ALLOCATOR k') = ra_live (KSTACK_ALLOCATOR k) - {kernel_stack u} \<and>
    falloc_live (falloc (kmm k')) = falloc_live (falloc (kmm k)) - set (map snd (data_frames a)) - ms_frames (memory_set u) \<and>
    (ptr \<noteq> 0 \<longrightarrow> read_bytes (mem (kmm k')) b 4 = le32 (push_bit 8 (exit_code u)))"
proof -
  have tr: "tree_inv k" and pi: "ra_inv (PID_ALLOCATOR k)" "pids k \<subseteq> ra_live (PID_ALLOCATOR k)"
    using inv by (simp_all add: proc_inv_def pid_inv_def)
  have cm: "c \<in> set (children t)" using cs by simp
  have ne: "c \<noteq> self" by (rule child_not_self [OF inv cur t c(1,2)])
  have kids: "\<forall>x \<in> set (children t). has_task k x" using children_in_tree(1) [OF tr t] by (simp add: pids_has_task)
  have self: "self \<notin> set (children t)" using tr t by (auto simp: tree_inv_def)
  define M where "M = (\<lambda>x. task_status (task_of k x) = Zombie \<and> (q = - 1 \<or> q = x))"
  have "find_index M (children t) = Some (length xs)"
    using first c get_task_InrD [OF c(1)] find_index_middle [of xs M c ys] by (simp add: cs M_def)
  then have fz: "find_zombie k self q 0 (children t) = Inr (Some (length xs))"
    using find_zombie_spec [OF self kids, of M q 0] by (simp add: M_def comp_def)
  let ?k1 = "put_task self (t\<lparr>children := xs @ ys\<rparr>) k"
  define k2 where "k2 = ?k1\<lparr>kmm := give_code ptr b (exit_code u) (kmm k)\<rparr>"
  have st: "store_ok k" using tr by (simp add: tree_inv_def)
  have "add_mset c (all_children ?k1) = all_children k"
    using all_children_put [OF st t, of "t\<lparr>children := xs @ ys\<rparr>"] by (simp add: cs)
  then have "Suc (count (all_children ?k1) c) = count (all_children k) c" by (metis count_add_mset)
  then have "Suc (strong_count c ?k1) = strong_count c k" by (simp add: strong_count_eq)
  then have "strong_count c ?k1 = 0" using zombie_strong_count [OF inv t cm c(1,2)] by simp
  moreover have "list_ex (\<lambda>c. q = - 1 \<or> q = c) (children t)" using c(3) by (auto simp: cs list_ex_iff)
  moreover have "children t ! length xs = c" "take (length xs) (children t) @ drop (Suc (length xs)) (children t) = xs @ ys"
    by (simp_all add: cs)
  moreover have "get_task c ?k1 = Inr u" using c(1) ne by simp
  ultimately have run: "waitpid q ptr k = bindR (drop_task c k2) (\<lambda>k3. Inr (c, k3))"
    using cur t fz pl by (auto simp: waitpid_def current_task_def Let_def k2_def give_code_def code_place_def put_kmm_same)
  have r2: "reclaimable u a k2" using give_code_place(1) [OF pl r, of "exit_code u"] by (simp add: k2_def)
  have u2: "get_task c k2 = Inr u" "pid u \<in> ra_live (PID_ALLOCATOR k2)" "ra_inv (PID_ALLOCATOR k2)"
    using c(1) ne pi tr get_task_pids [OF c(1)] by (auto simp: k2_def tree_inv_def)
  obtain k' where k': "drop_task c k2 = Inr k'"
    "ra_live (KSTACK_ALLOCATOR k') = ra_live (KSTACK_ALLOCATOR k2) - {kernel_stack u}"
    "falloc_live (falloc (kmm k')) = falloc_live (falloc (kmm k2)) - set (map snd (data_frames a)) - ms_frames (memory_set u)"
    "\<forall>x. x \<notin> pt_pages (page_table (KERNEL_SPACE k2)) \<longrightarrow> mem (kmm k') x = mem (kmm k2) x"
    by (rule drop_task_spec [OF u2 r2])
  note rp = reap_inv [OF inv cur t cs ne c(1,2) k2_def k'(1)]
  have "read_bytes (mem (kmm k')) b 4 = le32 (push_bit 8 (exit_code u))" if "ptr \<noteq> 0"
  proof -
    have "read_bytes (mem (kmm k')) b 4 = read_bytes (mem (kmm k2)) b 4"
      using give_code_place(2) [OF pl r that] k'(4) by (intro read_bytes_cong) (auto simp: k2_def)
    then show ?thesis using that by (simp add: k2_def give_code_def)
  qed
  moreover have "falloc (give_code ptr b (exit_code u) (kmm k)) = falloc (kmm k)" by (simp add: give_code_def)
  ultimately show ?thesis using run k' rp by (intro exI [of _ k']) (simp add: k2_def)
qed

theorem waitpid_reaps_zombie_witness:
  "\<exists>k k'. proc_inv k \<and> waitpid (- 1) 0 k = Inr (2, k') \<and> pids k' = {1} \<and> proc_inv k'"
proof -
  have inv: "falloc_inv (falloc example_big)" "falloc_free (falloc example_big) = 95"
    by (simp_all add: falloc_inv_def example_big_def StackFrameAllocator_init_def StackFrameAllocator_new_def falloc_free_def)
  obtain f s1 where wf: "pt_wf s1 \<lparr>root_ppn = f, pt_frames = [f]\<rparr>"
    and ab: "pt_abs (mem s1) \<lparr>root_ppn = f, pt_frames = [f]\<rparr> = Map.empty"
    and n: "falloc_free (falloc example_big) = Suc (falloc_free (falloc s1))"
    by (rule MemorySet_new_bare_spec [OF inv(1)]) (use inv(2) in auto)
  let ?ks = "\<lparr>page_table = \<lparr>root_ppn = f, pt_frames = [f]\<rparr>, areas = []\<rparr>"
  let ?ra = "\<lparr>ra_current = 2, ra_recycled = []\<rparr>" and ?ra' = "\<lparr>ra_current = 3, ra_recycled = []\<rparr>"
  have ms: "ms_wf s1 ?ks" using wf by (simp add: ms_wf_def)
  have al: "RecycleAllocator_alloc ?ra = (2, ?ra')" by (simp add: RecycleAllocator_alloc_def)
  obtain ks' s2 a where ks: "ms_wf s2 ks'" "areas ks' = [a]" "map_type a = Framed" "vpn_range a = kstack_range 2"
    by (rule kstack_alloc_spec [OF ms al]) (use ab n inv(2) in \<open>auto simp: max_kstack_def\<close>)
  define k where "k = example_family\<lparr>kmm := s2, KERNEL_SPACE := ks', KSTACK_ALLOCATOR := ?ra'\<rparr>"
  let ?u = "(example_task 2 16)\<lparr>task_status := Zombie, parent := Some 1, exit_code := 3\<rparr>"
  let ?t = "(example_task 1 16)\<lparr>task_status := Running, children := [2]\<rparr>"
  have k: "proc_inv k" using example_family_inv by (simp add: k_def proc_inv_def)
  have g: "processor_current k = Some 1" "get_task 1 k = Inr ?t" "get_task 2 k = Inr ?u" "pids k = {1, 2}"
    by (auto simp: k_def example_family_def get_task_def pids_def)
  have r: "reclaimable ?u a k"
    unfolding reclaimable_def
    using ks by (simp add: k_def example_task_def areas_disjoint_def max_kstack_def ra_inv_def ra_live_def ms_frames_def)
      (intro exI [of _ "[]"], simp)
  have ch: "children ?t = [] @ 2 # []" "\<forall>x \<in> set ([] :: usize list). \<not> (task_status (task_of k x) = Zombie \<and> (- 1 = (- 1 :: usize) \<or> - 1 = x))"
    "task_status ?u = Zombie" "- 1 = (- 1 :: usize) \<or> - 1 = (2 :: usize)" "code_place k ?t 0 0"
    by (simp_all add: code_place_def)
  have "{1, 2} - {2} = {1 :: usize}" by auto
  then show ?thesis
    using waitpid_reaps_zombie [OF k g(1,2) ch(1,2) g(3) ch(3,4) r ch(5)] k g(4) by auto
qed

end
