(* ===== verification/Fs_Inode.thy ===== *)
theory Fs_Inode
  imports Syscall_Process Vfs_Create
begin

text \<open>
  Files as processes see them (os/src/fs/inode.rs, stdio.rs and the \<open>File\<close> side of pipe.rs): open inodes with
  their offset, the search of paths, the standard streams, and reading and writing through user buffers. The
  state of the whole system joins the kernel, the file system, and the objects that descriptors share: inodes
  and pipes live in stores and a descriptor holds their number. A string is the list of its UTF-8 bytes. \<open>fuel\<close>
  bounds the loops that follow cluster chains and user pointers.
\<close>

unbundle bit_operations_syntax

section \<open>The system\<close>

record OSInode =
  oi_readable :: bool
  oi_writable :: bool
  oi_offset :: nat
  oi_inode :: VFile

definition OSInode_new :: "bool \<Rightarrow> bool \<Rightarrow> VFile \<Rightarrow> OSInode" where
  "OSInode_new r w v = \<lparr>oi_readable = r, oi_writable = w, oi_offset = 0, oi_inode = v\<rparr>"

text \<open>
  \<open>held\<close> lists the files that a call in progress has cloned: a blocked read or write keeps its file alive.
  \<open>console\<close> is what processes have printed, \<open>next_timer\<close> the time asked of the firmware
  for the next timer interrupt.
\<close>

record 'd os =
  kern :: kernel
  fatm :: FAT32Manager
  fs :: "'d fs_state"
  inodes :: "OSInode list"
  pipes :: "PipeRingBuffer list"
  held :: "File list"
  console :: "u8 list"
  next_timer :: usize

definition current_inner :: "kernel \<Rightarrow> (usize \<times> TaskControlBlock) res" where
  "current_inner k = bindR (current_task k) (\<lambda>p. bindR (get_task p k) (\<lambda>t. Inr (p, t)))"

definition put_inner :: "usize \<Rightarrow> TaskControlBlock \<Rightarrow> 'd os \<Rightarrow> 'd os" where
  "put_inner p t os = os\<lparr>kern := put_task p t (kern os)\<rparr>"

definition set_mem :: "pmem \<Rightarrow> 'd os \<Rightarrow> 'd os" where
  "set_mem m os = os\<lparr>kern := (kern os)\<lparr>kmm := (kmm (kern os))\<lparr>mem := m\<rparr>\<rparr>\<rparr>"

definition user_mem :: "'d os \<Rightarrow> pmem" where
  "user_mem os = mem (kmm (kern os))"

text \<open>Operations of the file system that read, and that may also change the manager.\<close>

definition fs_get :: "(FAT32Manager \<Rightarrow> 'd fs_state \<Rightarrow> ('v \<times> 'd fs_state) res) \<Rightarrow> 'd os \<Rightarrow> ('v \<times> 'd os) res" where
  "fs_get f os = bindR (f (fatm os) (fs os)) (\<lambda>(v, s). Inr (v, os\<lparr>fs := s\<rparr>))"

definition fs_mod ::
  "(FAT32Manager \<Rightarrow> 'd fs_state \<Rightarrow> ('v \<times> FAT32Manager \<times> 'd fs_state) res) \<Rightarrow> 'd os \<Rightarrow> ('v \<times> 'd os) res" where
  "fs_mod f os = bindR (f (fatm os) (fs os)) (\<lambda>(v, m, s). Inr (v, os\<lparr>fatm := m, fs := s\<rparr>))"

definition add_inode :: "OSInode \<Rightarrow> 'd os \<Rightarrow> nat \<times> 'd os" where
  "add_inode i os = (length (inodes os), os\<lparr>inodes := inodes os @ [i]\<rparr>)"

definition put_inode :: "nat \<Rightarrow> OSInode \<Rightarrow> 'd os \<Rightarrow> 'd os" where
  "put_inode n i os = os\<lparr>inodes := (inodes os)[n := i]\<rparr>"

section \<open>Paths\<close>

definition ATTRIBUTE_ARCHIVE :: u8 where "ATTRIBUTE_ARCHIVE = 0x20"
definition AT_FDCWD :: usize where "AT_FDCWD = - 100"

fun split_slash :: "u8 list \<Rightarrow> u8 list list" where
  "split_slash [] = [[]]"
| "split_slash (c # cs) =
     (if c = 47 then [] # split_slash cs
      else case split_slash cs of [] \<Rightarrow> [[c]] | p # ps \<Rightarrow> (c # p) # ps)"

fun join_slash :: "u8 list list \<Rightarrow> u8 list" where
  "join_slash [] = []"
| "join_slash [p] = p"
| "join_slash (p # q # ps) = p @ 47 # join_slash (q # ps)"

text \<open>The tail of a string from a byte index, which must be on a character boundary.\<close>

definition str_from :: "nat \<Rightarrow> u8 list \<Rightarrow> u8 list res" where
  "str_from n s =
     (if n > length s \<or> (n < length s \<and> 0x80 \<le> s ! n \<and> s ! n < 0xC0) then Inl IndexOutOfBounds else Inr (drop n s))"

definition by_path :: "nat \<Rightarrow> VFile \<Rightarrow> u8 list list \<Rightarrow> 'd os \<Rightarrow> (VFile option \<times> 'd os) res" where
  "by_path fuel v path os = fs_get (find_vfile_bypath path fuel v) os"

definition search_pwd :: "nat \<Rightarrow> u8 list \<Rightarrow> 'd os \<Rightarrow> (VFile option \<times> 'd os) res" where
  "search_pwd fuel name os = by_path fuel get_root_vfile (split_slash name) os"

section \<open>Opening\<close>

definition OF_RDONLY :: u32 where "OF_RDONLY = 0"
definition OF_WRONLY :: u32 where "OF_WRONLY = 1"
definition OF_RDWR :: u32 where "OF_RDWR = 2"
definition OF_CREATE :: u32 where "OF_CREATE = 0x40"
definition OF_TRUNC :: u32 where "OF_TRUNC = 0x400"
definition OF_O_DIRECTORY :: u32 where "OF_O_DIRECTORY = 0x200000"

definition OpenFlags_all :: u32 where
  "OpenFlags_all = OF_WRONLY OR OF_RDWR OR OF_CREATE OR OF_TRUNC OR OF_O_DIRECTORY"

definition OpenFlags_from_bits :: "u32 \<Rightarrow> u32 option" where
  "OpenFlags_from_bits b = (if b AND NOT OpenFlags_all = 0 then Some b else None)"

definition OpenFlags_contains :: "u32 \<Rightarrow> u32 \<Rightarrow> bool" where
  "OpenFlags_contains f g \<longleftrightarrow> f AND g = g"

definition read_write :: "u32 \<Rightarrow> bool \<times> bool" where
  "read_write f =
     (if f = 0 then (True, False)
      else if OpenFlags_contains f OF_WRONLY then (False, True)
      else (True, True))"

text \<open>The ends of \<open>open_file\<close>: a found file is cleared on request, a missing one created.\<close>

definition opened :: "bool \<times> bool \<Rightarrow> VFile \<Rightarrow> 'd os \<Rightarrow> nat option \<times> 'd os" where
  "opened rw v os = (let (n, os') = add_inode (OSInode_new (fst rw) (snd rw) v) os in (Some n, os'))"

definition clear_file :: "nat \<Rightarrow> VFile \<Rightarrow> 'd os \<Rightarrow> 'd os res" where
  "clear_file fuel v os = bindR (VFile_clear fuel v (fatm os) (fs os)) (\<lambda>(m, s). Inr (os\<lparr>fatm := m, fs := s\<rparr>))"

definition create_open :: "nat \<Rightarrow> bool \<times> bool \<Rightarrow> VFile \<Rightarrow> u8 list \<Rightarrow> 'd os \<Rightarrow> (nat option \<times> 'd os) res" where
  "create_open fuel rw v name os =
     bindR (fs_mod (VFile_create fuel v name ATTRIBUTE_ARCHIVE) os) (\<lambda>(r, os1).
     Inr (case r of None \<Rightarrow> (None, os1) | Some inode \<Rightarrow> opened rw inode os1))"

definition open_existing :: "nat \<Rightarrow> u32 \<Rightarrow> VFile \<Rightarrow> u8 list \<Rightarrow> 'd os \<Rightarrow> (nat option \<times> 'd os) res" where
  "open_existing fuel flags v name os =
     bindR (by_path fuel v (split_slash name) os) (\<lambda>(r, os1). case r of
       Some inode \<Rightarrow>
         bindR (if OpenFlags_contains flags OF_TRUNC then clear_file fuel inode os1 else Inr os1) (\<lambda>os2.
         Inr (opened (read_write flags) inode os2))
     | None \<Rightarrow> Inr (None, os1))"

definition open_or_create ::
  "nat \<Rightarrow> u32 \<Rightarrow> VFile \<Rightarrow> u8 list \<Rightarrow> u8 list res \<Rightarrow> 'd os \<Rightarrow> (nat option \<times> 'd os) res" where
  "open_or_create fuel flags v name new_name os =
     bindR (by_path fuel v (split_slash name) os) (\<lambda>(r, os1). case r of
       Some inode \<Rightarrow> bindR (clear_file fuel inode os1) (\<lambda>os2. Inr (opened (read_write flags) inode os2))
     | None \<Rightarrow> bindR new_name (\<lambda>n. create_open fuel (read_write flags) v n os1))"

text \<open>\<open>name.chars().nth(1).unwrap()\<close> panics on a name of one character.\<close>

definition strip_dot_slash :: "u8 list \<Rightarrow> u8 list res" where
  "strip_dot_slash name =
     bindR (indexR name 0) (\<lambda>c.
     if c = 46 then
       (if length name < 2 then Inl UnwrapNone
        else if name ! 1 = 47 then str_from 2 name else Inr name)
     else Inr name)"

definition as_osinode :: "'d os \<Rightarrow> File \<Rightarrow> (nat \<times> OSInode) res" where
  "as_osinode os f = (case f of Inode n \<Rightarrow> bindR (indexR (inodes os) n) (\<lambda>i. Inr (n, i)) | _ \<Rightarrow> Inl UnwrapNone)"

definition open_file :: "nat \<Rightarrow> usize \<Rightarrow> u8 list \<Rightarrow> u32 \<Rightarrow> 'd os \<Rightarrow> (nat option \<times> 'd os) res" where
  "open_file fuel fd name flags os =
     bindR (current_inner (kern os)) (\<lambda>(_, inner).
     bindR (unwrapR (if name = [] then None else Some (hd name))) (\<lambda>c.
     let finish = (\<lambda>v os. if OpenFlags_contains flags OF_CREATE then open_or_create fuel flags v name (Inr name) os
                          else open_existing fuel flags v name os)
     in
     if c = 47 then
       bindR (search_pwd fuel name os) (\<lambda>(r, os1). case r of
         Some v \<Rightarrow> Inr (opened (read_write flags) v os1)
       | None \<Rightarrow> create_open fuel (read_write flags) get_root_vfile name os1)
     else if fd = AT_FDCWD \<or> name = [46] then
       (if pwd inner = [47] \<and> name \<noteq> [46] then
          (if OpenFlags_contains flags OF_CREATE
           then open_or_create fuel flags get_root_vfile name (strip_dot_slash name) os
           else open_existing fuel flags get_root_vfile name os)
        else
          bindR (search_pwd fuel (pwd inner) os) (\<lambda>(r, os1).
          bindR (unwrapR r) (\<lambda>v. finish v os1)))
     else
       bindR (indexR (fd_table inner) (unat fd)) (\<lambda>e. case e of
         Some f \<Rightarrow> bindR (as_osinode os f) (\<lambda>(_, i). finish (oi_inode i) os)
       | None \<Rightarrow> Inr (None, os))))"

section \<open>The working directory\<close>

fun walk_pwd :: "u8 list list \<Rightarrow> u8 list list \<Rightarrow> u8 list list" where
  "walk_pwd newpwd [] = newpwd"
| "walk_pwd newpwd (pa # ps) =
     (if pa = [46, 46] then walk_pwd (butlast newpwd) ps
      else if pa = [46] then walk_pwd newpwd ps
      else walk_pwd (newpwd @ [pa]) ps)"

definition chdir :: "nat \<Rightarrow> u8 list \<Rightarrow> 'd os \<Rightarrow> (bool \<times> 'd os) res" where
  "chdir fuel name os =
     bindR (current_inner (kern os)) (\<lambda>(p, inner).
     let path = split_slash name in
     bindR (if pwd inner = [47] then Inr True
            else bindR (unwrapR (if name = [] then None else Some (hd name))) (\<lambda>c. Inr (c = 47))) (\<lambda>absolute.
     if absolute then
       (if hd path = [46, 46] then Inr (False, os)
        else
          bindR (by_path fuel get_root_vfile path os) (\<lambda>(r, os1). case r of
            Some _ \<Rightarrow> Inr (True, put_inner p (set_pwd name inner) os1)
          | None \<Rightarrow> Inr (False, os1)))
     else
       bindR (search_pwd fuel name os) (\<lambda>(r, os1).
       bindR (unwrapR r) (\<lambda>vfile.
       bindR (by_path fuel vfile path os1) (\<lambda>(r2, os2). case r2 of
         Some _ \<Rightarrow>
           Inr (True, put_inner p (set_pwd (join_slash (walk_pwd (split_slash (pwd inner)) path)) inner) os2)
       | None \<Rightarrow> Inr (False, os2))))))"

section \<open>Reading and writing inodes\<close>

definition slice_start :: "byte_slice \<Rightarrow> nat" where
  "slice_start b = (case b of (p, i, j) \<Rightarrow> page_base p + i)"

definition slice_bytes :: "pmem \<Rightarrow> byte_slice \<Rightarrow> u8 list" where
  "slice_bytes m b = read_bytes m (slice_start b) (byte_slice_len b)"

text \<open>\<open>read_at\<close> into a slice of user memory.\<close>

definition read_slice :: "nat \<Rightarrow> VFile \<Rightarrow> nat \<Rightarrow> byte_slice \<Rightarrow> 'd os \<Rightarrow> (nat \<times> 'd os) res" where
  "read_slice fuel v off b os =
     bindR (fs_get (VFile_read_at fuel v off (slice_bytes (user_mem os) b)) os) (\<lambda>((n, bs), os1).
     Inr (n, set_mem (write_bytes (user_mem os1) (slice_start b) bs) os1))"

fun inode_read_slices :: "nat \<Rightarrow> byte_slice list \<Rightarrow> OSInode \<Rightarrow> nat \<Rightarrow> 'd os \<Rightarrow> (nat \<times> OSInode \<times> 'd os) res" where
  "inode_read_slices fuel [] i tot os = Inr (tot, i, os)"
| "inode_read_slices fuel (b # bs) i tot os =
     bindR (read_slice fuel (oi_inode i) (oi_offset i) b os) (\<lambda>(n, os1).
     if n = 0 then Inr (tot, i, os1)
     else inode_read_slices fuel bs (i\<lparr>oi_offset := oi_offset i + n\<rparr>) (tot + n) os1)"

fun inode_write_slices :: "nat \<Rightarrow> byte_slice list \<Rightarrow> OSInode \<Rightarrow> nat \<Rightarrow> 'd os \<Rightarrow> (nat \<times> OSInode \<times> 'd os) res" where
  "inode_write_slices fuel [] i tot os = Inr (tot, i, os)"
| "inode_write_slices fuel (b # bs) i tot os =
     bindR (fs_mod (VFile_write_at fuel (oi_inode i) (oi_offset i) (slice_bytes (user_mem os) b)) os) (\<lambda>(n, os1).
     bindR (assertR (n = byte_slice_len b)) (\<lambda>_.
     inode_write_slices fuel bs (i\<lparr>oi_offset := oi_offset i + n\<rparr>) (tot + n) os1))"

definition OSInode_read :: "nat \<Rightarrow> nat \<Rightarrow> UserBuffer \<Rightarrow> 'd os \<Rightarrow> (nat \<times> 'd os) res" where
  "OSInode_read fuel n buf os =
     bindR (indexR (inodes os) n) (\<lambda>i.
     bindR (inode_read_slices fuel (buffers buf) i 0 os) (\<lambda>(tot, i', os1). Inr (tot, put_inode n i' os1)))"

definition OSInode_write :: "nat \<Rightarrow> nat \<Rightarrow> UserBuffer \<Rightarrow> 'd os \<Rightarrow> (nat \<times> 'd os) res" where
  "OSInode_write fuel n buf os =
     bindR (indexR (inodes os) n) (\<lambda>i.
     bindR (inode_write_slices fuel (buffers buf) i 0 os) (\<lambda>(tot, i', os1). Inr (tot, put_inode n i' os1)))"

primrec read_all_loop :: "nat \<Rightarrow> nat \<Rightarrow> OSInode \<Rightarrow> u8 list \<Rightarrow> u8 list \<Rightarrow> 'd os \<Rightarrow> (u8 list \<times> OSInode \<times> 'd os) res" where
  "read_all_loop 0 fuel i buffer v os = Inl OutOfFuel"
| "read_all_loop (Suc k) fuel i buffer v os =
     bindR (fs_get (VFile_read_at fuel (oi_inode i) (oi_offset i) buffer) os) (\<lambda>((n, b), os1).
     if n = 0 then Inr (v, i, os1)
     else
       bindR (sliceR b 0 n) (\<lambda>part.
       read_all_loop k fuel (i\<lparr>oi_offset := oi_offset i + n\<rparr>) b (v @ part) os1))"

definition read_all :: "nat \<Rightarrow> nat \<Rightarrow> 'd os \<Rightarrow> (u8 list \<times> 'd os) res" where
  "read_all fuel n os =
     bindR (indexR (inodes os) n) (\<lambda>i.
     bindR (read_all_loop fuel fuel i (replicate 512 0) [] os) (\<lambda>(v, i', os1). Inr (v, put_inode n i' os1)))"

definition OSInode_mkdir :: "nat \<Rightarrow> nat \<Rightarrow> u8 list \<Rightarrow> u8 \<Rightarrow> 'd os \<Rightarrow> (usize \<times> 'd os) res" where
  "OSInode_mkdir fuel n name attri os =
     bindR (indexR (inodes os) n) (\<lambda>i.
     bindR (fs_mod (VFile_create fuel (oi_inode i) name attri) os) (\<lambda>(_, os1). Inr (0, os1)))"

section \<open>Standard streams\<close>

definition utf8_cont :: "u8 \<Rightarrow> bool" where
  "utf8_cont c \<longleftrightarrow> 0x80 \<le> c \<and> c < 0xC0"

text \<open>\<open>core::str::from_utf8\<close>: no overlong forms, no surrogates, nothing above U+10FFFF.\<close>

fun utf8_valid :: "u8 list \<Rightarrow> bool" where
  "utf8_valid [] = True"
| "utf8_valid (a # s) =
     (if a < 0x80 then utf8_valid s
      else if 0xC2 \<le> a \<and> a \<le> 0xDF then (case s of b # s1 \<Rightarrow> utf8_cont b \<and> utf8_valid s1 | _ \<Rightarrow> False)
      else if 0xE0 \<le> a \<and> a \<le> 0xEF then
        (case s of b # c # s2 \<Rightarrow>
           utf8_cont b \<and> utf8_cont c \<and> (a = 0xE0 \<longrightarrow> 0xA0 \<le> b) \<and> (a = 0xED \<longrightarrow> b < 0xA0) \<and> utf8_valid s2
         | _ \<Rightarrow> False)
      else if 0xF0 \<le> a \<and> a \<le> 0xF4 then
        (case s of b # c # d # s3 \<Rightarrow>
           utf8_cont b \<and> utf8_cont c \<and> utf8_cont d \<and> (a = 0xF0 \<longrightarrow> 0x90 \<le> b) \<and> (a = 0xF4 \<longrightarrow> b < 0x90) \<and> utf8_valid s3
         | _ \<Rightarrow> False)
      else False)"

fun Stdout_print :: "byte_slice list \<Rightarrow> 'd os \<Rightarrow> 'd os res" where
  "Stdout_print [] os = Inr os"
| "Stdout_print (b # bs) os =
     (let s = slice_bytes (user_mem os) b in
      if utf8_valid s then Stdout_print bs (os\<lparr>console := console os @ s\<rparr>) else Inl UnwrapNone)"

definition Stdout_write :: "UserBuffer \<Rightarrow> 'd os \<Rightarrow> (nat \<times> 'd os) res" where
  "Stdout_write buf os = bindR (Stdout_print (buffers buf) os) (\<lambda>os1. Inr (UserBuffer_len buf, os1))"

section \<open>Calls that may block\<close>

text \<open>What a blocked call resumes with: its file and its local variables.\<close>

datatype wait =
    WaitPipeRead nat UserBufferIterator nat
  | WaitPipeWrite nat UserBufferIterator nat
  | WaitStdin UserBuffer
  | WaitChild usize usize
  | WaitTime usize usize
  | WaitYield

datatype result = Done usize | Blocked wait | Exited | PoweredOff

definition suspend_with :: "usize \<Rightarrow> wait \<Rightarrow> 'd os \<Rightarrow> (result \<times> 'd os) res" where
  "suspend_with now w os = bindR (suspend_current_and_run_next now (kern os)) (\<lambda>k. Inr (Blocked w, os\<lparr>kern := k\<rparr>))"

text \<open>The strong count of a write end: descriptors of all tasks and clones of calls in progress.\<close>

definition write_refs :: "'d os \<Rightarrow> nat \<Rightarrow> nat" where
  "write_refs os w =
     sum_list (map (\<lambda>(_, t). count_list (fd_table t) (Some (PipeWrite w))) (tasks (kern os))) +
     count_list (held os) (PipeWrite w)"

primrec pipe_read :: "nat \<Rightarrow> usize \<Rightarrow> nat \<Rightarrow> UserBufferIterator \<Rightarrow> nat \<Rightarrow> 'd os \<Rightarrow> (result \<times> 'd os) res" where
  "pipe_read 0 now n it cnt os = Inl OutOfFuel"
| "pipe_read (Suc f) now n it cnt os =
     bindR (indexR (pipes os) n) (\<lambda>rb.
     bindR (read_pass (write_refs os) rb it (user_mem os) cnt) (\<lambda>(r, rb1, it1, m1, cnt1).
     let os1 = set_mem m1 (os\<lparr>pipes := (pipes os)[n := rb1]\<rparr>) in
     case r of
       Return \<Rightarrow> Inr (Done (word_of_nat cnt1), os1)
     | Suspend \<Rightarrow> suspend_with now (WaitPipeRead n it1 cnt1) os1
     | Again \<Rightarrow> pipe_read f now n it1 cnt1 os1))"

primrec pipe_write :: "nat \<Rightarrow> usize \<Rightarrow> nat \<Rightarrow> UserBufferIterator \<Rightarrow> nat \<Rightarrow> 'd os \<Rightarrow> (result \<times> 'd os) res" where
  "pipe_write 0 now n it cnt os = Inl OutOfFuel"
| "pipe_write (Suc f) now n it cnt os =
     bindR (indexR (pipes os) n) (\<lambda>rb.
     bindR (write_pass rb it (user_mem os) cnt) (\<lambda>(r, rb1, it1, cnt1).
     let os1 = os\<lparr>pipes := (pipes os)[n := rb1]\<rparr> in
     case r of
       Return \<Rightarrow> Inr (Done (word_of_nat cnt1), os1)
     | Suspend \<Rightarrow> suspend_with now (WaitPipeWrite n it1 cnt1) os1
     | Again \<Rightarrow> pipe_write f now n it1 cnt1 os1))"

text \<open>One pass of the loop of \<open>Stdin::read\<close>; \<open>c\<close> is what the firmware returns for the next character.\<close>

definition Stdin_read_pass :: "usize \<Rightarrow> usize \<Rightarrow> UserBuffer \<Rightarrow> 'd os \<Rightarrow> (result \<times> 'd os) res" where
  "Stdin_read_pass now c buf os =
     (if c = 0 then suspend_with now (WaitStdin buf) os
      else
        bindR (indexR (buffers buf) 0) (\<lambda>b.
        Inr (Done 1, set_mem (write_bytes (user_mem os) (slice_start b) [ucast c]) os)))"

definition file_readable :: "'d os \<Rightarrow> File \<Rightarrow> bool res" where
  "file_readable os f = (case f of
       Stdin \<Rightarrow> Inr True | Stdout \<Rightarrow> Inr False
     | PipeRead _ \<Rightarrow> Inr (readable read_end_with_buffer) | PipeWrite _ \<Rightarrow> Inr (readable write_end_with_buffer)
     | Inode n \<Rightarrow> bindR (indexR (inodes os) n) (\<lambda>i. Inr (oi_readable i)))"

definition file_writable :: "'d os \<Rightarrow> File \<Rightarrow> bool res" where
  "file_writable os f = (case f of
       Stdin \<Rightarrow> Inr False | Stdout \<Rightarrow> Inr True
     | PipeRead _ \<Rightarrow> Inr (writable read_end_with_buffer) | PipeWrite _ \<Rightarrow> Inr (writable write_end_with_buffer)
     | Inode n \<Rightarrow> bindR (indexR (inodes os) n) (\<lambda>i. Inr (oi_writable i)))"

definition return_count :: "nat \<times> 'd os \<Rightarrow> (result \<times> 'd os) res" where
  "return_count r = Inr (Done (word_of_nat (fst r)), snd r)"

definition file_read :: "nat \<Rightarrow> usize \<Rightarrow> usize \<Rightarrow> File \<Rightarrow> UserBuffer \<Rightarrow> 'd os \<Rightarrow> (result \<times> 'd os) res" where
  "file_read fuel now c f buf os = (case f of
       Stdin \<Rightarrow> bindR (assertR (UserBuffer_len buf = 1)) (\<lambda>_. Stdin_read_pass now c buf os)
     | Stdout \<Rightarrow> Inl (ExplicitPanic ''cannot read from stdout'')
     | PipeRead n \<Rightarrow> bindR (assertR (readable read_end_with_buffer)) (\<lambda>_. pipe_read fuel now n (UserBuffer_into_iter buf) 0 os)
     | PipeWrite n \<Rightarrow> bindR (assertR (readable write_end_with_buffer)) (\<lambda>_. pipe_read fuel now n (UserBuffer_into_iter buf) 0 os)
     | Inode n \<Rightarrow> bindR (OSInode_read fuel n buf os) return_count)"

definition file_write :: "nat \<Rightarrow> usize \<Rightarrow> File \<Rightarrow> UserBuffer \<Rightarrow> 'd os \<Rightarrow> (result \<times> 'd os) res" where
  "file_write fuel now f buf os = (case f of
       Stdin \<Rightarrow> Inl (ExplicitPanic ''cannot write to stdin'')
     | Stdout \<Rightarrow> bindR (Stdout_write buf os) return_count
     | PipeRead n \<Rightarrow> bindR (assertR (writable read_end_with_buffer)) (\<lambda>_. pipe_write fuel now n (UserBuffer_into_iter buf) 0 os)
     | PipeWrite n \<Rightarrow> bindR (assertR (writable write_end_with_buffer)) (\<lambda>_. pipe_write fuel now n (UserBuffer_into_iter buf) 0 os)
     | Inode n \<Rightarrow> bindR (OSInode_write fuel n buf os) return_count)"

end
