(* ===== verification/Syscall_Fs.thy ===== *)
theory Syscall_Fs
  imports Fs_Inode
begin

text \<open>
  The file system calls (os/src/syscall/fs.rs) and the process calls that open a file (\<open>sys_exec\<close>,
  \<open>sys_spawn\<close> and \<open>sys_mmap\<close> of process.rs). Every call answers with a result and the next state; \<open>-1\<close> is the
  machine word of the error. Calls that may block answer with what they resume with.
\<close>

unbundle bit_operations_syntax

section \<open>Reading and writing\<close>

text \<open>The clone of the file lives until the call returns.\<close>

definition drop_held :: "File \<Rightarrow> result \<times> 'd os \<Rightarrow> (result \<times> 'd os) res" where
  "drop_held f r = (case r of
       (Blocked w, os) \<Rightarrow> Inr (Blocked w, os)
     | (x, os) \<Rightarrow> Inr (x, os\<lparr>held := remove1 f (held os)\<rparr>))"

definition sys_write :: "nat \<Rightarrow> usize \<Rightarrow> usize \<Rightarrow> usize \<Rightarrow> usize \<Rightarrow> 'd os \<Rightarrow> (result \<times> 'd os) res" where
  "sys_write fuel now fd buf len os =
     bindR (current_user_token (kern os)) (\<lambda>token.
     bindR (current_inner (kern os)) (\<lambda>(_, inner).
     if unat fd \<ge> length (fd_table inner) then Inr (Done (- 1), os)
     else case fd_table inner ! unat fd of
       None \<Rightarrow> Inr (Done (- 1), os)
     | Some f \<Rightarrow>
         bindR (file_writable os f) (\<lambda>ok.
         if \<not> ok then Inr (Done (- 1), os)
         else
           bindR (translated_byte_buffer fuel (user_mem os) token buf len) (\<lambda>bs.
           bindR (file_write fuel now f (UserBuffer_new bs) (os\<lparr>held := f # held os\<rparr>)) (drop_held f)))))"

definition sys_read :: "nat \<Rightarrow> usize \<Rightarrow> usize \<Rightarrow> usize \<Rightarrow> usize \<Rightarrow> usize \<Rightarrow> 'd os \<Rightarrow> (result \<times> 'd os) res" where
  "sys_read fuel now c fd buf len os =
     bindR (current_user_token (kern os)) (\<lambda>token.
     bindR (current_inner (kern os)) (\<lambda>(_, inner).
     if unat fd \<ge> length (fd_table inner) then Inr (Done (- 1), os)
     else case fd_table inner ! unat fd of
       None \<Rightarrow> Inr (Done (- 1), os)
     | Some f \<Rightarrow>
         bindR (file_readable os f) (\<lambda>ok.
         if \<not> ok then Inr (Done (- 1), os)
         else
           bindR (translated_byte_buffer fuel (user_mem os) token buf len) (\<lambda>bs.
           bindR (file_read fuel now c f (UserBuffer_new bs) (os\<lparr>held := f # held os\<rparr>)) (drop_held f)))))"

section \<open>Descriptors\<close>

definition set_fd :: "nat \<Rightarrow> File option \<Rightarrow> TaskControlBlock \<Rightarrow> TaskControlBlock" where
  "set_fd n e t = t\<lparr>fd_table := (fd_table t)[n := e]\<rparr>"

definition sys_openat :: "nat \<Rightarrow> usize \<Rightarrow> usize \<Rightarrow> u32 \<Rightarrow> 'd os \<Rightarrow> (usize \<times> 'd os) res" where
  "sys_openat fuel dir path flags os =
     bindR (current_user_token (kern os)) (\<lambda>token.
     bindR (translated_str fuel (user_mem os) token path) (\<lambda>name.
     bindR (unwrapR (OpenFlags_from_bits flags)) (\<lambda>fl.
     bindR (open_file fuel dir (utf8 name) fl os) (\<lambda>(r, os1). case r of
       None \<Rightarrow> Inr (- 1, os1)
     | Some n \<Rightarrow>
         bindR (current_inner (kern os1)) (\<lambda>(p, inner).
         let (fd, t) = alloc_fd inner in
         Inr (word_of_nat fd, put_inner p (set_fd fd (Some (Inode n)) t) os1))))))"

definition sys_close :: "usize \<Rightarrow> 'd os \<Rightarrow> (usize \<times> 'd os) res" where
  "sys_close fd os =
     bindR (current_inner (kern os)) (\<lambda>(p, inner).
     if unat fd \<ge> length (fd_table inner) then Inr (- 1, os)
     else if fd_table inner ! unat fd = None then Inr (- 1, os)
     else Inr (0, put_inner p (set_fd (unat fd) None inner) os))"

definition sys_dup :: "usize \<Rightarrow> 'd os \<Rightarrow> (usize \<times> 'd os) res" where
  "sys_dup fd os =
     bindR (current_inner (kern os)) (\<lambda>(p, inner).
     if unat fd < length (fd_table inner) \<and> fd_table inner ! unat fd \<noteq> None then
       let (newfd, t) = alloc_fd inner in
       Inr (word_of_nat newfd, put_inner p (set_fd newfd (fd_table t ! unat fd) t) os)
     else Inr (- 1, os))"

definition sys_dup3 :: "usize \<Rightarrow> usize \<Rightarrow> 'd os \<Rightarrow> (usize \<times> 'd os) res" where
  "sys_dup3 fd newfd os =
     bindR (current_inner (kern os)) (\<lambda>(p, inner).
     if unat fd < length (fd_table inner) \<and> fd_table inner ! unat fd \<noteq> None then
       let t = inner\<lparr>fd_table := fd_table inner @ replicate (unat (newfd + 1) - length (fd_table inner)) None\<rparr> in
       if unat newfd < length (fd_table t)
       then Inr (newfd, put_inner p (set_fd (unat newfd) (fd_table t ! unat fd) t) os)
       else Inl IndexOutOfBounds
     else Inr (- 1, os))"

definition sys_pipe2 :: "usize \<Rightarrow> 'd os \<Rightarrow> (usize \<times> 'd os) res" where
  "sys_pipe2 pipe os =
     bindR (current_user_token (kern os)) (\<lambda>token.
     bindR (current_inner (kern os)) (\<lambda>(p, inner).
     let n = length (pipes os);
         (_, _, ring) = make_pipe n;
         (read_fd, t1) = alloc_fd inner;
         t2 = set_fd read_fd (Some (PipeRead n)) t1;
         (write_fd, t3) = alloc_fd t2;
         t4 = set_fd write_fd (Some (PipeWrite n)) t3;
         os1 = put_inner p t4 (os\<lparr>pipes := pipes os @ [ring]\<rparr>)
     in
     bindR (translated_refmut (user_mem os1) token pipe) (\<lambda>a.
     let m1 = write_bytes (user_mem os1) a (le32 (word_of_nat read_fd)) in
     bindR (translated_refmut m1 token (pipe + 4)) (\<lambda>b.
     Inr (0, set_mem (write_bytes m1 b (le32 (word_of_nat write_fd))) os1)))))"

section \<open>Copying to user memory\<close>

text \<open>
  The loop that four calls share: \<open>src\<close> is the memory from the source pointer on, of which \<open>tot\<close> bytes are
  copied. The inner \<open>while\<close> runs at most once for a slice, since it adds the whole length of the slice.
\<close>

fun copy_to_user :: "(nat \<Rightarrow> u8) \<Rightarrow> nat \<Rightarrow> byte_slice list \<Rightarrow> nat \<Rightarrow> pmem \<Rightarrow> pmem" where
  "copy_to_user src tot [] written m = m"
| "copy_to_user src tot (b # bs) written m =
     (let len = byte_slice_len b;
          (m1, written1) =
            (if 0 < len \<and> written < tot
             then (write_bytes m (slice_start b) (map src [written..<written + min (tot - written) len]), written + len)
             else (m, written))
      in if written1 \<ge> tot then m1 else copy_to_user src tot bs written1 m1)"

definition write_to_user :: "nat \<Rightarrow> usize \<Rightarrow> usize \<Rightarrow> usize \<Rightarrow> (nat \<Rightarrow> u8) \<Rightarrow> nat \<Rightarrow> 'd os \<Rightarrow> 'd os res" where
  "write_to_user fuel token buf len src tot os =
     bindR (translated_byte_buffer fuel (user_mem os) token buf len) (\<lambda>ti.
     Inr (set_mem (copy_to_user src tot ti 0 (user_mem os)) os))"

text \<open>\<open>ptr\<close> is the address of the cloned string in the kernel heap, which the call returns.\<close>

definition sys_getcwd :: "nat \<Rightarrow> usize \<Rightarrow> usize \<Rightarrow> u32 \<Rightarrow> 'd os \<Rightarrow> (usize \<times> 'd os) res" where
  "sys_getcwd fuel ptr buf sz os =
     bindR (current_inner (kern os)) (\<lambda>(_, inner).
     if length (pwd inner) > unat sz then Inr (- 1, os)
     else
       bindR (current_user_token (kern os)) (\<lambda>token.
       bindR (write_to_user fuel token buf (ucast sz) (\<lambda>i. pwd inner ! i) (length (pwd inner)) os) (\<lambda>os1.
       Inr (ptr, os1))))"

section \<open>Directories and files\<close>

definition sys_mkdirat :: "nat \<Rightarrow> usize \<Rightarrow> usize \<Rightarrow> u8 \<Rightarrow> 'd os \<Rightarrow> (usize \<times> 'd os) res" where
  "sys_mkdirat fuel fd path attri os =
     bindR (current_user_token (kern os)) (\<lambda>token.
     bindR (translated_str fuel (user_mem os) token path) (\<lambda>name.
     bindR (current_inner (kern os)) (\<lambda>(_, inner).
     if fd = AT_FDCWD then
       bindR (search_pwd fuel (pwd inner) os) (\<lambda>(r, os1). case r of
         Some v \<Rightarrow> bindR (fs_mod (VFile_create fuel v (utf8 name) attri) os1) (\<lambda>(_, os2). Inr (0, os2))
       | None \<Rightarrow> Inr (- 1, os1))
     else
       bindR (indexR (fd_table inner) (unat fd)) (\<lambda>e. case e of
         Some f \<Rightarrow> bindR (as_osinode os f) (\<lambda>(n, _). OSInode_mkdir fuel n (utf8 name) attri os)
       | None \<Rightarrow> Inr (- 1, os)))))"

definition sys_chdir :: "nat \<Rightarrow> usize \<Rightarrow> 'd os \<Rightarrow> (usize \<times> 'd os) res" where
  "sys_chdir fuel path os =
     bindR (current_user_token (kern os)) (\<lambda>token.
     bindR (translated_str fuel (user_mem os) token path) (\<lambda>name.
     bindR (chdir fuel (utf8 name) os) (\<lambda>(ok, os1). Inr (if ok then 0 else - 1, os1))))"

definition sys_fstat :: "nat \<Rightarrow> usize \<Rightarrow> usize \<Rightarrow> 'd os \<Rightarrow> (usize \<times> 'd os) res" where
  "sys_fstat fuel fd lkstat os =
     bindR (current_user_token (kern os)) (\<lambda>token.
     bindR (current_inner (kern os)) (\<lambda>(_, inner).
     if unat fd < length (fd_table inner) \<and> fd_table inner ! unat fd \<noteq> None then
       bindR (as_osinode os (the (fd_table inner ! unat fd))) (\<lambda>(_, i).
       bindR (fs_get (VFile_stat fuel (oi_inode i)) os) (\<lambda>(st, os1).
       bindR (write_to_user fuel token lkstat 128 (\<lambda>i. kstat_to_bytes st ! i) 128 os1) (\<lambda>os2. Inr (0, os2))))
     else Inr (- 1, os)))"

definition remove_found :: "nat \<Rightarrow> VFile option \<times> 'd os \<Rightarrow> (usize \<times> 'd os) res" where
  "remove_found fuel r = (case r of
       (Some v, os) \<Rightarrow> bindR (fs_mod (VFile_remove fuel v) os) (\<lambda>(_, os1). Inr (0, os1))
     | (None, os) \<Rightarrow> Inr (- 1, os))"

text \<open>The path joined with the working directory is built and not used.\<close>

definition sys_unlink :: "nat \<Rightarrow> u32 \<Rightarrow> usize \<Rightarrow> 'd os \<Rightarrow> (usize \<times> 'd os) res" where
  "sys_unlink fuel dir path os =
     bindR (current_user_token (kern os)) (\<lambda>token.
     bindR (translated_str fuel (user_mem os) token path) (\<lambda>chars.
     let name = utf8 chars in
     bindR (unwrapR (if name = [] then None else Some (hd name))) (\<lambda>c.
     if c = 47 then bindR (search_pwd fuel name os) (remove_found fuel)
     else
       bindR (if c = 46 then str_from 2 name else Inr name) (\<lambda>name.
       bindR (current_inner (kern os)) (\<lambda>(_, inner).
       if scast dir = AT_FDCWD then bindR (search_pwd fuel name os) (remove_found fuel)
       else
         bindR (indexR (fd_table inner) (unat (scast dir :: usize))) (\<lambda>e. case e of
           Some f \<Rightarrow>
             bindR (as_osinode os f) (\<lambda>(_, i).
             bindR (by_path fuel (oi_inode i) (split_slash name) os) (remove_found fuel))
         | None \<Rightarrow> Inr (- 1, os)))))))"

definition uts_field :: "string \<Rightarrow> u8 list" where
  "uts_field s = map of_char s @ replicate (65 - length s) 0"

definition utsname_bytes :: "u8 list" where
  "utsname_bytes =
     uts_field (CHR 0x0A # ''sysname:bitos'' @ [CHR 0x0A]) @ uts_field (''nodename:wingrew'' @ [CHR 0x0A]) @
     uts_field (''release:0.1'' @ [CHR 0x0A]) @ uts_field (''version:0.1'' @ [CHR 0x0A]) @
     uts_field (''machine:riscv64'' @ [CHR 0x0A]) @ uts_field ''domainname:nudt''"

definition sys_uname :: "nat \<Rightarrow> usize \<Rightarrow> 'd os \<Rightarrow> (usize \<times> 'd os) res" where
  "sys_uname fuel utsname os =
     bindR (current_user_token (kern os)) (\<lambda>token.
     bindR (write_to_user fuel token utsname 390 (\<lambda>i. utsname_bytes ! i) 390 os) (\<lambda>os1. Inr (0, os1)))"

text \<open>\<open>beyond\<close> is the heap behind the vector of the entry: the loop copies \<open>len\<close> bytes whatever its length.\<close>

definition sys_getdents64 :: "nat \<Rightarrow> (nat \<Rightarrow> u8) \<Rightarrow> usize \<Rightarrow> usize \<Rightarrow> usize \<Rightarrow> 'd os \<Rightarrow> (usize \<times> 'd os) res" where
  "sys_getdents64 fuel beyond fd buf len os =
     bindR (current_user_token (kern os)) (\<lambda>token.
     bindR (current_inner (kern os)) (\<lambda>(_, inner).
     if unat fd < length (fd_table inner) \<and> fd_table inner ! unat fd \<noteq> None then
       bindR (as_osinode os (the (fd_table inner ! unat fd))) (\<lambda>(_, i).
       bindR (fs_get (dirent_info (oi_inode i)) os) (\<lambda>(d, os1).
       bindR (unwrapR d) (\<lambda>e.
       let bytes = dirent_to_bytes e;
           src = (\<lambda>i. if i < length bytes then bytes ! i else beyond (i - length bytes))
       in
       bindR (write_to_user fuel token buf len src (unat len) os1) (\<lambda>os2. Inr (len, os2)))))
     else Inr (- 1, os)))"

definition sys_umount2 :: "nat \<Rightarrow> usize \<Rightarrow> 'd os \<Rightarrow> (usize \<times> 'd os) res" where
  "sys_umount2 fuel target os =
     bindR (current_user_token (kern os)) (\<lambda>token.
     bindR (translated_str fuel (user_mem os) token target) (\<lambda>name.
     bindR (unwrapR (OpenFlags_from_bits 0)) (\<lambda>fl.
     bindR (open_file fuel AT_FDCWD (utf8 name) fl os) (\<lambda>(r, os1). Inr (if r \<noteq> None then 0 else - 1, os1)))))"

definition sys_mount :: "nat \<Rightarrow> usize \<Rightarrow> usize \<Rightarrow> usize \<Rightarrow> usize \<Rightarrow> 'd os \<Rightarrow> (usize \<times> 'd os) res" where
  "sys_mount fuel source target filesystem data os =
     bindR (current_user_token (kern os)) (\<lambda>token.
     bindR (translated_str fuel (user_mem os) token source) (\<lambda>_.
     bindR (translated_str fuel (user_mem os) token target) (\<lambda>name.
     bindR (translated_str fuel (user_mem os) token filesystem) (\<lambda>kind.
     bindR (if data \<noteq> 0 then translated_str fuel (user_mem os) token data else Inr []) (\<lambda>_.
     if utf8 kind = map of_char ''vfat'' then
       bindR (unwrapR (OpenFlags_from_bits 0)) (\<lambda>fl.
       bindR (open_file fuel AT_FDCWD (utf8 name) fl os) (\<lambda>(r, os1). Inr (if r \<noteq> None then 0 else - 1, os1)))
     else Inr (- 1, os))))))"

section \<open>Process calls that open files\<close>

text \<open>The bytes of the file are in a vector, at the address \<open>at\<close> that the heap gave it.\<close>

definition sys_exec :: "nat \<Rightarrow> zread \<Rightarrow> nat \<Rightarrow> platform \<Rightarrow> usize \<Rightarrow> 'd os \<Rightarrow> (usize \<times> 'd os) res" where
  "sys_exec fuel zread at P path os =
     bindR (current_user_token (kern os)) (\<lambda>token.
     bindR (translated_str fuel (user_mem os) token path) (\<lambda>name.
     bindR (open_file fuel AT_FDCWD (utf8 name) OF_RDONLY os) (\<lambda>(r, os1). case r of
       None \<Rightarrow> Inr (- 1, os1)
     | Some n \<Rightarrow>
         bindR (read_all fuel n os1) (\<lambda>(all_data, os2).
         bindR (current_task (kern os2)) (\<lambda>self.
         bindR (TaskControlBlock_exec zread P self (at, all_data) (kern os2)) (\<lambda>k. Inr (0, os2\<lparr>kern := k\<rparr>)))))))"

definition sys_spawn :: "nat \<Rightarrow> zread \<Rightarrow> nat \<Rightarrow> platform \<Rightarrow> usize \<Rightarrow> usize \<Rightarrow> 'd os \<Rightarrow> (usize \<times> 'd os) res" where
  "sys_spawn fuel zread at P now path os =
     bindR (current_user_token (kern os)) (\<lambda>token.
     bindR (translated_str fuel (user_mem os) token path) (\<lambda>name.
     bindR (open_file fuel AT_FDCWD (utf8 name) OF_RDONLY os) (\<lambda>(r, os1). case r of
       None \<Rightarrow> Inr (- 1, os1)
     | Some n \<Rightarrow>
         bindR (read_all fuel n os1) (\<lambda>(all_data, os2).
         bindR (current_task (kern os2)) (\<lambda>self.
         bindR (TaskControlBlock_spawn zread P now self (at, all_data) (kern os2)) (\<lambda>(new_pid, k).
         Inr (new_pid, os2\<lparr>kern := add_task new_pid k\<rparr>)))))))"

fun mmap_read :: "nat \<Rightarrow> VFile \<Rightarrow> nat \<Rightarrow> byte_slice list \<Rightarrow> 'd os \<Rightarrow> 'd os res" where
  "mmap_read fuel v off [] os = Inr os"
| "mmap_read fuel v off (b # bs) os =
     bindR (read_slice fuel v off b os) (\<lambda>(n, os1). mmap_read fuel v (off + n) bs os1)"

definition sys_mmap :: "nat \<Rightarrow> usize \<Rightarrow> usize \<Rightarrow> usize \<Rightarrow> u32 \<Rightarrow> 'd os \<Rightarrow> (usize \<times> 'd os) res" where
  "sys_mmap fuel start0 len port fd os =
     bindR (current_user_token (kern os)) (\<lambda>token.
     bindR (current_inner (kern os)) (\<lambda>(_, inner).
     if start0 mod 4096 \<noteq> 0 \<or> port AND NOT 7 \<noteq> 0 \<or> port AND 7 = 0 then Inr (- 1, os)
     else
       let start = (if start0 = 0 then program_brk inner + PAGE_SIZE * 8 else start0);
           start_va = va_floor (VirtAddr_from start);
           p = drop_bit 4 (push_bit 5 (ucast port) :: u8)
       in
       bindR (VPNRange_new start_va (va_ceil (VirtAddr_from (start + len)))) (\<lambda>vir.
       bindR (unwrapR (PTEFlags_from_bits p)) (\<lambda>fl.
       bindR (mmap_pages token (PTE_U OR fl) (vpns_of vir) (kern os)) (\<lambda>(ok, k).
       let os1 = os\<lparr>kern := k\<rparr> in
       if \<not> ok then Inr (- 1, os1)
       else
         bindR (current_inner k) (\<lambda>(_, inner1).
         bindR (indexR (fd_table inner1) (unat (scast fd :: usize))) (\<lambda>e. case e of
           None \<Rightarrow> Inr (- 1, os1)
         | Some f \<Rightarrow>
             bindR (as_osinode os1 f) (\<lambda>(_, i).
             bindR (fs_get (VFile_get_size (oi_inode i)) os1) (\<lambda>(sz, os2).
             let addr = vpn0 start_va * PAGE_SIZE in
             bindR (translated_byte_buffer fuel (user_mem os2) token addr (ucast sz)) (\<lambda>ts.
             bindR (mmap_read fuel (oi_inode i) 0 ts os2) (\<lambda>os3. Inr (addr, os3)))))))))))) "

end
