(* ===== verification/User_Memory.thy ===== *)
theory User_Memory
  imports Syscall_Fs Fork
begin

text \<open>
  What the kernel's copies into user buffers mean to the process: writing slice by slice is one write over the
  buffer's bytes, it never reaches the page table, and the process then reads back what was written.
\<close>

section \<open>Writing a list of addresses\<close>

definition put_at :: "nat list \<Rightarrow> u8 list \<Rightarrow> pmem \<Rightarrow> pmem" where
  "put_at as xs m = fold (\<lambda>(a, x) m. m(a := x)) (zip as xs) m"

lemma put_at_Nil [simp]: "put_at as [] m = m" "put_at [] xs m = m"
  by (simp_all add: put_at_def)

lemma put_at_Cons [simp]: "put_at (a # as) (x # xs) m = put_at as xs (m(a := x))"
  by (simp add: put_at_def)

lemma put_at_append: "length as = length xs \<Longrightarrow> put_at (as @ bs) (xs @ ys) m = put_at bs ys (put_at as xs m)"
  by (simp add: put_at_def)

lemma put_at_take: "put_at as xs m = put_at as (take (length as) xs) m"
  by (metis put_at_def take_all_iff length_zip min.cobounded1 take_zip order_refl)

lemma put_at_short: "length xs \<le> length as \<Longrightarrow> put_at (as @ bs) xs m = put_at as xs m"
  by (simp add: put_at_def zip_append1)

lemma put_at_other: "x \<notin> set (take (length xs) as) \<Longrightarrow> put_at as xs m x = m x"
proof (induction as arbitrary: xs m)
  case (Cons a as)
  then show ?case by (cases xs) auto
qed simp

lemma put_at_nth:
  assumes "distinct as" and "i < length as" and "i < length xs"
  shows "put_at as xs m (as ! i) = xs ! i"
  using assms
proof (induction as arbitrary: xs m i)
  case (Cons a as)
  then obtain x xs' where xs: "xs = x # xs'" by (cases xs) auto
  have "a \<notin> set (take (length xs') as)" using Cons.prems(1) in_set_takeD by fastforce
  then have "put_at as xs' (m(a := x)) a = x" by (simp add: put_at_other)
  with Cons xs show ?case by (cases i) auto
qed simp

lemma write_bytes_put_at: "write_bytes m a xs = put_at [a..<a + length xs] xs m"
proof (rule ext)
  fix x
  show "write_bytes m a xs x = put_at [a..<a + length xs] xs m x"
  proof (cases "a \<le> x \<and> x < a + length xs")
    case True
    then have "x = [a..<a + length xs] ! (x - a)" by simp
    moreover have "put_at [a..<a + length xs] xs m ([a..<a + length xs] ! (x - a)) = xs ! (x - a)"
      using True by (intro put_at_nth) auto
    ultimately show ?thesis using True by (simp add: write_bytes_def)
  next
    case False
    then show ?thesis by (auto simp: write_bytes_def put_at_other)
  qed
qed

lemma write_slice_put_at:
  assumes "length xs \<le> byte_slice_len b"
  shows "write_bytes m (slice_start b) xs = put_at (slice_addrs b) xs m"
proof -
  obtain p i j where b: "b = (p, i, j)" by (cases b)
  let ?s = "page_base p + i"
  have "length xs \<le> j - i" using assms by (simp add: b byte_slice_len_def)
  then have "slice_addrs b = [?s..<?s + length xs] @ [?s + length xs..<page_base p + j]"
    using upt_add_eq_append [of ?s "?s + length xs" "page_base p + j - (?s + length xs)"]
    by (cases "i \<le> j") (auto simp: b slice_addrs_def)
  then show ?thesis by (simp add: write_bytes_put_at put_at_short slice_start_def b)
qed

lemma read_slice_bytes: "slice_bytes m b = map m (slice_addrs b)"
  by (cases b) (cases "fst (snd b) \<le> snd (snd b)"; auto simp: slice_bytes_def read_bytes_def slice_start_def byte_slice_len_def slice_addrs_def)

section \<open>The copying loop\<close>

lemma copy_to_user_put_at:
  "copy_to_user src tot bs w m = put_at (concat (map slice_addrs bs)) (map src [w..<tot]) m"
proof (induction bs arbitrary: w m)
  case (Cons b bs)
  let ?n = "byte_slice_len b" and ?C = "concat (map slice_addrs bs)"
  show ?case
  proof (cases "0 < ?n \<and> w < tot")
    case False
    then show ?thesis
      using Cons.IH by (cases "w < tot") (auto simp: Let_def length_slice_addrs [symmetric])
  next
    case True
    let ?xs = "map src [w..<w + min (tot - w) ?n]"
    have wr: "write_bytes m (slice_start b) ?xs = put_at (slice_addrs b) ?xs m" by (rule write_slice_put_at) simp
    show ?thesis
    proof (cases "w + ?n \<ge> tot")
      case True
      moreover from True have "w + min (tot - w) ?n = (if w < tot then tot else w)" by auto
      moreover have "length (map src [w..<tot]) \<le> length (slice_addrs b)" using True by (simp add: length_slice_addrs)
      ultimately show ?thesis
        using \<open>0 < ?n \<and> w < tot\<close> wr by (simp add: put_at_short)
    next
      case False
      then have "w + min (tot - w) ?n = w + ?n" by simp
      moreover have "map src [w..<tot] = map src [w..<w + ?n] @ map src [w + ?n..<tot]"
        using False upt_add_eq_append [of w "w + ?n" "tot - (w + ?n)"] by simp
      ultimately show ?thesis
        using \<open>0 < ?n \<and> w < tot\<close> False wr Cons.IH [of "w + ?n"]
        by (simp add: put_at_append length_slice_addrs Let_def)
    qed
  qed
qed simp

section \<open>Buffers of a process\<close>

definition user_pt :: "TaskControlBlock \<Rightarrow> PageTable" where
  "user_pt t = PageTable_from_token (get_user_token t)"

text \<open>
  \<open>user_buffer s t lo n\<close>: the address space of the task is well formed and the \<open>n\<close> bytes from \<open>lo\<close> on lie in
  its framed areas. \<open>user_bytes\<close> is what the task reads there.
\<close>

definition user_buffer :: "mm \<Rightarrow> TaskControlBlock \<Rightarrow> nat \<Rightarrow> nat \<Rightarrow> bool" where
  "user_buffer s t lo n \<longleftrightarrow> ms_wf s (memory_set t) \<and> (\<forall>a \<in> set (areas (memory_set t)). map_type a = Framed) \<and>
     lo + n < 2 ^ 38 \<and> (\<forall>a. lo \<le> a \<and> a < lo + n \<longrightarrow> vpn_at a \<in> area_pages (areas (memory_set t)))"

definition user_bytes :: "pmem \<Rightarrow> TaskControlBlock \<Rightarrow> nat \<Rightarrow> nat \<Rightarrow> u8 list" where
  "user_bytes m t lo n = map (\<lambda>a. m (phys_of m (user_pt t) a)) [lo..<lo + n]"

lemma user_translate:
  assumes "ms_wf s (memory_set t)"
  shows "PageTable_translate m (user_pt t) v = PageTable_translate m (page_table (memory_set t)) v"
  unfolding user_pt_def get_user_token_def MemorySet_token_def
  by (rule translate_root [OF token_root [OF ms_wfD(1) [OF assms]]])

lemma user_page:
  assumes b: "user_buffer s t lo n" and a: "lo \<le> a" "a < lo + n"
  obtains ar f where "ar \<in> set (areas (memory_set t))" "(vpn_at a, f) \<in> set (data_frames ar)"
    "pt_abs (mem s) (page_table (memory_set t)) (vpn_at a) = Some (area_pte ar f)"
    "f \<notin> set (pt_frames (page_table (memory_set t)))" "small_ppn f"
    "has_table (mem s) (user_pt t) a" "phys_of (mem s) (user_pt t) a = page_base f + a mod 4096"
proof -
  have ms: "ms_wf s (memory_set t)" using b by (simp add: user_buffer_def)
  obtain ar where ar: "ar \<in> set (areas (memory_set t))" "vpn_at a \<in> set (vpns_of (vpn_range ar))"
    using b a by (auto simp: user_buffer_def area_pages_def)
  have "map_type ar = Framed" using b ar(1) by (simp add: user_buffer_def)
  from ms_wf_data_page [OF ms ar(1) this ar(2)] obtain f where f: "(vpn_at a, f) \<in> set (data_frames ar)"
    "pt_abs (mem s) (page_table (memory_set t)) (vpn_at a) = Some (area_pte ar f)"
    "f \<notin> set (pt_frames (page_table (memory_set t)))" "small_ppn f" by metis
  moreover from pt_abs_SomeD(1) [OF f(2)] have "has_table (mem s) (user_pt t) a"
    "phys_of (mem s) (user_pt t) a = page_base f + a mod 4096"
    using f(4) by (simp_all add: has_table_def phys_of_def user_translate [OF ms])
  ultimately show ?thesis using that ar(1) by blast
qed

lemma vpn_at_eq: "a < 2 ^ 38 \<Longrightarrow> b < 2 ^ 38 \<Longrightarrow> vpn_at a = vpn_at b \<Longrightarrow> a div 4096 = b div 4096"
  using unat_vpn_at [of a] unat_vpn_at [of b] by simp

lemma phys_in_page: "page_base f + a mod 4096 \<in> page_addrs f"
  by (simp add: page_addrs_def)

lemma user_phys_inj:
  assumes b: "user_buffer s t lo n"
  shows "inj_on (phys_of (mem s) (user_pt t)) {lo..<lo + n}"
proof (rule inj_onI)
  fix x y assume xy: "x \<in> {lo..<lo + n}" "y \<in> {lo..<lo + n}" "phys_of (mem s) (user_pt t) x = phys_of (mem s) (user_pt t) y"
  have ms: "ms_wf s (memory_set t)" and lt: "x < 2 ^ 38" "y < 2 ^ 38" using b xy by (auto simp: user_buffer_def)
  obtain ax f where f: "ax \<in> set (areas (memory_set t))" "(vpn_at x, f) \<in> set (data_frames ax)" "small_ppn f"
    "phys_of (mem s) (user_pt t) x = page_base f + x mod 4096" using user_page [OF b, of x] xy(1) by (metis atLeastLessThan_iff)
  obtain ay g where g: "ay \<in> set (areas (memory_set t))" "(vpn_at y, g) \<in> set (data_frames ay)" "small_ppn g"
    "phys_of (mem s) (user_pt t) y = page_base g + y mod 4096" using user_page [OF b, of y] xy(2) by (metis atLeastLessThan_iff)
  have "f = g"
    using page_addrs_disjoint [OF f(3) g(3)] phys_in_page [of f x] phys_in_page [of g y] f(4) g(4) xy(3) by (metis disjoint_iff)
  moreover from this have "x div 4096 = y div 4096"
    using ms_wf_frame_inj [OF ms f(1,2) g(1)] g(2) vpn_at_eq [OF lt] by blast
  ultimately show "x = y" using f(4) g(4) xy(3) by (metis add_left_cancel mult_div_mod_eq)
qed

lemma user_write_kept:
  assumes b: "user_buffer s t lo n" and m: "\<And>x. x \<notin> phys_of (mem s) (user_pt t) ` {lo..<lo + n} \<Longrightarrow> m' x = mem s x"
  shows "user_buffer (s\<lparr>mem := m'\<rparr>) t lo n"
    and "\<And>a. lo \<le> a \<Longrightarrow> a < lo + n \<Longrightarrow> phys_of m' (user_pt t) a = phys_of (mem s) (user_pt t) a"
proof -
  have ms: "ms_wf s (memory_set t)" using b by (simp add: user_buffer_def)
  have same: "m' x = mem s x" if x: "x \<in> pt_pages (page_table (memory_set t))" for x
  proof (rule m, rule notI)
    assume "x \<in> phys_of (mem s) (user_pt t) ` {lo..<lo + n}"
    then obtain a where a: "lo \<le> a" "a < lo + n" "x = phys_of (mem s) (user_pt t) a" by auto
    from user_page [OF b a(1,2)] obtain ar f where f: "f \<notin> set (pt_frames (page_table (memory_set t)))" "small_ppn f"
      "x = page_base f + a mod 4096" using a(3) by metis
    obtain g where g: "g \<in> set (pt_frames (page_table (memory_set t)))" "x \<in> page_addrs g" using x by (auto simp: pt_pages_def)
    then have "small_ppn g" using falloc_live_small [OF ms_wfD(3) [OF ms]] ms_wfD(2) [OF ms] by (auto simp: ms_frames_def)
    with page_addrs_disjoint [OF f(2), of g] f g phys_in_page [of f a] show False by (metis disjoint_iff)
  qed
  note kept = ms_wf_mem [OF ms same]
  show "user_buffer (s\<lparr>mem := m'\<rparr>) t lo n" using b kept(1) by (simp add: user_buffer_def)
  fix a assume a: "lo \<le> a" "a < lo + n"
  from user_page [OF b a] obtain ar f where f: "pt_abs (mem s) (page_table (memory_set t)) (vpn_at a) = Some (area_pte ar f)"
    "small_ppn f" "phys_of (mem s) (user_pt t) a = page_base f + a mod 4096" by metis
  then have "PageTable_translate m' (user_pt t) (vpn_at a) = Some (area_pte ar f)"
    using kept(2) pt_abs_SomeD(1) user_translate [OF ms] by metis
  with f show "phys_of m' (user_pt t) a = phys_of (mem s) (user_pt t) a" by (simp add: phys_of_def)
qed

text \<open>Writing over the front of a buffer: the process reads the new bytes, and nothing else changed.\<close>

lemma user_put_at:
  assumes b: "user_buffer s t lo n" and xs: "length xs \<le> n"
  defines "m' \<equiv> put_at (map (phys_of (mem s) (user_pt t)) [lo..<lo + n]) xs (mem s)"
  shows "user_buffer (s\<lparr>mem := m'\<rparr>) t lo n" and "user_bytes m' t lo (length xs) = xs"
    and "\<And>x. x \<notin> phys_of (mem s) (user_pt t) ` {lo..<lo + length xs} \<Longrightarrow> m' x = mem s x"
proof -
  let ?as = "map (phys_of (mem s) (user_pt t)) [lo..<lo + n]"
  have tk: "set (take (length xs) ?as) = phys_of (mem s) (user_pt t) ` {lo..<lo + length xs}"
    using xs by (simp add: take_map)
  show out: "m' x = mem s x" if "x \<notin> phys_of (mem s) (user_pt t) ` {lo..<lo + length xs}" for x
    unfolding m'_def by (rule put_at_other) (use tk that in simp)
  have "m' x = mem s x" if "x \<notin> phys_of (mem s) (user_pt t) ` {lo..<lo + n}" for x
    using that xs by (intro out) auto
  note kept = user_write_kept [OF b this]
  show "user_buffer (s\<lparr>mem := m'\<rparr>) t lo n" by (rule kept(1))
  have d: "distinct ?as" using user_phys_inj [OF b] by (simp add: distinct_map)
  show "user_bytes m' t lo (length xs) = xs"
  proof (rule nth_equalityI)
    fix i assume "i < length (user_bytes m' t lo (length xs))"
    then have i: "i < length xs" by (simp add: user_bytes_def)
    then have "user_bytes m' t lo (length xs) ! i = m' (phys_of (mem s) (user_pt t) (lo + i))"
      using kept(2) [of "lo + i"] xs by (simp add: user_bytes_def)
    also have "\<dots> = m' (?as ! i)" using i xs by simp
    also have "\<dots> = xs ! i" unfolding m'_def using d i xs by (intro put_at_nth) simp_all
    finally show "user_bytes m' t lo (length xs) ! i = xs ! i" .
  qed (simp add: user_bytes_def)
qed

text \<open>Pointers to a naturally aligned place of eight bytes.\<close>

lemma user_refmut:
  assumes b: "user_buffer s t lo n" and v: "lo \<le> unat v" "unat v < lo + n" and nz: "phys_of (mem s) (user_pt t) (unat v) \<noteq> 0"
  shows "translated_refmut (mem s) (get_user_token t) v = Inr (phys_of (mem s) (user_pt t) (unat v))"
proof -
  have "has_table (mem s) (user_pt t) (unat v)" using user_page [OF b v] by metis
  moreover have "unat v < 2 ^ 39" using b v by (simp add: user_buffer_def)
  ultimately obtain pa where "PageTable_translate_va (mem s) (user_pt t) (VirtAddr_from v) = Some pa"
    "unat (pa0 pa) = phys_of (mem s) (user_pt t) (unat v)" using translate_va_phys_of by metis
  with nz show ?thesis by (auto simp: translated_refmut_def user_pt_def get_mut_def)
qed

lemma phys_of_aligned:
  assumes "lo mod 8 = 0" and "i < 8"
  shows "phys_of m pt (lo + i) = phys_of m pt lo + i"
proof -
  obtain q where q: "lo = 8 * q" using assms(1) by (metis mod_0_imp_dvd dvdE)
  then have lo: "lo mod 4096 = 8 * (q mod 512)" by (simp add: mult_mod_right)
  have "q mod 512 < 512" by simp
  then have lt: "lo mod 4096 + i < 4096" unfolding lo using assms(2) by linarith
  have "lo + i = (lo mod 4096 + i) + lo div 4096 * 4096" by simp
  then have "(lo + i) div 4096 = lo div 4096" "(lo + i) mod 4096 = lo mod 4096 + i"
    using lt by (metis add_0_right div_less div_mult_self1 zero_neq_numeral add.commute, metis lt mod_less mod_mult_self1)
  then show ?thesis by (simp add: phys_of_def vpn_at_def)
qed

lemma user_bytes_aligned:
  assumes "lo mod 8 = 0" shows "user_bytes m t lo 8 = read_bytes m (phys_of m (user_pt t) lo) 8"
proof (rule nth_equalityI)
  fix i assume "i < length (user_bytes m t lo 8)"
  then have "i < 8" by (simp add: user_bytes_def)
  then show "user_bytes m t lo 8 ! i = read_bytes m (phys_of m (user_pt t) lo) 8 ! i"
    using phys_of_aligned [OF assms, of i m "user_pt t"] by (simp add: user_bytes_def read_bytes_def del: upt_Suc)
qed (simp add: user_bytes_def)

lemma aligned_image:
  assumes "lo mod 8 = 0" shows "phys_of m pt ` {lo..<lo + 8} = {phys_of m pt lo..<phys_of m pt lo + 8}"
proof -
  have sh: "{a..<a + 8} = (\<lambda>i. a + i) ` {0..<8}" for a :: nat by (simp add: add.commute)
  have "phys_of m pt ` {lo..<lo + 8} = (\<lambda>i. phys_of m pt (lo + i)) ` {0..<8}" unfolding sh by (simp only: image_image)
  also have "\<dots> = (\<lambda>i. phys_of m pt lo + i) ` {0..<8}" using phys_of_aligned [OF assms, of _ m pt] by (intro image_cong) auto
  finally show ?thesis unfolding sh .
qed

section \<open>A process with one page\<close>

definition page_task :: "MemorySet \<Rightarrow> File option list \<Rightarrow> TaskControlBlock" where
  "page_task ms fds = (example_task 1 16)\<lparr>task_status := Running, memory_set := ms, fd_table := fds\<rparr>"

definition page_os :: "MemorySet \<Rightarrow> mm \<Rightarrow> File option list \<Rightarrow> OSInode list \<Rightarrow> FAT32Manager \<Rightarrow> (nat \<Rightarrow> u8 list) \<Rightarrow> (nat \<Rightarrow> u8 list) os" where
  "page_os ms s fds is fm d =
     \<lparr>kern = example_kernel\<lparr>kmm := s, ready_queue := [], processor_current := Some 1, tasks := [(1, page_task ms fds)]\<rparr>,
      fatm = fm, fs = example_fs d, inodes = is, pipes = [], held = [], console = [], next_timer = 0\<rparr>"

lemma page_os_simps [simp]:
  "current_inner (kern (page_os ms s fds is fm d)) = Inr (1, page_task ms fds)" "kmm (kern (page_os ms s fds is fm d)) = s"
  "user_mem (page_os ms s fds is fm d) = mem s" "inodes (page_os ms s fds is fm d) = is" "pipes (page_os ms s fds is fm d) = []"
  "held (page_os ms s fds is fm d) = []" "tasks (kern (page_os ms s fds is fm d)) = [(1, page_task ms fds)]"
  "fd_table (page_task ms fds) = fds" "memory_set (page_task ms fds) = ms" "pwd (page_task ms fds) = [47]"
  "fatm (page_os ms s fds is fm d) = fm" "fs (page_os ms s fds is fm d) = example_fs d"
  by (simp_all add: page_os_def page_task_def current_inner_def current_task_def get_task_def user_mem_def example_task_def)

lemma page_buffer:
  obtains ms s where "example_space = Inr (ms, s)"
    "\<And>fds lo n. 8192 \<le> lo \<Longrightarrow> lo + n \<le> 12288 \<Longrightarrow> user_buffer s (page_task ms fds) lo n"
    "\<And>fds. phys_of (mem s) (user_pt (page_task ms fds)) 8200 \<noteq> 0"
proof -
  obtain ms s fs where ms: "example_space = Inr (ms, s)" "ms_wf s ms"
    and ar: "areas ms = [\<lparr>vpn_range = \<lparr>range_l = VirtPageNum 2, range_r = VirtPageNum 3\<rparr>,
       data_frames = zip [VirtPageNum 2] fs, map_type = Framed, map_perm = MapPermission_R OR MapPermission_U\<rparr>]"
    by (rule example_space_wf)
  have pages: "area_pages (areas ms) = {VirtPageNum 2}"
    by (simp add: ar area_pages_def vpns_of_def range_iter_words less_eq_VirtPageNum_def)
  have "vpn_at a = VirtPageNum 2" if "8192 \<le> a" "a < 12288" for a
  proof -
    from that obtain k where "a = 8192 + k" "k < 4096" using le_Suc_ex by force
    then have "a div 4096 = 2" by simp
    then show ?thesis by (simp add: vpn_at_def)
  qed
  then have b: "user_buffer s (page_task ms fds) lo n" if "8192 \<le> lo" "lo + n \<le> 12288" for fds lo n
    using that ms(2) by (auto simp: user_buffer_def pages) (auto simp: ar)
  moreover have "phys_of (mem s) (user_pt (page_task ms fds)) 8200 \<noteq> 0" for fds
    using user_page [OF b, of 8192 8 8200] by (auto simp: phys_of_def)
  ultimately show ?thesis using that ms(1) by blast
qed

end
