(* ===== verification/Descriptors.thy ===== *)
theory Descriptors
  imports User_Memory Reap
begin

text \<open>
  The descriptor table as the partial map a process sees: what \<open>sys_close\<close>, \<open>sys_dup\<close>, \<open>sys_dup3\<close> and
  \<open>sys_pipe2\<close> do to it, and that the calls on a closed descriptor answer with the error and change nothing.
\<close>

section \<open>The table as a map\<close>

definition fd_map :: "TaskControlBlock \<Rightarrow> nat \<Rightarrow> File option" where
  "fd_map t n = (if n < length (fd_table t) then fd_table t ! n else None)"

definition only_fds :: "TaskControlBlock \<Rightarrow> TaskControlBlock \<Rightarrow> bool" where
  "only_fds t t' \<longleftrightarrow> t' = t\<lparr>fd_table := fd_table t'\<rparr>"

definition lowest_free :: "TaskControlBlock \<Rightarrow> nat \<Rightarrow> bool" where
  "lowest_free t n \<longleftrightarrow> fd_map t n = None \<and> (\<forall>j < n. fd_map t j \<noteq> None)"

lemma lowest_free_unique: "lowest_free t n \<Longrightarrow> lowest_free t n' \<Longrightarrow> n = n'"
  by (metis linorder_neqE_nat lowest_free_def)

lemma fd_map_set_fd: "n < length (fd_table t) \<Longrightarrow> fd_map (set_fd n e t) = (fd_map t)(n := e)"
  by (auto simp: fd_map_def set_fd_def nth_list_update)

lemma only_fds_refl [simp]: "only_fds t t"
  by (simp add: only_fds_def)

lemma only_fds_set_fd [simp]: "only_fds t t' \<Longrightarrow> only_fds t (set_fd n e t')"
  unfolding only_fds_def set_fd_def by (cases t; cases t') simp

lemma alloc_fd_spec:
  assumes "alloc_fd t = (n, t')"
  shows "lowest_free t n" and "n < length (fd_table t')" and "fd_map t' = fd_map t" and "only_fds t t'"
proof -
  have "lowest_free t n \<and> n < length (fd_table t') \<and> fd_map t' = fd_map t \<and> only_fds t t'"
  proof (cases "find_index (\<lambda>f. f = None) (fd_table t)")
    case None
    with assms have "n = length (fd_table t)" "t' = t\<lparr>fd_table := fd_table t @ [None]\<rparr>"
      by (auto simp: alloc_fd_def Let_def)
    moreover have "\<forall>x \<in> set (fd_table t). x \<noteq> None" using None by simp
    ultimately show ?thesis
      by (auto simp: lowest_free_def fd_map_def fun_eq_iff nth_append only_fds_def)
  next
    case (Some i)
    with assms have "n = i" "t' = t" by (auto simp: alloc_fd_def)
    with find_index_SomeD [OF Some] show ?thesis by (auto simp: lowest_free_def fd_map_def)
  qed
  then show "lowest_free t n" "n < length (fd_table t')" "fd_map t' = fd_map t" "only_fds t t'" by simp_all
qed

lemma fd_open_iff: "unat fd < length (fd_table t) \<and> fd_table t ! unat fd \<noteq> None \<longleftrightarrow> fd_map t (unat fd) \<noteq> None"
  by (simp add: fd_map_def)

lemma fd_map_SomeD: "fd_map t n = Some f \<Longrightarrow> n < length (fd_table t) \<and> fd_table t ! n = Some f"
  by (auto simp: fd_map_def split: if_splits)

section \<open>The calls\<close>

lemma sys_close_open:
  assumes "current_inner (kern os) = Inr (p, t)" and "fd_map t (unat fd) = Some f"
  shows "\<exists>t'. sys_close fd os = Inr (0, put_inner p t' os) \<and> only_fds t t' \<and> fd_map t' = (fd_map t)(unat fd := None)"
  using assms fd_map_SomeD [OF assms(2)]
  by (intro exI [of _ "set_fd (unat fd) None t"]) (simp add: sys_close_def fd_map_set_fd)

lemma sys_dup_open:
  assumes "current_inner (kern os) = Inr (p, t)" and "fd_map t (unat fd) = Some f"
  shows "\<exists>n t'. lowest_free t n \<and> sys_dup fd os = Inr (word_of_nat n, put_inner p t' os) \<and> only_fds t t' \<and>
    fd_map t' = (fd_map t)(n \<mapsto> f)"
proof -
  obtain n t1 where al: "alloc_fd t = (n, t1)" by (cases "alloc_fd t")
  note spec = alloc_fd_spec [OF al]
  have "fd_table t1 ! unat fd = Some f" using assms(2) spec(3) fd_map_SomeD [of t1 "unat fd" f] by simp
  with assms al spec fd_map_SomeD [OF assms(2)] show ?thesis
    by (intro exI [of _ n] exI [of _ "set_fd n (Some f) t1"]) (simp add: sys_dup_def fd_map_set_fd)
qed

lemma sys_dup3_open:
  assumes "current_inner (kern os) = Inr (p, t)" and "fd_map t (unat fd) = Some f" and "newfd \<noteq> - 1"
  shows "\<exists>t'. sys_dup3 fd newfd os = Inr (newfd, put_inner p t' os) \<and> only_fds t t' \<and>
    fd_map t' = (fd_map t)(unat newfd \<mapsto> f)"
proof -
  define t1 where "t1 = t\<lparr>fd_table := fd_table t @ replicate (unat (newfd + 1) - length (fd_table t)) None\<rparr>"
  have "newfd + 1 \<noteq> 0" using assms(3) by (metis add.inverse_unique add.commute)
  then have "unat (newfd + 1) = Suc (unat newfd)" by (simp add: unatSuc add.commute)
  then have "unat newfd < length (fd_table t1)" by (simp add: t1_def)
  moreover have "fd_map t1 = fd_map t" by (auto simp: t1_def fd_map_def fun_eq_iff nth_append)
  moreover have "fd_table t1 ! unat fd = Some f" using fd_map_SomeD [OF assms(2)] by (simp add: t1_def nth_append)
  moreover have "only_fds t t1" by (simp add: only_fds_def t1_def)
  ultimately show ?thesis
    using assms(1) fd_map_SomeD [OF assms(2)]
    by (intro exI [of _ "set_fd (unat newfd) (Some f) t1"])
      (simp add: sys_dup3_def fd_map_set_fd Let_def flip: t1_def)
qed

lemma closed_descriptor:
  assumes "current_inner (kern os) = Inr (p, t)" and "fd_map t (unat fd) = None"
  shows "sys_close fd os = Inr (- 1, os)" and "sys_dup fd os = Inr (- 1, os)" and "sys_dup3 fd newfd os = Inr (- 1, os)"
    and "sys_read fuel now c fd buf len os = Inr (Done (- 1), os)" and "sys_write fuel now fd buf len os = Inr (Done (- 1), os)"
proof -
  have "current_user_token (kern os) = Inr (get_user_token t)"
    using assms(1) by (auto simp: current_inner_def current_user_token_def bindR_eq_Inr)
  then show "sys_read fuel now c fd buf len os = Inr (Done (- 1), os)" "sys_write fuel now fd buf len os = Inr (Done (- 1), os)"
    using assms by (auto simp: sys_read_def sys_write_def fd_map_def split: if_splits)
qed (use assms in \<open>auto simp: sys_close_def sys_dup_def sys_dup3_def fd_map_def split: if_splits\<close>)

text \<open>
  (C17) The descriptor calls act on the map from descriptors to files. On a closed descriptor \<open>sys_close\<close>,
  \<open>sys_dup\<close>, \<open>sys_dup3\<close>, \<open>sys_read\<close> and \<open>sys_write\<close> answer -1 and leave the system as it is. On an open one
  \<open>sys_close\<close> removes it, \<open>sys_dup\<close> answers the lowest free descriptor, which then names the same file, and
  \<open>sys_dup3\<close> makes the given descriptor name it, growing the table, unless that is the largest word, for which
  the code panics; nothing else of the process changes.
\<close>

theorem descriptor_calls:
  assumes "current_inner (kern os) = Inr (p, t)"
  shows "case fd_map t (unat fd) of
      None \<Rightarrow>
        sys_close fd os = Inr (- 1, os) \<and> sys_dup fd os = Inr (- 1, os) \<and> sys_dup3 fd newfd os = Inr (- 1, os) \<and>
        sys_read fuel now c fd buf len os = Inr (Done (- 1), os) \<and> sys_write fuel now fd buf len os = Inr (Done (- 1), os)
    | Some f \<Rightarrow>
        (\<exists>t'. sys_close fd os = Inr (0, put_inner p t' os) \<and> only_fds t t' \<and> fd_map t' = (fd_map t)(unat fd := None)) \<and>
        (\<exists>n t'. lowest_free t n \<and> sys_dup fd os = Inr (word_of_nat n, put_inner p t' os) \<and> only_fds t t' \<and>
           fd_map t' = (fd_map t)(n \<mapsto> f)) \<and>
        (newfd \<noteq> - 1 \<longrightarrow> (\<exists>t'. sys_dup3 fd newfd os = Inr (newfd, put_inner p t' os) \<and> only_fds t t' \<and>
           fd_map t' = (fd_map t)(unat newfd \<mapsto> f)))"
  using closed_descriptor [OF assms] sys_close_open [OF assms] sys_dup_open [OF assms] sys_dup3_open [OF assms]
  by (cases "fd_map t (unat fd)") simp_all

definition example_os :: "(nat \<Rightarrow> u8 list) os" where
  "example_os = \<lparr>kern = example_family, fatm = example_manager, fs = example_fs example_disk, inodes = [], pipes = [],
     held = [], console = [], next_timer = 0\<rparr>"

lemma example_current:
  "current_inner (kern example_os) = Inr (1, (example_task 1 16)\<lparr>task_status := Running, children := [2]\<rparr>)"
  by (simp add: current_inner_def current_task_def get_task_def example_os_def example_family_def)

lemma example_fds:
  "fd_table ((example_task 1 16)\<lparr>task_status := Running, children := [2]\<rparr>) = [Some Stdin, Some Stdout, Some Stdout]"
  by (simp add: example_task_def std_fds_def)

theorem descriptor_calls_witness:
  "sys_close 5 example_os = Inr (- 1, example_os) \<and>
   (\<exists>t'. sys_dup 0 example_os = Inr (3, put_inner 1 t' example_os) \<and> fd_map t' 3 = Some Stdin)"
proof -
  let ?t = "(example_task 1 16)\<lparr>task_status := Running, children := [2]\<rparr>"
  have fds: "fd_map ?t 5 = None" "fd_map ?t 0 = Some Stdin" "lowest_free ?t 3"
    using example_fds by (simp_all add: fd_map_def lowest_free_def less_Suc_eq numeral_3_eq_3)
  from descriptor_calls [OF example_current, of 5] fds(1)
  have 1: "sys_close 5 example_os = Inr (- 1, example_os)" by simp
  from descriptor_calls [OF example_current, of 0 7] fds(2) obtain n t' where
    n: "lowest_free ?t n" "sys_dup 0 example_os = Inr (word_of_nat n, put_inner 1 t' example_os)"
    "fd_map t' = (fd_map ?t)(n \<mapsto> Stdin)"
    by auto
  moreover have "n = 3" using n(1) fds(3) by (rule lowest_free_unique)
  ultimately show ?thesis using 1 by auto
qed

section \<open>Pipes\<close>

lemma write_refs_put:
  assumes "\<forall>(q, u) \<in> set (tasks (kern os)). q \<noteq> p \<longrightarrow> Some (PipeWrite w) \<notin> set (fd_table u)" and "PipeWrite w \<notin> set (held os)"
  shows "write_refs (put_inner p t os) w = count_list (fd_table t) (Some (PipeWrite w))"
proof -
  have "sum_list (map (\<lambda>(_, t). count_list (fd_table t) (Some (PipeWrite w)))
      (filter (\<lambda>(q, _). q \<noteq> p) (tasks (kern os)))) = 0"
    using assms(1) by (fastforce simp: count_list_0_iff)
  with assms(2) show ?thesis by (simp add: write_refs_def put_inner_def put_task_def count_list_0_iff)
qed

lemma count_update_new:
  "n < length xs \<Longrightarrow> x \<notin> set xs \<Longrightarrow> count_list (xs[n := x]) x = 1"
  by (induction xs arbitrary: n) (auto split: nat.splits simp: count_list_0_iff)

lemma current_put [simp]:
  assumes "current_inner (kern os) = Inr (p, t)"
  shows "current_inner (kern (set_mem m (put_inner p t' os))) = Inr (p, t')"
  using assms by (auto simp: current_inner_def current_task_def set_mem_def put_inner_def bindR_eq_Inr get_task_def put_task_def)

lemma write_refs_set_mem [simp]: "write_refs (set_mem m os) = write_refs os"
  by (simp add: fun_eq_iff write_refs_def set_mem_def)

definition pipe_fds :: "nat \<Rightarrow> nat \<Rightarrow> nat \<Rightarrow> TaskControlBlock \<Rightarrow> TaskControlBlock \<Rightarrow> bool" where
  "pipe_fds q r w t t' \<longleftrightarrow> only_fds t t' \<and> lowest_free t r \<and> r < w \<and> fd_map t w = None \<and>
     (\<forall>j < w. j \<noteq> r \<longrightarrow> fd_map t j \<noteq> None) \<and> fd_map t' = (fd_map t)(r \<mapsto> PipeRead q, w \<mapsto> PipeWrite q)"

lemma alloc_two:
  assumes al: "alloc_fd t = (r, t1)" "alloc_fd (set_fd r (Some (PipeRead q)) t1) = (w, t3)"
  shows "pipe_fds q r w t (set_fd w (Some (PipeWrite q)) t3)" and "w < length (fd_table t3)"
    and "Some (PipeWrite q) \<notin> set (fd_table t) \<Longrightarrow> Some (PipeWrite q) \<notin> set (fd_table t3)"
    and "w \<le> Suc (length (fd_table t))"
proof -
  note a = alloc_fd_spec [OF al(1)] and b = alloc_fd_spec [OF al(2)]
  have m: "fd_map t3 = (fd_map t)(r \<mapsto> PipeRead q)" using a b by (simp add: fd_map_set_fd)
  have low: "(if w = r then Some (PipeRead q) else fd_map t w) = None" "\<forall>j < w. j \<noteq> r \<longrightarrow> fd_map t j \<noteq> None"
    using b(1) a(2,3) by (auto simp: lowest_free_def fd_map_set_fd split: if_splits)
  have "r < w" using low a(1) by (metis lowest_free_def linorder_neqE_nat option.distinct(1))
  moreover have "only_fds t t3"
    using a(4) b(4) unfolding only_fds_def set_fd_def by (cases t; cases t1; cases t3) simp
  ultimately show "pipe_fds q r w t (set_fd w (Some (PipeWrite q)) t3)"
    using a(1) b(2) m low by (auto simp: pipe_fds_def fd_map_set_fd split: if_splits)
  show "w < length (fd_table t3)" by (rule b(2))
  show "Some (PipeWrite q) \<notin> set (fd_table t3)" if "Some (PipeWrite q) \<notin> set (fd_table t)"
  proof
    assume "Some (PipeWrite q) \<in> set (fd_table t3)"
    then obtain i where "i < length (fd_table t3)" "fd_table t3 ! i = Some (PipeWrite q)" by (metis in_set_conv_nth)
    then have "fd_map t3 i = Some (PipeWrite q)" by (simp add: fd_map_def)
    then have "fd_map t i = Some (PipeWrite q)" unfolding m by (auto split: if_splits)
    then show False using that fd_map_SomeD by (metis nth_mem)
  qed
  have "fd_map t j = None" if "j \<ge> length (fd_table t)" for j using that by (simp add: fd_map_def)
  then show "w \<le> Suc (length (fd_table t))"
    using low(2) by (metis Suc_n_not_le_n le_Suc_eq not_less_eq_eq order_refl linorder_not_le)
qed

lemma count_update_last:
  "count_list xs x = 1 \<Longrightarrow> n < length xs \<Longrightarrow> xs ! n = x \<Longrightarrow> y \<noteq> x \<Longrightarrow> count_list (xs[n := y]) x = 0"
  by (induction xs arbitrary: n) (auto split: nat.splits if_splits simp: count_list_0_iff nth_Cons)

lemma read_bytes_split: "read_bytes m a (i + j) = read_bytes m a i @ read_bytes m (a + i) j"
  using upt_add_eq_append [of a "a + i" j] by (simp add: read_bytes_def add.assoc)

lemma read_two_words:
  "read_bytes (write_bytes (write_bytes m a (le32 r)) (a + 4) (le32 w)) a 8 = le32 r @ le32 w"
proof -
  have "read_bytes m' a 8 = read_bytes m' a 4 @ read_bytes m' (a + 4) 4" for m'
    using read_bytes_split [of m' a 4 4] by simp
  moreover have "read_bytes (write_bytes m' (a + 4) bs) a 4 = read_bytes m' a 4" for m' bs
    by (rule read_bytes_cong) (simp add: write_bytes_other)
  ultimately show ?thesis by simp
qed

text \<open>No descriptor and no call in progress refers to the write end.\<close>

definition unreferenced :: "nat \<Rightarrow> 'd os \<Rightarrow> bool" where
  "unreferenced q os \<longleftrightarrow> (\<forall>(_, u) \<in> set (tasks (kern os)). Some (PipeWrite q) \<notin> set (fd_table u)) \<and> PipeWrite q \<notin> set (held os)"

lemma unreferenced_write_refs:
  "unreferenced q os \<Longrightarrow> write_refs (set_mem m (put_inner p t (os\<lparr>pipes := rs\<rparr>))) q = count_list (fd_table t) (Some (PipeWrite q))"
  using write_refs_put [of "os\<lparr>pipes := rs\<rparr>" p q t] by (auto simp: unreferenced_def)

lemma current_inner_task: "current_inner k = Inr (p, t) \<Longrightarrow> (p, t) \<in> set (tasks k)"
  by (auto simp: current_inner_def bindR_eq_Inr get_task_def dest: map_of_SomeD)

lemma sys_pipe2_state:
  assumes cur: "current_inner (kern os) = Inr (p, t)" and un: "unreferenced (length (pipes os)) os"
    and a: "translated_refmut (user_mem os) (get_user_token t) ptr = Inr a"
    and b: "\<forall>r. translated_refmut (write_bytes (user_mem os) a (le32 r)) (get_user_token t) (ptr + 4) = Inr (a + 4)"
  obtains r w t' m where "pipe_fds (length (pipes os)) r w t t'" and "w \<le> Suc (length (fd_table t))"
    and "count_list (fd_table t') (Some (PipeWrite (length (pipes os)))) = 1"
    and "m = write_bytes (write_bytes (user_mem os) a (le32 (word_of_nat r))) (a + 4) (le32 (word_of_nat w))"
    and "sys_pipe2 ptr os = Inr (0, set_mem m (put_inner p t'
      (os\<lparr>pipes := pipes os @ [set_write_end PipeRingBuffer_new (length (pipes os))]\<rparr>)))"
proof -
  let ?q = "length (pipes os)"
  obtain r t1 where r: "alloc_fd t = (r, t1)" by (cases "alloc_fd t")
  obtain w t3 where w: "alloc_fd (set_fd r (Some (PipeRead ?q)) t1) = (w, t3)"
    by (cases "alloc_fd (set_fd r (Some (PipeRead ?q)) t1)")
  note two = alloc_two [OF r w]
  have tok: "current_user_token (kern os) = Inr (get_user_token t)"
    using cur by (auto simp: current_inner_def current_user_token_def bindR_eq_Inr)
  have "Some (PipeWrite ?q) \<notin> set (fd_table t)"
    using current_inner_task [OF cur] un by (auto simp: unreferenced_def)
  then have "count_list (fd_table (set_fd w (Some (PipeWrite ?q)) t3)) (Some (PipeWrite ?q)) = 1"
    using two(2,3) by (simp add: set_fd_def count_update_new)
  moreover have "user_mem (put_inner p t' os') = user_mem os'" "user_mem (os\<lparr>pipes := rs\<rparr>) = user_mem os" for t' rs and os' :: "'a os"
    by (simp_all add: user_mem_def put_inner_def put_task_def)
  ultimately show ?thesis
    using two(1,4) tok cur r w a b
    by (intro that [of r w "set_fd w (Some (PipeWrite ?q)) t3"]) (simp_all add: sys_pipe2_def make_pipe_def Let_def)
qed

text \<open>Two words written to an aligned place of the process.\<close>

lemma user_two_words:
  assumes b: "user_buffer (kmm (kern os)) t (unat ptr) 8" and al: "unat ptr mod 8 = 0"
    and nz: "phys_of (user_mem os) (user_pt t) (unat ptr) \<noteq> 0"
  defines "a \<equiv> phys_of (user_mem os) (user_pt t) (unat ptr)"
  shows "translated_refmut (user_mem os) (get_user_token t) ptr = Inr a"
    and "\<forall>r. translated_refmut (write_bytes (user_mem os) a (le32 r)) (get_user_token t) (ptr + 4) = Inr (a + 4)"
    and "user_bytes (write_bytes (write_bytes (user_mem os) a (le32 r)) (a + 4) (le32 w)) t (unat ptr) 8 = le32 r @ le32 w"
proof -
  let ?s = "kmm (kern os)"
  have s: "mem ?s = user_mem os" by (simp add: user_mem_def)
  have lt: "unat ptr + 8 < 2 ^ 38" using b by (simp add: user_buffer_def)
  then have p4: "unat (ptr + 4) = unat ptr + 4" by (simp add: unat_word_ariths)
  show "translated_refmut (user_mem os) (get_user_token t) ptr = Inr a"
    using user_refmut [OF b, of ptr] nz by (simp add: s a_def)
  have kept: "user_buffer (?s\<lparr>mem := m'\<rparr>) t (unat ptr) 8 \<and>
      (\<forall>k < 8. phys_of m' (user_pt t) (unat ptr + k) = a + k)"
    if "\<And>x. x < a \<or> a + 8 \<le> x \<Longrightarrow> m' x = user_mem os x" for m'
  proof -
    have "m' x = mem ?s x" if "x \<notin> phys_of (mem ?s) (user_pt t) ` {unat ptr..<unat ptr + 8}" for x
      using that \<open>\<And>x. x < a \<or> a + 8 \<le> x \<Longrightarrow> m' x = user_mem os x\<close>
      unfolding aligned_image [OF al] s a_def by auto
    from user_write_kept [OF b this] show ?thesis
      using phys_of_aligned [OF al, of _ "user_mem os" "user_pt t"] by (auto simp: s a_def)
  qed
  show "\<forall>r. translated_refmut (write_bytes (user_mem os) a (le32 r)) (get_user_token t) (ptr + 4) = Inr (a + 4)"
  proof
    fix r
    let ?m = "write_bytes (user_mem os) a (le32 r)"
    have "?m x = user_mem os x" if "x < a \<or> a + 8 \<le> x" for x using that by (intro write_bytes_other) auto
    from kept [OF this] have "user_buffer (?s\<lparr>mem := ?m\<rparr>) t (unat ptr) 8" "phys_of ?m (user_pt t) (unat ptr + 4) = a + 4"
      by auto
    then show "translated_refmut ?m (get_user_token t) (ptr + 4) = Inr (a + 4)"
      using user_refmut [of "?s\<lparr>mem := ?m\<rparr>" t "unat ptr" 8 "ptr + 4"] p4 by simp
  qed
  let ?m = "write_bytes (write_bytes (user_mem os) a (le32 r)) (a + 4) (le32 w)"
  have "?m x = user_mem os x" if "x < a \<or> a + 8 \<le> x" for x using that by (auto simp: write_bytes_def)
  then have "phys_of ?m (user_pt t) (unat ptr + 0) = a + 0" using kept [of ?m] by (metis zero_less_numeral)
  then show "user_bytes ?m t (unat ptr) 8 = le32 r @ le32 w"
    by (simp add: user_bytes_aligned [OF al] read_two_words)
qed

text \<open>
  (C18) \<open>sys_pipe2\<close> puts a new empty pipe at the two lowest free descriptors and stores their numbers at the
  aligned place the process points to, where it reads them; the rest of the table and of the process stays. The write end is then referenced exactly once, so a
  reader of the empty pipe waits; once that descriptor is closed it is unreferenced and the reader returns.
\<close>

theorem sys_pipe2_connects:
  assumes "current_inner (kern os) = Inr (p, t)" and "unreferenced (length (pipes os)) os"
    and "user_buffer (kmm (kern os)) t (unat ptr) 8" and "unat ptr mod 8 = 0"
    and "phys_of (user_mem os) (user_pt t) (unat ptr) \<noteq> 0" and "length (fd_table t) < 2 ^ 63"
  shows "\<exists>r w t' os' os'' rb. sys_pipe2 ptr os = Inr (0, os') \<and> current_inner (kern os') = Inr (p, t') \<and>
    pipe_fds (length (pipes os)) r w t t' \<and> pipes os' = pipes os @ [rb] \<and> available_read rb = 0 \<and>
    user_bytes (user_mem os') t (unat ptr) 8 = le32 (word_of_nat r) @ le32 (word_of_nat w) \<and>
    all_write_ends_closed (write_refs os') rb = Inr False \<and>
    sys_close (word_of_nat w) os' = Inr (0, os'') \<and> all_write_ends_closed (write_refs os'') rb = Inr True"
proof -
  define a where "a = phys_of (user_mem os) (user_pt t) (unat ptr)"
  note two = user_two_words [OF assms(3-5), folded a_def]
  let ?q = "length (pipes os)" and ?rb = "set_write_end PipeRingBuffer_new (length (pipes os))"
  obtain r w t' m where P: "pipe_fds ?q r w t t'" "w \<le> Suc (length (fd_table t))"
    "count_list (fd_table t') (Some (PipeWrite ?q)) = 1"
    "m = write_bytes (write_bytes (user_mem os) a (le32 (word_of_nat r))) (a + 4) (le32 (word_of_nat w))"
    "sys_pipe2 ptr os = Inr (0, set_mem m (put_inner p t' (os\<lparr>pipes := pipes os @ [?rb]\<rparr>)))"
    using sys_pipe2_state [OF assms(1,2) two(1,2)] .
  define os' where "os' = set_mem m (put_inner p t' (os\<lparr>pipes := pipes os @ [?rb]\<rparr>))"
  have cur: "current_inner (kern os') = Inr (p, t')" unfolding os'_def by (rule current_put) (use assms(1) in simp)
  have w: "unat (word_of_nat w :: usize) = w" using P(2) assms(6) by (simp add: unat_of_nat take_bit_eq_mod)
  have fw: "fd_map t' w = Some (PipeWrite ?q)" "w < length (fd_table t')" "fd_table t' ! w = Some (PipeWrite ?q)"
    using P(1) fd_map_SomeD [of t' w "PipeWrite ?q"] by (auto simp: pipe_fds_def)
  define os'' where "os'' = put_inner p (set_fd w None t') os'"
  have close: "sys_close (word_of_nat w) os' = Inr (0, os'')"
    using cur fw w by (simp add: sys_close_def os''_def)
  have "write_refs os' ?q = 1" unfolding os'_def using unreferenced_write_refs [OF assms(2)] P(3) by simp
  moreover have "write_refs os'' ?q = 0"
  proof -
    have "write_refs os'' ?q = count_list (fd_table (set_fd w None t')) (Some (PipeWrite ?q))"
      unfolding os''_def using assms(2)
      by (intro write_refs_put) (auto simp: os'_def set_mem_def put_inner_def put_task_def unreferenced_def)
    then show ?thesis using count_update_last [OF P(3) fw(2,3)] by (simp add: set_fd_def)
  qed
  moreover have "user_bytes m t (unat ptr) 8 = le32 (word_of_nat r) @ le32 (word_of_nat w)"
    unfolding P(4) by (rule two(3))
  ultimately show ?thesis
    using P(1,5) cur close unfolding os'_def [symmetric]
    by (intro exI [of _ r] exI [of _ w] exI [of _ t'] exI [of _ os'] exI [of _ os''] exI [of _ ?rb])
      (simp add: all_write_ends_closed_def set_write_end_def PipeRingBuffer_new_def available_read_def os'_def set_mem_def
        put_inner_def user_mem_def)
qed

theorem sys_pipe2_connects_witness:
  "\<exists>ms s t' os' os''. example_space = Inr (ms, s) \<and>
     sys_pipe2 8200 (page_os ms s std_fds [] example_manager example_disk) = Inr (0, os') \<and>
     current_inner (kern os') = Inr (1, t') \<and> fd_map t' 3 = Some (PipeRead 0) \<and> fd_map t' 4 = Some (PipeWrite 0) \<and>
     sys_close 4 os' = Inr (0, os'')"
proof -
  obtain ms s where ms: "example_space = Inr (ms, s)"
    "\<And>fds lo n. 8192 \<le> lo \<Longrightarrow> lo + n \<le> 12288 \<Longrightarrow> user_buffer s (page_task ms fds) lo n"
    "\<And>fds. phys_of (mem s) (user_pt (page_task ms fds)) 8200 \<noteq> 0" using page_buffer by metis
  let ?os = "page_os ms s std_fds [] example_manager example_disk" and ?t = "page_task ms std_fds"
  have "unreferenced (length (pipes ?os)) ?os" by (simp add: unreferenced_def std_fds_def)
  moreover have "length (fd_table ?t) < 2 ^ 63" by (simp add: std_fds_def)
  ultimately obtain r w t' os' os'' where P: "sys_pipe2 8200 ?os = Inr (0, os')" "current_inner (kern os') = Inr (1, t')"
    "pipe_fds 0 r w ?t t'" "sys_close (word_of_nat w) os' = Inr (0, os'')"
    using sys_pipe2_connects [of ?os 1 ?t 8200] ms(2) [of 8200 8] ms(3) by auto
  have "lowest_free ?t 3" by (auto simp: lowest_free_def fd_map_def std_fds_def less_Suc_eq numeral_3_eq_3)
  then have r: "r = 3" using P(3) lowest_free_unique by (auto simp: pipe_fds_def)
  have "fd_map ?t 4 = None" by (simp add: fd_map_def std_fds_def)
  then have "\<not> 4 < w" using P(3) r by (auto simp: pipe_fds_def)
  then have "w = 4" using P(3) r by (auto simp: pipe_fds_def)
  with P r ms(1) show ?thesis by (intro exI [of _ ms] exI [of _ s] exI [of _ t'] exI [of _ os'] exI [of _ os'']) (auto simp: pipe_fds_def)
qed

end
