(* ===== verification/File_Calls.thy ===== *)
theory File_Calls
  imports User_Memory Descriptors
begin

text \<open>
  The file calls end to end, from the arguments of the process to the bytes it then reads: \<open>sys_getcwd\<close> and
  \<open>sys_uname\<close> deliver their text into the user buffer, \<open>sys_read\<close> of a regular file delivers the bytes of
  the file on the disk from the offset of the descriptor on and advances it.
\<close>

section \<open>Copies to the process\<close>

lemma current_token: "current_inner k = Inr (p, t) \<Longrightarrow> current_user_token k = Inr (get_user_token t)"
  by (auto simp: current_inner_def current_user_token_def bindR_eq_Inr)

lemma user_slices:
  assumes b: "user_buffer (kmm (kern os)) t (unat buf) (unat len)" and fuel: "unat len div 4096 + 2 < fuel"
  obtains bs where "translated_byte_buffer fuel (user_mem os) (get_user_token t) buf len = Inr bs"
    "concat (map slice_addrs bs) = map (phys_of (user_mem os) (user_pt t)) [unat buf..<unat buf + unat len]"
    "\<forall>b \<in> set bs. 0 < byte_slice_len b"
proof -
  have "unat buf + unat len < 2 ^ 38" using b by (simp add: user_buffer_def)
  moreover have "\<forall>a. unat buf \<le> a \<and> a < unat buf + unat len \<longrightarrow> has_table (user_mem os) (user_pt t) a"
    using user_page [OF b] unfolding user_mem_def by metis
  ultimately show ?thesis
    using byte_buffer_spec [of buf len "user_mem os" "get_user_token t" fuel] fuel that by (auto simp: user_pt_def)
qed

lemma user_mem_set_mem [simp]: "user_mem (set_mem m os) = m"
  by (simp add: user_mem_def set_mem_def)

text \<open>What a delivery of \<open>xs\<close> to the address \<open>lo\<close> of the task is.\<close>

definition delivered :: "TaskControlBlock \<Rightarrow> nat \<Rightarrow> u8 list \<Rightarrow> 'd os \<Rightarrow> 'd os \<Rightarrow> bool" where
  "delivered t lo xs os os' \<longleftrightarrow> user_bytes (user_mem os') t lo (length xs) = xs \<and>
     (\<forall>x. x \<notin> phys_of (user_mem os) (user_pt t) ` {lo..<lo + length xs} \<longrightarrow> user_mem os' x = user_mem os x)"

lemma delivered_put_at:
  assumes b: "user_buffer (kmm (kern os)) t lo n" and "length xs \<le> n"
    and "user_mem os' = put_at (map (phys_of (user_mem os) (user_pt t)) [lo..<lo + n]) xs (user_mem os)"
  shows "delivered t lo xs os os'"
  using user_put_at(2,3) [OF b assms(2)] assms(3) by (auto simp: delivered_def user_mem_def)

lemma write_to_user_spec:
  assumes b: "user_buffer (kmm (kern os)) t (unat buf) (unat len)" and fuel: "unat len div 4096 + 2 < fuel"
    and tot: "tot \<le> unat len"
  shows "\<exists>m. write_to_user fuel (get_user_token t) buf len src tot os = Inr (set_mem m os) \<and>
    delivered t (unat buf) (map src [0..<tot]) os (set_mem m os)"
proof -
  obtain bs where bs: "translated_byte_buffer fuel (user_mem os) (get_user_token t) buf len = Inr bs"
    "concat (map slice_addrs bs) = map (phys_of (user_mem os) (user_pt t)) [unat buf..<unat buf + unat len]"
    by (rule user_slices [OF b fuel])
  let ?m = "copy_to_user src tot bs 0 (user_mem os)"
  have "?m = put_at (map (phys_of (user_mem os) (user_pt t)) [unat buf..<unat buf + unat len]) (map src [0..<tot]) (user_mem os)"
    using copy_to_user_put_at [of src tot bs 0 "user_mem os"] bs(2) by simp
  then have "delivered t (unat buf) (map src [0..<tot]) os (set_mem ?m os)"
    using tot by (intro delivered_put_at [OF b]) simp_all
  then show ?thesis using bs(1) by (fastforce simp: write_to_user_def)
qed

text \<open>
  (C40) \<open>sys_getcwd\<close> answers -1 and changes nothing when the working directory does not fit in the given size.
  Otherwise it returns, the process then reads the path at the start of its buffer, and no other byte of
  memory and nothing else of the system has changed.
\<close>

theorem sys_getcwd_delivers:
  assumes "current_inner (kern os) = Inr (p, t)"
    and "user_buffer (kmm (kern os)) t (unat buf) (unat (ucast sz :: usize))" and "unat sz div 4096 + 2 < fuel"
  shows "if length (pwd t) > unat sz then sys_getcwd fuel ptr buf sz os = Inr (- 1, os)
    else \<exists>m. sys_getcwd fuel ptr buf sz os = Inr (ptr, set_mem m os) \<and> delivered t (unat buf) (pwd t) os (set_mem m os)"
proof -
  have sz: "unat (ucast sz :: usize) = unat sz" using unsigned_less [of sz, where 'a = nat] by (simp add: unsigned_ucast_eq take_bit_nat_eq_self)
  have "\<exists>m. write_to_user fuel (get_user_token t) buf (ucast sz) (\<lambda>i. pwd t ! i) (length (pwd t)) os = Inr (set_mem m os) \<and>
      delivered t (unat buf) (pwd t) os (set_mem m os)" if "length (pwd t) \<le> unat sz"
    using write_to_user_spec [OF assms(2), of fuel "length (pwd t)" "\<lambda>i. pwd t ! i"] assms(3) that
    by (simp add: sz map_nth)
  then show ?thesis using assms(1) current_token [OF assms(1)] by (fastforce simp: sys_getcwd_def)
qed

lemma length_utsname: "length utsname_bytes = 390"
  by (simp add: utsname_bytes_def uts_field_def)

lemma sys_uname_delivers:
  assumes "current_inner (kern os) = Inr (p, t)" and "user_buffer (kmm (kern os)) t (unat buf) 390" and "2 < fuel"
  shows "\<exists>m. sys_uname fuel buf os = Inr (0, set_mem m os) \<and> delivered t (unat buf) utsname_bytes os (set_mem m os)"
proof -
  have "map (\<lambda>i. utsname_bytes ! i) [0..<390] = utsname_bytes" using map_nth [of utsname_bytes] by (simp add: length_utsname)
  then show ?thesis
    using write_to_user_spec [of os t buf 390 fuel 390 "\<lambda>i. utsname_bytes ! i"] assms current_token [OF assms(1)]
    by (fastforce simp: sys_uname_def)
qed

section \<open>Reading a file\<close>

text \<open>
  \<open>open_on I hs v cs os\<close>: the file system is in order and the virtual file is a regular file on the disk with
  the clusters \<open>cs\<close>. \<open>vfile_bytes\<close> is its content.
\<close>

definition vfile_entry :: "VFile \<Rightarrow> 'd os \<Rightarrow> ShortDirEntry" where
  "vfile_entry v os = entry_at v (fatm os) (disk_view (fs os))"

definition open_on :: "nat set \<Rightarrow> nat list \<Rightarrow> VFile \<Rightarrow> u32 list \<Rightarrow> 'd os \<Rightarrow> bool" where
  "open_on I hs v cs os \<longleftrightarrow> fs_ok I hs (fs os) \<and> length hs < 9 \<and> entry_placed I v \<and>
     file_on I (fatm os) (vfile_entry v os) cs (disk_view (fs os))"

definition vfile_bytes :: "VFile \<Rightarrow> u32 list \<Rightarrow> 'd os \<Rightarrow> u8 list" where
  "vfile_bytes v cs os = file_bytes (fatm os) (vfile_entry v os) cs (disk_view (fs os))"

lemma length_vfile_bytes: "open_on I hs v cs os \<Longrightarrow> length (vfile_bytes v cs os) = unat (fsize (vfile_entry v os))"
  unfolding open_on_def vfile_bytes_def
  by (auto intro!: length_file_bytes simp: disk_view_length [where I = I and hs = hs, unfolded BLOCK_SZ_def])

text \<open>The states that differ only in memory and in the caches.\<close>

definition io_state :: "pmem \<Rightarrow> 'd fs_state \<Rightarrow> 'd os \<Rightarrow> 'd os" where
  "io_state m s os = set_mem m (os\<lparr>fs := s\<rparr>)"

lemma io_state_simps [simp]:
  "user_mem (io_state m s os) = m" "fs (io_state m s os) = s" "fatm (io_state m s os) = fatm os"
  "inodes (io_state m s os) = inodes os" "pipes (io_state m s os) = pipes os" "held (io_state m s os) = held os"
  "io_state m1 s1 (io_state m s os) = io_state m1 s1 os"
  by (simp_all add: io_state_def set_mem_def user_mem_def)

lemma io_state_same [simp]: "io_state (user_mem os) (fs os) os = os"
  by (simp add: io_state_def set_mem_def user_mem_def)

lemma open_on_io_state:
  assumes "open_on I hs v cs os" and "fs_ok I hs s" and "disk_view s = disk_view (fs os)"
  shows "open_on I hs v cs (io_state m s os)" and "vfile_bytes v cs (io_state m s os) = vfile_bytes v cs os"
  using assms by (simp_all add: open_on_def vfile_bytes_def vfile_entry_def)

lemma VFile_read_at_spec:
  assumes o: "open_on I hs v cs os" and fuel: "length buf \<le> 512 * (fuel - 1)" "0 < fuel"
  shows "\<exists>s'. VFile_read_at fuel v off buf (fatm os) (fs os) =
      Inr ((min (length buf) (length (vfile_bytes v cs os) - off), overwrite 0 (slice off (length buf) (vfile_bytes v cs os)) buf), s') \<and>
      fs_ok I hs s' \<and> disk_view s' = disk_view (fs os)"
  unfolding VFile_read_at_def
proof (rule read_short_dirent_spec)
  fix hs' s1 assume s1: "fs_ok I hs' s1" "disk_view s1 = disk_view (fs os)"
  have "file_on I (fatm os) (vfile_entry v os) cs (disk_view s1)" using o s1(2) by (simp add: open_on_def)
  from read_file_spec [OF this s1(1) fuel, of off] s1(2) length_vfile_bytes [OF o]
  show "\<exists>s2. bindR (read_at fuel (entry_at v (fatm os) (disk_view (fs os))) off buf (fatm os) s1) (\<lambda>(n, b, s1). Inr ((n, b), s1)) =
      Inr ((min (length buf) (length (vfile_bytes v cs os) - off), overwrite 0 (slice off (length buf) (vfile_bytes v cs os)) buf), s2) \<and>
      fs_ok I hs' s2 \<and> disk_view s2 = disk_view (fs os)"
    by (auto simp: vfile_bytes_def simp flip: vfile_entry_def)
qed (use o in \<open>simp_all add: open_on_def\<close>)

lemma put_at_own:
  assumes "distinct as" and "length xs \<le> length as"
  shows "put_at as (overwrite 0 xs (map m as)) m = put_at as xs m"
proof -
  let ?k = "length xs"
  let ?m = "put_at (take ?k as) xs m"
  have own: "put_at bs (map m bs) m' = m'" if "\<forall>b \<in> set bs. m' b = m b" for bs and m' :: pmem
    using that by (induction bs) (simp_all add: fun_upd_idem)
  have "set (take ?k as) \<inter> set (drop ?k as) = {}" using assms(1) by (rule set_take_disj_set_drop_if_distinct) simp
  then have "\<forall>b \<in> set (drop ?k as). ?m b = m b" using in_set_takeD by (fastforce intro!: put_at_other)
  then have "put_at (drop ?k as) (map m (drop ?k as)) ?m = ?m" by (rule own)
  moreover have "put_at as (overwrite 0 xs (map m as)) m = put_at (drop ?k as) (map m (drop ?k as)) ?m"
    using put_at_append [of "take ?k as" xs "drop ?k as" "map m (drop ?k as)" m] assms(2) by (simp add: overwrite_def drop_map)
  moreover have "put_at as xs m = ?m"
    using put_at_short [of xs "take ?k as" "drop ?k as" m] assms(2) by simp
  ultimately show ?thesis by simp
qed

lemma read_slice_spec:
  assumes o: "open_on I hs v cs os" and fuel: "byte_slice_len b \<le> 512 * (fuel - 1)" "0 < fuel"
  shows "\<exists>s. read_slice fuel v off b os =
      Inr (min (byte_slice_len b) (length (vfile_bytes v cs os) - off),
        io_state (put_at (slice_addrs b) (slice off (byte_slice_len b) (vfile_bytes v cs os)) (user_mem os)) s os) \<and>
      fs_ok I hs s \<and> disk_view s = disk_view (fs os)"
proof -
  let ?buf = "slice_bytes (user_mem os) b" and ?F = "vfile_bytes v cs os"
  have len: "length ?buf = byte_slice_len b" by (simp add: read_slice_bytes length_slice_addrs)
  obtain s where s: "VFile_read_at fuel v off ?buf (fatm os) (fs os) =
      Inr ((min (byte_slice_len b) (length ?F - off), overwrite 0 (slice off (byte_slice_len b) ?F) ?buf), s)"
    "fs_ok I hs s" "disk_view s = disk_view (fs os)"
    using VFile_read_at_spec [OF o, of ?buf fuel off] fuel len by auto
  have sl: "length (slice off (byte_slice_len b) ?F) \<le> byte_slice_len b" by simp
  have "write_bytes (user_mem os) (slice_start b) (overwrite 0 (slice off (byte_slice_len b) ?F) ?buf) =
      put_at (slice_addrs b) (overwrite 0 (slice off (byte_slice_len b) ?F) ?buf) (user_mem os)"
    using len sl by (intro write_slice_put_at) simp
  also have "\<dots> = put_at (slice_addrs b) (slice off (byte_slice_len b) ?F) (user_mem os)"
    unfolding read_slice_bytes using sl by (intro put_at_own) (auto simp: length_slice_addrs slice_addrs_def byte_slice_len_def split: prod.split)
  finally show ?thesis using s by (auto simp: read_slice_def fs_get_def io_state_def user_mem_def)
qed

lemma inode_read_slices_spec:
  assumes "open_on I hs (oi_inode i) cs os" and "\<forall>b \<in> set bs. 0 < byte_slice_len b \<and> byte_slice_len b \<le> 512 * (fuel - 1)" and "0 < fuel"
  shows "\<exists>s. let F = vfile_bytes (oi_inode i) cs os; as = concat (map slice_addrs bs); k = min (length as) (length F - oi_offset i) in
    inode_read_slices fuel bs i tot os = Inr (tot + k, i\<lparr>oi_offset := oi_offset i + k\<rparr>,
      io_state (put_at as (slice (oi_offset i) (length as) F) (user_mem os)) s os) \<and>
    fs_ok I hs s \<and> disk_view s = disk_view (fs os)"
  using assms
proof (induction bs arbitrary: i tot os)
  case Nil
  then show ?case by (auto simp: open_on_def Let_def intro!: exI [of _ "fs os"])
next
  case (Cons b bs)
  let ?F = "vfile_bytes (oi_inode i) cs os" and ?off = "oi_offset i" and ?n = "byte_slice_len b" and ?as = "concat (map slice_addrs bs)"
  let ?m = "put_at (slice_addrs b) (slice ?off ?n ?F) (user_mem os)" and ?k = "min (byte_slice_len b) (length ?F - ?off)"
  obtain s1 where s1: "read_slice fuel (oi_inode i) ?off b os = Inr (?k, io_state ?m s1 os)" "fs_ok I hs s1" "disk_view s1 = disk_view (fs os)"
    using read_slice_spec [OF Cons.prems(1), of b fuel ?off] Cons.prems(2,3) by auto
  have sp: "slice ?off (?n + length ?as) ?F = slice ?off ?n ?F @ slice (?off + ?n) (length ?as) ?F" by (rule slice_append)
  show ?case
  proof (cases "?off < length ?F")
    case False
    then have "?k = 0" "length ?F - ?off = 0" "slice ?off l ?F = []" for l by (simp_all add: slice_def)
    then show ?thesis using s1 by (auto simp: Let_def length_slice_addrs)
  next
    case True
    define i' where "i' = i\<lparr>oi_offset := ?off + ?k\<rparr>"
    define os' where "os' = io_state ?m s1 os"
    have o': "open_on I hs (oi_inode i') cs os'" "vfile_bytes (oi_inode i') cs os' = ?F"
      using open_on_io_state [OF Cons.prems(1) s1(2,3)] by (simp_all add: i'_def os'_def)
    have kp: "?k \<noteq> 0" using True Cons.prems(2) by auto
    have step: "inode_read_slices fuel (b # bs) i tot os = inode_read_slices fuel bs i' (tot + ?k) os'"
      by (simp only: inode_read_slices.simps s1(1) bindR_simps prod.case if_not_P [OF kp] i'_def os'_def)
    from Cons.IH [OF o'(1), of "tot + ?k"] Cons.prems(2,3) o'(2) obtain s where
      s: "inode_read_slices fuel bs i' (tot + ?k) os' =
          Inr (tot + ?k + min (length ?as) (length ?F - oi_offset i'),
            i'\<lparr>oi_offset := oi_offset i' + min (length ?as) (length ?F - oi_offset i')\<rparr>,
            io_state (put_at ?as (slice (oi_offset i') (length ?as) ?F) (user_mem os')) s os')"
        "fs_ok I hs s" "disk_view s = disk_view (fs os')"
      by (auto simp: Let_def)
    have k: "?k + min (length ?as) (length ?F - (?off + ?k)) = min (?n + length ?as) (length ?F - ?off)" by auto
    have "put_at ?as (slice (?off + ?k) (length ?as) ?F) ?m = put_at (slice_addrs b @ ?as) (slice ?off (?n + length ?as) ?F) (user_mem os)"
    proof (cases "?n \<le> length ?F - ?off")
      case True
      then show ?thesis unfolding sp by (subst put_at_append) (simp_all add: length_slice_addrs)
    next
      case False
      then have "slice (?off + ?k) (length ?as) ?F = []" "slice (?off + ?n) (length ?as) ?F = []" by (simp_all add: slice_def)
      then show ?thesis unfolding sp by (simp add: put_at_short length_slice_addrs)
    qed
    then show ?thesis
      using s k s1(3)
      by (intro exI [of _ s]) (simp add: step Let_def i'_def os'_def length_slice_addrs add.assoc del: inode_read_slices.simps)
  qed
qed

text \<open>
  (C4) \<open>sys_read\<close> of a regular file. The call returns as many bytes as the buffer and the rest of the file have,
  0 at the end of the file; the process then reads exactly those bytes of the file, from the offset of the
  descriptor on, at the start of its buffer, whatever pages the buffer spans. The offset moves by that number;
  the disk, the rest of memory, the other open files and the tasks are as before.
\<close>

theorem sys_read_delivers_file:
  assumes cur: "current_inner (kern os) = Inr (p, t)" and fd: "fd_map t (unat fd) = Some (Inode n)"
    and i: "n < length (inodes os)" "inodes os ! n = i" "oi_readable i"
    and o: "open_on I hs (oi_inode i) cs os"
    and b: "user_buffer (kmm (kern os)) t (unat buf) (unat len)" and fuel: "unat len \<le> 512 * (fuel - 3)" "3 < fuel"
  shows "\<exists>os' k. k = min (unat len) (length (vfile_bytes (oi_inode i) cs os) - oi_offset i) \<and>
    sys_read fuel now c fd buf len os = Inr (Done (word_of_nat k), os') \<and>
    delivered t (unat buf) (slice (oi_offset i) k (vfile_bytes (oi_inode i) cs os)) os os' \<and>
    inodes os' = (inodes os)[n := i\<lparr>oi_offset := oi_offset i + k\<rparr>] \<and>
    fs_ok I hs (fs os') \<and> disk_view (fs os') = disk_view (fs os) \<and>
    tasks (kern os') = tasks (kern os) \<and> pipes os' = pipes os \<and> held os' = held os"
proof -
  let ?F = "vfile_bytes (oi_inode i) cs os" and ?off = "oi_offset i"
  define k where "k = min (unat len) (length ?F - ?off)"
  define os0 where "os0 = os\<lparr>held := Inode n # held os\<rparr>"
  have "unat len div 4096 + 2 < fuel" using fuel by linarith
  then obtain bs where bs: "translated_byte_buffer fuel (user_mem os) (get_user_token t) buf len = Inr bs"
    "concat (map slice_addrs bs) = map (phys_of (user_mem os) (user_pt t)) [unat buf..<unat buf + unat len]"
    "\<forall>b \<in> set bs. 0 < byte_slice_len b"
    by (rule user_slices [OF b])
  have all: "length (concat (map slice_addrs bs)) = unat len" unfolding bs(2) by simp
  have "byte_slice_len b \<le> unat len" if "b \<in> set bs" for b
    using all member_le_sum_list [of "byte_slice_len b" "map byte_slice_len bs"] that
    by (simp add: length_concat comp_def length_slice_addrs)
  then have sm: "\<forall>b \<in> set bs. 0 < byte_slice_len b \<and> byte_slice_len b \<le> 512 * (fuel - 1)" using bs(3) fuel by fastforce
  have o0: "open_on I hs (oi_inode i) cs os0" "vfile_bytes (oi_inode i) cs os0 = ?F" "user_mem os0 = user_mem os" "fs os0 = fs os"
    using o by (simp_all add: os0_def open_on_def vfile_bytes_def vfile_entry_def user_mem_def)
  let ?m = "put_at (concat (map slice_addrs bs)) (slice ?off (unat len) ?F) (user_mem os)"
  obtain s where s: "inode_read_slices fuel bs i 0 os0 = Inr (k, i\<lparr>oi_offset := ?off + k\<rparr>, io_state ?m s os0)"
    "fs_ok I hs s" "disk_view s = disk_view (fs os)"
    using inode_read_slices_spec [OF o0(1) sm, of 0, unfolded Let_def all o0(2-4) add_0] fuel unfolding k_def by fastforce
  define os' where "os' = put_inode n (i\<lparr>oi_offset := ?off + k\<rparr>) (io_state ?m s os)"
  have "sys_read fuel now c fd buf len os = Inr (Done (word_of_nat k), os')"
    using cur current_token [OF cur] fd_map_SomeD [OF fd] bs(1) i s(1)
    by (simp add: sys_read_def file_readable_def indexR_def file_read_def OSInode_read_def UserBuffer_new_def return_count_def
        drop_held_def os0_def os'_def put_inode_def io_state_def set_mem_def)
  moreover have "delivered t (unat buf) (slice ?off k ?F) os os'"
  proof -
    have "slice ?off k ?F = slice ?off (unat len) ?F" unfolding k_def by (rule slice_min)
    moreover have "user_mem os' = ?m" by (simp add: os'_def put_inode_def user_mem_def io_state_def set_mem_def)
    ultimately show ?thesis using bs(2) by (intro delivered_put_at [OF b]) (simp_all add: k_def)
  qed
  ultimately show ?thesis
    using s(2,3) by (intro exI [of _ os'] exI [of _ k]) (simp add: k_def os'_def put_inode_def io_state_def set_mem_def)
qed

section \<open>Witnesses\<close>

theorem sys_getcwd_delivers_witness:
  "\<exists>ms s m. example_space = Inr (ms, s) \<and>
     sys_getcwd 5 0x80300000 8200 10 (page_os ms s std_fds [] example_manager example_disk) =
       Inr (0x80300000, set_mem m (page_os ms s std_fds [] example_manager example_disk)) \<and>
     user_bytes m (page_task ms std_fds) 8200 1 = [47] \<and>
     sys_getcwd 5 0x80300000 8200 0 (page_os ms s std_fds [] example_manager example_disk) =
       Inr (- 1, page_os ms s std_fds [] example_manager example_disk)"
proof -
  obtain ms s where ms: "example_space = Inr (ms, s)"
    "\<And>fds lo n. 8192 \<le> lo \<Longrightarrow> lo + n \<le> 12288 \<Longrightarrow> user_buffer s (page_task ms fds) lo n" using page_buffer by metis
  let ?os = "page_os ms s std_fds [] example_manager example_disk"
  obtain m where "sys_getcwd 5 0x80300000 8200 10 ?os = Inr (0x80300000, set_mem m ?os)"
    "delivered (page_task ms std_fds) 8200 [47] ?os (set_mem m ?os)"
    using sys_getcwd_delivers [of ?os 1 "page_task ms std_fds" 8200 10 5 "0x80300000"] ms(2) [of 8200 10] by auto
  moreover have "sys_getcwd 5 0x80300000 8200 0 ?os = Inr (- 1, ?os)"
    using sys_getcwd_delivers [of ?os 1 "page_task ms std_fds" 8200 0 5 "0x80300000"] ms(2) [of 8200 0] by auto
  ultimately show ?thesis using ms(1) by (auto simp: delivered_def)
qed

text \<open>The example file with its directory entry in sector 8.\<close>

definition example_file_disk :: "nat \<Rightarrow> u8 list" where
  "example_file_disk b = (if b = 8 then ShortDirEntry_as_bytes example_file else example_disk b)"

definition example_open :: OSInode where
  "example_open = \<lparr>oi_readable = True, oi_writable = False, oi_offset = 990,
     oi_inode = \<lparr>vname = [65], short_sector = 8, short_offset = 0, long_pos_vec = [], vattribute = 0x20\<rparr>\<rparr>"

lemma example_open_entry:
  "vfile_entry (oi_inode example_open) (page_os ms s fds [example_open] example_manager example_file_disk) = example_file"
proof -
  have ok: "entry_ok example_file" by (simp add: example_file_def entry_ok_def ShortDirEntry_empty_def)
  have "disk_view (example_fs example_file_disk) 8 = ShortDirEntry_as_bytes example_file @ replicate 480 0"
    using length_as_bytes [OF ok] by (simp add: example_fs_view example_file_disk_def)
  then show ?thesis
    using length_as_bytes [OF ok] entry_of_as_bytes [OF ok]
    by (simp add: vfile_entry_def entry_at_def example_open_def slice_def)
qed

lemma example_open_on:
  "open_on {0, 1, 2, 3, 8} [] (oi_inode example_open) [2, 5, 4] (page_os ms s fds [example_open] example_manager example_file_disk)"
proof -
  let ?V = "disk_view (example_fs example_file_disk)"
  have V: "?V b = disk_view (example_fs example_disk) b" if "b \<noteq> 8" for b
    using that by (simp add: example_fs_view example_file_disk_def)
  have f: "file_on {0, 1, 2, 3} example_manager example_file [2, 5, 4] (disk_view (example_fs example_disk))" by (rule example_file_on)
  have "fat_geom {0, 1, 2, 3, 8} example_fat" using example_geom(1) by (auto simp: fat_geom_def)
  moreover have "chain example_fat ?V [2, 5, 4]"
    by (rule chain_cong [OF _ example_chain]) (auto intro!: V simp: fat_sectors_def example_fat_def FAT_new_def)
  moreover have "8 \<notin> set (sectors example_manager [2, 5, 4])"
    by (simp add: sectors_def first_sector_of_cluster_def example_manager_def)
  ultimately have "file_on {0, 1, 2, 3, 8} example_manager example_file [2, 5, 4] ?V"
    using f by (auto simp: file_on_def example_manager_fat)
  then show ?thesis
    using example_open_entry [of ms s fds] example_fs_ok [of "{0, 1, 2, 3, 8}" example_file_disk]
    by (simp add: open_on_def entry_placed_def) (simp add: example_open_def)
qed

theorem sys_read_delivers_file_witness:
  "\<exists>ms s os'. example_space = Inr (ms, s) \<and>
     sys_read 5 7 0 0 8200 20 (page_os ms s [Some (Inode 0)] [example_open] example_manager example_file_disk) = Inr (Done 10, os') \<and>
     inodes os' = [example_open\<lparr>oi_offset := 1000\<rparr>]"
proof -
  obtain ms s where ms: "example_space = Inr (ms, s)"
    "\<And>fds lo n. 8192 \<le> lo \<Longrightarrow> lo + n \<le> 12288 \<Longrightarrow> user_buffer s (page_task ms fds) lo n" using page_buffer by metis
  let ?os = "page_os ms s [Some (Inode 0)] [example_open] example_manager example_file_disk" and ?t = "page_task ms [Some (Inode 0)]"
  have len: "length (vfile_bytes (oi_inode example_open) [2, 5, 4] ?os) = 1000"
    using length_vfile_bytes [OF example_open_on] by (simp add: example_open_entry) (simp add: example_file_def)
  have off: "oi_offset example_open = 990" "oi_readable example_open" by (simp_all add: example_open_def)
  have "fd_map ?t (unat (0 :: usize)) = Some (Inode 0)" by (simp add: fd_map_def)
  then obtain os' where "sys_read 5 7 0 0 8200 20 ?os = Inr (Done 10, os')" "inodes os' = [example_open\<lparr>oi_offset := 1000\<rparr>]"
    using sys_read_delivers_file [of ?os 1 ?t 0 0 example_open "{0, 1, 2, 3, 8}" "[]" "[2, 5, 4]" 8200 20 5 7 0]
      ms(2) [of 8200 20] example_open_on [of ms s "[Some (Inode 0)]"] len off by auto
  then show ?thesis using ms(1) by blast
qed

end
