(* ===== verification/Trap.thy ===== *)
theory Trap
  imports Syscall_Fs
begin

text \<open>
  The system-call dispatch (os/src/syscall/mod.rs) and the trap handler (os/src/trap/mod.rs). A trap ends in a
  return to user mode, in a switch to the idle loop with what the task resumes with, in the end of the task, or
  in power-off. When a blocked task runs again, \<open>trap_resume\<close> goes on with the call.
\<close>

section \<open>System calls\<close>

text \<open>The numbers of the calls that \<open>syscall\<close> knows.\<close>

datatype syscall_id =
    SYSCALL_GETCWD | SYSCALL_DUP | SYSCALL_DUP3 | SYSCALL_MKDIRT | SYSCALL_UNLINKAT | SYSCALL_UMOUNNT2
  | SYSCALL_MOUNT | SYSCALL_CHDIR | SYSCALL_OPEN | SYSCALL_CLOSE | SYSCALL_PIPE2 | SYSCALL_GETDENTS64
  | SYSCALL_READ | SYSCALL_WRITE | SYSCALL_FSTAT | SYSCALL_EXIT | SYSCALL_NANOSLEEP | SYSCALL_YIELD
  | SYSCALL_SET_PRIORITY | SYSCALL_TIMES | SYSCALL_UNAME | SYSCALL_GET_TIME | SYSCALL_GETPID | SYSCALL_GETPPID
  | SYSCALL_SHUTDOWN | SYSCALL_BRK | SYSCALL_MUNMAP | SYSCALL_FORK | SYSCALL_EXEC | SYSCALL_MMAP
  | SYSCALL_WAITPID | SYSCALL_SPAWN

definition syscall_ids :: "(usize \<times> syscall_id) list" where
  "syscall_ids =
     [(17, SYSCALL_GETCWD), (23, SYSCALL_DUP), (24, SYSCALL_DUP3), (34, SYSCALL_MKDIRT),
      (35, SYSCALL_UNLINKAT), (39, SYSCALL_UMOUNNT2), (40, SYSCALL_MOUNT), (49, SYSCALL_CHDIR),
      (56, SYSCALL_OPEN), (57, SYSCALL_CLOSE), (59, SYSCALL_PIPE2), (61, SYSCALL_GETDENTS64),
      (63, SYSCALL_READ), (64, SYSCALL_WRITE), (80, SYSCALL_FSTAT), (93, SYSCALL_EXIT),
      (101, SYSCALL_NANOSLEEP), (124, SYSCALL_YIELD), (140, SYSCALL_SET_PRIORITY), (153, SYSCALL_TIMES),
      (160, SYSCALL_UNAME), (169, SYSCALL_GET_TIME), (172, SYSCALL_GETPID), (173, SYSCALL_GETPPID),
      (210, SYSCALL_SHUTDOWN), (214, SYSCALL_BRK), (215, SYSCALL_MUNMAP), (220, SYSCALL_FORK),
      (221, SYSCALL_EXEC), (222, SYSCALL_MMAP), (260, SYSCALL_WAITPID), (400, SYSCALL_SPAWN)]"

text \<open>
  What a call reads of its surroundings: the platform and the reader of ELF records, the time register at the
  start of the call and later in it, the next console character, the address of a heap clone, the address of the
  vector with the bytes of a program, the heap behind a vector, and the addresses of the assembly labels.
\<close>

record environment =
  e_fuel :: nat
  e_zread :: zread
  e_platform :: platform
  e_ms :: usize
  e_now :: usize
  e_char :: usize
  e_heap_ptr :: usize
  e_elf_ptr :: nat
  e_beyond :: "nat \<Rightarrow> u8"
  e_alltraps :: usize
  e_restore :: usize

text \<open>Answers of the calls on the kernel alone, as answers on the system.\<close>

definition done_os :: "(usize \<times> 'd os) res \<Rightarrow> (result \<times> 'd os) res" where
  "done_os r = bindR r (\<lambda>(w, os). Inr (Done w, os))"

definition done_kern :: "'d os \<Rightarrow> (usize \<times> kernel) res \<Rightarrow> (result \<times> 'd os) res" where
  "done_kern os r = bindR r (\<lambda>(w, k). Inr (Done w, os\<lparr>kern := k\<rparr>))"

definition pass_kern :: "wait \<Rightarrow> 'd os \<Rightarrow> (usize option \<times> kernel) res \<Rightarrow> (result \<times> 'd os) res" where
  "pass_kern w os r =
     bindR r (\<lambda>(x, k). Inr (case x of Some v \<Rightarrow> Done v | None \<Rightarrow> Blocked w, os\<lparr>kern := k\<rparr>))"

definition syscall_body :: "environment \<Rightarrow> usize \<Rightarrow> usize list \<Rightarrow> 'd os \<Rightarrow> (result \<times> 'd os) res" where
  "syscall_body E nr args os =
     (let fuel = e_fuel E; now = e_now E; zr = e_zread E; at = e_elf_ptr E; P = e_platform E; k = kern os;
          a0 = args ! 0; a1 = args ! 1; a2 = args ! 2; a3 = args ! 3; a4 = args ! 4
      in
      case map_of syscall_ids nr of
        None \<Rightarrow> Inl (ExplicitPanic ''Unsupported syscall_id'')
      | Some call \<Rightarrow> (case call of
          SYSCALL_OPEN \<Rightarrow> done_os (sys_openat fuel a0 a1 (ucast a2) os)
        | SYSCALL_CLOSE \<Rightarrow> done_os (sys_close a0 os)
        | SYSCALL_DUP \<Rightarrow> done_os (sys_dup a0 os)
        | SYSCALL_DUP3 \<Rightarrow> done_os (sys_dup3 a0 a1 os)
        | SYSCALL_READ \<Rightarrow> sys_read fuel now (e_char E) a0 a1 a2 os
        | SYSCALL_WRITE \<Rightarrow> sys_write fuel now a0 a1 a2 os
        | SYSCALL_EXIT \<Rightarrow> bindR (sys_exit now (ucast a0) k) (\<lambda>k'. Inr (Exited, os\<lparr>kern := k'\<rparr>))
        | SYSCALL_YIELD \<Rightarrow> bindR (sys_yield now k) (\<lambda>(_, k'). Inr (Blocked WaitYield, os\<lparr>kern := k'\<rparr>))
        | SYSCALL_GETPID \<Rightarrow> done_kern os (bindR (sys_getpid k) (\<lambda>w. Inr (w, k)))
        | SYSCALL_FORK \<Rightarrow> done_kern os (sys_fork P now a1 k)
        | SYSCALL_EXEC \<Rightarrow> done_os (sys_exec fuel zr at P a0 os)
        | SYSCALL_WAITPID \<Rightarrow> pass_kern (WaitChild a0 a1) os (sys_waitpid_pass now a0 a1 k)
        | SYSCALL_GET_TIME \<Rightarrow> done_kern os (sys_get_time fuel now a0 k)
        | SYSCALL_MMAP \<Rightarrow> done_os (sys_mmap fuel a0 a1 a2 (ucast a4) os)
        | SYSCALL_MUNMAP \<Rightarrow> done_kern os (sys_munmap a0 a1 k)
        | SYSCALL_BRK \<Rightarrow> done_kern os (sys_brk a0 k)
        | SYSCALL_SPAWN \<Rightarrow> done_os (sys_spawn fuel zr at P now a0 os)
        | SYSCALL_SET_PRIORITY \<Rightarrow> done_kern os (sys_set_priority a0 k)
        | SYSCALL_GETCWD \<Rightarrow> done_os (sys_getcwd fuel (e_heap_ptr E) a0 (ucast a1) os)
        | SYSCALL_MKDIRT \<Rightarrow> done_os (sys_mkdirat fuel a0 a1 ATTRIBUTE_DIRECTORY os)
        | SYSCALL_CHDIR \<Rightarrow> done_os (sys_chdir fuel a0 os)
        | SYSCALL_PIPE2 \<Rightarrow> done_os (sys_pipe2 a0 os)
        | SYSCALL_GETPPID \<Rightarrow> done_kern os (bindR (sys_getppid k) (\<lambda>w. Inr (w, k)))
        | SYSCALL_NANOSLEEP \<Rightarrow> bindR (nanosleep_target a0 k) (\<lambda>t.
            let us = get_time_us (e_ms E) in pass_kern (WaitTime us t) os (nanosleep_pass us t now k))
        | SYSCALL_TIMES \<Rightarrow> done_kern os (sys_times now a0 (e_ms E) k)
        | SYSCALL_FSTAT \<Rightarrow> done_os (sys_fstat fuel a0 a1 os)
        | SYSCALL_UNLINKAT \<Rightarrow> done_os (sys_unlink fuel (ucast a0) a1 os)
        | SYSCALL_UNAME \<Rightarrow> done_os (sys_uname fuel a0 os)
        | SYSCALL_GETDENTS64 \<Rightarrow> done_os (sys_getdents64 fuel (e_beyond E) a0 a1 a2 os)
        | SYSCALL_SHUTDOWN \<Rightarrow> Inr (PoweredOff, os)
        | SYSCALL_MOUNT \<Rightarrow> done_os (sys_mount fuel a0 a1 a2 a4 os)
        | SYSCALL_UMOUNNT2 \<Rightarrow> done_os (sys_umount2 fuel a0 os)))"

text \<open>The end of \<open>syscall\<close>, reached when the call returns.\<close>

definition syscall_end :: "environment \<Rightarrow> result \<times> 'd os \<Rightarrow> (result \<times> 'd os) res" where
  "syscall_end E r = (case r of
       (Done w, os) \<Rightarrow> bindR (update_time (e_now E - e_ms E) (kern os)) (\<lambda>k. Inr (Done w, os\<lparr>kern := k\<rparr>))
     | (x, os) \<Rightarrow> Inr (x, os))"

definition syscall :: "environment \<Rightarrow> usize \<Rightarrow> usize list \<Rightarrow> 'd os \<Rightarrow> (result \<times> 'd os) res" where
  "syscall E nr args os = bindR (syscall_body E nr args os) (syscall_end E)"

text \<open>A blocked call goes on with the next pass of its loop.\<close>

definition syscall_resume :: "environment \<Rightarrow> wait \<Rightarrow> 'd os \<Rightarrow> (result \<times> 'd os) res" where
  "syscall_resume E w os =
     bindR (case w of
         WaitPipeRead n it cnt \<Rightarrow> bindR (pipe_read (e_fuel E) (e_now E) n it cnt os) (drop_held (PipeRead n))
       | WaitPipeWrite n it cnt \<Rightarrow> bindR (pipe_write (e_fuel E) (e_now E) n it cnt os) (drop_held (PipeWrite n))
       | WaitStdin buf \<Rightarrow> bindR (Stdin_read_pass (e_now E) (e_char E) buf os) (drop_held Stdin)
       | WaitChild q ptr \<Rightarrow> pass_kern w os (sys_waitpid_pass (e_now E) q ptr (kern os))
       | WaitTime us t \<Rightarrow> pass_kern w os (nanosleep_pass us t (e_now E) (kern os))
       | WaitYield \<Rightarrow> Inr (Done 0, os)) (syscall_end E)"

section \<open>Traps\<close>

datatype cause =
    UserEnvCall | StoreFault | StorePageFault | InstructionFault | InstructionPageFault | LoadFault | LoadPageFault
  | IllegalInstruction | SupervisorTimer | OtherCause

text \<open>
  A return to user mode jumps to an address with the trap context's address and the token in registers; a
  switch remembers the system call to go on with, if there is one.
\<close>

datatype trap_end = ToUser usize usize usize | Switched "wait option" | TaskEnded | MachineOff

definition trap_return :: "environment \<Rightarrow> 'd os \<Rightarrow> (trap_end \<times> 'd os) res" where
  "trap_return E os =
     bindR (current_user_token (kern os)) (\<lambda>satp.
     Inr (ToUser (e_restore E - e_alltraps E + TRAMPOLINE) TRAP_CONTEXT_BASE satp, os))"

definition trap_finish :: "environment \<Rightarrow> result \<times> 'd os \<Rightarrow> (trap_end \<times> 'd os) res" where
  "trap_finish E r = (case r of
       (Done w, os) \<Rightarrow>
         bindR (current_trap_cx (kern os)) (\<lambda>a.
         trap_return E (os\<lparr>kern := (kern os)\<lparr>kmm := set_cx_word a 10 w (kmm (kern os))\<rparr>\<rparr>))
     | (Blocked wt, os) \<Rightarrow> Inr (Switched (Some wt), os)
     | (Exited, os) \<Rightarrow> Inr (TaskEnded, os)
     | (PoweredOff, os) \<Rightarrow> Inr (MachineOff, os))"

definition env_call :: "environment \<Rightarrow> 'd os \<Rightarrow> (result \<times> 'd os) res" where
  "env_call E os =
     bindR (current_trap_cx (kern os)) (\<lambda>a.
     let s1 = set_cx_word a 33 (cx_word (user_mem os) a 33 + 4) (kmm (kern os)); m = mem s1
     in syscall E (cx_word m a 17) (map (cx_word m a) [10, 11, 12, 13, 14, 15]) (os\<lparr>kern := (kern os)\<lparr>kmm := s1\<rparr>\<rparr>))"

definition kill_current :: "environment \<Rightarrow> u32 \<Rightarrow> 'd os \<Rightarrow> (trap_end \<times> 'd os) res" where
  "kill_current E code os =
     bindR (exit_current_and_run_next (e_now E) code (kern os)) (\<lambda>k. Inr (TaskEnded, os\<lparr>kern := k\<rparr>))"

definition trap_handler :: "environment \<Rightarrow> cause \<Rightarrow> 'd os \<Rightarrow> (trap_end \<times> 'd os) res" where
  "trap_handler E cs os =
     (if cs = UserEnvCall then bindR (env_call E os) (trap_finish E)
      else if cs \<in> {StoreFault, StorePageFault, InstructionFault, InstructionPageFault, LoadFault, LoadPageFault} then
        bindR (current_trap_cx (kern os)) (\<lambda>_. kill_current E (- 2) os)
      else if cs = IllegalInstruction then kill_current E (- 3) os
      else if cs = SupervisorTimer then
        bindR (suspend_current_and_run_next (e_now E) (kern os)) (\<lambda>k.
        Inr (Switched None, os\<lparr>kern := k, next_timer := next_trigger (e_now E)\<rparr>))
      else Inl (ExplicitPanic ''Unsupported trap''))"

definition trap_resume :: "environment \<Rightarrow> wait option \<Rightarrow> 'd os \<Rightarrow> (trap_end \<times> 'd os) res" where
  "trap_resume E w os = (case w of
       None \<Rightarrow> trap_return E os
     | Some w \<Rightarrow> bindR (syscall_resume E w os) (trap_finish E))"

definition trap_from_kernel :: "'a res" where
  "trap_from_kernel = Inl (ExplicitPanic ''a trap from kernel'')"

end
