(* ===== verification/Trap_Trip.thy ===== *)
theory Trap_Trip
  imports Trap Descriptors
begin

text \<open>
  The assembly entry and exit of the kernel (os/src/trap/trap.S) on the registers of the processor and the trap
  context, and a system call as the process sees it: from the \<open>ecall\<close> through the kernel back to user mode. The
  trap context is addressed physically; \<open>a\<close> is the physical address that the mapped page has. The fences and
  the change of privilege by \<open>sret\<close> are the processor's.
\<close>

section \<open>Entry and exit\<close>

record hart =
  gpr :: "usize list"
  csr_sstatus :: usize
  csr_sepc :: usize
  csr_sscratch :: usize
  csr_satp :: usize
  hart_pc :: usize

definition store_word :: "nat \<Rightarrow> nat \<times> usize \<Rightarrow> pmem \<Rightarrow> pmem" where
  "store_word a iw m = write_bytes m (a + 8 * fst iw) (le64 (snd iw))"

definition saved_words :: "hart \<Rightarrow> (nat \<times> usize) list" where
  "saved_words h = map (\<lambda>i. (i, gpr h ! i)) (1 # 3 # [5..<32]) @ [(32, csr_sstatus h), (33, csr_sepc h), (2, gpr h ! 2)]"

definition alltraps :: "nat \<Rightarrow> hart \<Rightarrow> pmem \<Rightarrow> hart \<times> pmem" where
  "alltraps a h m =
     (let user_sp = gpr h ! 2;
          m1 = fold (store_word a) (saved_words h) m;
          t0 = cx_word m1 a 34; t1 = cx_word m1 a 36; sp = cx_word m1 a 35
      in (h\<lparr>gpr := (gpr h)[5 := t0, 6 := t1, 7 := user_sp, 2 := sp], csr_sscratch := user_sp, csr_satp := t0, hart_pc := t1\<rparr>, m1))"

definition restore :: "nat \<Rightarrow> hart \<Rightarrow> pmem \<Rightarrow> hart" where
  "restore a h m =
     \<lparr>gpr = map (\<lambda>i. if i = 0 then 0 else if i = 4 then gpr h ! 4 else cx_word m a i) [0..<32],
      csr_sstatus = cx_word m a 32, csr_sepc = cx_word m a 33, csr_sscratch = gpr h ! 10, csr_satp = gpr h ! 11,
      hart_pc = cx_word m a 33\<rparr>"

lemma cx_word_store_same [simp]: "cx_word (store_word a (i, w) m) a i = w"
  by (simp add: cx_word_def store_word_def)

lemma cx_word_store_other [simp]: "i \<noteq> j \<Longrightarrow> cx_word (store_word a (i, w) m) a j = cx_word m a j"
  unfolding cx_word_def store_word_def by (subst read_write_bytes_other) auto

lemma cx_word_stores:
  "distinct (map fst ws) \<Longrightarrow> cx_word (fold (store_word a) ws m) a j = (case map_of ws j of Some w \<Rightarrow> w | None \<Rightarrow> cx_word m a j)"
proof (induction ws arbitrary: m)
  case (Cons iw ws)
  obtain i w where iw: "iw = (i, w)" by (cases iw)
  have "map_of ws i = None" using Cons.prems iw by (auto simp: map_of_eq_None_iff)
  with Cons iw show ?case by (cases "j = i") (auto split: option.split)
qed simp

lemma saved_words_distinct: "distinct (map fst (saved_words h))"
  by (simp add: saved_words_def comp_def)

lemma map_of_saved:
  assumes "i < 37"
  shows "map_of (saved_words h) i =
    (if i = 0 \<or> i = 4 \<or> 34 \<le> i then None else if i = 32 then Some (csr_sstatus h) else if i = 33 then Some (csr_sepc h)
     else Some (gpr h ! i))"
proof -
  have "map_of (saved_words h) = map_of [(32, csr_sstatus h), (33, csr_sepc h), (2, gpr h ! 2)] ++
      ((Some \<circ> (\<lambda>i. gpr h ! i)) |` (insert 1 (insert 3 {5..<32})))"
    by (simp only: saved_words_def map_of_append map_of_map_restrict list.set set_upt)
  then show ?thesis using assms by (cases "i = 2") (auto simp: map_add_def restrict_map_def)
qed

section \<open>A system call\<close>

text \<open>The state in which the handler calls \<open>syscall\<close>: registers saved, the return address moved on.\<close>

definition entered :: "nat \<Rightarrow> hart \<Rightarrow> 'd os \<Rightarrow> 'd os" where
  "entered a h os = set_mem (store_word a (33, csr_sepc h + 4) (snd (alltraps a h (user_mem os)))) os"

lemma alltraps_words:
  "i < 37 \<Longrightarrow> cx_word (snd (alltraps a h m)) a i =
     (if i = 0 \<or> i = 4 \<or> 34 \<le> i then cx_word m a i else if i = 32 then csr_sstatus h else if i = 33 then csr_sepc h else gpr h ! i)"
  by (simp add: alltraps_def Let_def cx_word_stores [OF saved_words_distinct] map_of_saved)

lemma set_mem_twice [simp]: "set_mem m (set_mem m' os) = set_mem m os"
  by (simp add: set_mem_def)

lemma user_mem_set [simp]: "user_mem (set_mem m os) = m"
  by (simp add: user_mem_def set_mem_def)

lemma current_trap_cx_set_mem [simp]: "current_trap_cx (kern (set_mem m os)) = current_trap_cx (kern os)"
  by (simp add: current_trap_cx_def current_task_def set_mem_def get_task_def)

lemma set_cx_word_os: "os\<lparr>kern := (kern os)\<lparr>kmm := set_cx_word a i w (kmm (kern os))\<rparr>\<rparr> = set_mem (store_word a (i, w) (user_mem os)) os"
  by (simp add: set_cx_word_def set_mem_def store_word_def user_mem_def)

lemma env_call_entered:
  assumes "current_trap_cx (kern os) = Inr a"
  shows "env_call E (set_mem (snd (alltraps a h (user_mem os))) os) =
    syscall E (gpr h ! 17) (map (\<lambda>i. gpr h ! i) [10, 11, 12, 13, 14, 15]) (entered a h os)"
proof -
  have "mem (kmm (kern (set_mem m os))) = m" for m by (simp add: set_mem_def)
  with assms show ?thesis by (simp add: env_call_def Let_def set_cx_word_os alltraps_words entered_def)
qed

text \<open>
  (C3) A system call as the process sees it. The entry code saves the registers of the process and loads what
  the kernel put into the trap context; the handler passes the call number and the six arguments from the
  registers of the process to \<open>syscall\<close>. If that returns a result and leaves the trap context alone, the process
  resumes after the \<open>ecall\<close> in its own address space with every register as before except for the result
  (register 4, which programs do not use, is not saved).
\<close>

theorem system_call_round_trip:
  assumes cx: "current_trap_cx (kern os) = Inr a"
    and call: "syscall E (gpr h ! 17) (map (\<lambda>i. gpr h ! i) [10, 11, 12, 13, 14, 15]) (entered a h os) = Inr (Done w, os2)"
    and kept: "current_trap_cx (kern os2) = Inr a" "\<forall>i < 37. cx_word (user_mem os2) a i = cx_word (user_mem (entered a h os)) a i"
      "current_user_token (kern os2) = Inr tok"
    and entry: "alltraps a h (user_mem os) = (hk, m)" "length (gpr h) = 32"
  shows "csr_satp hk = cx_word (user_mem os) a 34 \<and> gpr hk ! 2 = cx_word (user_mem os) a 35 \<and>
    hart_pc hk = cx_word (user_mem os) a 36 \<and>
    (\<exists>os' va. trap_handler E UserEnvCall (set_mem m os) = Inr (ToUser va TRAP_CONTEXT_BASE tok, os') \<and>
      (\<forall>hk'. gpr hk' ! 10 = TRAP_CONTEXT_BASE \<and> gpr hk' ! 11 = tok \<longrightarrow>
        (let h' = restore a hk' (user_mem os') in
         (\<forall>i < 32. i \<noteq> 0 \<and> i \<noteq> 4 \<longrightarrow> gpr h' ! i = (if i = 10 then w else gpr h ! i)) \<and>
         hart_pc h' = csr_sepc h + 4 \<and> csr_sstatus h' = csr_sstatus h \<and> csr_satp h' = tok \<and> csr_sscratch h' = TRAP_CONTEXT_BASE)))"
proof -
  have m: "m = snd (alltraps a h (user_mem os))" using entry(1) by simp
  let ?os' = "set_mem (store_word a (10, w) (user_mem os2)) os2"
  have w: "cx_word (user_mem os2) a i = (if i = 33 then csr_sepc h + 4 else cx_word m a i)" if "i < 37" for i
    using kept(2) that by (simp add: entered_def m)
  have "current_user_token (kern ?os') = Inr tok"
    using kept(3) by (simp add: current_user_token_def current_task_def set_mem_def get_task_def)
  then have "trap_handler E UserEnvCall (set_mem m os) = Inr (ToUser (e_restore E - e_alltraps E + TRAMPOLINE) TRAP_CONTEXT_BASE tok, ?os')"
    using env_call_entered [OF cx, of E h] call kept(1) m
    by (simp add: trap_handler_def trap_finish_def trap_return_def set_cx_word_os)
  moreover have "csr_satp hk = cx_word (user_mem os) a 34" "gpr hk ! 2 = cx_word (user_mem os) a 35" "hart_pc hk = cx_word (user_mem os) a 36"
    using entry alltraps_words [of 34 a h "user_mem os"] alltraps_words [of 35 a h "user_mem os"] alltraps_words [of 36 a h "user_mem os"]
    by (auto simp: alltraps_def Let_def)
  ultimately show ?thesis
    by (auto simp: restore_def Let_def w m alltraps_words simp del: upt_rec_numeral
        intro!: exI [of _ ?os'])
qed

text \<open>A process in register state \<open>example_hart\<close> asks for its PID.\<close>

definition example_hart :: hart where
  "example_hart = \<lparr>gpr = (replicate 32 7)[17 := 172], csr_sstatus = 0, csr_sepc = 0x1000,
     csr_sscratch = TRAP_CONTEXT_BASE, csr_satp = 0, hart_pc = 0x1000\<rparr>"

definition asking_os :: "(nat \<Rightarrow> u8 list) os" where
  "asking_os = example_os\<lparr>kern := example_family\<lparr>tasks := [(1, (example_task 1 16)\<lparr>trap_cx_ppn := PhysPageNum 1\<rparr>)]\<rparr>\<rparr>"

lemma asking_current:
  "current_task (kern (set_mem m asking_os)) = Inr 1"
  "get_task 1 (kern (set_mem m asking_os)) = Inr ((example_task 1 16)\<lparr>trap_cx_ppn := PhysPageNum 1\<rparr>)"
  by (simp_all add: current_task_def get_task_def asking_os_def example_family_def set_mem_def)

lemma asking_trap_cx: "current_trap_cx (kern asking_os) = Inr 4096"
proof -
  have "get_trap_cx ((example_task 1 16)\<lparr>trap_cx_ppn := PhysPageNum 1\<rparr>) = Inr 4096"
    by (simp add: get_trap_cx_def get_mut_def pa_of_ppn_def config_defs)
  then show ?thesis using asking_current [of "user_mem asking_os"] by (simp add: current_trap_cx_def set_mem_def user_mem_def)
qed

theorem system_call_round_trip_witness:
  "\<forall>E. \<exists>os' va tok. trap_handler E UserEnvCall (set_mem (snd (alltraps 4096 example_hart (user_mem asking_os))) asking_os) =
       Inr (ToUser va TRAP_CONTEXT_BASE tok, os') \<and>
     gpr (restore 4096 (example_hart\<lparr>gpr := (replicate 32 0)[10 := TRAP_CONTEXT_BASE, 11 := tok]\<rparr>) (user_mem os')) ! 10 = 1"
proof
  fix E :: environment
  let ?t = "(example_task 1 16)\<lparr>trap_cx_ppn := PhysPageNum 1\<rparr>" and ?os = "entered 4096 example_hart asking_os"
  obtain hk m where en: "alltraps 4096 example_hart (user_mem asking_os) = (hk, m)" by (cases "alltraps 4096 example_hart (user_mem asking_os)")
  have cur: "current_task (kern ?os) = Inr 1" "get_task 1 (kern ?os) = Inr ?t" "pid ?t = 1"
    unfolding entered_def by (simp_all add: asking_current) (simp add: example_task_def)
  have call: "syscall E (gpr example_hart ! 17) (map (\<lambda>i. gpr example_hart ! i) [10, 11, 12, 13, 14, 15]) ?os = Inr (Done 1, ?os)"
    using cur
    by (simp add: syscall_def syscall_body_def Let_def example_hart_def done_kern_def sys_getpid_def syscall_end_def update_time_def syscall_ids_def)
  have cx: "current_trap_cx (kern ?os) = Inr 4096" unfolding entered_def by (simp add: asking_trap_cx)
  have tok: "current_user_token (kern ?os) = Inr (get_user_token ?t)" using cur by (simp add: current_user_token_def)
  have "length (gpr example_hart) = 32" by (simp add: example_hart_def)
  from system_call_round_trip [OF asking_trap_cx call cx _ tok en this]
  obtain os' va where "trap_handler E UserEnvCall (set_mem m asking_os) = Inr (ToUser va TRAP_CONTEXT_BASE (get_user_token ?t), os')"
    "\<forall>hk'. gpr hk' ! 10 = TRAP_CONTEXT_BASE \<and> gpr hk' ! 11 = get_user_token ?t \<longrightarrow> gpr (restore 4096 hk' (user_mem os')) ! 10 = 1"
    by (auto simp: Let_def)
  with en show "\<exists>os' va tok. trap_handler E UserEnvCall (set_mem (snd (alltraps 4096 example_hart (user_mem asking_os))) asking_os) =
       Inr (ToUser va TRAP_CONTEXT_BASE tok, os') \<and>
     gpr (restore 4096 (example_hart\<lparr>gpr := (replicate 32 0)[10 := TRAP_CONTEXT_BASE, 11 := tok]\<rparr>) (user_mem os')) ! 10 = 1"
    by (intro exI [of _ os'] exI [of _ va] exI [of _ "get_user_token ?t"]) simp
qed

end
