(* ===== verification/Heap.thy ===== *)
theory Heap
  imports Prelude "HOL-Library.Log_Nat"
begin

text \<open>
  The kernel heap (dependencies/buddy_system_allocator-0.6.0, set up by os/src/mm/heap_allocator.rs): a buddy
  system with 32 classes of free blocks. The free blocks of a class form a linked list whose nodes lie in the
  blocks themselves: the first word of a block holds the address of the next. Addresses and sizes are natural
  numbers, since the region lies inside the address space and no sum wraps; the counters are machine words.
  The search of a list follows pointers and carries fuel.
\<close>

unbundle bit_operations_syntax

section \<open>The allocator\<close>

record Heap =
  free_list :: "nat list"
  h_user :: usize
  h_allocated :: usize
  h_total :: usize
  hwords :: "nat \<Rightarrow> nat"

definition Heap_new :: "(nat \<Rightarrow> nat) \<Rightarrow> Heap" where
  "Heap_new w = \<lparr>free_list = replicate 32 0, h_user = 0, h_allocated = 0, h_total = 0, hwords = w\<rparr>"

text \<open>\<open>push\<close> and \<open>pop\<close> on the list of a class; a class that does not exist is out of bounds.\<close>

definition list_push :: "nat \<Rightarrow> nat \<Rightarrow> Heap \<Rightarrow> Heap res" where
  "list_push i item h =
     bindR (indexR (free_list h) i) (\<lambda>head.
     Inr (h\<lparr>hwords := (hwords h)(item := head), free_list := (free_list h)[i := item]\<rparr>))"

definition list_pop :: "nat \<Rightarrow> Heap \<Rightarrow> (nat option \<times> Heap) res" where
  "list_pop i h =
     bindR (indexR (free_list h) i) (\<lambda>item.
     if item = 0 then Inr (None, h) else Inr (Some item, h\<lparr>free_list := (free_list h)[i := hwords h item]\<rparr>))"

fun trailing_zeros :: "nat \<Rightarrow> nat" where
  "trailing_zeros n = (if n = 0 then 64 else if odd n then 0 else Suc (trailing_zeros (n div 2)))"

declare trailing_zeros.simps [simp del]

definition next_power_of_two :: "nat \<Rightarrow> nat" where
  "next_power_of_two n = 2 ^ floorlog 2 (n - 1)"

definition prev_power_of_two :: "nat \<Rightarrow> nat" where
  "prev_power_of_two n = 2 ^ (floorlog 2 n - 1)"

definition lowbit :: "nat \<Rightarrow> nat" where
  "lowbit n = (if n = 0 then 0 else 2 ^ trailing_zeros n)"

primrec add_loop :: "nat \<Rightarrow> nat \<Rightarrow> nat \<Rightarrow> nat \<Rightarrow> Heap \<Rightarrow> (nat \<times> Heap) res" where
  "add_loop 0 current_start stop tot h = Inl OutOfFuel"
| "add_loop (Suc n) current_start stop tot h =
     (if current_start + 8 \<le> stop then
        let sz = min (lowbit current_start) (prev_power_of_two (stop - current_start)) in
        bindR (list_push (trailing_zeros sz) current_start h) (\<lambda>h1. add_loop n (current_start + sz) stop (tot + sz) h1)
      else Inr (tot, h))"

definition add_to_heap :: "nat \<Rightarrow> nat \<Rightarrow> nat \<Rightarrow> Heap \<Rightarrow> Heap res" where
  "add_to_heap fuel start0 stop0 h =
     (let start = (start0 + 7) div 8 * 8; stop = stop0 div 8 * 8 in
      bindR (assertR (start \<le> stop)) (\<lambda>_.
      bindR (add_loop fuel start stop 0 h) (\<lambda>(tot, h1). Inr (h1\<lparr>h_total := h_total h1 + word_of_nat tot\<rparr>))))"

definition Heap_init :: "nat \<Rightarrow> nat \<Rightarrow> nat \<Rightarrow> Heap \<Rightarrow> Heap res" where
  "Heap_init fuel start sz h = add_to_heap fuel start (start + sz) h"

definition block_size :: "nat \<Rightarrow> nat \<Rightarrow> nat" where
  "block_size sz al = max (next_power_of_two sz) (max al 8)"

text \<open>Splitting from class \<open>c + n\<close> down to \<open>c\<close>; \<open>False\<close> is the early return of an error.\<close>

primrec split_loop :: "nat \<Rightarrow> nat \<Rightarrow> Heap \<Rightarrow> (bool \<times> Heap) res" where
  "split_loop c 0 h = Inr (True, h)"
| "split_loop c (Suc n) h =
     bindR (list_pop (c + Suc n) h) (\<lambda>(r, h1). case r of
       None \<Rightarrow> Inr (False, h1)
     | Some block \<Rightarrow>
         bindR (list_push (c + n) (block + 2 ^ (c + n)) h1) (\<lambda>h2.
         bindR (list_push (c + n) block h2) (\<lambda>h3. split_loop c n h3)))"

definition Heap_alloc :: "nat \<Rightarrow> nat \<Rightarrow> Heap \<Rightarrow> (nat option \<times> Heap) res" where
  "Heap_alloc sz al h =
     (let bs = block_size sz al; c = trailing_zeros bs in
      case find (\<lambda>i. free_list h ! i \<noteq> 0) [c..<32] of
        None \<Rightarrow> Inr (None, h)
      | Some i \<Rightarrow>
          bindR (split_loop c (i - c) h) (\<lambda>(ok, h1).
          if \<not> ok then Inr (None, h1)
          else
            bindR (list_pop c h1) (\<lambda>(r, h2).
            bindR (unwrapR r) (\<lambda>p.
            Inr (Some p, h2\<lparr>h_user := h_user h2 + word_of_nat sz, h_allocated := h_allocated h2 + word_of_nat bs\<rparr>)))))"

text \<open>The search for the buddy; \<open>prev\<close> is the node before, or the head.\<close>

primrec find_remove :: "nat \<Rightarrow> nat \<Rightarrow> nat \<Rightarrow> nat option \<Rightarrow> nat \<Rightarrow> Heap \<Rightarrow> (bool \<times> Heap) res" where
  "find_remove 0 i buddy prev cur h = Inl OutOfFuel"
| "find_remove (Suc n) i buddy prev cur h =
     (if cur = 0 then Inr (False, h)
      else if cur = buddy then
        Inr (True, case prev of
          None \<Rightarrow> h\<lparr>free_list := (free_list h)[i := hwords h cur]\<rparr>
        | Some p \<Rightarrow> h\<lparr>hwords := (hwords h)(p := hwords h cur)\<rparr>)
      else find_remove n i buddy (Some cur) (hwords h cur) h)"

text \<open>Merging from class \<open>c\<close> on; \<open>n\<close> counts the classes that are left.\<close>

primrec merge_loop :: "nat \<Rightarrow> nat \<Rightarrow> nat \<Rightarrow> nat \<Rightarrow> Heap \<Rightarrow> Heap res" where
  "merge_loop 0 fuel c p h = Inr h"
| "merge_loop (Suc n) fuel c p h =
     (let buddy = p XOR 2 ^ c in
      bindR (indexR (free_list h) c) (\<lambda>head.
      bindR (find_remove fuel c buddy None head h) (\<lambda>(flag, h1).
      if flag then
        bindR (list_pop c h1) (\<lambda>(_, h2).
        bindR (list_push (Suc c) (min p buddy) h2) (\<lambda>h3. merge_loop n fuel (Suc c) (min p buddy) h3))
      else Inr h1)))"

definition Heap_dealloc :: "nat \<Rightarrow> nat \<Rightarrow> nat \<Rightarrow> nat \<Rightarrow> Heap \<Rightarrow> Heap res" where
  "Heap_dealloc fuel ptr sz al h =
     (let bs = block_size sz al; c = trailing_zeros bs in
      bindR (list_push c ptr h) (\<lambda>h1.
      bindR (merge_loop (32 - c) fuel c ptr h1) (\<lambda>h2.
      Inr (h2\<lparr>h_user := h_user h2 - word_of_nat sz, h_allocated := h_allocated h2 - word_of_nat bs\<rparr>))))"

text \<open>The global allocator: a failed allocation is the null pointer, on which the error handler panics.\<close>

definition GlobalAlloc_alloc :: "nat \<Rightarrow> nat \<Rightarrow> Heap \<Rightarrow> (nat \<times> Heap) res" where
  "GlobalAlloc_alloc sz al h = bindR (Heap_alloc sz al h) (\<lambda>(r, h1). Inr (case r of None \<Rightarrow> 0 | Some p \<Rightarrow> p, h1))"

definition handle_alloc_error :: "'a res" where
  "handle_alloc_error = Inl (ExplicitPanic ''heap allocation error'')"

definition KERNEL_HEAP_SIZE :: nat where
  "KERNEL_HEAP_SIZE = 0x2000000"

definition init_heap :: "nat \<Rightarrow> nat \<Rightarrow> Heap \<Rightarrow> Heap res" where
  "init_heap fuel HEAP_SPACE h = Heap_init fuel HEAP_SPACE KERNEL_HEAP_SIZE h"

section \<open>The linked lists\<close>

fun seg :: "(nat \<Rightarrow> nat) \<Rightarrow> nat \<Rightarrow> nat list \<Rightarrow> bool" where
  "seg w a [] \<longleftrightarrow> a = 0"
| "seg w a (x # xs) \<longleftrightarrow> a = x \<and> x \<noteq> 0 \<and> seg w (w x) xs"

text \<open>\<open>rep h L\<close>: the lists of the heap hold the blocks \<open>L\<close>, class by class.\<close>

definition rep :: "Heap \<Rightarrow> nat list list \<Rightarrow> bool" where
  "rep h L \<longleftrightarrow> length (free_list h) = 32 \<and> length L = 32 \<and>
     (\<forall>i < 32. seg (hwords h) (free_list h ! i) (L ! i) \<and> distinct (L ! i)) \<and>
     (\<forall>i < 32. \<forall>j < 32. i \<noteq> j \<longrightarrow> set (L ! i) \<inter> set (L ! j) = {})"

lemma seg_cong: "\<forall>x \<in> set xs. w' x = w x \<Longrightarrow> seg w' a xs \<longleftrightarrow> seg w a xs"
  by (induction xs arbitrary: a) auto

lemma seg_nonzero: "seg w a xs \<Longrightarrow> 0 \<notin> set xs"
  by (induction xs arbitrary: a) auto

lemma seg_head: "seg w a xs \<Longrightarrow> a \<noteq> 0 \<longleftrightarrow> xs \<noteq> []"
  by (cases xs) auto

lemma repD:
  assumes "rep h L"
  shows "length (free_list h) = 32" "length L = 32" "\<And>i. i < 32 \<Longrightarrow> seg (hwords h) (free_list h ! i) (L ! i)"
    "\<And>i. i < 32 \<Longrightarrow> distinct (L ! i)" "\<And>i j. i < 32 \<Longrightarrow> j < 32 \<Longrightarrow> i \<noteq> j \<Longrightarrow> set (L ! i) \<inter> set (L ! j) = {}"
  using assms by (auto simp: rep_def)

lemma rep_update:
  assumes r: "rep h L" and i: "i < 32" and xs: "seg w a xs" "distinct xs"
    and new: "\<And>j. j < 32 \<Longrightarrow> j \<noteq> i \<Longrightarrow> set xs \<inter> set (L ! j) = {}"
    and w: "\<And>j x. j < 32 \<Longrightarrow> j \<noteq> i \<Longrightarrow> x \<in> set (L ! j) \<Longrightarrow> w x = hwords h x"
    and h': "free_list h' = (free_list h)[i := a]" "hwords h' = w"
  shows "rep h' (L[i := xs])"
proof -
  note d = repD [OF r]
  have "seg (hwords h') (free_list h' ! j) (L[i := xs] ! j) \<and> distinct (L[i := xs] ! j)" if j: "j < 32" for j
    using d j xs h' seg_cong [of "L ! j" w "hwords h"] w [OF j] by (cases "j = i") auto
  moreover have "set (L[i := xs] ! j) \<inter> set (L[i := xs] ! k) = {}" if "j < 32" "k < 32" "j \<noteq> k" for j k
    using that d(2) d(5) [of j k] new [of j] new [of k] by (cases "j = i"; cases "k = i") auto
  ultimately show ?thesis using d(1,2) h'(1) by (simp add: rep_def)
qed

lemma list_push_spec:
  assumes r: "rep h L" and i: "i < 32" and x: "x \<noteq> 0" "\<And>j. j < 32 \<Longrightarrow> x \<notin> set (L ! j)"
  shows "\<exists>h'. list_push i x h = Inr h' \<and> rep h' (L[i := x # L ! i])"
proof -
  note d = repD [OF r]
  let ?w = "(hwords h)(x := free_list h ! i)"
  let ?h = "h\<lparr>hwords := ?w, free_list := (free_list h)[i := x]\<rparr>"
  have "seg ?w x (x # L ! i)" using d(3) [OF i] x(1) x(2) [OF i] seg_cong [of "L ! i" ?w "hwords h"] by auto
  then have "rep ?h (L[i := x # L ! i])"
    by (rule rep_update [OF r i]) (use d(4) [OF i] d(5) [OF i] x(2) i in auto)
  then show ?thesis using i d(1) by (auto simp: list_push_def indexR_def)
qed

lemma list_pop_spec:
  assumes r: "rep h L" and i: "i < 32"
  shows "case L ! i of [] \<Rightarrow> list_pop i h = Inr (None, h)
    | x # xs \<Rightarrow> \<exists>h'. list_pop i h = Inr (Some x, h') \<and> rep h' (L[i := xs])"
proof (cases "L ! i")
  case Nil
  then have "free_list h ! i = 0" using repD(3) [OF r i] by simp
  then show ?thesis using repD(1) [OF r] i Nil by (simp add: list_pop_def indexR_def)
next
  case (Cons x xs)
  note d = repD [OF r]
  have s: "free_list h ! i = x" "x \<noteq> 0" "seg (hwords h) (hwords h x) xs" "distinct xs" using d(3,4) [OF i] Cons by auto
  have "set xs \<subseteq> set (L ! i)" using Cons by auto
  then have "rep (h\<lparr>free_list := (free_list h)[i := hwords h x]\<rparr>) (L[i := xs])"
    by (intro rep_update [OF r i s(3,4)]) (use d(5) [OF i] in auto)
  then show ?thesis using s i d(1) Cons by (auto simp: list_pop_def indexR_def)
qed

lemma seg_unlink:
  assumes "seg w a (ys @ [p] @ x # xs)" and "distinct (ys @ [p] @ x # xs)"
  shows "seg (w(p := w x)) a (ys @ [p] @ xs)"
  using assms
proof (induction ys arbitrary: a)
  case Nil
  then have "p \<notin> set xs" by auto
  then have "seg (w(p := w x)) (w x) xs \<longleftrightarrow> seg w (w x) xs" by (intro seg_cong) auto
  then show ?case using Nil by (simp add: fun_upd_def)
qed auto

lemma find_remove_spec:
  assumes r: "rep h L" and i: "i < 32"
    and "L ! i = ys @ xs" "seg (hwords h) cur xs" "b \<notin> set ys" "length xs < n"
  shows "\<exists>h'. find_remove n i b (if ys = [] then None else Some (last ys)) cur h = Inr (b \<in> set xs, h') \<and>
    rep h' (if b \<in> set xs then L[i := remove1 b (L ! i)] else L)"
  using assms(3-6)
proof (induction xs arbitrary: ys cur n)
  case Nil
  then show ?case using r by (cases n) auto
next
  case (Cons x xs)
  note d = repD [OF r]
  obtain m where n: "n = Suc m" using Cons.prems(4) by (cases n) auto
  have x: "cur = x" "x \<noteq> 0" "seg (hwords h) (hwords h x) xs" using Cons.prems(2) by auto
  have dis: "distinct (ys @ x # xs)" and sg: "seg (hwords h) (free_list h ! i) (ys @ x # xs)"
    using d(3,4) [OF i] Cons.prems(1) by auto
  show ?case
  proof (cases "x = b")
    case False
    then have "find_remove n i b (if ys = [] then None else Some (last ys)) cur h =
        find_remove m i b (if ys @ [x] = [] then None else Some (last (ys @ [x]))) (hwords h x) h" using n x by simp
    with Cons.IH [of "ys @ [x]" "hwords h x" m] Cons.prems False n x show ?thesis by auto
  next
    case True
    have rm: "remove1 b (L ! i) = ys @ xs" using Cons.prems(1,3) True by (simp add: remove1_append)
    have sub: "set (ys @ xs) \<subseteq> set (L ! i)" using Cons.prems(1) by auto
    show ?thesis
    proof (cases ys rule: rev_cases)
      case Nil
      have "rep (h\<lparr>free_list := (free_list h)[i := hwords h x]\<rparr>) (L[i := ys @ xs])"
        by (rule rep_update [OF r i]) (use Nil x(3) dis sub d(5) [OF i] in auto)
      then show ?thesis using Nil True n x rm by simp
    next
      case (snoc zs p)
      have "rep (h\<lparr>hwords := (hwords h)(p := hwords h x)\<rparr>) (L[i := ys @ xs])"
      proof (rule rep_update [OF r i])
        show "seg ((hwords h)(p := hwords h x)) (free_list h ! i) (ys @ xs)"
          using seg_unlink [of "hwords h" "free_list h ! i" zs p x xs] sg dis snoc by simp
        show "((hwords h)(p := hwords h x)) y = hwords h y" if "j < 32" "j \<noteq> i" "y \<in> set (L ! j)" for j y
          using that d(5) [OF i, of j] Cons.prems(1) snoc by auto
      qed (use dis sub d(5) [OF i] in auto)
      then show ?thesis using snoc True n x rm by simp
    qed
  qed
qed

section \<open>Free blocks\<close>

definition blk :: "nat \<times> nat \<Rightarrow> nat set" where
  "blk b = {snd b..<snd b + 2 ^ fst b}"

definition blocks :: "nat list list \<Rightarrow> (nat \<times> nat) set" where
  "blocks L = {(i, x). i < 32 \<and> x \<in> set (L ! i)}"

text \<open>Blocks are aligned to their size and disjoint.\<close>

definition buddy_ok :: "(nat \<times> nat) set \<Rightarrow> bool" where
  "buddy_ok B \<longleftrightarrow> (\<forall>(i, x) \<in> B. 3 \<le> i \<and> 2 ^ i dvd x) \<and> (\<forall>b \<in> B. \<forall>c \<in> B. b \<noteq> c \<longrightarrow> blk b \<inter> blk c = {})"

definition free :: "(nat \<times> nat) set \<Rightarrow> nat set" where
  "free B = \<Union> (blk ` B)"

definition heap_ok :: "Heap \<Rightarrow> (nat \<times> nat) set \<Rightarrow> bool" where
  "heap_ok h B \<longleftrightarrow> (\<exists>L. rep h L \<and> B = blocks L) \<and> buddy_ok B"

lemma start_in_blk [simp]: "x \<in> blk (i, x)"
  by (simp add: blk_def)

lemma heap_ok_finite: "heap_ok h B \<Longrightarrow> finite B"
proof -
  have "blocks L = (\<Union>i \<in> {..<32}. Pair i ` set (L ! i))" for L by (auto simp: blocks_def)
  then show "heap_ok h B \<Longrightarrow> finite B" by (auto simp: heap_ok_def)
qed

lemma heap_ok_block:
  assumes "heap_ok h B" and "(i, x) \<in> B"
  shows "i < 32" "x \<noteq> 0" "3 \<le> i" "2 ^ i dvd x"
proof -
  obtain L where L: "rep h L" "B = blocks L" using assms(1) by (auto simp: heap_ok_def)
  then have i: "i < 32" "x \<in> set (L ! i)" using assms(2) by (auto simp: blocks_def)
  then show "i < 32" "x \<noteq> 0" using seg_nonzero [OF repD(3) [OF L(1) i(1)]] by metis+
  show "3 \<le> i" "2 ^ i dvd x" using assms by (auto simp: heap_ok_def buddy_ok_def)
qed

lemma heap_ok_head:
  assumes "heap_ok h B" and "i < 32"
  shows "free_list h ! i \<noteq> 0 \<longleftrightarrow> (\<exists>x. (i, x) \<in> B)" and "free_list h ! i \<noteq> 0 \<Longrightarrow> (i, free_list h ! i) \<in> B"
proof -
  obtain L where L: "rep h L" "B = blocks L" using assms(1) by (auto simp: heap_ok_def)
  have s: "seg (hwords h) (free_list h ! i) (L ! i)" by (rule repD(3) [OF L(1) assms(2)])
  then show "free_list h ! i \<noteq> 0 \<longleftrightarrow> (\<exists>x. (i, x) \<in> B)"
    using assms(2) L(2) by (cases "L ! i") (auto simp: blocks_def)
  show "(i, free_list h ! i) \<in> B" if "free_list h ! i \<noteq> 0"
    using s that assms(2) L(2) by (cases "L ! i") (auto simp: blocks_def)
qed

lemma buddy_ok_insert:
  assumes "buddy_ok B" and "3 \<le> i" "2 ^ i dvd x" and "blk (i, x) \<inter> free B = {}"
  shows "buddy_ok (insert (i, x) B)"
proof -
  have "blk (i, x) \<inter> blk c = {}" if "c \<in> B" for c using assms(4) that by (auto simp: free_def)
  then show ?thesis using assms(1-3) unfolding buddy_ok_def by (simp add: Int_commute)
qed

lemma buddy_ok_subset: "buddy_ok B \<Longrightarrow> C \<subseteq> B \<Longrightarrow> buddy_ok C"
  unfolding buddy_ok_def by blast

lemma free_remove:
  assumes "buddy_ok B" and "b \<in> B" shows "free (B - {b}) = free B - blk b"
proof -
  have "blk c \<inter> blk b = {}" if "c \<in> B" "c \<noteq> b" for c using assms that by (simp add: buddy_ok_def)
  then show ?thesis using assms(2) unfolding free_def by blast
qed

lemma free_insert [simp]: "free (insert b B) = blk b \<union> free B"
  by (simp add: free_def)

lemma blk_free: "b \<in> B \<Longrightarrow> blk b \<subseteq> free B"
  by (auto simp: free_def)

lemma push_ok:
  assumes h: "heap_ok h B" and i: "i < 32" "3 \<le> i" "2 ^ i dvd x" "x \<noteq> 0" and new: "blk (i, x) \<inter> free B = {}"
  shows "\<exists>h'. list_push i x h = Inr h' \<and> heap_ok h' (insert (i, x) B) \<and> free_list h' ! i = x"
proof -
  obtain L where L: "rep h L" "B = blocks L" using h by (auto simp: heap_ok_def)
  have "x \<notin> set (L ! j)" if "j < 32" for j
  proof
    assume "x \<in> set (L ! j)"
    then have "(j, x) \<in> B" using that L(2) by (simp add: blocks_def)
    then have "x \<in> free B" using blk_free start_in_blk by blast
    then show False using new start_in_blk [of x i] by blast
  qed
  then obtain h' where h': "list_push i x h = Inr h'" "rep h' (L[i := x # L ! i])"
    using list_push_spec [OF L(1) i(1,4)] by blast
  have "blocks (L[i := x # L ! i]) = insert (i, x) B"
    using repD(2) [OF L(1)] i(1) L(2) by (auto simp: blocks_def nth_list_update split: if_splits)
  moreover have "free_list h' ! i = x" using h'(1) i(1) repD(1) [OF L(1)] by (auto simp: list_push_def indexR_def)
  ultimately show ?thesis
    using h' buddy_ok_insert [OF _ i(2,3) new] h by (auto simp: heap_ok_def)
qed

lemma blocks_update:
  assumes "rep h L" and "i < 32" and "set xs = set (L ! i) - {x}"
  shows "blocks (L[i := xs]) = blocks L - {(i, x)}"
proof -
  have "(j, y) \<in> blocks (L[i := xs]) \<longleftrightarrow> (j, y) \<in> blocks L - {(i, x)}" for j y
    using assms(2,3) repD(2) [OF assms(1)] by (cases "j = i") (simp_all add: blocks_def)
  then show ?thesis by (intro set_eqI) (metis surj_pair)
qed

lemma pop_ok:
  assumes h: "heap_ok h B" and i: "i < 32" and x: "free_list h ! i = x" "x \<noteq> 0"
  shows "\<exists>h'. list_pop i h = Inr (Some x, h') \<and> heap_ok h' (B - {(i, x)})"
proof -
  obtain L where L: "rep h L" "B = blocks L" using h by (auto simp: heap_ok_def)
  obtain xs where xs: "L ! i = x # xs" using repD(3) [OF L(1) i] x by (cases "L ! i") auto
  obtain h' where h': "list_pop i h = Inr (Some x, h')" "rep h' (L[i := xs])"
    using list_pop_spec [OF L(1) i] xs by auto
  have "set xs = set (L ! i) - {x}" using repD(4) [OF L(1) i] xs by auto
  from blocks_update [OF L(1) i this] show ?thesis
    using h' h L(2) buddy_ok_subset [of B "B - {(i, x)}"] by (auto simp: heap_ok_def)
qed

lemma remove_ok:
  assumes h: "heap_ok h B" and i: "i < 32" and n: "card B < n" and b: "free_list h ! i \<noteq> b"
  shows "\<exists>h'. find_remove n i b None (free_list h ! i) h = Inr ((i, b) \<in> B, h') \<and> heap_ok h' (B - {(i, b)}) \<and>
    free_list h' ! i = free_list h ! i"
proof -
  obtain L where L: "rep h L" "B = blocks L" using h by (auto simp: heap_ok_def)
  note d = repD [OF L(1)]
  have "Pair i ` set (L ! i) \<subseteq> B" using i L(2) by (auto simp: blocks_def)
  then have "card (set (L ! i)) \<le> card B"
    using card_mono [OF heap_ok_finite [OF h]] by (metis card_image inj_on_def prod.inject)
  then have "length (L ! i) < n" using n distinct_card [OF d(4) [OF i]] by simp
  with find_remove_spec [OF L(1) i, of "[]" "L ! i" "free_list h ! i" b n] d(3) [OF i] obtain h' where
    h': "find_remove n i b None (free_list h ! i) h = Inr (b \<in> set (L ! i), h')"
      "rep h' (if b \<in> set (L ! i) then L[i := remove1 b (L ! i)] else L)" by auto
  have mem: "b \<in> set (L ! i) \<longleftrightarrow> (i, b) \<in> B" using i L(2) by (simp add: blocks_def)
  have "set (remove1 b (L ! i)) = set (L ! i) - {b}" using d(4) [OF i] by simp
  from blocks_update [OF L(1) i this]
  have bl: "blocks (if b \<in> set (L ! i) then L[i := remove1 b (L ! i)] else L) = B - {(i, b)}" using L(2) mem by auto
  have "seg (hwords h') (free_list h' ! i) (remove1 b (L ! i))"
    using repD(3) [OF h'(2) i] d(2) i by (auto simp: remove1_idem split: if_splits)
  then have "free_list h' ! i = free_list h ! i" using d(3) [OF i] b by (cases "L ! i") auto
  then show ?thesis
    using h' bl mem h buddy_ok_subset [of B "B - {(i, b)}"] by (auto simp: heap_ok_def)
qed

section \<open>Allocation\<close>

lemma blk_halves: "blk (Suc i, x) = blk (i, x) \<union> blk (i, x + 2 ^ i)" "blk (i, x) \<inter> blk (i, x + 2 ^ i) = {}"
  by (auto simp: blk_def)

lemma split_ok:
  assumes "heap_ok h B" and "c + n < 32" and "3 \<le> c" and "free_list h ! (c + n) \<noteq> 0"
  shows "\<exists>h' B'. split_loop c n h = Inr (True, h') \<and> heap_ok h' B' \<and> free B' = free B \<and> free_list h' ! c \<noteq> 0"
  using assms
proof (induction n arbitrary: h B)
  case (Suc n)
  let ?j = "c + n"
  define x where "x = free_list h ! Suc ?j"
  have x0: "(Suc ?j, x) \<in> B" using heap_ok_head(2) [OF Suc.prems(1), of "Suc ?j"] Suc.prems(2,4) by (simp add: x_def)
  note x = x0 heap_ok_block(2,4) [OF Suc.prems(1) x0]
  obtain h1 where h1: "list_pop (Suc ?j) h = Inr (Some x, h1)" "heap_ok h1 (B - {(Suc ?j, x)})"
    using pop_ok [OF Suc.prems(1), of "Suc ?j" x] Suc.prems(2) x(2) by (auto simp: x_def)
  have F: "free (B - {(Suc ?j, x)}) = free B - blk (Suc ?j, x)" "blk (Suc ?j, x) \<subseteq> free B"
    using free_remove [OF _ x(1)] blk_free [OF x(1)] Suc.prems(1) by (auto simp: heap_ok_def)
  have dv: "2 ^ ?j dvd x" "2 ^ ?j dvd x + 2 ^ ?j" using x(3) by (auto simp: power_Suc dvd_mult_right)
  have n1: "blk (?j, x + 2 ^ ?j) \<inter> free (B - {(Suc ?j, x)}) = {}" using F(1) blk_halves(1) [of ?j x] by blast
  obtain h2 where h2: "list_push ?j (x + 2 ^ ?j) h1 = Inr h2" "heap_ok h2 (insert (?j, x + 2 ^ ?j) (B - {(Suc ?j, x)}))"
    using push_ok [OF h1(2) _ _ dv(2) _ n1] Suc.prems(2,3) x(2) by auto
  have n2: "blk (?j, x) \<inter> free (insert (?j, x + 2 ^ ?j) (B - {(Suc ?j, x)})) = {}"
    using F(1) blk_halves [of ?j x] by auto
  obtain h3 where h3: "list_push ?j x h2 = Inr h3" "free_list h3 ! ?j = x"
    "heap_ok h3 (insert (?j, x) (insert (?j, x + 2 ^ ?j) (B - {(Suc ?j, x)})))"
    using push_ok [OF h2(2) _ _ dv(1) x(2) n2] Suc.prems(2,3) by auto
  obtain h' B' where "split_loop c n h3 = Inr (True, h')" "heap_ok h' B'" "free_list h' ! c \<noteq> 0"
    "free B' = free (insert (?j, x) (insert (?j, x + 2 ^ ?j) (B - {(Suc ?j, x)})))"
    using Suc.IH [OF h3(3)] Suc.prems(2,3) h3(2) x(2) by auto
  moreover have "free (insert (?j, x) (insert (?j, x + 2 ^ ?j) (B - {(Suc ?j, x)}))) = free B"
    using F blk_halves(1) [of ?j x] by auto
  ultimately show ?case using h1(1) h2(1) h3(1) by auto
qed auto

lemma trailing_zeros_power: "trailing_zeros (2 ^ k) = k"
  by (induction k) (simp_all add: trailing_zeros.simps)

lemma floorlog_bound: "n \<le> 2 ^ floorlog 2 (n - 1)"
proof (cases "n \<le> 1")
  case False
  then have "n - 1 < 2 ^ floorlog 2 (n - 1)" using floorlog_bounds [of "n - 1" 2] by simp
  then show ?thesis by linarith
qed (auto simp: le_Suc_eq floorlog_def)

text \<open>The size of a block is a power of two that fits the request and its alignment.\<close>

lemma block_size_power:
  assumes "al = 2 ^ a"
  obtains c where "block_size sz al = 2 ^ c" "3 \<le> c" "sz \<le> 2 ^ c" "al dvd 2 ^ c" "trailing_zeros (block_size sz al) = c"
proof -
  define c where "c = max (floorlog 2 (sz - 1)) (max a 3)"
  have mono: "max ((2 :: nat) ^ i) (2 ^ j) = 2 ^ max i j" for i j by (auto simp: max_def)
  have bs: "block_size sz al = 2 ^ c"
    using mono [of a 3] by (simp add: block_size_def next_power_of_two_def assms c_def mono)
  moreover have "sz \<le> 2 ^ c"
  proof -
    have "(2 :: nat) ^ floorlog 2 (sz - 1) \<le> 2 ^ c" by (rule power_increasing) (simp_all add: c_def)
    then show ?thesis using floorlog_bound [of sz] by linarith
  qed
  moreover have "al dvd 2 ^ c" unfolding assms by (intro le_imp_power_dvd) (simp add: c_def)
  moreover have "3 \<le> c" by (simp add: c_def)
  ultimately show ?thesis using that [of c] trailing_zeros_power [of c] by simp
qed

lemma find_Some_nth: "find P [c..<n] = Some i \<Longrightarrow> c \<le> i \<and> i < n \<and> P i"
  by (auto simp: find_Some_iff)

lemma alloc_ok:
  assumes h: "heap_ok h B" and al: "al = 2 ^ a"
  shows "\<exists>r h' B'. Heap_alloc sz al h = Inr (r, h') \<and> heap_ok h' B' \<and> (case r of
      None \<Rightarrow> h' = h \<and> B' = B \<and> (\<forall>(i, x) \<in> B. 2 ^ i < block_size sz al)
    | Some p \<Rightarrow> p \<noteq> 0 \<and> block_size sz al dvd p \<and> {p..<p + block_size sz al} \<subseteq> free B \<and>
        free B' = free B - {p..<p + block_size sz al})"
proof -
  obtain c where c: "block_size sz al = 2 ^ c" "3 \<le> c" "trailing_zeros (block_size sz al) = c" by (rule block_size_power [OF al])
  show ?thesis
  proof (cases "find (\<lambda>i. free_list h ! i \<noteq> 0) [c..<32]")
    case None
    then have "free_list h ! i = 0" if "c \<le> i" "i < 32" for i using that by (auto simp: find_None_iff)
    then have "i < c" if "(i, x) \<in> B" for i x
      using that heap_ok_head(1) [OF h, of i] heap_ok_block(1) [OF h that] by (metis not_le)
    then have "\<forall>(i, x) \<in> B. 2 ^ i < block_size sz al" using c(1) by auto
    then show ?thesis using None h c(3) by (auto simp: Heap_alloc_def)
  next
    case (Some i)
    note i = find_Some_nth [OF Some]
    obtain h1 B1 where s: "split_loop c (i - c) h = Inr (True, h1)" "heap_ok h1 B1" "free B1 = free B" "free_list h1 ! c \<noteq> 0"
      using split_ok [OF h, of c "i - c"] i c(2) by auto
    define p where "p = free_list h1 ! c"
    have c32: "c < 32" using i by simp
    have p: "(c, p) \<in> B1" using heap_ok_head(2) [OF s(2) c32 s(4)] by (simp add: p_def)
    obtain h2 where h2: "list_pop c h1 = Inr (Some p, h2)" "heap_ok h2 (B1 - {(c, p)})"
      using pop_ok [OF s(2) c32, of p] s(4) by (auto simp: p_def)
    let ?h = "h2\<lparr>h_user := h_user h2 + word_of_nat sz, h_allocated := h_allocated h2 + word_of_nat (2 ^ c)\<rparr>"
    have "heap_ok ?h (B1 - {(c, p)})" using h2(2) by (simp add: heap_ok_def rep_def)
    moreover have "Heap_alloc sz al h = Inr (Some p, ?h)" using Some s(1) h2(1) c by (simp add: Heap_alloc_def)
    moreover have "free (B1 - {(c, p)}) = free B - {p..<p + 2 ^ c}" "{p..<p + 2 ^ c} \<subseteq> free B"
      using free_remove [OF _ p] blk_free [OF p] s(2,3) by (auto simp: heap_ok_def blk_def)
    ultimately show ?thesis
      using heap_ok_block(2,4) [OF s(2) p] c(1) by (intro exI [of _ "Some p"] exI [of _ ?h] exI [of _ "B1 - {(c, p)}"]) simp
  qed
qed

section \<open>Release\<close>

lemma buddy_address:
  fixes p :: nat
  assumes "2 ^ c dvd p"
  shows "p XOR 2 ^ c = (if even (p div 2 ^ c) then p + 2 ^ c else p - 2 ^ c)"
proof -
  obtain q where q: "p = 2 ^ c * q" using assms by auto
  have "p XOR 2 ^ c = push_bit c q XOR push_bit c 1" by (simp add: q push_bit_eq_mult mult.commute)
  also have "\<dots> = push_bit c (q XOR 1)" by (simp add: push_bit_xor)
  also have "\<dots> = 2 ^ c * (q XOR 1)" by (simp add: push_bit_eq_mult mult.commute)
  also have "q XOR 1 = (if even q then q + 1 else q - 1)" using xor_Suc_0_eq [of q] by simp
  finally show ?thesis by (simp add: q algebra_simps)
qed

lemma buddy_merge:
  fixes p :: nat
  assumes d: "2 ^ c dvd p"
  defines "b \<equiv> p XOR 2 ^ c"
  shows "b \<noteq> p" and "2 ^ Suc c dvd min p b" and "blk (Suc c, min p b) = blk (c, p) \<union> blk (c, b)" and "2 ^ c dvd b"
proof -
  obtain q where q: "p = 2 ^ c * q" using d by auto
  have "b \<noteq> p \<and> 2 ^ Suc c dvd min p b \<and> blk (Suc c, min p b) = blk (c, p) \<union> blk (c, b) \<and> 2 ^ c dvd b"
  proof (cases "even q")
    case True
    then have b: "b = p + 2 ^ c" using buddy_address [OF d] by (simp add: b_def q)
    obtain r where "q = 2 * r" using True by auto
    then have "2 ^ Suc c dvd p" by (simp add: q)
    then show ?thesis using b d blk_halves(1) [of c p] by simp
  next
    case False
    then obtain r where r: "q = 2 * r + 1" by (auto elim: oddE)
    then have b: "b = p - 2 ^ c" using buddy_address [OF d] False by (simp add: b_def q)
    have p: "p = 2 ^ c * (2 * r) + 2 ^ c" by (simp add: q r algebra_simps)
    then have b': "b = 2 ^ Suc c * r" "p = b + 2 ^ c" using b by simp_all
    then have "2 ^ Suc c dvd b" "2 ^ c dvd b" by simp_all
    then show ?thesis using b'(2) blk_halves(1) [of c b] by (auto simp: Un_commute)
  qed
  then show "b \<noteq> p" "2 ^ Suc c dvd min p b" "blk (Suc c, min p b) = blk (c, p) \<union> blk (c, b)" "2 ^ c dvd b" by simp_all
qed

lemma merge_ok:
  assumes "heap_ok h B" and "c < 32" and "free_list h ! c = p" "p \<noteq> 0" and "card (free B) < 2 ^ 32" and "card B < fuel"
    and "n = 32 - c"
  shows "\<exists>h' B'. merge_loop n fuel c p h = Inr h' \<and> heap_ok h' B' \<and> free B' = free B"
  using assms
proof (induction n arbitrary: h B c p)
  case (Suc n)
  note h = Suc.prems(1)
  let ?b = "p XOR 2 ^ c"
  have p: "(c, p) \<in> B" using heap_ok_head(2) [OF h Suc.prems(2)] Suc.prems(3,4) by simp
  note bp = heap_ok_block [OF h p] and bm = buddy_merge [OF heap_ok_block(4) [OF h p]]
  obtain h1 where h1: "find_remove fuel c ?b None p h = Inr ((c, ?b) \<in> B, h1)" "heap_ok h1 (B - {(c, ?b)})" "free_list h1 ! c = p"
    using remove_ok [OF h Suc.prems(2,6), of ?b] bm(1) Suc.prems(3) by auto
  have ix: "indexR (free_list h) c = Inr p"
    using h Suc.prems(2,3) repD(1) by (auto simp: heap_ok_def indexR_def)
  show ?case
  proof (cases "(c, ?b) \<in> B")
    case False
    then show ?thesis using h1 by (intro exI [of _ h1] exI [of _ B]) (simp add: Let_def ix)
  next
    case True
    let ?B1 = "B - {(c, ?b)}" let ?B2 = "?B1 - {(c, p)}" let ?B3 = "insert (Suc c, min p ?b) ?B2"
    have ok: "buddy_ok B" "buddy_ok ?B1" using h h1(2) by (simp_all add: heap_ok_def)
    have p1: "(c, p) \<in> ?B1" using p bm(1) by auto
    have F2: "free ?B2 = free B - (blk (c, p) \<union> blk (c, ?b))"
      using free_remove [OF ok(1) True] free_remove [OF ok(2) p1] by blast
    have sub: "blk (Suc c, min p ?b) \<subseteq> free B" using bm(3) blk_free [OF p] blk_free [OF True] by blast
    have fin: "finite (free B)" using heap_ok_finite [OF h] by (auto simp: free_def blk_def)
    have "(2 :: nat) ^ Suc c \<le> card (free B)" using card_mono [OF fin sub] by (simp add: blk_def)
    then have "(2 :: nat) ^ Suc c < 2 ^ 32" using Suc.prems(5) by linarith
    then have c: "Suc c < 32" by (rule power_less_imp_less_exp [rotated]) simp
    obtain h2 where h2: "list_pop c h1 = Inr (Some p, h2)" "heap_ok h2 ?B2"
      using pop_ok [OF h1(2) Suc.prems(2) h1(3) Suc.prems(4)] by blast
    have nz: "min p ?b \<noteq> 0" using heap_ok_block(2) [OF h True] bp(2) by (simp add: min_def)
    have dj: "blk (Suc c, min p ?b) \<inter> free ?B2 = {}" using F2 bm(3) by blast
    obtain h3 where h3: "list_push (Suc c) (min p ?b) h2 = Inr h3" "heap_ok h3 ?B3" "free_list h3 ! Suc c = min p ?b"
      using push_ok [OF h2(2) c _ bm(2) nz dj] bp(3) by auto
    have F3: "free ?B3 = free B" using F2 bm(3) blk_free [OF p] blk_free [OF True] by auto
    have "card ?B3 < fuel"
    proof -
      have "card ?B2 + 2 = card B" using heap_ok_finite [OF h] True p1 card_Suc_Diff1 [of B "(c, ?b)"] card_Suc_Diff1 [of ?B1 "(c, p)"] by simp
      then show ?thesis using card_insert_le_m1 [of "card ?B2 + 1" ?B2 "(Suc c, min p ?b)"] Suc.prems(6) by simp
    qed
    moreover have n: "n = 32 - Suc c" using Suc.prems(7) by simp
    ultimately obtain h' B' where "merge_loop n fuel (Suc c) (min p ?b) h3 = Inr h'" "heap_ok h' B'" "free B' = free B"
      using Suc.IH [OF h3(2) c h3(3) nz] F3 Suc.prems(5) n by auto
    then show ?thesis using h1(1) True h2(1) h3(1) by (intro exI [of _ h'] exI [of _ B']) (simp add: Let_def ix)
  qed
qed simp

lemma dealloc_ok:
  assumes h: "heap_ok h B" and al: "al = 2 ^ a" and bs: "block_size sz al < 2 ^ 32"
    and p: "p \<noteq> 0" "block_size sz al dvd p" "{p..<p + block_size sz al} \<inter> free B = {}"
    and room: "card (free B) + block_size sz al < 2 ^ 32" and fuel: "card B + 1 < fuel"
  shows "\<exists>h' B'. Heap_dealloc fuel p sz al h = Inr h' \<and> heap_ok h' B' \<and> free B' = free B \<union> {p..<p + block_size sz al}"
proof -
  obtain c where c: "block_size sz al = 2 ^ c" "3 \<le> c" "trailing_zeros (block_size sz al) = c" by (rule block_size_power [OF al])
  have c32: "c < 32" using bs c(1) power_less_imp_less_exp [of "2 :: nat" c 32] by simp
  have "blk (c, p) = {p..<p + block_size sz al}" by (simp add: blk_def c(1))
  then obtain h1 where h1: "list_push c p h = Inr h1" "heap_ok h1 (insert (c, p) B)" "free_list h1 ! c = p"
    "free (insert (c, p) B) = {p..<p + block_size sz al} \<union> free B"
    using push_ok [OF h c32 c(2) _ p(1)] p(2,3) c(1) by auto
  have fin: "finite (free B)" using heap_ok_finite [OF h] by (auto simp: free_def blk_def)
  have "card (free (insert (c, p) B)) < 2 ^ 32"
    unfolding h1(4) using card_Un_le [of "{p..<p + block_size sz al}" "free B"] room by simp
  moreover have "card (insert (c, p) B) < fuel" using card_insert_le_m1 [of "card B + 1" B "(c, p)"] fuel by simp
  ultimately obtain h2 B2 where "merge_loop (32 - c) fuel c p h1 = Inr h2" "heap_ok h2 B2" "free B2 = free (insert (c, p) B)"
    using merge_ok [OF h1(2) c32 h1(3) p(1) _ _ refl] by blast
  then show ?thesis
    using h1(1,4) c(3)
    by (intro exI [of _ "h2\<lparr>h_user := h_user h2 - word_of_nat sz, h_allocated := h_allocated h2 - word_of_nat (block_size sz al)\<rparr>"] exI [of _ B2])
      (auto simp: Heap_dealloc_def heap_ok_def rep_def)
qed

section \<open>Adding a region\<close>

lemma new_ok: "heap_ok (Heap_new w) {}"
proof -
  have "rep (Heap_new w) (replicate 32 [])" by (simp add: rep_def Heap_new_def)
  then show ?thesis by (auto simp: heap_ok_def buddy_ok_def blocks_def)
qed

lemma trailing_zeros_dvd: "0 < n \<Longrightarrow> 2 ^ k dvd n \<Longrightarrow> k \<le> trailing_zeros n \<and> 2 ^ trailing_zeros n dvd n"
proof (induction n arbitrary: k rule: trailing_zeros.induct)
  case (1 n)
  show ?case
  proof (cases "odd n")
    case True
    then show ?thesis using 1 by (cases k) (auto simp: trailing_zeros.simps [of n])
  next
    case False
    then obtain m where m: "n = 2 * m" by auto
    have "2 ^ (k - 1) dvd m" using 1(3) m by (cases k) auto
    then have "k - 1 \<le> trailing_zeros m \<and> 2 ^ trailing_zeros m dvd m" using 1(1) [of "k - 1"] 1(2) m False by simp
    moreover have "trailing_zeros n = Suc (trailing_zeros m)" using False 1(2) m by (simp add: trailing_zeros.simps [of "2 * m"])
    ultimately show ?thesis using m by auto
  qed
qed

text \<open>The block that the loop takes next: a power of two that divides the start and fits the rest.\<close>

lemma next_block:
  assumes s: "8 dvd s" "0 < s" and n: "8 \<le> n" "n < 2 ^ 32"
  obtains j where "min (lowbit s) (prev_power_of_two n) = 2 ^ j" "3 \<le> j" "j < 32" "2 ^ j dvd s" "2 ^ j \<le> n"
proof -
  define a b where "a = trailing_zeros s" and "b = floorlog 2 n - 1"
  have a: "3 \<le> a" "2 ^ a dvd s" using trailing_zeros_dvd [of s 3] s by (simp_all add: a_def)
  have n2: "2 ^ b \<le> n" "n < 2 ^ Suc b" using floorlog_bounds [of n 2] floorlog_eq_zero_iff [of 2 n] n(1) by (simp_all add: b_def)
  have "(2 :: nat) ^ 3 < 2 ^ Suc b" using n2(2) n(1) by simp
  then have b3: "3 \<le> b" using power_less_imp_less_exp [of "2 :: nat" 3 "Suc b"] by (simp del: power_Suc)
  have "(2 :: nat) ^ b < 2 ^ 32" using n2(1) n(2) by linarith
  then have b32: "b < 32" by (rule power_less_imp_less_exp [rotated]) simp
  have mn: "min (lowbit s) (prev_power_of_two n) = 2 ^ min a b"
    using s(2) by (simp add: lowbit_def prev_power_of_two_def a_def b_def min_def)
  have "(2 :: nat) ^ min a b dvd s" by (rule dvd_trans [OF _ a(2)]) (simp add: le_imp_power_dvd)
  moreover have "(2 :: nat) ^ min a b \<le> n" by (rule le_trans [OF _ n2(1)]) simp
  moreover have "3 \<le> min a b" "min a b < 32" using a(1) b3 b32 by auto
  ultimately show ?thesis using that [OF mn] by blast
qed

lemma add_ok:
  assumes "heap_ok h B" and "8 dvd s" "8 dvd e" "0 < s" "s \<le> e" "e - s < 2 ^ 32" and "{s..<e} \<inter> free B = {}"
    and "e - s < 8 * fuel"
  shows "\<exists>h' B'. add_loop fuel s e t h = Inr (t + (e - s), h') \<and> heap_ok h' B' \<and> free B' = free B \<union> {s..<e}"
  using assms
proof (induction fuel arbitrary: s t h B)
  case (Suc fuel)
  note pr = Suc.prems
  show ?case
  proof (cases "s + 8 \<le> e")
    case False
    have "e - s < 8" "8 dvd e - s" using False pr(2,3) by (simp_all add: dvd_diff_nat)
    then have "e - s = 0" by (auto dest: dvd_imp_le)
    then have "s = e" using pr(5) by simp
    then show ?thesis using pr(1) by auto
  next
    case True
    obtain j where j: "min (lowbit s) (prev_power_of_two (e - s)) = 2 ^ j" "3 \<le> j" "j < 32" "2 ^ j dvd s" "2 ^ j \<le> e - s"
      by (rule next_block [of s "e - s"]) (use pr(2,4,6) True in auto)
    have le: "s + 2 ^ j \<le> e" using j(5) pr(5) by simp
    have d8: "(8 :: nat) dvd 2 ^ j" using le_imp_power_dvd [OF j(2), of "2 :: nat"] by simp
    then have ge: "(8 :: nat) \<le> 2 ^ j" by (simp add: dvd_imp_le)
    have new: "blk (j, s) \<inter> free B = {}" using pr(7) le by (fastforce simp: blk_def disjoint_iff)
    obtain h1 where h1: "list_push j s h = Inr h1" "heap_ok h1 (insert (j, s) B)"
      using push_ok [OF pr(1) j(3,2,4) _ new] pr(4) by auto
    have F: "free (insert (j, s) B) = free B \<union> {s..<s + 2 ^ j}" by (auto simp: blk_def)
    have dj: "{s + 2 ^ j..<e} \<inter> free (insert (j, s) B) = {}" unfolding F using pr(7) by (fastforce simp: disjoint_iff)
    have fits: "0 < s + 2 ^ j" "e - (s + 2 ^ j) < 2 ^ 32" "e - (s + 2 ^ j) < 8 * fuel" using pr(4,6,8) ge le by (simp, linarith, simp)
    have un: "{s..<s + 2 ^ j} \<union> {s + 2 ^ j..<e} = {s..<e}" using le by auto
    obtain h' B' where r: "add_loop fuel (s + 2 ^ j) e (t + 2 ^ j) h1 = Inr (t + 2 ^ j + (e - (s + 2 ^ j)), h')"
      "heap_ok h' B'" "free B' = free (insert (j, s) B) \<union> {s + 2 ^ j..<e}"
      using Suc.IH [OF h1(2) dvd_add [OF pr(2) d8] pr(3) fits(1) le fits(2) dj fits(3), of "t + 2 ^ j"] by blast
    have "t + 2 ^ j + (e - (s + 2 ^ j)) = t + (e - s)" using le by simp
    moreover have "add_loop (Suc fuel) s e t h = add_loop fuel (s + 2 ^ j) e (t + 2 ^ j) h1"
      using True h1(1) by (simp add: j(1) trailing_zeros_power Let_def)
    ultimately have "add_loop (Suc fuel) s e t h = Inr (t + (e - s), h')" using r(1) by (simp only:)
    moreover have "free B' = free B \<union> {s..<e}" using r(3) un unfolding F by blast
    ultimately show ?thesis using r(2) by blast
  qed
qed simp

section \<open>Every history of the heap\<close>

text \<open>
  The states of a heap on the region of \<open>sz\<close> bytes at \<open>start\<close>, with the blocks that are handed out and
  their layouts: it is set up, blocks are requested and released with the layout they were requested with, and
  the owners of blocks write into them.
\<close>

definition region :: "nat \<Rightarrow> nat \<Rightarrow> nat set" where
  "region start sz = {(start + 7) div 8 * 8..<(start + sz) div 8 * 8}"

fun live_block :: "nat \<times> nat \<times> nat \<Rightarrow> nat set" where
  "live_block (p, n, al) = {p..<p + block_size n al}"

inductive heap_reach :: "nat \<Rightarrow> nat \<Rightarrow> nat \<Rightarrow> Heap \<Rightarrow> (nat \<times> nat \<times> nat) list \<Rightarrow> bool" for fuel start sz where
  reach_init: "Heap_init fuel start sz (Heap_new w) = Inr h \<Longrightarrow> heap_reach fuel start sz h []"
| reach_alloc: "heap_reach fuel start sz h live \<Longrightarrow> Heap_alloc n (2 ^ a) h = Inr (Some p, h') \<Longrightarrow>
    heap_reach fuel start sz h' ((p, n, 2 ^ a) # live)"
| reach_dealloc: "heap_reach fuel start sz h live \<Longrightarrow> (p, n, al) \<in> set live \<Longrightarrow> Heap_dealloc fuel p n al h = Inr h' \<Longrightarrow>
    heap_reach fuel start sz h' (remove1 (p, n, al) live)"
| reach_write: "heap_reach fuel start sz h live \<Longrightarrow> (\<And>x. x \<notin> \<Union> (live_block ` set live) \<Longrightarrow> w x = hwords h x) \<Longrightarrow>
    heap_reach fuel start sz (h\<lparr>hwords := w\<rparr>) live"

definition handed_out :: "(nat \<times> nat \<times> nat) list \<Rightarrow> bool" where
  "handed_out live \<longleftrightarrow> sorted_wrt (\<lambda>a b. live_block a \<inter> live_block b = {}) live \<and>
     (\<forall>(p, n, al) \<in> set live. p \<noteq> 0 \<and> (\<exists>a. al = 2 ^ a) \<and> block_size n al dvd p)"

definition heap_inv :: "nat set \<Rightarrow> Heap \<Rightarrow> (nat \<times> nat \<times> nat) list \<Rightarrow> bool" where
  "heap_inv R h live \<longleftrightarrow> handed_out live \<and> \<Union> (live_block ` set live) \<subseteq> R \<and>
     (\<exists>B. heap_ok h B \<and> free B = R - \<Union> (live_block ` set live))"

lemma region_finite [simp]: "finite (region start sz)"
  by (simp add: region_def)

lemma region_subset: "region start sz \<subseteq> {start..<start + sz}"
  by (auto simp: region_def)

lemma card_region: "card (region start sz) \<le> sz"
  using card_mono [OF _ region_subset] by simp

lemma card_blocks:
  assumes "heap_ok h B" shows "8 * card B \<le> card (free B)"
proof -
  have "card (free B) = (\<Sum>b \<in> B. card (blk b))"
    unfolding free_def using assms heap_ok_finite [OF assms]
    by (intro card_UN_disjoint) (auto simp: heap_ok_def buddy_ok_def blk_def)
  moreover have "8 \<le> card (blk b)" if "b \<in> B" for b
    using heap_ok_block(3) [OF assms, of "fst b" "snd b"] that power_increasing [of 3 "fst b" "2 :: nat"] by (simp add: blk_def)
  ultimately show ?thesis using sum_mono [of B "\<lambda>_. 8" "\<lambda>b. card (blk b)"] by simp
qed

lemma heap_ok_write:
  assumes "heap_ok h B" and "\<And>x. x \<in> free B \<Longrightarrow> w x = hwords h x"
  shows "heap_ok (h\<lparr>hwords := w\<rparr>) B"
proof -
  obtain L where L: "rep h L" "B = blocks L" using assms(1) by (auto simp: heap_ok_def)
  have "w x = hwords h x" if "i < 32" "x \<in> set (L ! i)" for i x
  proof (rule assms(2))
    have "(i, x) \<in> B" using that L(2) by (simp add: blocks_def)
    then show "x \<in> free B" using blk_free start_in_blk by blast
  qed
  then have "seg w (free_list h ! i) (L ! i)" if "i < 32" for i
    using seg_cong [of "L ! i" w "hwords h"] repD(3) [OF L(1) that] that by blast
  then have "rep (h\<lparr>hwords := w\<rparr>) L" using L(1) by (auto simp: rep_def)
  then show ?thesis using L(2) assms(1) by (auto simp: heap_ok_def)
qed

lemma sorted_wrt_remove1: "sorted_wrt P xs \<Longrightarrow> sorted_wrt P (remove1 x xs)"
  by (induction xs) (auto dest: set_remove1_subset [THEN subsetD])

lemma disjoint_rest: "A \<inter> X = {} \<Longrightarrow> U = A \<union> X \<Longrightarrow> X = U - A"
  by blast

lemma handed_out_remove1:
  assumes "handed_out live" and "b \<in> set live"
  shows "handed_out (remove1 b live)"
    and "\<Union> (live_block ` set (remove1 b live)) = \<Union> (live_block ` set live) - live_block b"
proof -
  show "handed_out (remove1 b live)"
    using assms set_remove1_subset [of b live] by (auto simp: handed_out_def intro: sorted_wrt_remove1)
  obtain xs ys where l: "live = xs @ b # ys" "remove1 b live = xs @ ys"
    using assms(2) by (metis remove1_append remove1.simps(2) split_list_first)
  have "live_block b \<inter> live_block c = {}" if "c \<in> set (xs @ ys)" for c
    using assms(1) l(1) that by (auto simp: handed_out_def sorted_wrt_append Int_commute)
  then have "live_block b \<inter> \<Union> (live_block ` set (xs @ ys)) = {}" by blast
  moreover have "\<Union> (live_block ` set live) = live_block b \<union> \<Union> (live_block ` set (xs @ ys))" unfolding l(1) by auto
  ultimately show "\<Union> (live_block ` set (remove1 b live)) = \<Union> (live_block ` set live) - live_block b"
    unfolding l(2) by (rule disjoint_rest)
qed

lemma init_inv:
  assumes init: "Heap_init fuel start sz (Heap_new w) = Inr h" and s: "0 < start" "sz < 2 ^ 32" "sz < 8 * fuel"
  shows "heap_inv (region start sz) h []"
proof -
  let ?s = "(start + 7) div 8 * 8" let ?e = "(start + sz) div 8 * 8"
  have le: "?s \<le> ?e" using init by (auto simp: Heap_init_def add_to_heap_def Let_def assertR_def split: if_splits)
  have "0 < ?s" "?e - ?s < 2 ^ 32" "?e - ?s < 8 * fuel" using s by linarith+
  then obtain h1 B where h1: "add_loop fuel ?s ?e 0 (Heap_new w) = Inr (?e - ?s, h1)" "heap_ok h1 B" "free B = {?s..<?e}"
    using add_ok [OF new_ok, of ?s ?e fuel 0 w] le by (auto simp: free_def)
  then have "h = h1\<lparr>h_total := h_total h1 + word_of_nat (?e - ?s)\<rparr>"
    using init le by (simp add: Heap_init_def add_to_heap_def Let_def assertR_def)
  then have "heap_ok h B" using h1(2) by (simp add: heap_ok_def rep_def)
  then show ?thesis using h1(3) by (auto simp: heap_inv_def handed_out_def region_def)
qed

lemma alloc_inv:
  assumes inv: "heap_inv R h live" and al: "Heap_alloc n (2 ^ a) h = Inr (Some p, h')"
  shows "heap_inv R h' ((p, n, 2 ^ a) # live)"
proof -
  let ?b = "live_block (p, n, 2 ^ a)" let ?U = "\<Union> (live_block ` set live)"
  obtain B where B: "heap_ok h B" "free B = R - ?U" using inv by (auto simp: heap_inv_def)
  obtain B' where B': "heap_ok h' B'" "p \<noteq> 0" "block_size n (2 ^ a) dvd p" "?b \<subseteq> free B" "free B' = free B - ?b"
    using alloc_ok [OF B(1) refl, of n a] al by auto
  have "?b \<inter> ?U = {}" "?b \<subseteq> R" using B'(4) B(2) by blast+
  then have "handed_out ((p, n, 2 ^ a) # live)" "\<Union> (live_block ` set ((p, n, 2 ^ a) # live)) \<subseteq> R"
    using inv B'(2,3) by (auto simp: heap_inv_def handed_out_def simp del: live_block.simps)
  moreover have "free B' = R - \<Union> (live_block ` set ((p, n, 2 ^ a) # live))" using B'(5) B(2) by auto
  ultimately show ?thesis using B'(1) unfolding heap_inv_def by blast
qed

lemma dealloc_inv:
  assumes inv: "heap_inv R h live" and R: "finite R" "card R < 2 ^ 32" "card R < 8 * fuel" and m: "(p, n, al) \<in> set live"
  shows "\<exists>h'. Heap_dealloc fuel p n al h = Inr h' \<and> heap_inv R h' (remove1 (p, n, al) live)"
proof -
  let ?b = "live_block (p, n, al)" let ?U = "\<Union> (live_block ` set live)"
  obtain B where B: "heap_ok h B" "free B = R - ?U" using inv by (auto simp: heap_inv_def)
  have ho: "handed_out live" "?U \<subseteq> R" using inv by (auto simp: heap_inv_def)
  then obtain a where a: "al = 2 ^ a" and p: "p \<noteq> 0" "block_size n al dvd p" using m by (fastforce simp: handed_out_def)
  have bU: "?b \<subseteq> ?U" using m by blast
  have dj: "?b \<inter> free B = {}" using B(2) bU by blast
  have "card (free B) + card ?b = card (free B \<union> ?b)"
    using dj R(1) B(2) by (subst card_Un_disjoint) auto
  also have "\<dots> \<le> card R" using card_mono [OF R(1)] B(2) bU ho(2) by (metis Diff_subset Un_least subset_trans)
  finally have sm: "card (free B) + block_size n al \<le> card R" by simp
  have "8 \<le> block_size n al" by (simp add: block_size_def)
  then have "card B + 1 < fuel" using card_blocks [OF B(1)] sm R(3) by linarith
  moreover have "card (free B) + block_size n al < 2 ^ 32" "block_size n al < 2 ^ 32" using sm R(2) by linarith+
  moreover have "{p..<p + block_size n al} \<inter> free B = {}" using dj by simp
  ultimately obtain h' B' where h': "Heap_dealloc fuel p n al h = Inr h'" "heap_ok h' B'" "free B' = free B \<union> ?b"
    using dealloc_ok [OF B(1) a _ p, of fuel] unfolding live_block.simps by blast
  have "R - (?U - ?b) = free B \<union> ?b" using B(2) bU ho(2) by blast
  then have "heap_inv R h' (remove1 (p, n, al) live)"
    unfolding heap_inv_def handed_out_remove1(2) [OF ho(1) m] using handed_out_remove1(1) [OF ho(1) m] h'(2,3) ho(2) by blast
  then show ?thesis using h'(1) by blast
qed

lemma heap_reach_inv:
  assumes "heap_reach fuel start sz h live" and s: "0 < start" "sz < 2 ^ 32" "sz < 8 * fuel"
  shows "heap_inv (region start sz) h live"
  using assms(1)
proof induction
  case (reach_init w h)
  then show ?case using init_inv s by blast
next
  case (reach_alloc h live n a p h')
  then show ?case using alloc_inv by blast
next
  case (reach_dealloc h live p n al h')
  have "card (region start sz) < 2 ^ 32" "card (region start sz) < 8 * fuel" using card_region [of start sz] s(2,3) by linarith+
  then obtain h1 where "Heap_dealloc fuel p n al h = Inr h1" "heap_inv (region start sz) h1 (remove1 (p, n, al) live)"
    using dealloc_inv [OF reach_dealloc.IH region_finite _ _ reach_dealloc.hyps(2), of fuel] by blast
  then show ?case using reach_dealloc.hyps(3) by simp
next
  case (reach_write h live w)
  then obtain B where B: "heap_ok h B" "free B = region start sz - \<Union> (live_block ` set live)" by (auto simp: heap_inv_def)
  have "heap_ok (h\<lparr>hwords := w\<rparr>) B" by (rule heap_ok_write [OF B(1)]) (use reach_write.hyps(2) B(2) in blast)
  then show ?case using reach_write.IH B(2) unfolding heap_inv_def by blast
qed

text \<open>Initialisation succeeds on the region that the kernel reserves, wherever the linker puts it.\<close>

lemma init_heap_ready:
  assumes "0 < HEAP_SPACE" and "KERNEL_HEAP_SIZE < 8 * fuel"
  shows "\<exists>h. init_heap fuel HEAP_SPACE (Heap_new w) = Inr h \<and> heap_reach fuel HEAP_SPACE KERNEL_HEAP_SIZE h []"
proof -
  let ?s = "(HEAP_SPACE + 7) div 8 * 8" let ?e = "(HEAP_SPACE + KERNEL_HEAP_SIZE) div 8 * 8"
  have "7 \<le> KERNEL_HEAP_SIZE" "KERNEL_HEAP_SIZE < 2 ^ 32" by (simp_all add: KERNEL_HEAP_SIZE_def)
  then have "0 < ?s" "?e - ?s < 2 ^ 32" "?e - ?s < 8 * fuel" "?s \<le> ?e"
    using assms by (linarith, linarith, linarith, intro mult_le_mono1 div_le_mono) simp
  then obtain h1 where "add_loop fuel ?s ?e 0 (Heap_new w) = Inr (?e - ?s, h1)" "?s \<le> ?e"
    using add_ok [OF new_ok, of ?s ?e fuel 0 w] by (auto simp: free_def)
  then have "\<exists>h. Heap_init fuel HEAP_SPACE KERNEL_HEAP_SIZE (Heap_new w) = Inr h"
    by (simp add: Heap_init_def add_to_heap_def Let_def assertR_def)
  then show ?thesis using reach_init unfolding init_heap_def by blast
qed

text \<open>
  (C5) In every state of the kernel heap, whatever was requested, released and written by the owners of blocks,
  the blocks that are handed out are pairwise disjoint, lie in the region of the heap, have the alignment of
  their layout and hold their size; the free lists hold exactly the rest of the region, so nothing leaks; an
  allocation never panics, and gives the null pointer only when every free block is too small; and releasing any
  block that is handed out never panics, neither in the search of the free lists nor in the merging of buddies.
\<close>

theorem heap_contract:
  assumes "heap_reach fuel start sz h live" and "0 < start" "sz < 2 ^ 32" "sz < 8 * fuel"
  shows "sorted_wrt (\<lambda>a b. live_block a \<inter> live_block b = {}) live \<and>
    (\<forall>(p, n, al) \<in> set live. al dvd p \<and> n \<le> block_size n al \<and> live_block (p, n, al) \<subseteq> {start..<start + sz}) \<and>
    (\<exists>B. heap_ok h B \<and> free B = region start sz - \<Union> (live_block ` set live) \<and>
      (\<forall>n a. \<exists>p h'. GlobalAlloc_alloc n (2 ^ a) h = Inr (p, h') \<and> (p = 0 \<longrightarrow> (\<forall>(i, x) \<in> B. 2 ^ i < block_size n (2 ^ a))))) \<and>
    (\<forall>(p, n, al) \<in> set live. \<exists>h'. Heap_dealloc fuel p n al h = Inr h')"
proof -
  have inv: "heap_inv (region start sz) h live" by (rule heap_reach_inv [OF assms])
  then obtain B where B: "heap_ok h B" "free B = region start sz - \<Union> (live_block ` set live)" by (auto simp: heap_inv_def)
  have ho: "handed_out live" "\<Union> (live_block ` set live) \<subseteq> region start sz" using inv by (auto simp: heap_inv_def)
  have fits: "al dvd p \<and> n \<le> block_size n al \<and> live_block (p, n, al) \<subseteq> {start..<start + sz}" if m: "(p, n, al) \<in> set live" for p n al
  proof -
    obtain a where a: "al = 2 ^ a" "block_size n al dvd p" using ho(1) m by (fastforce simp: handed_out_def)
    obtain c where "block_size n al = 2 ^ c" "n \<le> 2 ^ c" "al dvd 2 ^ c" by (rule block_size_power [OF a(1)])
    then show ?thesis using a(2) ho(2) m region_subset [of start sz] by (metis UN_subset_iff dvd_trans subset_trans)
  qed
  have al: "\<exists>p h'. GlobalAlloc_alloc n (2 ^ a) h = Inr (p, h') \<and> (p = 0 \<longrightarrow> (\<forall>(i, x) \<in> B. 2 ^ i < block_size n (2 ^ a)))" for n a
    using alloc_ok [OF B(1) refl, of n a] by (auto simp: GlobalAlloc_alloc_def split: option.splits)
  have "card (region start sz) < 2 ^ 32" "card (region start sz) < 8 * fuel"
    using card_region [of start sz] assms(3,4) by linarith+
  then have de: "\<exists>h'. Heap_dealloc fuel p n al h = Inr h'" if "(p, n, al) \<in> set live" for p n al
    using dealloc_inv [OF inv region_finite _ _ that, of fuel] by blast
  show ?thesis using ho(1) fits al de B by (auto simp: handed_out_def simp del: live_block.simps)
qed

text \<open>A heap of 64 bytes at address 64: its only block is split twice for a request of 12 bytes.\<close>

definition small_heap :: "Heap res" where
  "small_heap = Heap_init 9 64 64 (Heap_new (\<lambda>_. 0))"

definition small_alloc :: "(nat option \<times> Heap) res" where
  "small_alloc = bindR small_heap (\<lambda>h. Heap_alloc 12 8 h)"

lemma small_alloc_value:
  "case small_alloc of Inr (Some p, h) \<Rightarrow> p = 64 \<and> free_list h ! 4 = 80 \<and> free_list h ! 5 = 96 | _ \<Rightarrow> False"
  by code_simp

theorem heap_contract_witness:
  "\<exists>h h'. small_alloc = Inr (Some 64, h) \<and> free_list h ! 4 = 80 \<and> free_list h ! 5 = 96 \<and>
    live_block (64, 12, 8) \<subseteq> {64..<128} \<and> Heap_dealloc 9 64 12 8 h = Inr h'"
proof -
  obtain h where h: "small_alloc = Inr (Some 64, h)" "free_list h ! 4 = 80" "free_list h ! 5 = 96"
    using small_alloc_value by (auto split: sum.splits option.splits)
  have "\<exists>h0. small_heap = Inr h0 \<and> Heap_alloc 12 8 h0 = Inr (Some 64, h)" using h(1) unfolding small_alloc_def bindR_eq_Inr .
  then obtain h0 where h0: "small_heap = Inr h0" "Heap_alloc 12 (2 ^ 3) h0 = Inr (Some 64, h)" by auto
  have bs: "block_size 12 8 = 16" by code_simp
  have "heap_reach 9 64 64 h0 []" using h0(1) unfolding small_heap_def by (intro reach_init)
  then have "heap_reach 9 64 64 h [(64, 12, 8)]" using reach_alloc [OF _ h0(2)] by simp
  then show ?thesis using heap_contract [of 9 64 64 h "[(64, 12, 8)]"] h bs by auto
qed

end
