(* ===== verification/Boot.thy ===== *)
theory Boot
  imports Trap Reap Heap
begin

text \<open>
  The start of the kernel (os/src/main.rs) with what it uses: the table of linked programs (os/src/loader.rs),
  the check of the kernel's mappings, the listing of the root directory, and the memory that the block driver
  takes for its queues (os/src/drivers/block/virtio_blk.rs). The table that the build links into the image is
  read from memory at the addresses of its symbols. The kernel's own collections are values of the model, so the
  heap is followed only up to its initialisation here. The device itself is outside.
\<close>

section \<open>Linked programs\<close>

definition get_num_app :: "pmem \<Rightarrow> nat \<Rightarrow> usize" where
  "get_num_app m num_app = de64 (read_bytes m num_app 8)"

definition get_app_data :: "pmem \<Rightarrow> nat \<Rightarrow> nat \<Rightarrow> u8_slice res" where
  "get_app_data m num_app app_id =
     bindR (assertR (app_id < unat (get_num_app m num_app))) (\<lambda>_.
     let app_start = (\<lambda>i. de64 (read_bytes m (num_app + 8 + 8 * i) 8))
     in Inr (unat (app_start app_id),
         read_bytes m (unat (app_start app_id)) (unat (app_start (app_id + 1) - app_start app_id))))"

text \<open>The bytes before the next zero byte, with fuel for the unbounded search.\<close>

primrec zero_terminated :: "nat \<Rightarrow> pmem \<Rightarrow> nat \<Rightarrow> u8 list res" where
  "zero_terminated 0 m a = Inl OutOfFuel"
| "zero_terminated (Suc n) m a = (if m a = 0 then Inr [] else bindR (zero_terminated n m (a + 1)) (\<lambda>s. Inr (m a # s)))"

primrec app_names :: "nat \<Rightarrow> nat \<Rightarrow> pmem \<Rightarrow> nat \<Rightarrow> u8 list list res" where
  "app_names fuel 0 m start = Inr []"
| "app_names fuel (Suc k) m start =
     bindR (zero_terminated fuel m start) (\<lambda>s.
     if utf8_valid s then bindR (app_names fuel k m (start + length s + 1)) (\<lambda>v. Inr (s # v)) else Inl UnwrapNone)"

definition get_app_data_by_name :: "nat \<Rightarrow> nat \<Rightarrow> nat \<Rightarrow> u8 list \<Rightarrow> pmem \<Rightarrow> u8_slice option res" where
  "get_app_data_by_name fuel num_app names name m =
     bindR (app_names fuel (unat (get_num_app m num_app)) m names) (\<lambda>v.
     case find_index (\<lambda>s. s = name) v of
       None \<Rightarrow> Inr None
     | Some i \<Rightarrow> bindR (get_app_data m num_app i) (\<lambda>d. Inr (Some d)))"

section \<open>The kernel's mappings\<close>

definition remap_check :: "usize \<Rightarrow> usize \<Rightarrow> (PageTableEntry \<Rightarrow> bool) \<Rightarrow> MemorySet \<Rightarrow> mm \<Rightarrow> unit res" where
  "remap_check lo hi forbidden ks s =
     bindR (unwrapR (MemorySet_translate (mem s) ks (va_floor (VirtAddr_from ((lo + hi) div 2))))) (\<lambda>e.
     assertR (\<not> forbidden e))"

definition remap_test :: "linker_symbols \<Rightarrow> MemorySet \<Rightarrow> mm \<Rightarrow> unit res" where
  "remap_test L ks s =
     bindR (remap_check (stext L) (etext L) pte_writable ks s) (\<lambda>_.
     bindR (remap_check (srodata L) (erodata L) pte_writable ks s) (\<lambda>_.
     remap_check (sdata L) (edata L) pte_executable ks s))"

section \<open>Memory of the block driver\<close>

primrec dma_loop :: "nat \<Rightarrow> nat \<Rightarrow> PhysPageNum \<Rightarrow> mm \<Rightarrow> PhysPageNum list \<Rightarrow> (PhysPageNum \<times> mm \<times> PhysPageNum list) res" where
  "dma_loop 0 i ppn_base s frames = Inr (ppn_base, s, frames)"
| "dma_loop (Suc n) i ppn_base s frames =
     bindR (unwrapR (frame_alloc s)) (\<lambda>(f, s1).
     let ppn_base1 = (if i = 0 then f else ppn_base) in
     bindR (assertR (ppn0 f = ppn0 ppn_base1 + word_of_nat i)) (\<lambda>_. dma_loop n (Suc i) ppn_base1 s1 (frames @ [f])))"

definition dma_alloc :: "nat \<Rightarrow> mm \<Rightarrow> PhysPageNum list \<Rightarrow> (usize \<times> mm \<times> PhysPageNum list) res" where
  "dma_alloc pages s QUEUE_FRAMES =
     bindR (dma_loop pages 0 (PhysPageNum 0) s QUEUE_FRAMES) (\<lambda>(base, s1, frames). Inr (pa0 (pa_of_ppn base), s1, frames))"

primrec dma_dealloc_loop :: "nat \<Rightarrow> PhysPageNum \<Rightarrow> mm \<Rightarrow> mm res" where
  "dma_dealloc_loop 0 p s = Inr s"
| "dma_dealloc_loop (Suc n) p s = bindR (frame_dealloc s p) (\<lambda>s1. dma_dealloc_loop n (PhysPageNum (ppn0 p + 1)) s1)"

definition dma_dealloc :: "usize \<Rightarrow> nat \<Rightarrow> mm \<Rightarrow> mm res" where
  "dma_dealloc pa pages s = bindR (ppn_of_pa (PhysAddr_from pa)) (\<lambda>p. dma_dealloc_loop pages p s)"

definition virt_to_phys :: "usize \<Rightarrow> kernel \<Rightarrow> usize res" where
  "virt_to_phys vaddr k =
     bindR (unwrapR (PageTable_translate_va (mem (kmm k)) (PageTable_from_token (MemorySet_token (KERNEL_SPACE k))) (VirtAddr_from vaddr)))
       (\<lambda>pa. Inr (pa0 pa))"

lemma frame_alloc_next:
  assumes "recycled (falloc s) = []" and "current (falloc s) < end_ppn (falloc s)" and "unat (end_ppn (falloc s)) \<le> 2 ^ 44"
  shows "\<exists>s'. frame_alloc s = Some (PhysPageNum (current (falloc s)), s') \<and> recycled (falloc s') = [] \<and>
    current (falloc s') = current (falloc s) + 1 \<and> end_ppn (falloc s') = end_ppn (falloc s)"
proof -
  have "unat (current (falloc s)) < 2 ^ 44" using assms(2,3) by (simp add: word_less_nat_alt)
  then show ?thesis
    using assms by (auto simp: frame_alloc_def StackFrameAllocator_alloc_def PhysPageNum_from_id)
qed

text \<open>While no frame has been recycled, the driver gets one block of consecutive frames and keeps them.\<close>

lemma dma_loop_spec:
  assumes "recycled (falloc s) = []" and "unat (current (falloc s)) + n \<le> unat (end_ppn (falloc s))"
    and "unat (end_ppn (falloc s)) \<le> 2 ^ 44" and "i \<noteq> 0 \<longrightarrow> current (falloc s) = ppn0 base + word_of_nat i"
  shows "\<exists>s'. dma_loop n i base s fr =
    Inr (if i = 0 \<and> 0 < n then PhysPageNum (current (falloc s)) else base, s',
      fr @ map (\<lambda>j. PhysPageNum (current (falloc s) + word_of_nat j)) [0..<n])"
  using assms
proof (induction n arbitrary: i base s fr)
  case (Suc n)
  let ?c = "current (falloc s)"
  have lt: "?c < end_ppn (falloc s)" using Suc.prems(2) by (simp add: word_less_nat_alt)
  obtain s1 where s1: "frame_alloc s = Some (PhysPageNum ?c, s1)" "recycled (falloc s1) = []" "current (falloc s1) = ?c + 1"
    "end_ppn (falloc s1) = end_ppn (falloc s)" using frame_alloc_next [OF Suc.prems(1) lt Suc.prems(3)] by blast
  let ?b = "if i = 0 then PhysPageNum ?c else base"
  have c: "?c = ppn0 ?b + word_of_nat i" using Suc.prems(4) by auto
  have u: "unat (?c + 1) = Suc (unat ?c)" using Suc.prems(2,3) by (simp add: unat_word_ariths)
  have "\<exists>s'. dma_loop n (Suc i) ?b s1 (fr @ [PhysPageNum ?c]) =
      Inr (?b, s', (fr @ [PhysPageNum ?c]) @ map (\<lambda>j. PhysPageNum (?c + 1 + word_of_nat j)) [0..<n])"
    using Suc.IH [of s1 "Suc i" ?b "fr @ [PhysPageNum ?c]"] s1 Suc.prems(2,3) u c by (simp add: add.assoc add.commute)
  moreover have "map (\<lambda>j. PhysPageNum (?c + word_of_nat j)) [0..<Suc n] =
      PhysPageNum ?c # map (\<lambda>j. PhysPageNum (?c + 1 + word_of_nat j)) [0..<n]"
    by (simp add: upt_conv_Cons map_Suc_upt [symmetric] add.assoc del: upt_Suc)
  ultimately show ?case using s1(1) c by (auto simp: Let_def assertR_def)
qed simp

section \<open>Starting up\<close>

definition list_apps :: "nat \<Rightarrow> 'd os \<Rightarrow> 'd os res" where
  "list_apps fuel os =
     bindR (fs_get (VFile_ls fuel get_root_vfile) os) (\<lambda>(r, os1).
     Inr (case r of
         Some value \<Rightarrow> os1\<lparr>console := console os1 @ concat (map (\<lambda>i. fst i @ [10]) value)\<rparr>
       | None \<Rightarrow> os1))"

definition clear_bss :: "nat \<Rightarrow> nat \<Rightarrow> pmem \<Rightarrow> pmem" where
  "clear_bss lo hi m = write_bytes m lo (replicate (hi - lo) 0)"

text \<open>The kernel before the first process: empty allocators and tables.\<close>

definition fresh_kernel :: "MemorySet \<Rightarrow> mm \<Rightarrow> kernel" where
  "fresh_kernel ks s =
     \<lparr>kmm = s, KERNEL_SPACE = ks, PID_ALLOCATOR = RecycleAllocator_new, KSTACK_ALLOCATOR = RecycleAllocator_new, tasks = [],
      ready_queue = [], processor_current = None, idle_task_cx = TaskContext_zero_init, cpu = TaskContext_zero_init, INITPROC = 0\<rparr>"

definition mm_init :: "nat \<Rightarrow> nat \<Rightarrow> linker_symbols \<Rightarrow> pmem \<Rightarrow> (Heap \<times> MemorySet \<times> mm) res" where
  "mm_init fuel HEAP_SPACE L m =
     bindR (init_heap fuel HEAP_SPACE (Heap_new (\<lambda>a. unat (de64 (read_bytes m a 8))))) (\<lambda>h.
     bindR (MemorySet_new_kernel L (init_frame_allocator (ekernel L) \<lparr>mem = m, falloc = StackFrameAllocator_new\<rparr>)) (\<lambda>(ks, s).
     Inr (h, ks, s)))"

definition println :: "string \<Rightarrow> u8 list" where
  "println s = map of_char s @ [10]"

definition shell_name :: "u8 list" where
  "shell_name = map of_char ''ch6b_user_shell''"

text \<open>
  \<open>rust_main\<close> up to the loop of \<open>run_tasks\<close>; \<open>num_app\<close> and \<open>names\<close> are the addresses of the linked table,
  \<open>HEAP_SPACE\<close> that of the memory of the heap.
\<close>

definition rust_main :: "environment \<Rightarrow> nat \<Rightarrow> nat \<Rightarrow> nat \<Rightarrow> nat \<Rightarrow> pmem \<Rightarrow> 'd fs_state \<Rightarrow> (Heap \<times> 'd os) res" where
  "rust_main E HEAP_SPACE sbss num_app names m0 disk =
     (let L = symbols (e_platform E); fuel = e_fuel E in
      bindR (mm_init fuel HEAP_SPACE L (clear_bss sbss (unat (ebss L)) m0)) (\<lambda>(h, ks, s).
      bindR (remap_test L ks s) (\<lambda>_.
      bindR (FAT32Manager_open disk) (\<lambda>(fm, disk1).
      let os = \<lparr>kern = fresh_kernel ks s, fatm = fm, fs = disk1, inodes = [], pipes = [], held = [],
                console = println ''[kernel] Hello, world!'' @ println ''remap_test passed!'',
                next_timer = next_trigger (e_ms E)\<rparr>
      in
      bindR (list_apps fuel os) (\<lambda>os1.
      bindR (get_app_data_by_name fuel num_app names shell_name (user_mem os1)) (\<lambda>r.
      bindR (unwrapR r) (\<lambda>elf_data.
      bindR (create_initproc (e_zread E) (e_platform E) (e_now E) elf_data (kern os1)) (\<lambda>k.
      Inr (h, os1\<lparr>kern := add_initproc k\<rparr>)))))))))"

lemma list_apps_kern: "list_apps fuel os = Inr os1 \<Longrightarrow> kern os1 = kern os"
  by (auto simp: list_apps_def fs_get_def bindR_eq_Inr split: option.splits)

text \<open>
  Whatever is linked and on the disk, a kernel that starts is consistent, has a heap whose region is all free and
  one process, ready to run.
\<close>

lemma rust_main_consistent:
  assumes "rust_main E HEAP_SPACE sbss num_app names m0 disk = Inr (h, os)"
  shows "heap_reach (e_fuel E) HEAP_SPACE KERNEL_HEAP_SIZE h [] \<and> proc_inv (kern os) \<and> ready_queue (kern os) = [INITPROC (kern os)] \<and> processor_current (kern os) = None"
proof -
  obtain ks s k elf where r: "create_initproc (e_zread E) (e_platform E) (e_now E) elf (fresh_kernel ks s) = Inr k" "kern os = add_initproc k"
    using assms by (auto simp: rust_main_def Let_def bindR_eq_Inr dest!: list_apps_kern)
  have "proc_inv (add_initproc k)" by (rule boot_inv [OF r(1)]) (simp_all add: fresh_kernel_def)
  moreover have "ready_queue k = []" "processor_current k = None"
    using r(1) by (auto simp: create_initproc_def TaskControlBlock_new_def bindR_eq_Inr Let_def put_task_def pid_alloc_def
        fresh_kernel_def RecycleAllocator_alloc_def RecycleAllocator_new_def dest!: new_kstack_fields)
  moreover have "heap_reach (e_fuel E) HEAP_SPACE KERNEL_HEAP_SIZE h []"
    using assms by (auto simp: rust_main_def mm_init_def init_heap_def Let_def bindR_eq_Inr intro: reach_init)
  ultimately show ?thesis using r(2) by (simp add: add_initproc_def add_task_def)
qed

text \<open>
  Blocks of the kernel heap are aligned to 8, so a program that is read into a vector is never misaligned: the
  parser opens every file with a valid header. The offset of its table is still its own.
\<close>

lemma heap_program_opens:
  assumes "heap_reach fuel start sz h live" "0 < start" "sz < 2 ^ 32" "sz < 8 * fuel" and "(p, n, al) \<in> set live"
    and "zero_laws zread" "elf_accepted b"
  shows "ElfFile_new zread (p, b) = Inr (Inr \<lparr>input = (p, b), header = elf_header b\<rparr>)"
proof -
  have "handed_out live" using heap_reach_inv [OF assms(1-4)] by (simp add: heap_inv_def)
  then obtain a where a: "al = 2 ^ a" "block_size n al dvd p" using assms(5) by (fastforce simp: handed_out_def)
  obtain c where c: "block_size n al = 2 ^ c" "3 \<le> c" by (rule block_size_power [OF a(1)])
  have "(2 :: nat) ^ 3 dvd p" using le_imp_power_dvd [OF c(2), of "2 :: nat"] a(2) c(1) dvd_trans by metis
  then have "8 dvd p" by simp
  moreover have "class_align (b ! 4) dvd 8" by (simp add: class_align_def)
  ultimately have "class_align (b ! 4) dvd p" using dvd_trans by blast
  then show ?thesis using parse_header_spec [OF assms(6), of b p] assms(7) by (simp add: ElfFile_new_def)
qed

end
