(* ===== verification/Spec2Isabelle.thy ===== *)
theory Spec2Isabelle
  imports Prelude Pipe Vfs_Create Reap File_Calls Trap_Trip Boot Heap
begin

text \<open>
  A verification library of bitos, a small operating system kernel in Rust for one RISC-V hart with Sv39 paging,
  and of the FAT32 file system it mounts. Paths are relative to src/.

  \<^bold>\<open>The program.\<close> A process enters the kernel through the assembly of os/src/trap/trap.S, which saves its registers
  in the trap context, a page of its own address space. The handler (os/src/trap/mod.rs) dispatches a system call
  (os/src/syscall/mod.rs) to a process call (syscall/process.rs) or a file call (syscall/fs.rs). Process calls work
  on the task control blocks (os/src/task), which own an address space (os/src/mm): areas of pages over a page
  table, in frames of the frame allocator. File calls work on the table of descriptors, which refers to open
  inodes, pipes and the console (os/src/fs). An inode is a \<open>VFile\<close> of the fat32 crate: directory entries and
  clusters of a disk, read and written through two block caches over a block device. A program is loaded from an
  ELF file (dependencies/xmas-elf-0.9.1). The collections of the kernel live on a heap with a buddy allocator
  (dependencies/buddy_system_allocator-0.6.0).

  \<^bold>\<open>How code becomes definitions.\<close> A Rust function is a HOL function of the same name, a method one with the name
  of its type first (\<open>PageTable_map\<close>, \<open>VFile_create\<close>). A struct is a record, an enum a datatype, \<open>usize\<close> a 64-bit
  word; counters that provably stay small (offsets in a sector, positions in a ring) are natural numbers. A panic
  is a value of the type \<open>fault\<close>, and \<open>'a res\<close> is \<open>fault + 'a\<close>; every \<open>unwrap\<close>, assertion, index and slice is a
  branch of its own. Physical memory is a function from addresses to bytes, a page table is what lies in it, and
  a trap context is a sequence of words in a page. State is passed explicitly: \<open>mm\<close> (memory and frame
  allocator), \<open>kernel\<close> (tasks, queues, allocators), \<open>'d fs_state\<close> (the caches and the device), \<open>'d os\<close> (all of it
  with open files, pipes and the console). A call that has to wait answers \<open>Blocked\<close> with what it waits for, and
  is resumed by another definition. Dropping an owner (a frame, a kernel stack, a task, a cache) is an operation
  that stands where Rust runs it.

  \<^bold>\<open>The theories.\<close>
  \<^item> \<open>Prelude\<close>: machine types, \<open>fault\<close> and its sequencing, byte encodings, slices.
  \<^item> \<open>Id_Pool\<close>, \<open>Fifo\<close>, \<open>Block_Store\<close>: the three contracts (locales) that components promise each other: handing out
    and taking back identifiers, a bounded queue, a store of blocks. They are interpreted on the frame allocator
    and the PID allocator, on the ring buffer, and on the block caches.
  \<^item> \<open>Address\<close>, \<open>Frame_Allocator\<close>, \<open>Page_Table\<close>, \<open>Memory_Set\<close> (os/src/mm/address.rs, frame_allocator.rs, page_table.rs,
    memory_set.rs), with \<open>Address_Space\<close> and \<open>Area_Resize\<close> for the contracts of whole address spaces, \<open>User_Buffer\<close>
    for the translation of user pointers, and \<open>User_Memory\<close> for what a process reads after a copy.
  \<^item> \<open>Heap\<close> (the buddy allocator and os/src/mm/heap_allocator.rs).
  \<^item> \<open>Block_Cache\<close> (fat32/src/block_cache.rs), \<open>Fat_Layout\<close> and \<open>Fat_Table\<close> (layout.rs), \<open>Fat_Manager\<close> and \<open>Fat_Alloc\<close>
    (fat.rs), \<open>Fat_File\<close> (the bytes of a file, layout.rs), \<open>Vfs\<close>, \<open>Vfs_Lookup\<close> and \<open>Vfs_Create\<close> (vfs.rs).
  \<^item> \<open>Elf\<close> (the parser), \<open>Elf_Load\<close> (\<open>MemorySet::from_elf\<close>).
  \<^item> \<open>Task_Id\<close>, \<open>Process\<close>, \<open>Scheduler\<close> (os/src/task), \<open>Syscall_Process\<close> (syscall/process.rs, timer.rs), with \<open>Stride\<close>,
    \<open>Fork\<close>, \<open>Process_Inv\<close>, \<open>Waitpid\<close> and \<open>Reap\<close> for what they guarantee.
  \<^item> \<open>Pipe\<close>, \<open>Fs_Inode\<close> (os/src/fs), \<open>Syscall_Fs\<close> (syscall/fs.rs), with \<open>Descriptors\<close> and \<open>File_Calls\<close>.
  \<^item> \<open>Trap\<close> (syscall/mod.rs, trap/mod.rs), \<open>Trap_Trip\<close> (trap.S), \<open>Boot\<close> (main.rs, loader.rs, the memory of the driver).

  \<^bold>\<open>What is shown.\<close>
  \<^item> Memory: no frame, PID or kernel stack is handed out twice; \<open>map\<close> and \<open>unmap\<close> refine the update of a partial map
    from pages to entries, with no other page affected; \<open>fork\<close> copies an address space into frames of its own;
    dropping one gives back exactly its frames; growing, shrinking and removing areas; a user buffer is covered by
    its slices in order; in every state of the heap the blocks handed out are disjoint, nothing leaks, and no
    request or release panics.
  \<^item> Processes: an invariant of the task tables (the tree of parents and children, the queue, the identifiers) in
    every state reachable by scheduling, \<open>fork\<close>, \<open>spawn\<close>, \<open>exec\<close>, exit, \<open>waitpid\<close> and the other calls; the child of a
    \<open>fork\<close> has the memory and registers of its parent except the result; \<open>waitpid\<close> delivers the exit code and
    releases the child; the stride scheduler gives a fixed set of ready processes their shares by priority, up to a
    bound that depends on the distance of their strides, and no process starves while no priority is above 2550;
    one above 2550, which the kernel accepts, can keep the others from running.
  \<^item> Files: the two caches are invisible (a read gives what was last written, whatever is evicted) as long as each
    block is used through one of them between two write-backs; the caches are not coherent otherwise, and the
    theorems on the file system assume for each call which blocks belong to which cache; chains of the
    allocation table are walked completely; allocation builds a chain of zeroed clusters, release frees one;
    writing then reading a file gives the bytes written; a lookup is a search in the list of entries; a created
    file is found; entries and long names survive their encoding.
  \<^item> Calls: descriptors behave as a partial map, calls on closed ones fail without an effect; a pipe delivers the
    bytes in order under every interleaving and its two ends are connected; \<open>sys_read\<close> puts the bytes of the file
    into the buffer of the process; a system call returns to the instruction after the \<open>ecall\<close> with the result
    and all other registers unchanged. The outcomes of the ELF parser: which files it opens, and that on checked
    headers it reads the program headers from inside the file, or panics when the table is not aligned. A file in
    a vector of the kernel heap is aligned.

  \<^bold>\<open>Bounds and fuel.\<close> Loops that follow a chain, a directory, a user string or a free list carry fuel, and running out
  is the fault \<open>OutOfFuel\<close>, different from every result of the code. The theorems that a loop returns state how much
  is enough: the length of the chain plus one, the number of directory entries, the number of blocks that fit the
  heap region, the length of the string; fuel is an argument, so any larger amount does. The region of the heap is
  below 4 GiB, as the 32 classes require; the code reserves 32 MiB. File sizes fit 32 bits, as on disk.

  \<^bold>\<open>Parameters.\<close> The block device is a pair of operations with the hypotheses that a read gives the last write and that
  blocks have 512 bytes. \<open>zero::read\<close>, which the ELF parser calls, is a parameter with the hypothesis that it gives
  the first bytes of a slice that is long enough and aligned, and panics on every other slice. The address of the
  vector with a program's bytes is an argument. The clock, the keyboard, the symbols of the linker and the numbers of open references to a
  pipe are arguments. Each hypothesis is met by the concrete instance in the witness of its property.

  \<^bold>\<open>Not modelled.\<close>
  \<^item> Device registers, firmware calls and control registers (dependencies/virtio-drivers, os/src/sbi.rs, stvec, sie,
    the fence of \<open>activate\<close>): they have no state in Rust terms; what the kernel relies on is a parameter.
  \<^item> Locks and \<open>UPSafeCell\<close> (os/src/sync, spin): there is one hart and no preemption in the kernel. A second borrow
    panics; where a call can reach it, the definition has the branch.
  \<^item> The kernel's use of its heap: the collections are values, so running out of kernel heap is not a branch.
  \<^item> The text of log and panic messages (logging.rs, lang_items.rs), and the messages printed when a process is killed.
  \<^item> Section headers, symbols and relocations of xmas-elf, which the loader does not use; fat32/src/bitmap.rs, which no
    module declares; the frame allocator and the rescue heap of the buddy crate, which the kernel does not use.
  \<^item> The user library and programs, the image tool, the build script and the files it generates, and the vendored
    crates of macros and host tools: they are not part of the running kernel.
\<close>

end
